(* ===== verification/Prelude.thy ===== *)
theory Prelude
  imports Main "HOL-Library.Word"
begin

text \<open>
  Shared vocabulary of the development: the result type of code that may panic or
  fail to return, the loop combinator that the recursive-descent rules are written
  with, the total-correctness judgement \<open>returns\<close> used for every statement of the
  form "this rule returns and its result is ...", Unicode text as lists of scalar
  values, and the list lemmas several components use.
\<close>

named_theorems returns_intros \<open>introduction rules of the total-correctness judgement\<close>
named_theorems adv_intros \<open>operations that only move the parser forward\<close>
named_theorems grow_intros \<open>operations that only append a well-formed event segment\<close>
named_theorems frame_simps \<open>fields an operation leaves unchanged\<close>


section \<open>Outcomes\<close>

text \<open>
  A Rust computation of the model ends in one of three ways: it returns a value, it
  panics, or the recursion of the model ran out of fuel, which stands for a
  computation that does not return.
\<close>

datatype fault = Panic | OutOfFuel

type_synonym 'a outcome = "fault + 'a"

definition and_then :: "'a outcome \<Rightarrow> ('a \<Rightarrow> 'b outcome) \<Rightarrow> 'b outcome" where
  "and_then m f = (case m of Inl e \<Rightarrow> Inl e | Inr x \<Rightarrow> f x)"

lemma and_then_Inl [simp]: "and_then (Inl e) f = Inl e"
  by (simp add: and_then_def)

lemma and_then_Inr [simp]: "and_then (Inr x) f = f x"
  by (simp add: and_then_def)

text \<open>
  The Rust \<open>loop\<close>: the body continues with a new state (\<open>Inl\<close>) or breaks with a
  result (\<open>Inr\<close>). A \<open>while\<close> is the loop that breaks when its condition fails.
\<close>

fun loop :: "nat \<Rightarrow> ('s \<Rightarrow> ('s + 'r) outcome) \<Rightarrow> 's \<Rightarrow> 'r outcome" where
  "loop 0 body s = Inl OutOfFuel"
| "loop (Suc n) body s =
     and_then (body s) (\<lambda>r. case r of Inl s' \<Rightarrow> loop n body s' | Inr v \<Rightarrow> Inr v)"

definition while_do :: "nat \<Rightarrow> ('s \<Rightarrow> bool) \<Rightarrow> ('s \<Rightarrow> 's outcome) \<Rightarrow> 's \<Rightarrow> 's outcome" where
  "while_do n c b =
     loop n (\<lambda>s. if c s then and_then (b s) (\<lambda>s'. Inr (Inl s')) else Inr (Inr s))"


section \<open>Total correctness\<close>

text \<open>
  \<open>returns pn m Q\<close>: the computation \<open>m\<close> returns a value satisfying \<open>Q\<close>; a panic is
  accepted only when \<open>pn\<close> holds, running out of fuel never is.
\<close>

definition returns :: "bool \<Rightarrow> 'a outcome \<Rightarrow> ('a \<Rightarrow> bool) \<Rightarrow> bool" where
  "returns pn m Q =
     (case m of Inl Panic \<Rightarrow> pn | Inl OutOfFuel \<Rightarrow> False | Inr x \<Rightarrow> Q x)"

lemma returns_Inr [simp]: "returns pn (Inr x) Q = Q x"
  by (simp add: returns_def)

lemma returns_Panic [simp]: "returns pn (Inl Panic) Q = pn"
  by (simp add: returns_def)

lemma returns_OutOfFuel [simp]: "\<not> returns pn (Inl OutOfFuel) Q"
  by (simp add: returns_def)

lemma returns_and_then:
  "returns pn (and_then m f) Q = returns pn m (\<lambda>x. returns pn (f x) Q)"
  by (auto simp: returns_def and_then_def split: sum.splits fault.splits)

lemma returns_mono:
  assumes "returns pn m P" and "\<And>x. P x \<Longrightarrow> Q x"
  shows "returns pn m Q"
  using assms by (auto simp: returns_def split: sum.splits fault.splits)

lemma returns_bind:
  assumes "returns pn m P" and "\<And>x. P x \<Longrightarrow> returns pn (f x) Q"
  shows "returns pn (and_then m f) Q"
  unfolding returns_and_then using assms by (rule returns_mono)

lemma returns_total:
  assumes "returns False m Q"
  shows "\<exists>x. m = Inr x \<and> Q x"
  using assms by (auto simp: returns_def split: sum.splits fault.splits)

lemma returns_no_panic: "returns False m Q \<Longrightarrow> returns pn m Q"
  by (auto simp: returns_def split: sum.splits fault.splits)

lemma returnsE:
  assumes "returns pn m Q"
  obtains (value_result) x where "m = Inr x" "Q x" | (panic) "m = Inl Panic" pn
  using assms by (auto simp: returns_def split: sum.splits fault.splits)

text \<open>
  The rule for loops: an invariant, a measure that every continuing pass decreases,
  and at least one unit of fuel more than the measure.
\<close>

lemma returns_loop:
  assumes init: "I s" and fuel: "\<mu> s < n"
    and step: "\<And>s. I s \<Longrightarrow> returns pn (body s)
      (\<lambda>r. case r of Inl s' \<Rightarrow> I s' \<and> \<mu> s' < (\<mu> s :: nat) | Inr v \<Rightarrow> Q v)"
  shows "returns pn (loop n body s) Q"
  using init fuel
proof (induction n arbitrary: s)
  case 0
  then show ?case by simp
next
  case (Suc n)
  have "returns pn (and_then (body s)
      (\<lambda>r. case r of Inl s' \<Rightarrow> loop n body s' | Inr v \<Rightarrow> Inr v)) Q"
    by (rule returns_bind [OF step [OF Suc.prems(1)]])
      (use Suc in \<open>auto split: sum.splits\<close>)
  then show ?case by simp
qed

lemma returns_while:
  assumes init: "I s" and fuel: "\<mu> s < n"
    and step: "\<And>s. I s \<Longrightarrow> c s \<Longrightarrow>
      returns pn (b s) (\<lambda>s'. I s' \<and> \<mu> s' < (\<mu> s :: nat))"
    and final: "\<And>s. I s \<Longrightarrow> \<not> c s \<Longrightarrow> Q s"
  shows "returns pn (while_do n c b s) Q"
  unfolding while_do_def
proof (rule returns_loop [where I = I and \<mu> = \<mu>])
  fix s
  assume I: "I s"
  show "returns pn (if c s then and_then (b s) (\<lambda>s'. Inr (Inl s')) else Inr (Inr s))
      (\<lambda>r. case r of Inl s' \<Rightarrow> I s' \<and> \<mu> s' < \<mu> s | Inr v \<Rightarrow> Q v)"
    using I step [OF I] final [OF I] by (auto simp: returns_and_then)
qed (use init fuel in auto)


section \<open>Text\<close>

text \<open>
  A Rust \<open>char\<close> is a Unicode scalar value, a \<open>&str\<close> a sequence of them; lengths of
  strings are counted in UTF-8 bytes, positions of the editor protocol in UTF-16 code
  units.
\<close>

type_synonym uchar = nat
type_synonym ustring = "uchar list"

definition len_utf8 :: "uchar \<Rightarrow> nat" where
  "len_utf8 c = (if c < 0x80 then 1 else if c < 0x800 then 2 else if c < 0x10000 then 3 else 4)"

definition len_utf16 :: "uchar \<Rightarrow> nat" where
  "len_utf16 c = (if c < 0x10000 then 1 else 2)"

definition str_len :: "ustring \<Rightarrow> nat" where
  "str_len s = sum_list (map len_utf8 s)"

definition ascii :: "string \<Rightarrow> ustring" where
  "ascii s = map of_char s"

lemma len_utf8_pos [simp]: "0 < len_utf8 c"
  by (simp add: len_utf8_def)

lemma len_utf16_pos [simp]: "0 < len_utf16 c"
  by (simp add: len_utf16_def)

lemma str_len_Nil [simp]: "str_len [] = 0"
  by (simp add: str_len_def)

lemma str_len_Cons [simp]: "str_len (c # s) = len_utf8 c + str_len s"
  by (simp add: str_len_def)

lemma str_len_append [simp]: "str_len (s @ t) = str_len s + str_len t"
  by (simp add: str_len_def)


type_synonym text_range = "nat \<times> nat"

text \<open>\<open>TextRange::new\<close> panics on a range that ends before it starts.\<close>

definition text_range_new :: "nat \<Rightarrow> nat \<Rightarrow> text_range outcome" where
  "text_range_new a b = (if a \<le> b then Inr (a, b) else Inl Panic)"


section \<open>Lists\<close>

text \<open>\<open>slice::get\<close>: the element at an index, nothing out of range.\<close>

definition get :: "'a list \<Rightarrow> nat \<Rightarrow> 'a option" where
  "get xs i = (if i < length xs then Some (xs ! i) else None)"

lemma get_Some [simp]: "i < length xs \<Longrightarrow> get xs i = Some (xs ! i)"
  by (simp add: get_def)

lemma get_None [simp]: "length xs \<le> i \<Longrightarrow> get xs i = None"
  by (simp add: get_def)

lemma get_eq_None: "get xs i = None \<longleftrightarrow> length xs \<le> i"
  by (simp add: get_def)

lemma get_eq_Some: "get xs i = Some x \<longleftrightarrow> i < length xs \<and> xs ! i = x"
  by (auto simp: get_def)

lemma get_append: "get (xs @ ys) i = (if i < length xs then get xs i else get ys (i - length xs))"
  by (auto simp: get_def nth_append)

text \<open>\<open>Vec::pop\<close> as the two values it yields.\<close>

definition pop :: "'a list \<Rightarrow> 'a option \<times> 'a list" where
  "pop xs = (if xs = [] then (None, []) else (Some (last xs), butlast xs))"

definition last_opt :: "'a list \<Rightarrow> 'a option" where
  "last_opt xs = (if xs = [] then None else Some (last xs))"

lemma take_Suc_drop_snoc:
  assumes "n < length xs" and "m \<le> n"
  shows "take (Suc n - m) (drop m xs) = take (n - m) (drop m xs) @ [xs ! n]"
proof -
  have "Suc n - m = Suc (n - m)"
    using assms by simp
  then show ?thesis
    using assms by (simp add: take_Suc_conv_app_nth)
qed

lemma take_drop_join:
  assumes "a \<le> b" and "b \<le> c"
  shows "take (b - a) (drop a xs) @ take (c - b) (drop b xs) = take (c - a) (drop a xs)"
proof -
  have "take (c - b) (drop b xs) = take (c - b) (drop (b - a) (drop a xs))"
    using assms by simp
  then have "take (b - a) (drop a xs) @ take (c - b) (drop b xs)
      = take ((b - a) + (c - b)) (drop a xs)"
    by (simp only: take_add)
  then show ?thesis
    using assms by simp
qed

end
