(* ===== verification/Tokens.thy ===== *)
theory Tokens
  imports Prelude
begin

text \<open>
  The vocabularies of the syntax layer: the kinds of lexemes (\<open>lexer::TokenKind\<close>),
  the kinds of tree elements (\<open>syntax::SyntaxKind\<close>), the kinds of nodes the grammar
  names (\<open>parser::event::NodeKind\<close>), the two conversion tables of
  \<open>parser/src/syntax_kind.rs\<close>, and lexemes themselves.

  The three enumerations are field-less Rust enums of about a hundred to two hundred
  variants. A value is represented by its discriminant, the number the Rust compiler
  assigns to the variant and the code itself observes (\<open>kind as u8\<close> in
  \<open>TokenSet\<close>, \<open>kind as u16\<close> in \<open>SyntaxKind\<close>); every variant has a name here, in the
  order of its declaration: \<open>T_X\<close> is \<open>TokenKind::X\<close> (the source's \<open>T![X]\<close>), \<open>SK_X\<close>
  is \<open>SyntaxKind::X\<close> and \<open>NK_X\<close> is \<open>NodeKind::X\<close>.
\<close>


section \<open>Kinds of lexemes\<close>

datatype token_kind = TokenKind (token_discr: nat)

abbreviation T_KwProcedure where "T_KwProcedure \<equiv> TokenKind 0"
abbreviation T_KwEndProcedure where "T_KwEndProcedure \<equiv> TokenKind 1"
abbreviation T_KwFunction where "T_KwFunction \<equiv> TokenKind 2"
abbreviation T_KwEndFunction where "T_KwEndFunction \<equiv> TokenKind 3"
abbreviation T_KwExport where "T_KwExport \<equiv> TokenKind 4"
abbreviation T_KwVal where "T_KwVal \<equiv> TokenKind 5"
abbreviation T_KwIf where "T_KwIf \<equiv> TokenKind 6"
abbreviation T_KwThen where "T_KwThen \<equiv> TokenKind 7"
abbreviation T_KwElsIf where "T_KwElsIf \<equiv> TokenKind 8"
abbreviation T_KwElse where "T_KwElse \<equiv> TokenKind 9"
abbreviation T_KwEndIf where "T_KwEndIf \<equiv> TokenKind 10"
abbreviation T_KwFor where "T_KwFor \<equiv> TokenKind 11"
abbreviation T_KwEach where "T_KwEach \<equiv> TokenKind 12"
abbreviation T_KwIn where "T_KwIn \<equiv> TokenKind 13"
abbreviation T_KwTo where "T_KwTo \<equiv> TokenKind 14"
abbreviation T_KwWhile where "T_KwWhile \<equiv> TokenKind 15"
abbreviation T_KwDo where "T_KwDo \<equiv> TokenKind 16"
abbreviation T_KwEndDo where "T_KwEndDo \<equiv> TokenKind 17"
abbreviation T_KwReturn where "T_KwReturn \<equiv> TokenKind 18"
abbreviation T_KwContinue where "T_KwContinue \<equiv> TokenKind 19"
abbreviation T_KwBreak where "T_KwBreak \<equiv> TokenKind 20"
abbreviation T_KwGoto where "T_KwGoto \<equiv> TokenKind 21"
abbreviation T_KwTry where "T_KwTry \<equiv> TokenKind 22"
abbreviation T_KwExcept where "T_KwExcept \<equiv> TokenKind 23"
abbreviation T_KwEndTry where "T_KwEndTry \<equiv> TokenKind 24"
abbreviation T_KwRaise where "T_KwRaise \<equiv> TokenKind 25"
abbreviation T_KwVar where "T_KwVar \<equiv> TokenKind 26"
abbreviation T_KwNew where "T_KwNew \<equiv> TokenKind 27"
abbreviation T_KwExecute where "T_KwExecute \<equiv> TokenKind 28"
abbreviation T_KwAddHandler where "T_KwAddHandler \<equiv> TokenKind 29"
abbreviation T_KwRemoveHandler where "T_KwRemoveHandler \<equiv> TokenKind 30"
abbreviation T_KwAsync where "T_KwAsync \<equiv> TokenKind 31"
abbreviation T_KwAwait where "T_KwAwait \<equiv> TokenKind 32"
abbreviation T_KwAnd where "T_KwAnd \<equiv> TokenKind 33"
abbreviation T_KwOr where "T_KwOr \<equiv> TokenKind 34"
abbreviation T_KwNot where "T_KwNot \<equiv> TokenKind 35"
abbreviation T_KwTrue where "T_KwTrue \<equiv> TokenKind 36"
abbreviation T_KwFalse where "T_KwFalse \<equiv> TokenKind 37"
abbreviation T_KwUndefined where "T_KwUndefined \<equiv> TokenKind 38"
abbreviation T_KwNull where "T_KwNull \<equiv> TokenKind 39"
abbreviation T_PreIf where "T_PreIf \<equiv> TokenKind 40"
abbreviation T_PreElsIf where "T_PreElsIf \<equiv> TokenKind 41"
abbreviation T_PreElse where "T_PreElse \<equiv> TokenKind 42"
abbreviation T_PreEndIf where "T_PreEndIf \<equiv> TokenKind 43"
abbreviation T_PreRegion where "T_PreRegion \<equiv> TokenKind 44"
abbreviation T_PreEndRegion where "T_PreEndRegion \<equiv> TokenKind 45"
abbreviation T_PreInsert where "T_PreInsert \<equiv> TokenKind 46"
abbreviation T_PreEndInsert where "T_PreEndInsert \<equiv> TokenKind 47"
abbreviation T_PreDelete where "T_PreDelete \<equiv> TokenKind 48"
abbreviation T_PreEndDelete where "T_PreEndDelete \<equiv> TokenKind 49"
abbreviation T_AnnAtClient where "T_AnnAtClient \<equiv> TokenKind 50"
abbreviation T_AnnAtServer where "T_AnnAtServer \<equiv> TokenKind 51"
abbreviation T_AnnAtServerNoContext where "T_AnnAtServerNoContext \<equiv> TokenKind 52"
abbreviation T_AnnAtClientAtServerNoContext where "T_AnnAtClientAtServerNoContext \<equiv> TokenKind 53"
abbreviation T_AnnAtClientAtServer where "T_AnnAtClientAtServer \<equiv> TokenKind 54"
abbreviation T_AnnBefore where "T_AnnBefore \<equiv> TokenKind 55"
abbreviation T_AnnAfter where "T_AnnAfter \<equiv> TokenKind 56"
abbreviation T_AnnAround where "T_AnnAround \<equiv> TokenKind 57"
abbreviation T_AnnChangeAndValidate where "T_AnnChangeAndValidate \<equiv> TokenKind 58"
abbreviation T_AnnCustom where "T_AnnCustom \<equiv> TokenKind 59"
abbreviation T_Eq where "T_Eq \<equiv> TokenKind 60"
abbreviation T_Neq where "T_Neq \<equiv> TokenKind 61"
abbreviation T_Le where "T_Le \<equiv> TokenKind 62"
abbreviation T_Lt where "T_Lt \<equiv> TokenKind 63"
abbreviation T_Ge where "T_Ge \<equiv> TokenKind 64"
abbreviation T_Gt where "T_Gt \<equiv> TokenKind 65"
abbreviation T_Plus where "T_Plus \<equiv> TokenKind 66"
abbreviation T_Minus where "T_Minus \<equiv> TokenKind 67"
abbreviation T_Star where "T_Star \<equiv> TokenKind 68"
abbreviation T_Slash where "T_Slash \<equiv> TokenKind 69"
abbreviation T_Percent where "T_Percent \<equiv> TokenKind 70"
abbreviation T_LParen where "T_LParen \<equiv> TokenKind 71"
abbreviation T_RParen where "T_RParen \<equiv> TokenKind 72"
abbreviation T_LBrace where "T_LBrace \<equiv> TokenKind 73"
abbreviation T_RBrace where "T_RBrace \<equiv> TokenKind 74"
abbreviation T_LBracket where "T_LBracket \<equiv> TokenKind 75"
abbreviation T_RBracket where "T_RBracket \<equiv> TokenKind 76"
abbreviation T_Dot where "T_Dot \<equiv> TokenKind 77"
abbreviation T_Comma where "T_Comma \<equiv> TokenKind 78"
abbreviation T_Semicolon where "T_Semicolon \<equiv> TokenKind 79"
abbreviation T_Colon where "T_Colon \<equiv> TokenKind 80"
abbreviation T_Question where "T_Question \<equiv> TokenKind 81"
abbreviation T_Tilde where "T_Tilde \<equiv> TokenKind 82"
abbreviation T_Bar where "T_Bar \<equiv> TokenKind 83"
abbreviation T_Hash where "T_Hash \<equiv> TokenKind 84"
abbreviation T_Ampersand where "T_Ampersand \<equiv> TokenKind 85"
abbreviation T_Float where "T_Float \<equiv> TokenKind 86"
abbreviation T_Decimal where "T_Decimal \<equiv> TokenKind 87"
abbreviation T_String where "T_String \<equiv> TokenKind 88"
abbreviation T_StringStart where "T_StringStart \<equiv> TokenKind 89"
abbreviation T_StringTail where "T_StringTail \<equiv> TokenKind 90"
abbreviation T_StringPart where "T_StringPart \<equiv> TokenKind 91"
abbreviation T_Date where "T_Date \<equiv> TokenKind 92"
abbreviation T_Ident where "T_Ident \<equiv> TokenKind 93"
abbreviation T_Comment where "T_Comment \<equiv> TokenKind 94"
abbreviation T_Newline where "T_Newline \<equiv> TokenKind 95"
abbreviation T_Whitespace where "T_Whitespace \<equiv> TokenKind 96"
abbreviation T_Bom where "T_Bom \<equiv> TokenKind 97"
abbreviation T_Error where "T_Error \<equiv> TokenKind 98"

definition token_kind_ALL :: "token_kind list" where
  "token_kind_ALL =
  [T_KwProcedure, T_KwEndProcedure, T_KwFunction, T_KwEndFunction, T_KwExport, T_KwVal, T_KwIf,
   T_KwThen, T_KwElsIf, T_KwElse, T_KwEndIf, T_KwFor, T_KwEach, T_KwIn, T_KwTo, T_KwWhile,
   T_KwDo, T_KwEndDo, T_KwReturn, T_KwContinue, T_KwBreak, T_KwGoto, T_KwTry, T_KwExcept,
   T_KwEndTry, T_KwRaise, T_KwVar, T_KwNew, T_KwExecute, T_KwAddHandler, T_KwRemoveHandler,
   T_KwAsync, T_KwAwait, T_KwAnd, T_KwOr, T_KwNot, T_KwTrue, T_KwFalse, T_KwUndefined,
   T_KwNull, T_PreIf, T_PreElsIf, T_PreElse, T_PreEndIf, T_PreRegion, T_PreEndRegion,
   T_PreInsert, T_PreEndInsert, T_PreDelete, T_PreEndDelete, T_AnnAtClient, T_AnnAtServer,
   T_AnnAtServerNoContext, T_AnnAtClientAtServerNoContext, T_AnnAtClientAtServer, T_AnnBefore,
   T_AnnAfter, T_AnnAround, T_AnnChangeAndValidate, T_AnnCustom, T_Eq, T_Neq, T_Le, T_Lt, T_Ge,
   T_Gt, T_Plus, T_Minus, T_Star, T_Slash, T_Percent, T_LParen, T_RParen, T_LBrace, T_RBrace,
   T_LBracket, T_RBracket, T_Dot, T_Comma, T_Semicolon, T_Colon, T_Question, T_Tilde, T_Bar,
   T_Hash, T_Ampersand, T_Float, T_Decimal, T_String, T_StringStart, T_StringTail,
   T_StringPart, T_Date, T_Ident, T_Comment, T_Newline, T_Whitespace, T_Bom, T_Error]"

definition is_trivia :: "token_kind \<Rightarrow> bool" where
  "is_trivia k \<longleftrightarrow> k \<in> {T_Whitespace, T_Comment, T_Newline, T_Bom}"

definition is_keyword :: "token_kind \<Rightarrow> bool" where
  "is_keyword k \<longleftrightarrow> k \<in>
  {T_KwProcedure, T_KwEndProcedure, T_KwFunction, T_KwEndFunction, T_KwExport, T_KwVal, T_KwIf,
   T_KwThen, T_KwElsIf, T_KwElse, T_KwEndIf, T_KwFor, T_KwEach, T_KwIn, T_KwTo, T_KwWhile,
   T_KwDo, T_KwEndDo, T_KwReturn, T_KwContinue, T_KwBreak, T_KwGoto, T_KwTry, T_KwExcept,
   T_KwEndTry, T_KwRaise, T_KwVar, T_KwNew, T_KwExecute, T_KwAddHandler, T_KwRemoveHandler,
   T_KwAsync, T_KwAwait, T_KwAnd, T_KwOr, T_KwNot, T_KwTrue, T_KwFalse, T_KwUndefined, T_KwNull}"

text \<open>A lexeme: its kind, its text and the byte offset it starts at.\<close>

record token =
  tk_kind :: token_kind
  tk_text :: ustring
  tk_offset :: nat


section \<open>Kinds of tree elements\<close>

datatype syntax_kind = SyntaxKind (syntax_discr: nat)

abbreviation SK_TOMBSTONE where "SK_TOMBSTONE \<equiv> SyntaxKind 0"
abbreviation SK_EOF where "SK_EOF \<equiv> SyntaxKind 1"
abbreviation SK_WHITESPACE where "SK_WHITESPACE \<equiv> SyntaxKind 2"
abbreviation SK_NEWLINE where "SK_NEWLINE \<equiv> SyntaxKind 3"
abbreviation SK_COMMENT where "SK_COMMENT \<equiv> SyntaxKind 4"
abbreviation SK_BOM where "SK_BOM \<equiv> SyntaxKind 5"
abbreviation SK_KW_PROCEDURE where "SK_KW_PROCEDURE \<equiv> SyntaxKind 6"
abbreviation SK_KW_END_PROCEDURE where "SK_KW_END_PROCEDURE \<equiv> SyntaxKind 7"
abbreviation SK_KW_FUNCTION where "SK_KW_FUNCTION \<equiv> SyntaxKind 8"
abbreviation SK_KW_END_FUNCTION where "SK_KW_END_FUNCTION \<equiv> SyntaxKind 9"
abbreviation SK_KW_EXPORT where "SK_KW_EXPORT \<equiv> SyntaxKind 10"
abbreviation SK_KW_VAL where "SK_KW_VAL \<equiv> SyntaxKind 11"
abbreviation SK_KW_IF where "SK_KW_IF \<equiv> SyntaxKind 12"
abbreviation SK_KW_THEN where "SK_KW_THEN \<equiv> SyntaxKind 13"
abbreviation SK_KW_ELSIF where "SK_KW_ELSIF \<equiv> SyntaxKind 14"
abbreviation SK_KW_ELSE where "SK_KW_ELSE \<equiv> SyntaxKind 15"
abbreviation SK_KW_END_IF where "SK_KW_END_IF \<equiv> SyntaxKind 16"
abbreviation SK_KW_FOR where "SK_KW_FOR \<equiv> SyntaxKind 17"
abbreviation SK_KW_EACH where "SK_KW_EACH \<equiv> SyntaxKind 18"
abbreviation SK_KW_IN where "SK_KW_IN \<equiv> SyntaxKind 19"
abbreviation SK_KW_TO where "SK_KW_TO \<equiv> SyntaxKind 20"
abbreviation SK_KW_WHILE where "SK_KW_WHILE \<equiv> SyntaxKind 21"
abbreviation SK_KW_DO where "SK_KW_DO \<equiv> SyntaxKind 22"
abbreviation SK_KW_END_DO where "SK_KW_END_DO \<equiv> SyntaxKind 23"
abbreviation SK_KW_RETURN where "SK_KW_RETURN \<equiv> SyntaxKind 24"
abbreviation SK_KW_CONTINUE where "SK_KW_CONTINUE \<equiv> SyntaxKind 25"
abbreviation SK_KW_BREAK where "SK_KW_BREAK \<equiv> SyntaxKind 26"
abbreviation SK_KW_GOTO where "SK_KW_GOTO \<equiv> SyntaxKind 27"
abbreviation SK_KW_TRY where "SK_KW_TRY \<equiv> SyntaxKind 28"
abbreviation SK_KW_EXCEPT where "SK_KW_EXCEPT \<equiv> SyntaxKind 29"
abbreviation SK_KW_END_TRY where "SK_KW_END_TRY \<equiv> SyntaxKind 30"
abbreviation SK_KW_RAISE where "SK_KW_RAISE \<equiv> SyntaxKind 31"
abbreviation SK_KW_VAR where "SK_KW_VAR \<equiv> SyntaxKind 32"
abbreviation SK_KW_NEW where "SK_KW_NEW \<equiv> SyntaxKind 33"
abbreviation SK_KW_EXECUTE where "SK_KW_EXECUTE \<equiv> SyntaxKind 34"
abbreviation SK_KW_ADD_HANDLER where "SK_KW_ADD_HANDLER \<equiv> SyntaxKind 35"
abbreviation SK_KW_REMOVE_HANDLER where "SK_KW_REMOVE_HANDLER \<equiv> SyntaxKind 36"
abbreviation SK_KW_ASYNC where "SK_KW_ASYNC \<equiv> SyntaxKind 37"
abbreviation SK_KW_AWAIT where "SK_KW_AWAIT \<equiv> SyntaxKind 38"
abbreviation SK_KW_AND where "SK_KW_AND \<equiv> SyntaxKind 39"
abbreviation SK_KW_OR where "SK_KW_OR \<equiv> SyntaxKind 40"
abbreviation SK_KW_NOT where "SK_KW_NOT \<equiv> SyntaxKind 41"
abbreviation SK_KW_TRUE where "SK_KW_TRUE \<equiv> SyntaxKind 42"
abbreviation SK_KW_FALSE where "SK_KW_FALSE \<equiv> SyntaxKind 43"
abbreviation SK_KW_UNDEFINED where "SK_KW_UNDEFINED \<equiv> SyntaxKind 44"
abbreviation SK_KW_NULL where "SK_KW_NULL \<equiv> SyntaxKind 45"
abbreviation SK_PRE_IF where "SK_PRE_IF \<equiv> SyntaxKind 46"
abbreviation SK_PRE_ELSIF where "SK_PRE_ELSIF \<equiv> SyntaxKind 47"
abbreviation SK_PRE_ELSE where "SK_PRE_ELSE \<equiv> SyntaxKind 48"
abbreviation SK_PRE_END_IF where "SK_PRE_END_IF \<equiv> SyntaxKind 49"
abbreviation SK_PRE_REGION where "SK_PRE_REGION \<equiv> SyntaxKind 50"
abbreviation SK_PRE_END_REGION where "SK_PRE_END_REGION \<equiv> SyntaxKind 51"
abbreviation SK_PRE_INSERT where "SK_PRE_INSERT \<equiv> SyntaxKind 52"
abbreviation SK_PRE_END_INSERT where "SK_PRE_END_INSERT \<equiv> SyntaxKind 53"
abbreviation SK_PRE_DELETE where "SK_PRE_DELETE \<equiv> SyntaxKind 54"
abbreviation SK_PRE_END_DELETE where "SK_PRE_END_DELETE \<equiv> SyntaxKind 55"
abbreviation SK_ANN_AT_CLIENT where "SK_ANN_AT_CLIENT \<equiv> SyntaxKind 56"
abbreviation SK_ANN_AT_SERVER where "SK_ANN_AT_SERVER \<equiv> SyntaxKind 57"
abbreviation SK_ANN_AT_SERVER_NO_CONTEXT where "SK_ANN_AT_SERVER_NO_CONTEXT \<equiv> SyntaxKind 58"
abbreviation SK_ANN_AT_CLIENT_AT_SERVER_NO_CONTEXT where "SK_ANN_AT_CLIENT_AT_SERVER_NO_CONTEXT \<equiv> SyntaxKind 59"
abbreviation SK_ANN_AT_CLIENT_AT_SERVER where "SK_ANN_AT_CLIENT_AT_SERVER \<equiv> SyntaxKind 60"
abbreviation SK_ANN_BEFORE where "SK_ANN_BEFORE \<equiv> SyntaxKind 61"
abbreviation SK_ANN_AFTER where "SK_ANN_AFTER \<equiv> SyntaxKind 62"
abbreviation SK_ANN_AROUND where "SK_ANN_AROUND \<equiv> SyntaxKind 63"
abbreviation SK_ANN_CHANGE_AND_VALIDATE where "SK_ANN_CHANGE_AND_VALIDATE \<equiv> SyntaxKind 64"
abbreviation SK_ANN_CUSTOM where "SK_ANN_CUSTOM \<equiv> SyntaxKind 65"
abbreviation SK_EQ where "SK_EQ \<equiv> SyntaxKind 66"
abbreviation SK_NEQ where "SK_NEQ \<equiv> SyntaxKind 67"
abbreviation SK_LE where "SK_LE \<equiv> SyntaxKind 68"
abbreviation SK_LT where "SK_LT \<equiv> SyntaxKind 69"
abbreviation SK_GE where "SK_GE \<equiv> SyntaxKind 70"
abbreviation SK_GT where "SK_GT \<equiv> SyntaxKind 71"
abbreviation SK_PLUS where "SK_PLUS \<equiv> SyntaxKind 72"
abbreviation SK_MINUS where "SK_MINUS \<equiv> SyntaxKind 73"
abbreviation SK_STAR where "SK_STAR \<equiv> SyntaxKind 74"
abbreviation SK_SLASH where "SK_SLASH \<equiv> SyntaxKind 75"
abbreviation SK_PERCENT where "SK_PERCENT \<equiv> SyntaxKind 76"
abbreviation SK_L_PAREN where "SK_L_PAREN \<equiv> SyntaxKind 77"
abbreviation SK_R_PAREN where "SK_R_PAREN \<equiv> SyntaxKind 78"
abbreviation SK_L_BRACE where "SK_L_BRACE \<equiv> SyntaxKind 79"
abbreviation SK_R_BRACE where "SK_R_BRACE \<equiv> SyntaxKind 80"
abbreviation SK_L_BRACKET where "SK_L_BRACKET \<equiv> SyntaxKind 81"
abbreviation SK_R_BRACKET where "SK_R_BRACKET \<equiv> SyntaxKind 82"
abbreviation SK_DOT where "SK_DOT \<equiv> SyntaxKind 83"
abbreviation SK_COMMA where "SK_COMMA \<equiv> SyntaxKind 84"
abbreviation SK_SEMICOLON where "SK_SEMICOLON \<equiv> SyntaxKind 85"
abbreviation SK_COLON where "SK_COLON \<equiv> SyntaxKind 86"
abbreviation SK_QUESTION where "SK_QUESTION \<equiv> SyntaxKind 87"
abbreviation SK_TILDE where "SK_TILDE \<equiv> SyntaxKind 88"
abbreviation SK_BAR where "SK_BAR \<equiv> SyntaxKind 89"
abbreviation SK_HASH where "SK_HASH \<equiv> SyntaxKind 90"
abbreviation SK_AMPERSAND where "SK_AMPERSAND \<equiv> SyntaxKind 91"
abbreviation SK_FLOAT where "SK_FLOAT \<equiv> SyntaxKind 92"
abbreviation SK_DECIMAL where "SK_DECIMAL \<equiv> SyntaxKind 93"
abbreviation SK_STRING where "SK_STRING \<equiv> SyntaxKind 94"
abbreviation SK_STRING_START where "SK_STRING_START \<equiv> SyntaxKind 95"
abbreviation SK_STRING_TAIL where "SK_STRING_TAIL \<equiv> SyntaxKind 96"
abbreviation SK_STRING_PART where "SK_STRING_PART \<equiv> SyntaxKind 97"
abbreviation SK_DATE where "SK_DATE \<equiv> SyntaxKind 98"
abbreviation SK_IDENT where "SK_IDENT \<equiv> SyntaxKind 99"
abbreviation SK_SOURCE_FILE where "SK_SOURCE_FILE \<equiv> SyntaxKind 100"
abbreviation SK_PROCEDURE_DEF where "SK_PROCEDURE_DEF \<equiv> SyntaxKind 101"
abbreviation SK_FUNCTION_DEF where "SK_FUNCTION_DEF \<equiv> SyntaxKind 102"
abbreviation SK_VAR_DEF where "SK_VAR_DEF \<equiv> SyntaxKind 103"
abbreviation SK_PARAM_LIST where "SK_PARAM_LIST \<equiv> SyntaxKind 104"
abbreviation SK_PARAM where "SK_PARAM \<equiv> SyntaxKind 105"
abbreviation SK_ANNOTATION where "SK_ANNOTATION \<equiv> SyntaxKind 106"
abbreviation SK_ANNOTATION_PARAMS where "SK_ANNOTATION_PARAMS \<equiv> SyntaxKind 107"
abbreviation SK_ANNOTATION_PARAM where "SK_ANNOTATION_PARAM \<equiv> SyntaxKind 108"
abbreviation SK_COMPILER_DIRECTIVE where "SK_COMPILER_DIRECTIVE \<equiv> SyntaxKind 109"
abbreviation SK_STMT_LIST where "SK_STMT_LIST \<equiv> SyntaxKind 110"
abbreviation SK_ASSIGN_STMT where "SK_ASSIGN_STMT \<equiv> SyntaxKind 111"
abbreviation SK_CALL_STMT where "SK_CALL_STMT \<equiv> SyntaxKind 112"
abbreviation SK_RETURN_STMT where "SK_RETURN_STMT \<equiv> SyntaxKind 113"
abbreviation SK_IF_STMT where "SK_IF_STMT \<equiv> SyntaxKind 114"
abbreviation SK_ELSIF_CLAUSE where "SK_ELSIF_CLAUSE \<equiv> SyntaxKind 115"
abbreviation SK_ELSE_CLAUSE where "SK_ELSE_CLAUSE \<equiv> SyntaxKind 116"
abbreviation SK_WHILE_STMT where "SK_WHILE_STMT \<equiv> SyntaxKind 117"
abbreviation SK_FOR_STMT where "SK_FOR_STMT \<equiv> SyntaxKind 118"
abbreviation SK_FOR_EACH_STMT where "SK_FOR_EACH_STMT \<equiv> SyntaxKind 119"
abbreviation SK_TRY_STMT where "SK_TRY_STMT \<equiv> SyntaxKind 120"
abbreviation SK_EXCEPT_CLAUSE where "SK_EXCEPT_CLAUSE \<equiv> SyntaxKind 121"
abbreviation SK_RAISE_STMT where "SK_RAISE_STMT \<equiv> SyntaxKind 122"
abbreviation SK_EXECUTE_STMT where "SK_EXECUTE_STMT \<equiv> SyntaxKind 123"
abbreviation SK_BREAK_STMT where "SK_BREAK_STMT \<equiv> SyntaxKind 124"
abbreviation SK_CONTINUE_STMT where "SK_CONTINUE_STMT \<equiv> SyntaxKind 125"
abbreviation SK_GOTO_STMT where "SK_GOTO_STMT \<equiv> SyntaxKind 126"
abbreviation SK_LABEL_STMT where "SK_LABEL_STMT \<equiv> SyntaxKind 127"
abbreviation SK_ADD_HANDLER_STMT where "SK_ADD_HANDLER_STMT \<equiv> SyntaxKind 128"
abbreviation SK_REMOVE_HANDLER_STMT where "SK_REMOVE_HANDLER_STMT \<equiv> SyntaxKind 129"
abbreviation SK_EMPTY_STMT where "SK_EMPTY_STMT \<equiv> SyntaxKind 130"
abbreviation SK_EXPR where "SK_EXPR \<equiv> SyntaxKind 131"
abbreviation SK_BINARY_EXPR where "SK_BINARY_EXPR \<equiv> SyntaxKind 132"
abbreviation SK_UNARY_EXPR where "SK_UNARY_EXPR \<equiv> SyntaxKind 133"
abbreviation SK_TERNARY_EXPR where "SK_TERNARY_EXPR \<equiv> SyntaxKind 134"
abbreviation SK_CALL_EXPR where "SK_CALL_EXPR \<equiv> SyntaxKind 135"
abbreviation SK_INDEX_EXPR where "SK_INDEX_EXPR \<equiv> SyntaxKind 136"
abbreviation SK_FIELD_EXPR where "SK_FIELD_EXPR \<equiv> SyntaxKind 137"
abbreviation SK_NEW_EXPR where "SK_NEW_EXPR \<equiv> SyntaxKind 138"
abbreviation SK_AWAIT_EXPR where "SK_AWAIT_EXPR \<equiv> SyntaxKind 139"
abbreviation SK_PAREN_EXPR where "SK_PAREN_EXPR \<equiv> SyntaxKind 140"
abbreviation SK_LITERAL where "SK_LITERAL \<equiv> SyntaxKind 141"
abbreviation SK_ARG_LIST where "SK_ARG_LIST \<equiv> SyntaxKind 142"
abbreviation SK_PRE_IF_DIR where "SK_PRE_IF_DIR \<equiv> SyntaxKind 143"
abbreviation SK_PRE_ELSIF_CLAUSE where "SK_PRE_ELSIF_CLAUSE \<equiv> SyntaxKind 144"
abbreviation SK_PRE_ELSE_CLAUSE where "SK_PRE_ELSE_CLAUSE \<equiv> SyntaxKind 145"
abbreviation SK_PRE_REGION_DIR where "SK_PRE_REGION_DIR \<equiv> SyntaxKind 146"
abbreviation SK_PRE_DELETE_DIR where "SK_PRE_DELETE_DIR \<equiv> SyntaxKind 147"
abbreviation SK_PRE_INSERT_DIR where "SK_PRE_INSERT_DIR \<equiv> SyntaxKind 148"
abbreviation SK_PRE_TORN_IF_PART where "SK_PRE_TORN_IF_PART \<equiv> SyntaxKind 149"
abbreviation SK_PRE_EXPR where "SK_PRE_EXPR \<equiv> SyntaxKind 150"
abbreviation SK_PRE_LOGICAL_EXPR where "SK_PRE_LOGICAL_EXPR \<equiv> SyntaxKind 151"
abbreviation SK_PRE_LOGICAL_OPERAND where "SK_PRE_LOGICAL_OPERAND \<equiv> SyntaxKind 152"
abbreviation SK_PRE_SYMBOL where "SK_PRE_SYMBOL \<equiv> SyntaxKind 153"
abbreviation SK_PRE_BOOL_OP where "SK_PRE_BOOL_OP \<equiv> SyntaxKind 154"
abbreviation SK_SDBL_QUERY_PACKAGE where "SK_SDBL_QUERY_PACKAGE \<equiv> SyntaxKind 155"
abbreviation SK_SDBL_SELECT_QUERY where "SK_SDBL_SELECT_QUERY \<equiv> SyntaxKind 156"
abbreviation SK_SDBL_SUBQUERY where "SK_SDBL_SUBQUERY \<equiv> SyntaxKind 157"
abbreviation SK_SDBL_UNION_CLAUSE where "SK_SDBL_UNION_CLAUSE \<equiv> SyntaxKind 158"
abbreviation SK_SDBL_QUERY where "SK_SDBL_QUERY \<equiv> SyntaxKind 159"
abbreviation SK_SDBL_LIMITATIONS where "SK_SDBL_LIMITATIONS \<equiv> SyntaxKind 160"
abbreviation SK_SDBL_TOP_CLAUSE where "SK_SDBL_TOP_CLAUSE \<equiv> SyntaxKind 161"
abbreviation SK_SDBL_SELECT_CLAUSE where "SK_SDBL_SELECT_CLAUSE \<equiv> SyntaxKind 162"
abbreviation SK_SDBL_FIELD_LIST where "SK_SDBL_FIELD_LIST \<equiv> SyntaxKind 163"
abbreviation SK_SDBL_SELECTED_FIELD where "SK_SDBL_SELECTED_FIELD \<equiv> SyntaxKind 164"
abbreviation SK_SDBL_ALIAS where "SK_SDBL_ALIAS \<equiv> SyntaxKind 165"
abbreviation SK_SDBL_ASTERISK_FIELD where "SK_SDBL_ASTERISK_FIELD \<equiv> SyntaxKind 166"
abbreviation SK_SDBL_INTO_CLAUSE where "SK_SDBL_INTO_CLAUSE \<equiv> SyntaxKind 167"
abbreviation SK_SDBL_TEMP_TABLE_NAME where "SK_SDBL_TEMP_TABLE_NAME \<equiv> SyntaxKind 168"
abbreviation SK_SDBL_FROM_CLAUSE where "SK_SDBL_FROM_CLAUSE \<equiv> SyntaxKind 169"
abbreviation SK_SDBL_DATA_SOURCE where "SK_SDBL_DATA_SOURCE \<equiv> SyntaxKind 170"
abbreviation SK_SDBL_TABLE_REF where "SK_SDBL_TABLE_REF \<equiv> SyntaxKind 171"
abbreviation SK_SDBL_WHERE_CLAUSE where "SK_SDBL_WHERE_CLAUSE \<equiv> SyntaxKind 172"
abbreviation SK_SDBL_EXPR where "SK_SDBL_EXPR \<equiv> SyntaxKind 173"
abbreviation SK_SDBL_LOGICAL_OR_EXPR where "SK_SDBL_LOGICAL_OR_EXPR \<equiv> SyntaxKind 174"
abbreviation SK_SDBL_LOGICAL_AND_EXPR where "SK_SDBL_LOGICAL_AND_EXPR \<equiv> SyntaxKind 175"
abbreviation SK_SDBL_NOT_EXPR where "SK_SDBL_NOT_EXPR \<equiv> SyntaxKind 176"
abbreviation SK_SDBL_COMPARISON_EXPR where "SK_SDBL_COMPARISON_EXPR \<equiv> SyntaxKind 177"
abbreviation SK_SDBL_IN_EXPR where "SK_SDBL_IN_EXPR \<equiv> SyntaxKind 178"
abbreviation SK_SDBL_IN_HIERARCHY_EXPR where "SK_SDBL_IN_HIERARCHY_EXPR \<equiv> SyntaxKind 179"
abbreviation SK_SDBL_IS_NULL_EXPR where "SK_SDBL_IS_NULL_EXPR \<equiv> SyntaxKind 180"
abbreviation SK_SDBL_BETWEEN_EXPR where "SK_SDBL_BETWEEN_EXPR \<equiv> SyntaxKind 181"
abbreviation SK_SDBL_LIKE_EXPR where "SK_SDBL_LIKE_EXPR \<equiv> SyntaxKind 182"
abbreviation SK_SDBL_REFS_EXPR where "SK_SDBL_REFS_EXPR \<equiv> SyntaxKind 183"
abbreviation SK_SDBL_ADDITIVE_EXPR where "SK_SDBL_ADDITIVE_EXPR \<equiv> SyntaxKind 184"
abbreviation SK_SDBL_MULTIPLICATIVE_EXPR where "SK_SDBL_MULTIPLICATIVE_EXPR \<equiv> SyntaxKind 185"
abbreviation SK_SDBL_UNARY_EXPR where "SK_SDBL_UNARY_EXPR \<equiv> SyntaxKind 186"
abbreviation SK_SDBL_PAREN_EXPR where "SK_SDBL_PAREN_EXPR \<equiv> SyntaxKind 187"
abbreviation SK_SDBL_TUPLE_EXPR where "SK_SDBL_TUPLE_EXPR \<equiv> SyntaxKind 188"
abbreviation SK_SDBL_SUBQUERY_EXPR where "SK_SDBL_SUBQUERY_EXPR \<equiv> SyntaxKind 189"
abbreviation SK_SDBL_COLUMN_REF where "SK_SDBL_COLUMN_REF \<equiv> SyntaxKind 190"
abbreviation SK_SDBL_INLINE_TABLE_FIELDS where "SK_SDBL_INLINE_TABLE_FIELDS \<equiv> SyntaxKind 191"
abbreviation SK_SDBL_FUNCTION_CALL where "SK_SDBL_FUNCTION_CALL \<equiv> SyntaxKind 192"
abbreviation SK_SDBL_CASE_EXPR where "SK_SDBL_CASE_EXPR \<equiv> SyntaxKind 193"
abbreviation SK_SDBL_WHEN_CLAUSE where "SK_SDBL_WHEN_CLAUSE \<equiv> SyntaxKind 194"
abbreviation SK_SDBL_LITERAL where "SK_SDBL_LITERAL \<equiv> SyntaxKind 195"
abbreviation SK_SDBL_MULTI_STRING where "SK_SDBL_MULTI_STRING \<equiv> SyntaxKind 196"
abbreviation SK_SDBL_PARAMETER where "SK_SDBL_PARAMETER \<equiv> SyntaxKind 197"
abbreviation SK_SDBL_TYPE where "SK_SDBL_TYPE \<equiv> SyntaxKind 198"
abbreviation SK_SDBL_JOIN_CLAUSE where "SK_SDBL_JOIN_CLAUSE \<equiv> SyntaxKind 199"
abbreviation SK_SDBL_GROUP_CLAUSE where "SK_SDBL_GROUP_CLAUSE \<equiv> SyntaxKind 200"
abbreviation SK_SDBL_ORDER_CLAUSE where "SK_SDBL_ORDER_CLAUSE \<equiv> SyntaxKind 201"
abbreviation SK_SDBL_HAVING_CLAUSE where "SK_SDBL_HAVING_CLAUSE \<equiv> SyntaxKind 202"
abbreviation SK_SDBL_FOR_UPDATE where "SK_SDBL_FOR_UPDATE \<equiv> SyntaxKind 203"
abbreviation SK_SDBL_INDEX_BY where "SK_SDBL_INDEX_BY \<equiv> SyntaxKind 204"
abbreviation SK_SDBL_AUTOORDER where "SK_SDBL_AUTOORDER \<equiv> SyntaxKind 205"
abbreviation SK_SDBL_TOTALS_BY where "SK_SDBL_TOTALS_BY \<equiv> SyntaxKind 206"
abbreviation SK_SDBL_DROP_QUERY where "SK_SDBL_DROP_QUERY \<equiv> SyntaxKind 207"
abbreviation SK_SDBL_QUERY_EXTENSION where "SK_SDBL_QUERY_EXTENSION \<equiv> SyntaxKind 208"
abbreviation SK_SDBL_MISSING_ARG where "SK_SDBL_MISSING_ARG \<equiv> SyntaxKind 209"
abbreviation SK_SDBL_ERROR where "SK_SDBL_ERROR \<equiv> SyntaxKind 210"
abbreviation SK_ERROR where "SK_ERROR \<equiv> SyntaxKind 211"
abbreviation SK_LAST where "SK_LAST \<equiv> SyntaxKind 212"

definition sk_is_trivia :: "syntax_kind \<Rightarrow> bool" where
  "sk_is_trivia k \<longleftrightarrow> k \<in> {SK_WHITESPACE, SK_COMMENT, SK_NEWLINE, SK_BOM}"

definition sk_is_keyword :: "syntax_kind \<Rightarrow> bool" where
  "sk_is_keyword k \<longleftrightarrow> k \<in>
  {SK_KW_PROCEDURE, SK_KW_END_PROCEDURE, SK_KW_FUNCTION, SK_KW_END_FUNCTION, SK_KW_EXPORT,
   SK_KW_VAL, SK_KW_IF, SK_KW_THEN, SK_KW_ELSIF, SK_KW_ELSE, SK_KW_END_IF, SK_KW_FOR,
   SK_KW_EACH, SK_KW_IN, SK_KW_TO, SK_KW_WHILE, SK_KW_DO, SK_KW_END_DO, SK_KW_RETURN,
   SK_KW_CONTINUE, SK_KW_BREAK, SK_KW_GOTO, SK_KW_TRY, SK_KW_EXCEPT, SK_KW_END_TRY,
   SK_KW_RAISE, SK_KW_VAR, SK_KW_NEW, SK_KW_EXECUTE, SK_KW_ADD_HANDLER, SK_KW_REMOVE_HANDLER,
   SK_KW_ASYNC, SK_KW_AWAIT, SK_KW_AND, SK_KW_OR, SK_KW_NOT, SK_KW_TRUE, SK_KW_FALSE,
   SK_KW_UNDEFINED, SK_KW_NULL}"

text \<open>\<open>From<u16> for SyntaxKind\<close> (it asserts that the value is a discriminant) and back.\<close>

definition syntax_kind_from_u16 :: "16 word \<Rightarrow> syntax_kind outcome" where
  "syntax_kind_from_u16 v =
     (if unat v < syntax_discr SK_LAST then Inr (SyntaxKind (unat v)) else Inl Panic)"

definition syntax_kind_to_u16 :: "syntax_kind \<Rightarrow> 16 word" where
  "syntax_kind_to_u16 k = of_nat (syntax_discr k)"


section \<open>Kinds of nodes\<close>

datatype node_kind = NodeKind (node_discr: nat)

abbreviation NK_SourceFile where "NK_SourceFile \<equiv> NodeKind 0"
abbreviation NK_ProcedureDef where "NK_ProcedureDef \<equiv> NodeKind 1"
abbreviation NK_FunctionDef where "NK_FunctionDef \<equiv> NodeKind 2"
abbreviation NK_VarDef where "NK_VarDef \<equiv> NodeKind 3"
abbreviation NK_ParamList where "NK_ParamList \<equiv> NodeKind 4"
abbreviation NK_Param where "NK_Param \<equiv> NodeKind 5"
abbreviation NK_Annotation where "NK_Annotation \<equiv> NodeKind 6"
abbreviation NK_AnnotationParams where "NK_AnnotationParams \<equiv> NodeKind 7"
abbreviation NK_AnnotationParam where "NK_AnnotationParam \<equiv> NodeKind 8"
abbreviation NK_CompilerDirective where "NK_CompilerDirective \<equiv> NodeKind 9"
abbreviation NK_StmtList where "NK_StmtList \<equiv> NodeKind 10"
abbreviation NK_AssignStmt where "NK_AssignStmt \<equiv> NodeKind 11"
abbreviation NK_CallStmt where "NK_CallStmt \<equiv> NodeKind 12"
abbreviation NK_ReturnStmt where "NK_ReturnStmt \<equiv> NodeKind 13"
abbreviation NK_IfStmt where "NK_IfStmt \<equiv> NodeKind 14"
abbreviation NK_ElseIfClause where "NK_ElseIfClause \<equiv> NodeKind 15"
abbreviation NK_ElseClause where "NK_ElseClause \<equiv> NodeKind 16"
abbreviation NK_WhileStmt where "NK_WhileStmt \<equiv> NodeKind 17"
abbreviation NK_ForStmt where "NK_ForStmt \<equiv> NodeKind 18"
abbreviation NK_ForEachStmt where "NK_ForEachStmt \<equiv> NodeKind 19"
abbreviation NK_TryStmt where "NK_TryStmt \<equiv> NodeKind 20"
abbreviation NK_ExceptClause where "NK_ExceptClause \<equiv> NodeKind 21"
abbreviation NK_RaiseStmt where "NK_RaiseStmt \<equiv> NodeKind 22"
abbreviation NK_ExecuteStmt where "NK_ExecuteStmt \<equiv> NodeKind 23"
abbreviation NK_BreakStmt where "NK_BreakStmt \<equiv> NodeKind 24"
abbreviation NK_ContinueStmt where "NK_ContinueStmt \<equiv> NodeKind 25"
abbreviation NK_GotoStmt where "NK_GotoStmt \<equiv> NodeKind 26"
abbreviation NK_LabelStmt where "NK_LabelStmt \<equiv> NodeKind 27"
abbreviation NK_AddHandlerStmt where "NK_AddHandlerStmt \<equiv> NodeKind 28"
abbreviation NK_RemoveHandlerStmt where "NK_RemoveHandlerStmt \<equiv> NodeKind 29"
abbreviation NK_EmptyStmt where "NK_EmptyStmt \<equiv> NodeKind 30"
abbreviation NK_Expr where "NK_Expr \<equiv> NodeKind 31"
abbreviation NK_BinaryExpr where "NK_BinaryExpr \<equiv> NodeKind 32"
abbreviation NK_UnaryExpr where "NK_UnaryExpr \<equiv> NodeKind 33"
abbreviation NK_TernaryExpr where "NK_TernaryExpr \<equiv> NodeKind 34"
abbreviation NK_CallExpr where "NK_CallExpr \<equiv> NodeKind 35"
abbreviation NK_IndexExpr where "NK_IndexExpr \<equiv> NodeKind 36"
abbreviation NK_FieldExpr where "NK_FieldExpr \<equiv> NodeKind 37"
abbreviation NK_NewExpr where "NK_NewExpr \<equiv> NodeKind 38"
abbreviation NK_AwaitExpr where "NK_AwaitExpr \<equiv> NodeKind 39"
abbreviation NK_ParenExpr where "NK_ParenExpr \<equiv> NodeKind 40"
abbreviation NK_Literal where "NK_Literal \<equiv> NodeKind 41"
abbreviation NK_Ident where "NK_Ident \<equiv> NodeKind 42"
abbreviation NK_ArgList where "NK_ArgList \<equiv> NodeKind 43"
abbreviation NK_PreIfDir where "NK_PreIfDir \<equiv> NodeKind 44"
abbreviation NK_PreElsIfClause where "NK_PreElsIfClause \<equiv> NodeKind 45"
abbreviation NK_PreElseClause where "NK_PreElseClause \<equiv> NodeKind 46"
abbreviation NK_PreRegionDir where "NK_PreRegionDir \<equiv> NodeKind 47"
abbreviation NK_PreDeleteDir where "NK_PreDeleteDir \<equiv> NodeKind 48"
abbreviation NK_PreInsertDir where "NK_PreInsertDir \<equiv> NodeKind 49"
abbreviation NK_PreTornIfPart where "NK_PreTornIfPart \<equiv> NodeKind 50"
abbreviation NK_PreExpr where "NK_PreExpr \<equiv> NodeKind 51"
abbreviation NK_PreLogicalExpr where "NK_PreLogicalExpr \<equiv> NodeKind 52"
abbreviation NK_PreLogicalOperand where "NK_PreLogicalOperand \<equiv> NodeKind 53"
abbreviation NK_PreSymbol where "NK_PreSymbol \<equiv> NodeKind 54"
abbreviation NK_PreBoolOp where "NK_PreBoolOp \<equiv> NodeKind 55"
abbreviation NK_SdblQueryPackage where "NK_SdblQueryPackage \<equiv> NodeKind 56"
abbreviation NK_SdblSelectQuery where "NK_SdblSelectQuery \<equiv> NodeKind 57"
abbreviation NK_SdblSubquery where "NK_SdblSubquery \<equiv> NodeKind 58"
abbreviation NK_SdblUnionClause where "NK_SdblUnionClause \<equiv> NodeKind 59"
abbreviation NK_SdblQuery where "NK_SdblQuery \<equiv> NodeKind 60"
abbreviation NK_SdblQueryExtension where "NK_SdblQueryExtension \<equiv> NodeKind 61"
abbreviation NK_SdblLimitations where "NK_SdblLimitations \<equiv> NodeKind 62"
abbreviation NK_SdblTopClause where "NK_SdblTopClause \<equiv> NodeKind 63"
abbreviation NK_SdblSelectClause where "NK_SdblSelectClause \<equiv> NodeKind 64"
abbreviation NK_SdblFieldList where "NK_SdblFieldList \<equiv> NodeKind 65"
abbreviation NK_SdblSelectedField where "NK_SdblSelectedField \<equiv> NodeKind 66"
abbreviation NK_SdblAlias where "NK_SdblAlias \<equiv> NodeKind 67"
abbreviation NK_SdblAsteriskField where "NK_SdblAsteriskField \<equiv> NodeKind 68"
abbreviation NK_SdblIntoClause where "NK_SdblIntoClause \<equiv> NodeKind 69"
abbreviation NK_SdblTempTableName where "NK_SdblTempTableName \<equiv> NodeKind 70"
abbreviation NK_SdblFromClause where "NK_SdblFromClause \<equiv> NodeKind 71"
abbreviation NK_SdblDataSource where "NK_SdblDataSource \<equiv> NodeKind 72"
abbreviation NK_SdblTableRef where "NK_SdblTableRef \<equiv> NodeKind 73"
abbreviation NK_SdblJoinClause where "NK_SdblJoinClause \<equiv> NodeKind 74"
abbreviation NK_SdblWhereClause where "NK_SdblWhereClause \<equiv> NodeKind 75"
abbreviation NK_SdblGroupClause where "NK_SdblGroupClause \<equiv> NodeKind 76"
abbreviation NK_SdblOrderClause where "NK_SdblOrderClause \<equiv> NodeKind 77"
abbreviation NK_SdblHavingClause where "NK_SdblHavingClause \<equiv> NodeKind 78"
abbreviation NK_SdblForUpdate where "NK_SdblForUpdate \<equiv> NodeKind 79"
abbreviation NK_SdblIndexBy where "NK_SdblIndexBy \<equiv> NodeKind 80"
abbreviation NK_SdblAutoorder where "NK_SdblAutoorder \<equiv> NodeKind 81"
abbreviation NK_SdblTotalsBy where "NK_SdblTotalsBy \<equiv> NodeKind 82"
abbreviation NK_SdblExpr where "NK_SdblExpr \<equiv> NodeKind 83"
abbreviation NK_SdblLogicalOrExpr where "NK_SdblLogicalOrExpr \<equiv> NodeKind 84"
abbreviation NK_SdblLogicalAndExpr where "NK_SdblLogicalAndExpr \<equiv> NodeKind 85"
abbreviation NK_SdblNotExpr where "NK_SdblNotExpr \<equiv> NodeKind 86"
abbreviation NK_SdblComparisonExpr where "NK_SdblComparisonExpr \<equiv> NodeKind 87"
abbreviation NK_SdblInExpr where "NK_SdblInExpr \<equiv> NodeKind 88"
abbreviation NK_SdblInHierarchyExpr where "NK_SdblInHierarchyExpr \<equiv> NodeKind 89"
abbreviation NK_SdblIsNullExpr where "NK_SdblIsNullExpr \<equiv> NodeKind 90"
abbreviation NK_SdblBetweenExpr where "NK_SdblBetweenExpr \<equiv> NodeKind 91"
abbreviation NK_SdblLikeExpr where "NK_SdblLikeExpr \<equiv> NodeKind 92"
abbreviation NK_SdblRefsExpr where "NK_SdblRefsExpr \<equiv> NodeKind 93"
abbreviation NK_SdblAdditiveExpr where "NK_SdblAdditiveExpr \<equiv> NodeKind 94"
abbreviation NK_SdblMultiplicativeExpr where "NK_SdblMultiplicativeExpr \<equiv> NodeKind 95"
abbreviation NK_SdblUnaryExpr where "NK_SdblUnaryExpr \<equiv> NodeKind 96"
abbreviation NK_SdblParenExpr where "NK_SdblParenExpr \<equiv> NodeKind 97"
abbreviation NK_SdblTupleExpr where "NK_SdblTupleExpr \<equiv> NodeKind 98"
abbreviation NK_SdblSubqueryExpr where "NK_SdblSubqueryExpr \<equiv> NodeKind 99"
abbreviation NK_SdblColumnRef where "NK_SdblColumnRef \<equiv> NodeKind 100"
abbreviation NK_SdblInlineTableFields where "NK_SdblInlineTableFields \<equiv> NodeKind 101"
abbreviation NK_SdblFunctionCall where "NK_SdblFunctionCall \<equiv> NodeKind 102"
abbreviation NK_SdblCaseExpr where "NK_SdblCaseExpr \<equiv> NodeKind 103"
abbreviation NK_SdblWhenClause where "NK_SdblWhenClause \<equiv> NodeKind 104"
abbreviation NK_SdblLiteral where "NK_SdblLiteral \<equiv> NodeKind 105"
abbreviation NK_SdblMultiString where "NK_SdblMultiString \<equiv> NodeKind 106"
abbreviation NK_SdblParameter where "NK_SdblParameter \<equiv> NodeKind 107"
abbreviation NK_SdblType where "NK_SdblType \<equiv> NodeKind 108"
abbreviation NK_SdblDropQuery where "NK_SdblDropQuery \<equiv> NodeKind 109"
abbreviation NK_SdblMissingArg where "NK_SdblMissingArg \<equiv> NodeKind 110"
abbreviation NK_SdblError where "NK_SdblError \<equiv> NodeKind 111"
abbreviation NK_Error where "NK_Error \<equiv> NodeKind 112"
abbreviation NK_Comment where "NK_Comment \<equiv> NodeKind 113"


section \<open>The conversion tables\<close>

text \<open>
  Both conversions are one total \<open>match\<close>; they are written as the list of its arms.
  A number that is no discriminant is no value of the enum, so what the conversions
  yield there is never observed.
\<close>

definition node_kind_table :: "(node_kind \<times> syntax_kind) list" where
  "node_kind_table =
  [(NK_SourceFile, SK_SOURCE_FILE), (NK_ProcedureDef, SK_PROCEDURE_DEF),
   (NK_FunctionDef, SK_FUNCTION_DEF), (NK_VarDef, SK_VAR_DEF), (NK_ParamList, SK_PARAM_LIST),
   (NK_Param, SK_PARAM), (NK_Annotation, SK_ANNOTATION),
   (NK_AnnotationParams, SK_ANNOTATION_PARAMS), (NK_AnnotationParam, SK_ANNOTATION_PARAM),
   (NK_CompilerDirective, SK_COMPILER_DIRECTIVE), (NK_StmtList, SK_STMT_LIST),
   (NK_AssignStmt, SK_ASSIGN_STMT), (NK_CallStmt, SK_CALL_STMT),
   (NK_ReturnStmt, SK_RETURN_STMT), (NK_IfStmt, SK_IF_STMT),
   (NK_ElseIfClause, SK_ELSIF_CLAUSE), (NK_ElseClause, SK_ELSE_CLAUSE),
   (NK_WhileStmt, SK_WHILE_STMT), (NK_ForStmt, SK_FOR_STMT),
   (NK_ForEachStmt, SK_FOR_EACH_STMT), (NK_TryStmt, SK_TRY_STMT),
   (NK_ExceptClause, SK_EXCEPT_CLAUSE), (NK_RaiseStmt, SK_RAISE_STMT),
   (NK_ExecuteStmt, SK_EXECUTE_STMT), (NK_BreakStmt, SK_BREAK_STMT),
   (NK_ContinueStmt, SK_CONTINUE_STMT), (NK_GotoStmt, SK_GOTO_STMT),
   (NK_LabelStmt, SK_LABEL_STMT), (NK_AddHandlerStmt, SK_ADD_HANDLER_STMT),
   (NK_RemoveHandlerStmt, SK_REMOVE_HANDLER_STMT), (NK_EmptyStmt, SK_EMPTY_STMT),
   (NK_Expr, SK_EXPR), (NK_BinaryExpr, SK_BINARY_EXPR), (NK_UnaryExpr, SK_UNARY_EXPR),
   (NK_TernaryExpr, SK_TERNARY_EXPR), (NK_CallExpr, SK_CALL_EXPR),
   (NK_IndexExpr, SK_INDEX_EXPR), (NK_FieldExpr, SK_FIELD_EXPR), (NK_NewExpr, SK_NEW_EXPR),
   (NK_AwaitExpr, SK_AWAIT_EXPR), (NK_ParenExpr, SK_PAREN_EXPR), (NK_Literal, SK_LITERAL),
   (NK_Ident, SK_IDENT), (NK_ArgList, SK_ARG_LIST), (NK_PreIfDir, SK_PRE_IF_DIR),
   (NK_PreElsIfClause, SK_PRE_ELSIF_CLAUSE), (NK_PreElseClause, SK_PRE_ELSE_CLAUSE),
   (NK_PreRegionDir, SK_PRE_REGION_DIR), (NK_PreDeleteDir, SK_PRE_DELETE_DIR),
   (NK_PreInsertDir, SK_PRE_INSERT_DIR), (NK_PreTornIfPart, SK_PRE_TORN_IF_PART),
   (NK_PreExpr, SK_PRE_EXPR), (NK_PreLogicalExpr, SK_PRE_LOGICAL_EXPR),
   (NK_PreLogicalOperand, SK_PRE_LOGICAL_OPERAND), (NK_PreSymbol, SK_PRE_SYMBOL),
   (NK_PreBoolOp, SK_PRE_BOOL_OP), (NK_SdblQueryPackage, SK_SDBL_QUERY_PACKAGE),
   (NK_SdblSelectQuery, SK_SDBL_SELECT_QUERY), (NK_SdblSubquery, SK_SDBL_SUBQUERY),
   (NK_SdblUnionClause, SK_SDBL_UNION_CLAUSE), (NK_SdblQuery, SK_SDBL_QUERY),
   (NK_SdblQueryExtension, SK_SDBL_QUERY_EXTENSION), (NK_SdblLimitations, SK_SDBL_LIMITATIONS),
   (NK_SdblTopClause, SK_SDBL_TOP_CLAUSE), (NK_SdblSelectClause, SK_SDBL_SELECT_CLAUSE),
   (NK_SdblFieldList, SK_SDBL_FIELD_LIST), (NK_SdblSelectedField, SK_SDBL_SELECTED_FIELD),
   (NK_SdblAlias, SK_SDBL_ALIAS), (NK_SdblAsteriskField, SK_SDBL_ASTERISK_FIELD),
   (NK_SdblIntoClause, SK_SDBL_INTO_CLAUSE), (NK_SdblTempTableName, SK_SDBL_TEMP_TABLE_NAME),
   (NK_SdblFromClause, SK_SDBL_FROM_CLAUSE), (NK_SdblDataSource, SK_SDBL_DATA_SOURCE),
   (NK_SdblTableRef, SK_SDBL_TABLE_REF), (NK_SdblJoinClause, SK_SDBL_JOIN_CLAUSE),
   (NK_SdblWhereClause, SK_SDBL_WHERE_CLAUSE), (NK_SdblGroupClause, SK_SDBL_GROUP_CLAUSE),
   (NK_SdblOrderClause, SK_SDBL_ORDER_CLAUSE), (NK_SdblHavingClause, SK_SDBL_HAVING_CLAUSE),
   (NK_SdblForUpdate, SK_SDBL_FOR_UPDATE), (NK_SdblIndexBy, SK_SDBL_INDEX_BY),
   (NK_SdblAutoorder, SK_SDBL_AUTOORDER), (NK_SdblTotalsBy, SK_SDBL_TOTALS_BY),
   (NK_SdblExpr, SK_SDBL_EXPR), (NK_SdblLogicalOrExpr, SK_SDBL_LOGICAL_OR_EXPR),
   (NK_SdblLogicalAndExpr, SK_SDBL_LOGICAL_AND_EXPR), (NK_SdblNotExpr, SK_SDBL_NOT_EXPR),
   (NK_SdblComparisonExpr, SK_SDBL_COMPARISON_EXPR), (NK_SdblInExpr, SK_SDBL_IN_EXPR),
   (NK_SdblInHierarchyExpr, SK_SDBL_IN_HIERARCHY_EXPR),
   (NK_SdblIsNullExpr, SK_SDBL_IS_NULL_EXPR), (NK_SdblBetweenExpr, SK_SDBL_BETWEEN_EXPR),
   (NK_SdblLikeExpr, SK_SDBL_LIKE_EXPR), (NK_SdblRefsExpr, SK_SDBL_REFS_EXPR),
   (NK_SdblAdditiveExpr, SK_SDBL_ADDITIVE_EXPR),
   (NK_SdblMultiplicativeExpr, SK_SDBL_MULTIPLICATIVE_EXPR),
   (NK_SdblUnaryExpr, SK_SDBL_UNARY_EXPR), (NK_SdblParenExpr, SK_SDBL_PAREN_EXPR),
   (NK_SdblTupleExpr, SK_SDBL_TUPLE_EXPR), (NK_SdblSubqueryExpr, SK_SDBL_SUBQUERY_EXPR),
   (NK_SdblColumnRef, SK_SDBL_COLUMN_REF),
   (NK_SdblInlineTableFields, SK_SDBL_INLINE_TABLE_FIELDS),
   (NK_SdblFunctionCall, SK_SDBL_FUNCTION_CALL), (NK_SdblCaseExpr, SK_SDBL_CASE_EXPR),
   (NK_SdblWhenClause, SK_SDBL_WHEN_CLAUSE), (NK_SdblLiteral, SK_SDBL_LITERAL),
   (NK_SdblMultiString, SK_SDBL_MULTI_STRING), (NK_SdblParameter, SK_SDBL_PARAMETER),
   (NK_SdblType, SK_SDBL_TYPE), (NK_SdblDropQuery, SK_SDBL_DROP_QUERY),
   (NK_SdblMissingArg, SK_SDBL_MISSING_ARG), (NK_SdblError, SK_SDBL_ERROR),
   (NK_Error, SK_ERROR), (NK_Comment, SK_COMMENT)]"

definition token_kind_table :: "(token_kind \<times> syntax_kind) list" where
  "token_kind_table =
  [(T_KwProcedure, SK_KW_PROCEDURE), (T_KwEndProcedure, SK_KW_END_PROCEDURE),
   (T_KwFunction, SK_KW_FUNCTION), (T_KwEndFunction, SK_KW_END_FUNCTION),
   (T_KwExport, SK_KW_EXPORT), (T_KwVal, SK_KW_VAL), (T_KwIf, SK_KW_IF),
   (T_KwThen, SK_KW_THEN), (T_KwElsIf, SK_KW_ELSIF), (T_KwElse, SK_KW_ELSE),
   (T_KwEndIf, SK_KW_END_IF), (T_KwFor, SK_KW_FOR), (T_KwEach, SK_KW_EACH), (T_KwIn, SK_KW_IN),
   (T_KwTo, SK_KW_TO), (T_KwWhile, SK_KW_WHILE), (T_KwDo, SK_KW_DO), (T_KwEndDo, SK_KW_END_DO),
   (T_KwReturn, SK_KW_RETURN), (T_KwContinue, SK_KW_CONTINUE), (T_KwBreak, SK_KW_BREAK),
   (T_KwGoto, SK_KW_GOTO), (T_KwTry, SK_KW_TRY), (T_KwExcept, SK_KW_EXCEPT),
   (T_KwEndTry, SK_KW_END_TRY), (T_KwRaise, SK_KW_RAISE), (T_KwVar, SK_KW_VAR),
   (T_KwNew, SK_KW_NEW), (T_KwExecute, SK_KW_EXECUTE), (T_KwAddHandler, SK_KW_ADD_HANDLER),
   (T_KwRemoveHandler, SK_KW_REMOVE_HANDLER), (T_KwAsync, SK_KW_ASYNC),
   (T_KwAwait, SK_KW_AWAIT), (T_KwAnd, SK_KW_AND), (T_KwOr, SK_KW_OR), (T_KwNot, SK_KW_NOT),
   (T_KwTrue, SK_KW_TRUE), (T_KwFalse, SK_KW_FALSE), (T_KwUndefined, SK_KW_UNDEFINED),
   (T_KwNull, SK_KW_NULL), (T_PreIf, SK_PRE_IF), (T_PreElsIf, SK_PRE_ELSIF),
   (T_PreElse, SK_PRE_ELSE), (T_PreEndIf, SK_PRE_END_IF), (T_PreRegion, SK_PRE_REGION),
   (T_PreEndRegion, SK_PRE_END_REGION), (T_PreInsert, SK_PRE_INSERT),
   (T_PreEndInsert, SK_PRE_END_INSERT), (T_PreDelete, SK_PRE_DELETE),
   (T_PreEndDelete, SK_PRE_END_DELETE), (T_AnnAtClient, SK_ANN_AT_CLIENT),
   (T_AnnAtServer, SK_ANN_AT_SERVER), (T_AnnAtServerNoContext, SK_ANN_AT_SERVER_NO_CONTEXT),
   (T_AnnAtClientAtServerNoContext, SK_ANN_AT_CLIENT_AT_SERVER_NO_CONTEXT),
   (T_AnnAtClientAtServer, SK_ANN_AT_CLIENT_AT_SERVER), (T_AnnBefore, SK_ANN_BEFORE),
   (T_AnnAfter, SK_ANN_AFTER), (T_AnnAround, SK_ANN_AROUND),
   (T_AnnChangeAndValidate, SK_ANN_CHANGE_AND_VALIDATE), (T_AnnCustom, SK_ANN_CUSTOM),
   (T_Eq, SK_EQ), (T_Neq, SK_NEQ), (T_Le, SK_LE), (T_Lt, SK_LT), (T_Ge, SK_GE), (T_Gt, SK_GT),
   (T_Plus, SK_PLUS), (T_Minus, SK_MINUS), (T_Star, SK_STAR), (T_Slash, SK_SLASH),
   (T_Percent, SK_PERCENT), (T_LParen, SK_L_PAREN), (T_RParen, SK_R_PAREN),
   (T_LBrace, SK_L_BRACE), (T_RBrace, SK_R_BRACE), (T_LBracket, SK_L_BRACKET),
   (T_RBracket, SK_R_BRACKET), (T_Dot, SK_DOT), (T_Comma, SK_COMMA),
   (T_Semicolon, SK_SEMICOLON), (T_Colon, SK_COLON), (T_Question, SK_QUESTION),
   (T_Tilde, SK_TILDE), (T_Bar, SK_BAR), (T_Hash, SK_HASH), (T_Ampersand, SK_AMPERSAND),
   (T_Float, SK_FLOAT), (T_Decimal, SK_DECIMAL), (T_String, SK_STRING),
   (T_StringStart, SK_STRING_START), (T_StringTail, SK_STRING_TAIL),
   (T_StringPart, SK_STRING_PART), (T_Date, SK_DATE), (T_Ident, SK_IDENT),
   (T_Whitespace, SK_WHITESPACE), (T_Newline, SK_NEWLINE), (T_Comment, SK_COMMENT),
   (T_Bom, SK_BOM), (T_Error, SK_ERROR)]"

definition node_kind_to_syntax :: "node_kind \<Rightarrow> syntax_kind" where
  "node_kind_to_syntax k = (case map_of node_kind_table k of Some s \<Rightarrow> s | None \<Rightarrow> SK_TOMBSTONE)"

definition token_kind_to_syntax :: "token_kind \<Rightarrow> syntax_kind" where
  "token_kind_to_syntax k = (case map_of token_kind_table k of Some s \<Rightarrow> s | None \<Rightarrow> SK_TOMBSTONE)"

section \<open>Agreement of the two layers\<close>

text \<open>A statement about every arm of the table holds of the conversion.\<close>

lemma token_conversion_cases:
  assumes arms: "list_all (\<lambda>(k, s). P k s) token_kind_table"
    and junk: "\<And>k. k \<notin> set (map fst token_kind_table) \<Longrightarrow> P k SK_TOMBSTONE"
  shows "P k (token_kind_to_syntax k)"
proof (cases "map_of token_kind_table k")
  case None
  then have "k \<notin> set (map fst token_kind_table)"
    by (simp add: map_of_eq_None_iff)
  with None junk show ?thesis
    by (simp add: token_kind_to_syntax_def)
next
  case (Some s)
  then have "(k, s) \<in> set token_kind_table"
    by (rule map_of_SomeD)
  with arms Some show ?thesis
    by (auto simp: token_kind_to_syntax_def list_all_iff)
qed

lemma trivia_layers_agree [simp]: "sk_is_trivia (token_kind_to_syntax k) = is_trivia k"
  by (rule token_conversion_cases)
    (simp_all add: token_kind_table_def sk_is_trivia_def is_trivia_def)

lemma keyword_layers_agree: "sk_is_keyword (token_kind_to_syntax k) = is_keyword k"
  by (rule token_conversion_cases)
    (simp_all add: token_kind_table_def sk_is_keyword_def is_keyword_def)

lemma token_kind_to_syntax_bound: "syntax_discr (token_kind_to_syntax k) < syntax_discr SK_LAST"
  by (rule token_conversion_cases) (simp_all add: token_kind_table_def)

lemma node_kind_to_syntax_bound: "syntax_discr (node_kind_to_syntax k) < syntax_discr SK_LAST"
proof (cases "map_of node_kind_table k")
  case None
  then show ?thesis
    by (simp add: node_kind_to_syntax_def)
next
  case (Some s)
  then have "(k, s) \<in> set node_kind_table"
    by (rule map_of_SomeD)
  moreover have "list_all (\<lambda>(k, s). syntax_discr s < syntax_discr SK_LAST) node_kind_table"
    by (simp add: node_kind_table_def)
  ultimately show ?thesis
    using Some by (auto simp: node_kind_to_syntax_def list_all_iff)
qed

lemma syntax_kind_u16_roundtrip:
  assumes "syntax_discr k < syntax_discr SK_LAST"
  shows "syntax_kind_from_u16 (syntax_kind_to_u16 k) = Inr k"
  using assms
  by (cases k) (simp add: syntax_kind_from_u16_def syntax_kind_to_u16_def unat_of_nat)

lemma syntax_kind_from_u16_assert:
  "syntax_kind_from_u16 v = Inl Panic \<longleftrightarrow> syntax_discr SK_LAST \<le> unat v"
  by (auto simp: syntax_kind_from_u16_def)

lemma is_trivia_simps [simp]:
  "is_trivia T_Whitespace" "is_trivia T_Comment" "is_trivia T_Newline" "is_trivia T_Bom"
  by (simp_all add: is_trivia_def)

end
