(* ===== verification/Events.thy ===== *)
theory Events
  imports Tokens
begin

text \<open>
  What the grammar produces: a flat stream of events (\<open>parser/src/event.rs\<close>) that the
  sink later turns into a tree, and the diagnostics inside it
  (\<open>parser-error/src/lib.rs\<close>).
\<close>

datatype recovery_kind = BumpToken | MissingToken | RecoverySpan | Custom

text \<open>
  The messages the BSL grammar attaches to its own diagnostics, one constructor per
  string literal of the source.
\<close>

datatype message =
    MsgProcedureName        \<comment> \<open>a procedure name was expected\<close>
  | MsgFunctionName         \<comment> \<open>a function name was expected\<close>
  | MsgParameterName        \<comment> \<open>a parameter name was expected\<close>
  | MsgVariableName         \<comment> \<open>a variable name was expected\<close>
  | MsgCallOrAssignment     \<comment> \<open>a call or an assignment was expected\<close>
  | MsgAfterConstructor     \<comment> \<open>no direct member access after a constructor\<close>
  | MsgPropertyName         \<comment> \<open>a property name was expected after a dot\<close>
  | MsgStringFragment       \<comment> \<open>an unexpected fragment of a string\<close>
  | MsgUnclosedString       \<comment> \<open>an unclosed multi-line string\<close>
  | MsgTokenInString        \<comment> \<open>an unexpected token in a multi-line string\<close>
  | MsgInsertWithoutEnd     \<comment> \<open>an insert directive without its end\<close>

datatype parse_error =
    Expected "token_kind list" "token_kind option" recovery_kind
  | Unexpected "token_kind option" recovery_kind
  | CustomError message recovery_kind

fun recovery :: "parse_error \<Rightarrow> recovery_kind" where
  "recovery (Expected _ _ r) = r"
| "recovery (Unexpected _ r) = r"
| "recovery (CustomError _ r) = r"

datatype event =
    Start node_kind "nat option"   \<comment> \<open>the second field is \<open>forward_parent\<close>\<close>
  | Finish
  | Token token_kind
  | Placeholder
  | Error parse_error
  | ErrorWithSpan nat parse_error

definition is_error_event :: "event \<Rightarrow> bool" where
  "is_error_event e = (case e of Error _ \<Rightarrow> True | ErrorWithSpan _ _ \<Rightarrow> True | _ \<Rightarrow> False)"

text \<open>The token events of a stream, in order.\<close>

fun event_tokens :: "event list \<Rightarrow> token_kind list" where
  "event_tokens [] = []"
| "event_tokens (Token k # es) = k # event_tokens es"
| "event_tokens (_ # es) = event_tokens es"

lemma event_tokens_append [simp]: "event_tokens (xs @ ys) = event_tokens xs @ event_tokens ys"
  by (induction xs rule: event_tokens.induct) auto

lemma event_tokens_update_start:
  "xs ! i = Start k f \<Longrightarrow> i < length xs \<Longrightarrow> event_tokens (xs[i := Start k' f']) = event_tokens xs"
proof (induction xs arbitrary: i)
  case (Cons x xs)
  then show ?case
    by (cases i; cases x) auto
qed simp


section \<open>Well-formed segments\<close>

text \<open>
  The grammar emits events in properly nested groups, except that a node may be opened
  after its first child is already complete: \<open>CompletedMarker::precede\<close> links the
  completed node to a later \<open>Start\<close> by the distance between the two. \<open>seg\<close> are the
  streams a rule may append; \<open>chain d es\<close> is one completed node together with the
  nodes that were opened around it afterwards, \<open>d\<close> being the position of the outermost
  \<open>Start\<close>, the one whose link is still free.
\<close>

definition link_event :: "nat \<Rightarrow> event \<Rightarrow> event" where
  "link_event n e = (case e of Start k _ \<Rightarrow> Start k (Some n) | _ \<Rightarrow> e)"

inductive seg :: "event list \<Rightarrow> bool" and chain :: "nat \<Rightarrow> event list \<Rightarrow> bool" where
  seg_Nil: "seg []"
| seg_Token: "seg s \<Longrightarrow> seg (s @ [Token k])"
| seg_Error: "seg s \<Longrightarrow> seg (s @ [Error e])"
| seg_ErrorWithSpan: "seg s \<Longrightarrow> seg (s @ [ErrorWithSpan n e])"
| seg_Placeholder: "seg s \<Longrightarrow> seg (s @ [Placeholder])"
| seg_node: "seg s \<Longrightarrow> chain d c \<Longrightarrow> seg (s @ c)"
| chain_node: "seg s \<Longrightarrow> chain 0 (Start k None # s @ [Finish])"
| chain_up: "chain d c \<Longrightarrow> seg g \<Longrightarrow> seg s \<Longrightarrow>
    chain (length c + length g)
      (c[d := link_event (length c + length g - d) (c ! d)] @ g @ Start k None # s @ [Finish])"

lemma chain_head_aux:
  "seg s \<Longrightarrow> True"
  "chain d c \<Longrightarrow> d < length c \<and> (\<exists>k. c ! d = Start k None)"
proof (induction rule: seg_chain.inducts)
  case (chain_up d c g s k)
  then show ?case
    by (auto simp: nth_append)
qed auto

lemmas chain_head = chain_head_aux(2)

lemma seg_append_aux:
  "seg t \<Longrightarrow> seg s \<Longrightarrow> seg (s @ t)"
  "chain d c \<Longrightarrow> True"
proof (induction rule: seg_chain.inducts)
  case (seg_node t d c)
  then show ?case
    by (metis append_assoc seg_chain.seg_node)
qed (auto simp flip: append_assoc intro: seg_chain.intros)

lemma seg_append: "seg s \<Longrightarrow> seg t \<Longrightarrow> seg (s @ t)"
  by (rule seg_append_aux(1))

end
