(* ===== verification/Parser_Input.thy ===== *)
theory Parser_Input
  imports Events
begin

unbundle bit_operations_syntax

text \<open>
  The parser's input (\<open>parser/src/parser/input.rs\<close>): the lexeme stream seen through
  its significant tokens only, with the line breaks of the gaps between them kept in a
  bit map of 64-bit words; and the 128-bit token sets of
  \<open>parser/src/parser/token_set.rs\<close>.
\<close>


section \<open>Bit maps\<close>

definition set_bit_at :: "64 word list \<Rightarrow> nat \<Rightarrow> bool \<Rightarrow> 64 word list" where
  "set_bit_at bits index v =
     (let word = index div 64;
          bits = (if length bits \<le> word then bits @ replicate (word + 1 - length bits) 0 else bits)
      in if v then bits[word := bits ! word OR push_bit (index mod 64) 1] else bits)"

definition test_bit_at :: "64 word list \<Rightarrow> nat \<Rightarrow> bool" where
  "test_bit_at bits pos =
     (case get bits (pos div 64) of None \<Rightarrow> False
      | Some word \<Rightarrow> word AND push_bit (pos mod 64) 1 \<noteq> 0)"

text \<open>What a bit map promises to its reader.\<close>

locale bit_map =
  fixes empty :: 'm
    and set_at :: "'m \<Rightarrow> nat \<Rightarrow> bool \<Rightarrow> 'm"
    and test_at :: "'m \<Rightarrow> nat \<Rightarrow> bool"
  assumes test_empty: "\<not> test_at empty j"
    and test_set: "test_at (set_at m i v) j = ((i = j \<and> v) \<or> test_at m j)"
begin

text \<open>Writing the bits of a list from position 0 on stores exactly that list.\<close>

definition set_all :: "bool list \<Rightarrow> 'm" where
  "set_all bs = fold (\<lambda>(i, v) m. set_at m i v) (enumerate 0 bs) empty"

lemma set_all_snoc: "set_all (bs @ [v]) = set_at (set_all bs) (length bs) v"
  by (simp add: set_all_def enumerate_append_eq)

lemma test_set_all: "test_at (set_all bs) j \<longleftrightarrow> j < length bs \<and> bs ! j"
proof (induction bs rule: rev_induct)
  case Nil
  then show ?case
    by (simp add: set_all_def test_empty)
next
  case (snoc v bs)
  then show ?case
    by (auto simp: set_all_snoc test_set nth_append less_Suc_eq)
qed

end

lemma test_bit_at_iff:
  "test_bit_at m j \<longleftrightarrow> j div 64 < length m \<and> bit (m ! (j div 64)) (j mod 64)"
  by (auto simp: test_bit_at_def get_def bit_iff_and_push_bit_not_eq_0)

lemma div_mod_64_eq: "i div 64 = j div 64 \<Longrightarrow> i mod 64 = j mod 64 \<Longrightarrow> i = (j :: nat)"
  by (metis div_mult_mod_eq)

lemma test_set_bit_at: "test_bit_at (set_bit_at m i v) j = ((i = j \<and> v) \<or> test_bit_at m j)"
proof -
  define m' where "m' = (if length m \<le> i div 64 then m @ replicate (i div 64 + 1 - length m) 0 else m)"
  have grown: "i div 64 < length m'" and len: "length m \<le> length m'"
    by (auto simp: m'_def)
  have old: "test_bit_at m' k = test_bit_at m k" for k
    by (auto simp: test_bit_at_iff m'_def nth_append)
  have upd: "test_bit_at (m'[i div 64 := m' ! (i div 64) OR 2 ^ (i mod 64)]) j
      = (i = j \<or> test_bit_at m' j)"
    using grown
    by (auto simp: test_bit_at_iff nth_list_update bit_or_iff bit_exp_iff intro: div_mod_64_eq)
  show ?thesis
    by (auto simp: set_bit_at_def Let_def m'_def [symmetric] upd old)
qed

interpretation line_bits: bit_map "[]" set_bit_at test_bit_at
  by unfold_locales (simp_all add: test_set_bit_at, simp add: test_bit_at_iff)


section \<open>The significant tokens\<close>

record input =
  in_tokens :: "token list"
  in_raw :: "nat list"
  in_kinds :: "token_kind list"
  in_line_break_before :: "64 word list"

text \<open>
  The loop of \<open>Input::new\<close>: the index of the next lexeme, the lexemes left, and the
  four local variables of the source.
\<close>

fun input_scan ::
  "nat \<Rightarrow> token list \<Rightarrow> bool \<Rightarrow> nat list \<Rightarrow> token_kind list \<Rightarrow> 64 word list
    \<Rightarrow> nat list \<times> token_kind list \<times> 64 word list" where
  "input_scan index [] gap_has_line_break raw kinds line_break_before =
     (raw, kinds, set_bit_at line_break_before (length kinds) gap_has_line_break)"
| "input_scan index (token # tokens) gap_has_line_break raw kinds line_break_before =
     (if is_trivia (tk_kind token)
      then input_scan (Suc index) tokens
             (gap_has_line_break \<or> tk_kind token \<in> {T_Newline, T_Comment})
             raw kinds line_break_before
      else input_scan (Suc index) tokens False (raw @ [index]) (kinds @ [tk_kind token])
             (set_bit_at line_break_before (length kinds) gap_has_line_break))"

definition input_new :: "token list \<Rightarrow> input" where
  "input_new tokens =
     (let (raw, kinds, line_break_before) = input_scan 0 tokens False [] [] []
      in \<lparr>in_tokens = tokens, in_raw = raw, in_kinds = kinds,
          in_line_break_before = line_break_before\<rparr>)"

definition input_len :: "input \<Rightarrow> nat" where
  "input_len inp = length (in_kinds inp)"

definition input_kind :: "input \<Rightarrow> nat \<Rightarrow> token_kind option" where
  "input_kind inp pos = get (in_kinds inp) pos"

definition input_token :: "input \<Rightarrow> nat \<Rightarrow> token option" where
  "input_token inp pos = Option.bind (get (in_raw inp) pos) (get (in_tokens inp))"

definition input_text :: "input \<Rightarrow> nat \<Rightarrow> ustring" where
  "input_text inp pos = (case input_token inp pos of None \<Rightarrow> [] | Some t \<Rightarrow> tk_text t)"

definition raw_at :: "input \<Rightarrow> nat \<Rightarrow> nat" where
  "raw_at inp pos =
     (case get (in_raw inp) pos of None \<Rightarrow> length (in_tokens inp) | Some index \<Rightarrow> index)"

definition input_a_gap_precedes :: "input \<Rightarrow> nat \<Rightarrow> bool" where
  "input_a_gap_precedes inp pos =
     (if pos = 0 then raw_at inp pos \<noteq> 0
      else case get (in_raw inp) (pos - 1) of
             None \<Rightarrow> False
           | Some raw \<Rightarrow> raw_at inp pos \<noteq> raw + 1)"

definition input_a_line_break_precedes :: "input \<Rightarrow> nat \<Rightarrow> bool" where
  "input_a_line_break_precedes inp pos =
     (if pos = 0 then False
      else test_bit_at (in_line_break_before inp) (min pos (length (in_kinds inp))))"


section \<open>What the input is\<close>

text \<open>The trivia in front of each significant token, and behind the last one.\<close>

fun gaps :: "token list \<Rightarrow> token list list" where
  "gaps [] = [[]]"
| "gaps (t # ts) =
     (if is_trivia (tk_kind t) then (t # hd (gaps ts)) # tl (gaps ts) else [] # gaps ts)"

definition significant :: "token list \<Rightarrow> token list" where
  "significant ts = filter (\<lambda>t. \<not> is_trivia (tk_kind t)) ts"

definition significant_indices :: "token list \<Rightarrow> nat list" where
  "significant_indices ts = filter (\<lambda>i. \<not> is_trivia (tk_kind (ts ! i))) [0..<length ts]"

definition breaks_line :: "token list \<Rightarrow> bool" where
  "breaks_line g = (\<exists>t \<in> set g. tk_kind t \<in> {T_Newline, T_Comment})"

lemma gaps_not_Nil [simp]: "gaps ts \<noteq> []"
  by (cases ts) auto

lemma length_gaps: "length (gaps ts) = Suc (length (significant ts))"
  by (induction ts) (auto simp: significant_def)

text \<open>
  The loop computes the three sequences by their definitions: a scan over the lexemes
  still to come extends each of them in step.
\<close>

lemma input_scan_kinds:
  "fst (snd (input_scan i ts gap raw kinds lb)) = kinds @ map tk_kind (significant ts)"
  by (induction i ts gap raw kinds lb rule: input_scan.induct) (simp_all add: significant_def)

lemma input_scan_raw:
  "fst (input_scan i ts gap raw kinds lb)
     = raw @ map (\<lambda>j. i + j) (filter (\<lambda>j. \<not> is_trivia (tk_kind (ts ! j))) [0..<length ts])"
proof (induction i ts gap raw kinds lb rule: input_scan.induct)
  case (2 index token tokens gap raw kinds lb)
  have "[0..<length (token # tokens)] = 0 # map Suc [0..<length tokens]"
    by (simp add: map_Suc_upt upt_conv_Cons del: upt_Suc)
  then show ?case
    using 2 by (simp add: filter_map o_def del: upt_Suc)
qed simp

lemma input_scan_bits:
  assumes "lb = line_bits.set_all bs" and "length bs = length kinds"
  shows "snd (snd (input_scan i ts gap raw kinds lb)) =
    line_bits.set_all (bs @ (gap \<or> breaks_line (hd (gaps ts))) # map breaks_line (tl (gaps ts)))"
  using assms
proof (induction i ts gap raw kinds lb arbitrary: bs rule: input_scan.induct)
  case (1 index gap raw kinds lb)
  then show ?case
    by (simp add: line_bits.set_all_snoc breaks_line_def)
next
  case (2 index token tokens gap raw kinds lb)
  show ?case
  proof (cases "is_trivia (tk_kind token)")
    case True
    then show ?thesis
      using "2.IH"(1) [OF True "2.prems"] by (simp add: breaks_line_def disj_assoc)
  next
    case False
    have "gaps tokens = hd (gaps tokens) # tl (gaps tokens)"
      by simp
    then have "map breaks_line (gaps tokens)
        = breaks_line (hd (gaps tokens)) # map breaks_line (tl (gaps tokens))"
      by (metis list.simps(9))
    with False "2.IH"(2) [of "bs @ [gap]"] "2.prems" show ?thesis
      by (simp add: line_bits.set_all_snoc) (simp add: breaks_line_def)
  qed
qed

lemma input_new_fields [simp]:
  "in_tokens (input_new ts) = ts"
  "in_kinds (input_new ts) = map tk_kind (significant ts)"
  "in_raw (input_new ts) = significant_indices ts"
  using input_scan_kinds [of 0 ts False "[]" "[]" "[]"] input_scan_raw [of 0 ts False "[]" "[]" "[]"]
  by (simp_all add: input_new_def split_def significant_indices_def)

lemma input_new_bits:
  "test_bit_at (in_line_break_before (input_new ts)) j
     \<longleftrightarrow> j < length (gaps ts) \<and> breaks_line (gaps ts ! j)"
proof -
  have "in_line_break_before (input_new ts) = line_bits.set_all (map breaks_line (gaps ts))"
    using input_scan_bits [of "[]" "[]" "[]" 0 ts False "[]"]
    by (cases "gaps ts") (simp_all add: input_new_def Let_def split_def line_bits.set_all_def)
  then show ?thesis
    by (auto simp: line_bits.test_set_all)
qed

lemma length_significant_indices: "length (significant_indices ts) = length (significant ts)"
proof -
  have "significant ts = map (\<lambda>i. ts ! i) (significant_indices ts)"
    unfolding significant_def significant_indices_def
    by (metis (no_types, lifting) filter_cong filter_map map_nth o_def)
  then show ?thesis
    by (metis length_map)
qed

lemma input_len_new [simp]: "input_len (input_new ts) = length (significant ts)"
  by (simp add: input_len_def)

text \<open>The answer of the bit map is the norm of the source: it is about the gap in front.\<close>

lemma a_line_break_precedes_gap:
  "input_a_line_break_precedes (input_new ts) pos \<longleftrightarrow>
     pos \<noteq> 0 \<and> breaks_line (gaps ts ! min pos (length (significant ts)))"
  by (auto simp: input_a_line_break_precedes_def input_new_bits length_gaps)


section \<open>Token sets\<close>

type_synonym token_set = "128 word"

definition token_set_new :: "token_kind list \<Rightarrow> token_set" where
  "token_set_new kinds = fold (\<lambda>k bits. bits OR push_bit (token_discr k) 1) kinds 0"

definition token_set_empty :: token_set where
  "token_set_empty = 0"

definition token_set_contains :: "token_set \<Rightarrow> token_kind \<Rightarrow> bool" where
  "token_set_contains s kind \<longleftrightarrow> s AND push_bit (token_discr kind) 1 \<noteq> 0"

definition token_set_union :: "token_set \<Rightarrow> token_set \<Rightarrow> token_set" where
  "token_set_union s t = s OR t"

definition token_set_is_empty :: "token_set \<Rightarrow> bool" where
  "token_set_is_empty s \<longleftrightarrow> s = 0"

lemma token_set_contains_bit: "token_set_contains s k = bit s (token_discr k)"
  by (simp add: token_set_contains_def bit_iff_and_push_bit_not_eq_0)

lemma token_set_fold_bit:
  "bit (fold (\<lambda>k bits. bits OR push_bit (token_discr k) 1) ks s) n
     \<longleftrightarrow> bit (s :: token_set) n \<or> (n < 128 \<and> n \<in> token_discr ` set ks)"
  by (induction ks arbitrary: s) (auto simp: bit_or_iff bit_exp_iff)

lemma token_set_contains_new:
  "token_set_contains (token_set_new ks) k \<longleftrightarrow> token_discr k < 128 \<and> k \<in> set ks"
  unfolding token_set_contains_bit token_set_new_def token_set_fold_bit
  by (auto dest: token_kind.expand [rotated])

lemma token_set_contains_union [simp]:
  "token_set_contains (token_set_union s t) k \<longleftrightarrow> token_set_contains s k \<or> token_set_contains t k"
  by (simp add: token_set_contains_bit token_set_union_def bit_or_iff)

lemma token_set_contains_empty [simp]: "\<not> token_set_contains token_set_empty k"
  by (simp add: token_set_contains_def token_set_empty_def)

lemma token_set_is_empty_new: "token_set_is_empty (token_set_new ks)
    \<longleftrightarrow> (\<forall>k \<in> set ks. \<not> token_discr k < 128)"
proof -
  have "token_set_is_empty (token_set_new ks) \<longleftrightarrow> (\<forall>n. \<not> bit (token_set_new ks) n)"
    unfolding token_set_is_empty_def bit_eq_iff by (metis bit_0_eq bot_apply bot_bool_def impossible_bit)
  then show ?thesis
    unfolding token_set_new_def token_set_fold_bit by auto
qed

end
