(* ===== verification/Torn_If.thy ===== *)
theory Torn_If
  imports Parser_Input
begin

text \<open>
  The conditional groups of a module (\<open>parser/src/parser/torn_if.rs\<close>): which
  \<open>#If ... #EndIf\<close> groups are closed, whether each of their branches holds whole
  constructs, and which branch is read when a group tears a construct apart. Positions
  are positions among the significant tokens; the source's \<open>kind\<close> callback is the list
  \<open>ks\<close> of their kinds. The loops scan forward over that list, so they are functions
  with the distance to its end as their measure; the condition evaluator and the walk,
  which call themselves on what they have just skipped over, carry fuel, and the lemmas
  below show that the fuel they are given is always enough.
\<close>

type_synonym kinds = "token_kind list"

record conditional =
  c_open :: nat
  c_close :: nat
  c_balanced :: bool
  c_active :: "(nat \<times> nat) option"

record branch =
  b_body :: "nat \<times> nat"
  b_holds :: bool

datatype block = BlockIf | BlockLoop | BlockTry | BlockProcedure | BlockFunction


section \<open>Collecting the closed groups\<close>

text \<open>The inner loop over text an extension removed: it stops in front of the end marker.\<close>

function skip_removed :: "kinds \<Rightarrow> nat \<Rightarrow> nat" where
  "skip_removed ks pos =
     (if get ks (pos + 1) \<in> {Some T_PreEndDelete, None} then pos + 1
      else skip_removed ks (pos + 1))"
  by pat_completeness auto
termination
  by (relation "measure (\<lambda>(ks, pos). length ks - pos)") (auto simp: get_def split: if_splits)

declare skip_removed.simps [simp del]

lemma skip_removed_greater: "pos < skip_removed ks pos"
  by (induction ks pos rule: skip_removed.induct) (subst skip_removed.simps, auto)

text \<open>
  The scan for directives: \<open>open_groups\<close> is the stack of groups not yet closed, innermost
  first, \<open>raw\<close> the closed groups in the order they close.
\<close>

function scan_groups ::
  "kinds \<Rightarrow> nat \<Rightarrow> (nat \<times> nat list) list \<Rightarrow> (nat \<times> nat list \<times> nat) list
    \<Rightarrow> (nat \<times> nat list \<times> nat) list" where
  "scan_groups ks pos open_groups raw =
     (case get ks pos of
        None \<Rightarrow> raw
      | Some k \<Rightarrow>
          if k = T_PreIf then scan_groups ks (pos + 1) ((pos, []) # open_groups) raw
          else if k = T_PreElsIf \<or> k = T_PreElse then
            scan_groups ks (pos + 1)
              (case open_groups of
                 [] \<Rightarrow> []
               | (start, clauses) # rest \<Rightarrow> (start, clauses @ [pos]) # rest) raw
          else if k = T_PreEndIf then
            (case open_groups of
               [] \<Rightarrow> scan_groups ks (pos + 1) [] raw
             | (start, clauses) # rest \<Rightarrow>
                 scan_groups ks (pos + 1) rest (raw @ [(start, clauses, pos)]))
          else if k = T_PreDelete then scan_groups ks (skip_removed ks pos + 1) open_groups raw
          else scan_groups ks (pos + 1) open_groups raw)"
  by pat_completeness auto
termination
proof (relation "measure (\<lambda>(ks, pos, open_groups, raw). length ks - pos)", goal_cases)
  case (6 ks pos open_groups raw k)
  then show ?case
    using skip_removed_greater [of pos ks] by (simp add: get_eq_Some) linarith
qed (auto simp: get_eq_Some)

declare scan_groups.simps [simp del]


section \<open>Conditions\<close>

definition cond_peek :: "kinds \<Rightarrow> nat \<Rightarrow> nat \<Rightarrow> token_kind option" where
  "cond_peek ks stop at = (if at < stop then get ks at else None)"

text \<open>
  The evaluator of \<open>Condition\<close>: each function returns the value and the position it
  stopped at. The two loops take the evaluator of their operands as an argument, and
  the operand, which calls itself behind a \<open>Not\<close> or a parenthesis, closes the circle.
\<close>

type_synonym evaluator = "nat \<Rightarrow> (bool \<times> nat) option"

primrec cond_and_loop :: "nat \<Rightarrow> evaluator \<Rightarrow> kinds \<Rightarrow> nat \<Rightarrow> bool \<Rightarrow> evaluator" where
  "cond_and_loop 0 operand ks stop v at = None"
| "cond_and_loop (Suc n) operand ks stop v at =
     (if cond_peek ks stop at = Some T_KwAnd then
        Option.bind (operand (at + 1))
          (\<lambda>(rhs, at). cond_and_loop n operand ks stop (v \<and> rhs) at)
      else Some (v, at))"

definition cond_and :: "evaluator \<Rightarrow> kinds \<Rightarrow> nat \<Rightarrow> evaluator" where
  "cond_and operand ks stop at =
     Option.bind (operand at)
       (\<lambda>(v, at). cond_and_loop (Suc (stop - at)) operand ks stop v at)"

primrec cond_or_loop :: "nat \<Rightarrow> evaluator \<Rightarrow> kinds \<Rightarrow> nat \<Rightarrow> bool \<Rightarrow> evaluator" where
  "cond_or_loop 0 operand ks stop v at = None"
| "cond_or_loop (Suc n) operand ks stop v at =
     (if cond_peek ks stop at = Some T_KwOr then
        Option.bind (cond_and operand ks stop (at + 1))
          (\<lambda>(rhs, at). cond_or_loop n operand ks stop (v \<or> rhs) at)
      else Some (v, at))"

definition cond_or :: "evaluator \<Rightarrow> kinds \<Rightarrow> nat \<Rightarrow> evaluator" where
  "cond_or operand ks stop at =
     Option.bind (cond_and operand ks stop at)
       (\<lambda>(v, at). cond_or_loop (Suc (stop - at)) operand ks stop v at)"

primrec cond_operand :: "nat \<Rightarrow> kinds \<Rightarrow> nat \<Rightarrow> evaluator" where
  "cond_operand 0 ks stop at = None"
| "cond_operand (Suc n) ks stop at =
     (if cond_peek ks stop at = None then Some (True, at)
      else if cond_peek ks stop at = Some T_KwNot then
        map_option (\<lambda>(v, at). (\<not> v, at)) (cond_operand n ks stop (at + 1))
      else if cond_peek ks stop at = Some T_LParen then
        map_option (\<lambda>(v, at). (v, if cond_peek ks stop at = Some T_RParen then at + 1 else at))
          (cond_or (cond_operand n ks stop) ks stop (at + 1))
      else Some (True, at + 1))"

definition cond_holds :: "kinds \<Rightarrow> nat \<Rightarrow> nat \<Rightarrow> bool" where
  "cond_holds ks at stop =
     (case cond_or (cond_operand (Suc (stop - at)) ks stop) ks stop at of
        Some (v, _) \<Rightarrow> v | None \<Rightarrow> False)"

lemma cond_peek_Some: "cond_peek ks stop at = Some k \<Longrightarrow> at < stop"
  by (simp add: cond_peek_def split: if_splits)

text \<open>
  An evaluator is defined from a position on when it returns there and never moves
  back. The loops and the two levels built on them inherit that from the operand.
\<close>

definition defined_from :: "nat \<Rightarrow> evaluator \<Rightarrow> bool" where
  "defined_from at0 f \<longleftrightarrow> (\<forall>at \<ge> at0. \<exists>v at'. f at = Some (v, at') \<and> at \<le> at')"

lemma defined_fromE:
  assumes "defined_from at0 f" and "at0 \<le> at"
  obtains v at' where "f at = Some (v, at')" and "at \<le> at'"
  using assms unfolding defined_from_def by blast

lemma cond_and_loop_defined:
  assumes "defined_from at0 operand"
  shows "at0 \<le> at \<Longrightarrow> stop - at < n \<Longrightarrow>
    \<exists>v' at'. cond_and_loop n operand ks stop v at = Some (v', at') \<and> at \<le> at'"
proof (induction n arbitrary: v at)
  case (Suc n)
  show ?case
  proof (cases "cond_peek ks stop at = Some T_KwAnd")
    case True
    obtain w at1 where *: "operand (at + 1) = Some (w, at1)" "at + 1 \<le> at1"
      using defined_fromE [OF assms, of "at + 1"] Suc.prems by auto
    with Suc.prems cond_peek_Some [OF True] Suc.IH [of at1 "v \<and> w"] True show ?thesis
      by fastforce
  qed simp
qed simp

lemma cond_and_defined: "defined_from at0 operand \<Longrightarrow> defined_from at0 (cond_and operand ks stop)"
  unfolding defined_from_def [of at0 "cond_and operand ks stop"]
proof (intro allI impI)
  fix at
  assume d: "defined_from at0 operand" and "at0 \<le> at"
  then obtain v at1 where *: "operand at = Some (v, at1)" "at \<le> at1"
    by (rule defined_fromE)
  with \<open>at0 \<le> at\<close> cond_and_loop_defined [OF d, of at1 stop "Suc (stop - at1)" ks v]
  show "\<exists>v at'. cond_and operand ks stop at = Some (v, at') \<and> at \<le> at'"
    by (fastforce simp: cond_and_def simp del: cond_and_loop.simps)
qed

lemma cond_or_loop_defined:
  assumes "defined_from at0 operand"
  shows "at0 \<le> at \<Longrightarrow> stop - at < n \<Longrightarrow>
    \<exists>v' at'. cond_or_loop n operand ks stop v at = Some (v', at') \<and> at \<le> at'"
proof (induction n arbitrary: v at)
  case (Suc n)
  show ?case
  proof (cases "cond_peek ks stop at = Some T_KwOr")
    case True
    obtain w at1 where *: "cond_and operand ks stop (at + 1) = Some (w, at1)" "at + 1 \<le> at1"
      using defined_fromE [OF cond_and_defined [OF assms, of ks stop], of "at + 1"] Suc.prems by auto
    with Suc.prems cond_peek_Some [OF True] Suc.IH [of at1 "v \<or> w"] True show ?thesis
      by fastforce
  qed simp
qed simp

lemma cond_or_defined: "defined_from at0 operand \<Longrightarrow> defined_from at0 (cond_or operand ks stop)"
  unfolding defined_from_def [of at0 "cond_or operand ks stop"]
proof (intro allI impI)
  fix at
  assume d: "defined_from at0 operand" and "at0 \<le> at"
  then obtain v at1 where *: "cond_and operand ks stop at = Some (v, at1)" "at \<le> at1"
    using defined_fromE [OF cond_and_defined [OF d, of ks stop]] by blast
  with \<open>at0 \<le> at\<close> cond_or_loop_defined [OF d, of at1 stop "Suc (stop - at1)" ks v]
  show "\<exists>v at'. cond_or operand ks stop at = Some (v, at') \<and> at \<le> at'"
    by (fastforce simp: cond_or_def simp del: cond_or_loop.simps)
qed

lemma cond_operand_defined: "stop - at0 < n \<Longrightarrow> defined_from at0 (cond_operand n ks stop)"
proof (induction n arbitrary: at0)
  case (Suc n)
  show ?case
    unfolding defined_from_def
  proof (intro allI impI)
    fix at
    assume "at0 \<le> at"
    show "\<exists>v at'. cond_operand (Suc n) ks stop at = Some (v, at') \<and> at \<le> at'"
    proof (cases "cond_peek ks stop at")
      case (Some k)
      then have "at < stop"
        by (rule cond_peek_Some)
      with Suc.prems \<open>at0 \<le> at\<close> have d: "defined_from (at + 1) (cond_operand n ks stop)"
        by (intro Suc.IH) simp
      then obtain v at1 w at2 where
        "cond_operand n ks stop (at + 1) = Some (v, at1)" "at + 1 \<le> at1"
        "cond_or (cond_operand n ks stop) ks stop (at + 1) = Some (w, at2)" "at + 1 \<le> at2"
        using cond_or_defined [OF d, of ks stop] unfolding defined_from_def by (metis order_refl)
      with Some show ?thesis
        by auto
    qed auto
  qed
qed simp

text \<open>So the value of a condition is always computed, never the default of \<open>cond_holds\<close>.\<close>

lemma cond_holds_defined:
  "\<exists>v at'. cond_or (cond_operand (Suc (stop - at)) ks stop) ks stop at = Some (v, at')"
  using cond_or_defined [OF cond_operand_defined [of stop at "Suc (stop - at)" ks], of ks stop]
  unfolding defined_from_def by (metis lessI order_refl)


section \<open>Branches\<close>

text \<open>The branches of a group; \<open>None\<close> when a header has no \<open>Then\<close> before its end.\<close>

fun branches_from :: "kinds \<Rightarrow> nat list \<Rightarrow> nat \<Rightarrow> branch list option" where
  "branches_from ks [] close = Some []"
| "branches_from ks (directive # rest) close =
     (let stop = (case rest of [] \<Rightarrow> close | next_directive # _ \<Rightarrow> next_directive) in
      if get ks directive = Some T_PreElse then
        map_option (\<lambda>bs. \<lparr>b_body = (directive + 1, stop), b_holds = True\<rparr> # bs)
          (branches_from ks rest close)
      else
        case find (\<lambda>at. get ks at = Some T_KwThen) [directive + 1..<stop] of
          None \<Rightarrow> None
        | Some then_at \<Rightarrow>
            map_option (\<lambda>bs. \<lparr>b_body = (then_at + 1, stop),
                              b_holds = cond_holds ks (directive + 1) then_at\<rparr> # bs)
              (branches_from ks rest close))"

definition branches :: "kinds \<Rightarrow> nat \<Rightarrow> nat list \<Rightarrow> nat \<Rightarrow> branch list option" where
  "branches ks start clauses close = branches_from ks (start # clauses) close"


section \<open>Walking code\<close>

definition is_annotation_kind :: "token_kind \<Rightarrow> bool" where
  "is_annotation_kind k \<longleftrightarrow> k \<in> {T_AnnAtClient, T_AnnAtServer, T_AnnAtServerNoContext,
     T_AnnAtClientAtServer, T_AnnAtClientAtServerNoContext, T_AnnBefore, T_AnnAfter,
     T_AnnAround, T_AnnChangeAndValidate, T_AnnCustom}"

definition opens_block :: "token_kind \<Rightarrow> block option" where
  "opens_block k =
     (if k = T_KwIf then Some BlockIf
      else if k = T_KwWhile \<or> k = T_KwFor then Some BlockLoop
      else if k = T_KwTry then Some BlockTry
      else if k = T_KwProcedure then Some BlockProcedure
      else if k = T_KwFunction then Some BlockFunction
      else None)"

definition closes_block :: "token_kind \<Rightarrow> block option" where
  "closes_block k =
     (if k = T_KwEndIf then Some BlockIf
      else if k = T_KwEndDo then Some BlockLoop
      else if k = T_KwEndTry then Some BlockTry
      else if k = T_KwEndProcedure then Some BlockProcedure
      else if k = T_KwEndFunction then Some BlockFunction
      else None)"

definition continues_block :: "token_kind \<Rightarrow> block option" where
  "continues_block k =
     (if k = T_KwElsIf \<or> k = T_KwElse then Some BlockIf
      else if k = T_KwExcept then Some BlockTry
      else None)"

text \<open>
  One word of the walk, behind neither a dot nor a tilde. The stack of open blocks is
  a list, innermost first.
\<close>

definition walk_word :: "token_kind \<Rightarrow> bool \<Rightarrow> bool \<Rightarrow> block list \<Rightarrow> bool \<times> bool \<times> block list" where
  "walk_word k whole annotated blocks =
     (let annotated =
            (if is_annotation_kind k then True
             else if k \<in> {T_KwProcedure, T_KwFunction, T_KwVar} then False
             else annotated)
      in case opens_block k of
           Some b \<Rightarrow> (whole, annotated, b # blocks)
         | None \<Rightarrow>
             case closes_block k of
               Some b \<Rightarrow>
                 (case blocks of
                    innermost # rest \<Rightarrow> if innermost = b then (whole, annotated, rest) else (False, annotated, blocks)
                  | [] \<Rightarrow> (False, annotated, blocks))
             | None \<Rightarrow>
                 case continues_block k of
                   Some b \<Rightarrow> (whole \<and> (case blocks of innermost # _ \<Rightarrow> innermost = b | [] \<Rightarrow> False), annotated, blocks)
                 | None \<Rightarrow> (whole, annotated, blocks))"

function skip_to_end_delete :: "kinds \<Rightarrow> nat \<Rightarrow> nat \<Rightarrow> nat" where
  "skip_to_end_delete ks stop at =
     (if at < stop \<and> get ks at \<noteq> Some T_PreEndDelete then skip_to_end_delete ks stop (at + 1)
      else at)"
  by pat_completeness auto
termination
  by (relation "measure (\<lambda>(ks, stop, at). stop - at)") auto

declare skip_to_end_delete.simps [simp del]

lemma skip_to_end_delete_ge: "at \<le> skip_to_end_delete ks stop at"
  by (induction ks stop at rule: skip_to_end_delete.induct) (subst skip_to_end_delete.simps, auto)

text \<open>The brackets of a token: the depth after it, and whether the depth stayed legal.\<close>

definition walk_bracket :: "token_kind \<Rightarrow> bool \<Rightarrow> int \<Rightarrow> bool \<times> int" where
  "walk_bracket k whole brackets =
     (if k = T_LParen \<or> k = T_LBracket then (whole, brackets + 1)
      else if k = T_RParen \<or> k = T_RBracket then (whole \<and> brackets - 1 \<ge> 0, brackets - 1)
      else (whole, brackets))"

text \<open>
  The loop of \<open>walk\<close>: \<open>groups\<close> is the look-up \<open>by_open\<close> makes in the groups decided so
  far. A nested group that is balanced counts as nothing, a torn one as the branch that
  is read.
\<close>

fun walk_from ::
  "nat \<Rightarrow> kinds \<Rightarrow> (nat \<Rightarrow> conditional option) \<Rightarrow> nat \<Rightarrow> bool \<Rightarrow> bool \<Rightarrow> int \<Rightarrow> nat \<Rightarrow> block list
    \<Rightarrow> (bool \<times> block list) option" where
  "walk_from 0 ks groups stop whole annotated brackets at blocks = None"
| "walk_from (Suc n) ks groups stop whole annotated brackets at blocks =
     (if \<not> (at < stop) \<or> get ks at = None
      then Some (whole \<and> \<not> annotated \<and> brackets = 0, blocks)
      else
        let k = ks ! at in
        case (if k = T_PreIf then groups at else None) of
          Some grp \<Rightarrow>
            (case (if c_balanced grp then None else c_active grp) of
               Some (from_at, to_at) \<Rightarrow>
                 Option.bind (walk_from n ks groups to_at True False 0 from_at blocks)
                   (\<lambda>(w, blocks).
                      walk_from n ks groups stop (whole \<and> w) annotated brackets
                        (c_close grp + 1) blocks)
             | None \<Rightarrow>
                 walk_from n ks groups stop whole annotated brackets (c_close grp + 1) blocks)
        | None \<Rightarrow>
            let (whole, brackets) = walk_bracket k whole brackets in
            if k = T_PreDelete then
              walk_from n ks groups stop whole annotated brackets
                (skip_to_end_delete ks stop at + 1) blocks
            else if at > 0 \<and> get ks (at - 1) \<in> {Some T_Dot, Some T_Tilde} then
              walk_from n ks groups stop whole annotated brackets (at + 1) blocks
            else
              let (whole, annotated, blocks) = walk_word k whole annotated blocks in
              walk_from n ks groups stop whole annotated brackets (at + 1) blocks)"

definition group_at :: "conditional list \<Rightarrow> nat \<Rightarrow> conditional option" where
  "group_at groups at = find (\<lambda>g. c_open g = at) groups"

text \<open>\<open>walk\<close> over one range, with no block open; \<open>true\<close> and no block left is "whole".\<close>

definition walk_whole :: "kinds \<Rightarrow> nat \<times> nat \<Rightarrow> conditional list \<Rightarrow> bool" where
  "walk_whole ks span groups =
     (walk_from (Suc (length ks - fst span)) ks (group_at groups) (snd span) True False 0
        (fst span) [] = Some (True, []))"


section \<open>The decided groups\<close>

definition decide_group ::
  "kinds \<Rightarrow> nat \<times> nat list \<times> nat \<Rightarrow> conditional list \<Rightarrow> conditional list" where
  "decide_group ks raw decided =
     (case raw of (start, clauses, close) \<Rightarrow>
        case branches ks start clauses close of
          None \<Rightarrow> decided
        | Some bs \<Rightarrow>
            decided @
              [\<lparr>c_open = start, c_close = close,
                c_balanced = list_all (\<lambda>b. walk_whole ks (b_body b) decided) bs,
                c_active = map_option b_body (find b_holds bs)\<rparr>])"

definition conditionals :: "kinds \<Rightarrow> conditional list" where
  "conditionals ks =
     sort_key c_open (fold (decide_group ks) (scan_groups ks 0 [] []) [])"

definition whole :: "kinds \<Rightarrow> conditional list \<Rightarrow> bool" where
  "whole ks groups = walk_whole ks (0, length ks) groups"


section \<open>The shape of the groups\<close>

text \<open>
  A raw group lists its directives in the order of the text, from the \<open>#If\<close> to the
  \<open>#EndIf\<close>; no \<open>#If\<close> opens two groups.
\<close>

definition raw_ok :: "kinds \<Rightarrow> nat \<times> nat list \<times> nat \<Rightarrow> bool" where
  "raw_ok ks r = (case r of (start, clauses, close) \<Rightarrow>
     get ks start = Some T_PreIf \<and> get ks close = Some T_PreEndIf \<and>
     sorted_wrt (<) (start # clauses @ [close]))"

definition open_ok :: "kinds \<Rightarrow> nat \<Rightarrow> nat \<times> nat list \<Rightarrow> bool" where
  "open_ok ks pos r = (case r of (start, clauses) \<Rightarrow>
     get ks start = Some T_PreIf \<and> sorted_wrt (<) (start # clauses) \<and>
     (\<forall>x \<in> set (start # clauses). x < pos))"

lemma open_ok_mono: "open_ok ks pos r \<Longrightarrow> pos \<le> pos' \<Longrightarrow> open_ok ks pos' r"
  by (auto simp: open_ok_def split: prod.splits)

definition scan_inv ::
  "kinds \<Rightarrow> nat \<Rightarrow> (nat \<times> nat list) list \<Rightarrow> (nat \<times> nat list \<times> nat) list \<Rightarrow> bool" where
  "scan_inv ks pos open_groups raw \<longleftrightarrow>
     (\<forall>r \<in> set open_groups. open_ok ks pos r) \<and> (\<forall>r \<in> set raw. raw_ok ks r) \<and>
     distinct (map fst open_groups @ map fst raw) \<and> (\<forall>r \<in> set raw. fst r < pos)"

lemma scan_inv_skip: "scan_inv ks pos og raw \<Longrightarrow> pos \<le> pos' \<Longrightarrow> scan_inv ks pos' og raw"
  unfolding scan_inv_def using open_ok_mono by (metis order_less_le_trans)

lemma scan_inv_open:
  assumes "scan_inv ks pos og raw" and "get ks pos = Some T_PreIf"
  shows "scan_inv ks (pos + 1) ((pos, []) # og) raw"
  using assms open_ok_mono [of ks pos _ "pos + 1"]
  by (fastforce simp: scan_inv_def open_ok_def split: prod.splits)

lemma scan_inv_clause:
  assumes "scan_inv ks pos ((start, clauses) # og) raw"
  shows "scan_inv ks (pos + 1) ((start, clauses @ [pos]) # og) raw"
  using assms open_ok_mono [of ks pos _ "pos + 1"]
  by (fastforce simp: scan_inv_def open_ok_def sorted_wrt_append split: prod.splits)

lemma scan_inv_close:
  assumes "scan_inv ks pos ((start, clauses) # og) raw" and "get ks pos = Some T_PreEndIf"
  shows "scan_inv ks (pos + 1) og (raw @ [(start, clauses, pos)])"
  using assms open_ok_mono [of ks pos _ "pos + 1"]
  by (fastforce simp: scan_inv_def open_ok_def raw_ok_def sorted_wrt_append split: prod.splits)

lemma scan_groups_inv:
  "scan_inv ks pos og raw \<Longrightarrow> \<exists>pos' og'. scan_inv ks pos' og' (scan_groups ks pos og raw)"
proof (induction ks pos og raw rule: scan_groups.induct)
  case (1 ks pos og raw)
  show ?case
  proof (cases "get ks pos")
    case None
    with 1 show ?thesis
      by (auto simp: scan_groups.simps [of ks pos])
  next
    case (Some k)
    have step: "scan_inv ks (pos + 1) og raw"
      using "1.prems" by (rule scan_inv_skip) simp
    have skip: "scan_inv ks (skip_removed ks pos + 1) og raw"
      using "1.prems" by (rule scan_inv_skip) (use skip_removed_greater [of pos ks] in simp)
    show ?thesis
    proof (cases og)
      case Nil
      with Some 1 step skip scan_inv_open [of ks pos og raw] show ?thesis
        by (simp add: scan_groups.simps [of ks pos])
    next
      case (Cons g rest)
      obtain start clauses where g: "g = (start, clauses)"
        by (cases g)
      with Some 1 step skip Cons scan_inv_open [of ks pos og raw]
        scan_inv_clause [of ks pos start clauses rest raw]
        scan_inv_close [of ks pos start clauses rest raw]
      show ?thesis
        by (simp add: scan_groups.simps [of ks pos])
    qed
  qed
qed

lemma scan_groups_ok:
  "(\<forall>r \<in> set (scan_groups ks 0 [] []). raw_ok ks r) \<and> distinct (map fst (scan_groups ks 0 [] []))"
  using scan_groups_inv [of ks 0 "[]" "[]"] by (auto simp: scan_inv_def)

text \<open>A group as the parser may rely on it.\<close>

definition group_ok :: "kinds \<Rightarrow> conditional \<Rightarrow> bool" where
  "group_ok ks g \<longleftrightarrow>
     get ks (c_open g) = Some T_PreIf \<and> get ks (c_close g) = Some T_PreEndIf \<and>
     c_open g < c_close g \<and>
     (\<forall>from_at to_at. c_active g = Some (from_at, to_at) \<longrightarrow>
        c_open g < from_at \<and> from_at \<le> to_at \<and> to_at \<le> c_close g)"

lemma find_upt_bounds: "find P [a..<b] = Some x \<Longrightarrow> a \<le> x \<and> x < b"
  by (metis atLeastLessThan_iff find_Some_iff nth_mem set_upt)

lemma branches_from_bodies:
  "branches_from ks ds close = Some bs \<Longrightarrow> sorted_wrt (<) (ds @ [close]) \<Longrightarrow> b \<in> set bs \<Longrightarrow>
     hd ds < fst (b_body b) \<and> fst (b_body b) \<le> snd (b_body b) \<and> snd (b_body b) \<le> close"
proof (induction ds arbitrary: bs)
  case (Cons d rest)
  define stop where "stop = (case rest of [] \<Rightarrow> close | x # _ \<Rightarrow> x)"
  have stop: "d < stop" "stop \<le> close"
    using Cons.prems(2) by (auto simp: stop_def split: list.splits)
  from Cons.prems(1) obtain b1 bs' where bs: "bs = b1 # bs'" and rest: "branches_from ks rest close = Some bs'"
    and b1: "d < fst (b_body b1) \<and> fst (b_body b1) \<le> snd (b_body b1) \<and> snd (b_body b1) \<le> close"
    using stop find_upt_bounds [of "\<lambda>at. get ks at = Some T_KwThen" "d + 1" stop]
    by (auto simp: stop_def [symmetric] Let_def simp del: upt_Suc split: if_splits option.splits)
  show ?case
  proof (cases "b = b1")
    case False
    with bs Cons.prems(3) have "b \<in> set bs'"
      by simp
    moreover from this rest have "rest \<noteq> []"
      by auto
    moreover have "d < hd rest"
      using Cons.prems(2) \<open>rest \<noteq> []\<close> by (cases rest) auto
    ultimately show ?thesis
      using Cons.IH [OF rest] Cons.prems(2) by (simp, meson hd_in_set less_trans)
  qed (use b1 in simp)
qed simp

lemma branches_bodies:
  assumes "branches ks start clauses close = Some bs" and "raw_ok ks (start, clauses, close)"
    and "b \<in> set bs"
  shows "start < fst (b_body b) \<and> fst (b_body b) \<le> snd (b_body b) \<and> snd (b_body b) \<le> close"
  using branches_from_bodies [of ks "start # clauses" close bs b] assms
  by (simp add: branches_def raw_ok_def)

lemma decide_group_ok:
  assumes "raw_ok ks r" and "\<forall>g \<in> set decided. group_ok ks g"
  shows "\<forall>g \<in> set (decide_group ks r decided). group_ok ks g"
proof -
  obtain start clauses close where r: "r = (start, clauses, close)"
    by (cases r)
  have *: "start < fst (b_body b) \<and> fst (b_body b) \<le> snd (b_body b) \<and> snd (b_body b) \<le> close"
    if "branches ks start clauses close = Some bs" "find b_holds bs = Some b" for bs b
    using branches_bodies [OF that(1)] assms(1) that(2) by (auto simp: r find_Some_iff)
  show ?thesis
    using assms * by (fastforce simp: r decide_group_def group_ok_def raw_ok_def split: option.splits)
qed

lemma decide_all_ok:
  assumes "\<forall>r \<in> set raw. raw_ok ks r" and "\<forall>g \<in> set decided. group_ok ks g"
  shows "\<forall>g \<in> set (fold (decide_group ks) raw decided). group_ok ks g"
  using assms
proof (induction raw arbitrary: decided)
  case (Cons r raw)
  then show ?case
    using decide_group_ok [of ks r decided] by simp
qed simp

lemma decide_all_distinct:
  "distinct (map c_open decided @ map fst raw) \<Longrightarrow>
     distinct (map c_open (fold (decide_group ks) raw decided))"
proof (induction raw arbitrary: decided)
  case (Cons r raw)
  obtain start clauses close where r: "r = (start, clauses, close)"
    by (cases r)
  have "distinct (map c_open (decide_group ks r decided) @ map fst raw)"
    using Cons.prems by (auto simp: r decide_group_def split: option.splits)
  then show ?case
    using Cons.IH by simp
qed simp

lemma conditionals_ok: "g \<in> set (conditionals ks) \<Longrightarrow> group_ok ks g"
  using decide_all_ok [of "scan_groups ks 0 [] []" ks "[]"] scan_groups_ok [of ks]
  by (simp add: conditionals_def)

lemma conditionals_sorted: "sorted_wrt (<) (map c_open (conditionals ks))"
proof -
  have "distinct (map c_open (fold (decide_group ks) (scan_groups ks 0 [] []) []))"
    using decide_all_distinct [of "[]"] scan_groups_ok [of ks] by simp
  then have "distinct (map c_open (conditionals ks))"
    unfolding conditionals_def
    by (metis distinct_map distinct_sort set_sort)
  then show ?thesis
    by (simp add: conditionals_def strict_sorted_iff)
qed

lemma group_at_ok: "group_at (conditionals ks) pos = Some g \<Longrightarrow> group_ok ks g \<and> c_open g = pos"
  unfolding group_at_def by (metis (mono_tags, lifting) conditionals_ok find_Some_iff nth_mem)


section \<open>The walk always finishes\<close>

text \<open>
  The walk is asked about groups that were decided before: each lies ahead of the
  position its \<open>#If\<close> stands at, so every recursive call is closer to the end.
\<close>

lemma walk_from_defined:
  assumes groups: "\<And>at g. groups at = Some g \<Longrightarrow> group_ok ks g \<and> c_open g = at"
  shows "length ks - at < n \<Longrightarrow>
    \<exists>r. walk_from n ks groups stop wh annotated brackets at blocks = Some r"
proof (induction n arbitrary: stop wh annotated brackets at blocks)
  case (Suc n)
  show ?case
  proof (cases "\<not> (at < stop) \<or> get ks at = None")
    case False
    then have at: "at < length ks"
      by (simp add: get_eq_None)
    define skip where "skip = skip_to_end_delete ks stop at"
    have skip: "at \<le> skip"
      by (simp add: skip_def skip_to_end_delete_ge)
    have next_ok: "length ks - (at + 1) < n" "length ks - (skip + 1) < n"
      using Suc.prems at skip by auto
    show ?thesis
    proof (cases "if ks ! at = T_PreIf then groups at else None")
      case (Some g)
      then have g: "group_ok ks g" "c_open g = at"
        using groups by (auto split: if_splits)
      have close: "length ks - (c_close g + 1) < n"
        using g Suc.prems at by (auto simp: group_ok_def)
      show ?thesis
      proof (cases "if c_balanced g then None else c_active g")
        case None
        then show ?thesis
          using Suc.IH [OF close] Some False by (auto simp: Let_def)
      next
        case active: (Some body)
        obtain s e where body: "body = (s, e)"
          by (cases body)
        with active g have "at < s"
          by (auto simp: group_ok_def split: if_splits)
        then have "length ks - s < n"
          using Suc.prems at by simp
        then obtain w bl where "walk_from n ks groups e True False 0 s blocks = Some (w, bl)"
          using Suc.IH [of s e True False 0 blocks] by auto
        then show ?thesis
          using Suc.IH [OF close] Some False active body by (auto simp: Let_def)
      qed
    next
      case None
      then show ?thesis
        using Suc.IH [OF next_ok(1)] Suc.IH [OF next_ok(2)] False
        by (auto simp: Let_def skip_def [symmetric] split: prod.splits)
    qed
  qed simp
qed simp

lemma walk_whole_defined:
  assumes "\<forall>g \<in> set groups. group_ok ks g"
  shows "\<exists>r. walk_from (Suc (length ks - fst span)) ks (group_at groups) (snd span)
    True False 0 (fst span) [] = Some r"
proof (rule walk_from_defined)
  fix at g
  assume "group_at groups at = Some g"
  with assms show "group_ok ks g \<and> c_open g = at"
    by (auto simp: group_at_def find_Some_iff)
qed simp

end
