(* ===== verification/Parser_Core.thy ===== *)
theory Parser_Core
  imports Torn_If
begin

text \<open>
  The parser state and its primitive operations (\<open>parser/src/parser.rs\<close>): the cursor
  over the significant tokens, the event stream with its markers, the recovery of
  \<open>expect\<close> and \<open>error\<close>, the boundaries enclosing rules declare, the bookkeeping of
  torn conditional groups and inline insertions, and the guard against endless loops.

  The predicates the grammar passes as function pointers are the constructors of
  \<open>boundary\<close>. The three \<open>OnceCell\<close> caches of the source hold values that depend on
  the input only; the model computes them where they are read. \<open>char::to_lowercase\<close> is
  a field of the state: the operations do not depend on the case table. Counters of
  type \<open>u32\<close> count tokens of one module and are natural numbers here; subtractions
  the source writes with \<open>saturating_sub\<close> are natural subtractions.
\<close>

section \<open>State\<close>

datatype boundary =
    AtEndProcedure | AtEndFunction | AtEndDo | AtThen | AtPreprocThen | AtHandlerComma
  | AtDo | AtToOrDo | AtIfCloser | AtTryCloser | AtParenListPunctuation | AtClosingParen
  | AtClosingBracket | AtDeclarationStart | AtPreprocCloser

record parser =
  p_input :: input
  p_pos :: nat
  p_events :: "event list"
  p_iteration_count :: nat
  p_recent_positions :: "nat list"
  p_paren_depth :: nat
  p_brace_depth :: nat
  p_at_grammar_boundary :: "boundary option"
  p_enclosing_boundaries :: "boundary list"
  p_names_are_fields :: bool
  p_open_inline_inserts :: nat
  p_open_preproc_ifs :: nat
  p_crossed_preproc_ifs :: "nat list"
  p_open_torn_ifs :: "(nat \<times> nat) list"
  p_to_lowercase :: "uchar \<Rightarrow> ustring"

definition MAX_ITERATIONS :: nat where
  "MAX_ITERATIONS = 1000000"

definition POSITION_HISTORY_SIZE :: nat where
  "POSITION_HISTORY_SIZE = 100"

definition parser_new :: "(uchar \<Rightarrow> ustring) \<Rightarrow> token list \<Rightarrow> parser" where
  "parser_new to_lowercase tokens =
     \<lparr>p_input = input_new tokens, p_pos = 0, p_events = [], p_iteration_count = 0,
      p_recent_positions = [], p_paren_depth = 0, p_brace_depth = 0,
      p_at_grammar_boundary = None, p_enclosing_boundaries = [], p_names_are_fields = False,
      p_open_inline_inserts = 0, p_open_preproc_ifs = 0, p_crossed_preproc_ifs = [],
      p_open_torn_ifs = [], p_to_lowercase = to_lowercase\<rparr>"

definition parser_finish :: "parser \<Rightarrow> event list" where
  "parser_finish p = p_events p"

abbreviation p_kinds :: "parser \<Rightarrow> kinds" where
  "p_kinds p \<equiv> in_kinds (p_input p)"


section \<open>The cursor\<close>

definition nth_kind :: "nat \<Rightarrow> parser \<Rightarrow> token_kind option" where
  "nth_kind n p = input_kind (p_input p) (p_pos p + n)"

definition current :: "parser \<Rightarrow> token_kind option" where
  "current p = nth_kind 0 p"

definition at_tok :: "token_kind \<Rightarrow> parser \<Rightarrow> bool" where
  "at_tok kind p \<longleftrightarrow> current p = Some kind"

text \<open>\<open>matches!(p.current(), Some(k1 | k2 | ...))\<close>\<close>

definition at_any :: "token_kind list \<Rightarrow> parser \<Rightarrow> bool" where
  "at_any kinds p = list_ex (\<lambda>k. at_tok k p) kinds"

definition at_keyword_kind :: "parser \<Rightarrow> bool" where
  "at_keyword_kind p = (case current p of None \<Rightarrow> False | Some k \<Rightarrow> is_keyword k)"

definition at_ts :: "token_set \<Rightarrow> parser \<Rightarrow> bool" where
  "at_ts ts p = (case current p of None \<Rightarrow> False | Some k \<Rightarrow> token_set_contains ts k)"

definition token_pos :: "parser \<Rightarrow> nat" where
  "token_pos p = p_pos p"

definition current_text :: "parser \<Rightarrow> ustring" where
  "current_text p = input_text (p_input p) (p_pos p)"

definition at_end :: "parser \<Rightarrow> bool" where
  "at_end p \<longleftrightarrow> input_len (p_input p) \<le> p_pos p"

definition prev_significant :: "parser \<Rightarrow> token_kind option" where
  "prev_significant p = (if p_pos p = 0 then None else input_kind (p_input p) (p_pos p - 1))"

definition a_line_break_precedes :: "parser \<Rightarrow> bool" where
  "a_line_break_precedes p = input_a_line_break_precedes (p_input p) (p_pos p)"

definition a_gap_precedes :: "parser \<Rightarrow> bool" where
  "a_gap_precedes p = input_a_gap_precedes (p_input p) (p_pos p)"

definition push_event :: "event \<Rightarrow> parser \<Rightarrow> parser" where
  "push_event e p = p\<lparr>p_events := p_events p @ [e]\<rparr>"

definition track_group :: "token_kind \<Rightarrow> parser \<Rightarrow> parser" where
  "track_group kind p =
     (if kind = T_Semicolon then p\<lparr>p_paren_depth := 0, p_brace_depth := 0\<rparr>
      else if kind = T_LBrace then p\<lparr>p_brace_depth := p_brace_depth p + 1\<rparr>
      else if kind = T_RBrace then p\<lparr>p_brace_depth := p_brace_depth p - 1\<rparr>
      else if kind = T_LParen \<and> p_brace_depth p = 0 then p\<lparr>p_paren_depth := p_paren_depth p + 1\<rparr>
      else if kind = T_RParen \<and> p_brace_depth p = 0 then p\<lparr>p_paren_depth := p_paren_depth p - 1\<rparr>
      else p)"

definition bump :: "parser \<Rightarrow> parser" where
  "bump p =
     (case current p of
        None \<Rightarrow> p
      | Some kind \<Rightarrow>
          let p = push_event (Token kind) (track_group kind p)
          in p\<lparr>p_pos := p_pos p + 1\<rparr>)"

definition bump_removed :: "parser \<Rightarrow> parser" where
  "bump_removed p =
     (case current p of
        None \<Rightarrow> p
      | Some kind \<Rightarrow> let p = push_event (Token kind) p in p\<lparr>p_pos := p_pos p + 1\<rparr>)"

definition eat :: "token_kind \<Rightarrow> parser \<Rightarrow> bool \<times> parser" where
  "eat kind p = (if at_tok kind p then (True, bump p) else (False, p))"

definition open_group_count :: "parser \<Rightarrow> nat" where
  "open_group_count p = p_paren_depth p + p_brace_depth p"

definition reset_group_tracking :: "parser \<Rightarrow> parser" where
  "reset_group_tracking p = p\<lparr>p_paren_depth := 0, p_brace_depth := 0\<rparr>"


section \<open>Inline insertions and conditional blocks\<close>

definition bump_inline_insert_marker :: "parser \<Rightarrow> parser" where
  "bump_inline_insert_marker p =
     (if at_tok T_PreInsert p then
        bump (p\<lparr>p_open_inline_inserts := p_open_inline_inserts p + 1\<rparr>)
      else if at_tok T_PreEndInsert p then
        bump (p\<lparr>p_open_inline_inserts := p_open_inline_inserts p - 1\<rparr>)
      else p)"

definition inline_insert_open :: "parser \<Rightarrow> bool" where
  "inline_insert_open p \<longleftrightarrow> 0 < p_open_inline_inserts p"

definition forget_inline_inserts :: "parser \<Rightarrow> parser" where
  "forget_inline_inserts p = p\<lparr>p_open_inline_inserts := 0\<rparr>"

definition take_crossed_preproc_ifs :: "parser \<Rightarrow> nat list \<times> parser" where
  "take_crossed_preproc_ifs p = (p_crossed_preproc_ifs p, p\<lparr>p_crossed_preproc_ifs := []\<rparr>)"

definition restore_crossed_preproc_ifs :: "nat list \<Rightarrow> parser \<Rightarrow> parser" where
  "restore_crossed_preproc_ifs outer p = p\<lparr>p_crossed_preproc_ifs := outer\<rparr>"

definition enter_preproc_if :: "parser \<Rightarrow> parser" where
  "enter_preproc_if p = p\<lparr>p_open_preproc_ifs := p_open_preproc_ifs p + 1\<rparr>"

definition leave_preproc_if :: "parser \<Rightarrow> parser" where
  "leave_preproc_if p = p\<lparr>p_open_preproc_ifs := p_open_preproc_ifs p - 1\<rparr>"

definition cross_preproc_if :: "parser \<Rightarrow> parser" where
  "cross_preproc_if p =
     p\<lparr>p_crossed_preproc_ifs := p_crossed_preproc_ifs p @ [p_open_preproc_ifs p]\<rparr>"

definition at_preproc_if_directive :: "parser \<Rightarrow> bool" where
  "at_preproc_if_directive p = at_any [T_PreElsIf, T_PreElse, T_PreEndIf] p"

definition at_crossed_preproc_if_directive :: "parser \<Rightarrow> bool" where
  "at_crossed_preproc_if_directive p \<longleftrightarrow>
     at_preproc_if_directive p \<and>
     last_opt (p_crossed_preproc_ifs p) = Some (p_open_preproc_ifs p)"

definition bump_crossed_preproc_if_end :: "parser \<Rightarrow> parser" where
  "bump_crossed_preproc_if_end p =
     (if at_tok T_PreEndIf p \<and> at_crossed_preproc_if_directive p
      then bump (p\<lparr>p_crossed_preproc_ifs := butlast (p_crossed_preproc_ifs p)\<rparr>)
      else p)"

text \<open>
  The insertions closed before their method ends: \<open>open_marks\<close> is the stack of
  insertions still open, the last one on top.
\<close>

function match_inserts_from :: "kinds \<Rightarrow> nat \<Rightarrow> nat list \<Rightarrow> nat list \<Rightarrow> nat list" where
  "match_inserts_from ks pos open_marks closed =
     (case get ks pos of
        None \<Rightarrow> closed
      | Some kind \<Rightarrow>
          if kind = T_PreInsert then match_inserts_from ks (pos + 1) (open_marks @ [pos]) closed
          else if kind = T_PreEndInsert then
            match_inserts_from ks (pos + 1) (snd (pop open_marks))
              (closed @ (case fst (pop open_marks) of None \<Rightarrow> [] | Some at \<Rightarrow> [at]))
          else if kind = T_PreDelete then
            match_inserts_from ks (skip_removed ks pos + 1) open_marks closed
          else if kind = T_KwEndProcedure \<or> kind = T_KwEndFunction then
            match_inserts_from ks (pos + 1) [] closed
          else match_inserts_from ks (pos + 1) open_marks closed)"
  by pat_completeness auto
termination
proof (relation "measure (\<lambda>(ks, pos, open_marks, closed). length ks - pos)", goal_cases)
  case (4 ks pos open_marks closed k)
  then show ?case
    using skip_removed_greater [of pos ks] by (simp add: get_eq_Some) linarith
qed (auto simp: get_eq_Some)

declare match_inserts_from.simps [simp del]

definition match_inserts :: "kinds \<Rightarrow> nat list" where
  "match_inserts ks = sort (match_inserts_from ks 0 [] [])"

lemma pop_set: "fst (pop xs) = Some x \<Longrightarrow> x \<in> set xs" "set (snd (pop xs)) \<subseteq> set xs"
  by (auto simp: pop_def split: if_splits dest: in_set_butlastD)

lemma match_inserts_from_ok:
  "\<forall>m \<in> set open_marks \<union> set closed. get ks m = Some T_PreInsert \<Longrightarrow>
   \<forall>m \<in> set (match_inserts_from ks pos open_marks closed). get ks m = Some T_PreInsert"
proof (induction ks pos open_marks closed rule: match_inserts_from.induct)
  case (1 ks pos open_marks closed)
  show ?case
  proof (cases "get ks pos")
    case None
    then show ?thesis
      using 1(6) by (subst match_inserts_from.simps) simp
  next
    case (Some k)
    have opened: "\<forall>m \<in> set (open_marks @ [pos]) \<union> set closed. get ks m = Some T_PreInsert"
      if "k = T_PreInsert"
      using 1(6) Some that by simp
    have popped: "\<forall>m \<in> set (snd (pop open_marks)) \<union>
        set (closed @ (case fst (pop open_marks) of None \<Rightarrow> [] | Some at \<Rightarrow> [at])). get ks m = Some T_PreInsert"
      using 1(6) pop_set(1) [of open_marks] pop_set(2) [of open_marks] by (auto split: option.splits)
    have forgotten: "\<forall>m \<in> set [] \<union> set closed. get ks m = Some T_PreInsert"
      using 1(6) by simp
    note IH = 1(1) [OF Some _ opened] 1(2) [OF Some _ _ popped] 1(3) [OF Some _ _ _ 1(6)]
      1(5) [OF Some _ _ _ _ 1(6)]
    consider "k = T_PreInsert" | "k = T_PreEndInsert" | "k = T_PreDelete"
      | "k = T_KwEndProcedure \<or> k = T_KwEndFunction"
      | "k \<noteq> T_PreInsert" "k \<noteq> T_PreEndInsert" "k \<noteq> T_PreDelete" "\<not> (k = T_KwEndProcedure \<or> k = T_KwEndFunction)"
      by blast
    then show ?thesis
    proof cases
      case 4
      then show ?thesis
        using 1(4) [OF Some _ _ _ 4 forgotten] by (subst match_inserts_from.simps) (auto simp: Some)
    qed (subst match_inserts_from.simps, use IH in \<open>simp add: Some\<close>)+
  qed
qed

definition insert_here_is_closed :: "parser \<Rightarrow> bool" where
  "insert_here_is_closed p \<longleftrightarrow> List.member (match_inserts (p_kinds p)) (p_pos p)"


section \<open>Torn conditional groups\<close>

definition conditional_at :: "parser \<Rightarrow> nat \<Rightarrow> conditional option" where
  "conditional_at p pos = group_at (conditionals (p_kinds p)) pos"

definition is_whole :: "parser \<Rightarrow> bool" where
  "is_whole p = whole (p_kinds p) (conditionals (p_kinds p))"

definition at_torn_if_statement :: "parser \<Rightarrow> bool" where
  "at_torn_if_statement p \<longleftrightarrow>
     at_tok T_PreIf p \<and>
     (case conditional_at p (p_pos p) of None \<Rightarrow> False | Some grp \<Rightarrow> \<not> c_balanced grp)"

definition at_torn_if_inline :: "parser \<Rightarrow> bool" where
  "at_torn_if_inline p \<longleftrightarrow> at_tok T_PreIf p \<and> conditional_at p (p_pos p) \<noteq> None"

definition at_torn_if_end :: "parser \<Rightarrow> bool" where
  "at_torn_if_end p \<longleftrightarrow>
     at_any [T_PreElsIf, T_PreElse, T_PreEndIf] p \<and>
     list_ex (\<lambda>(stop, _). stop = p_pos p) (p_open_torn_ifs p)"

definition torn_if_here :: "parser \<Rightarrow> conditional option" where
  "torn_if_here p = (if at_tok T_PreIf p then conditional_at p (p_pos p) else None)"

definition open_torn_if :: "nat \<Rightarrow> nat \<Rightarrow> parser \<Rightarrow> parser" where
  "open_torn_if stop close p = p\<lparr>p_open_torn_ifs := p_open_torn_ifs p @ [(stop, close)]\<rparr>"

text \<open>\<open>iter().position(..)\<close> and \<open>remove(index)\<close>: the first entry that ends here.\<close>

fun remove_ending :: "nat \<Rightarrow> (nat \<times> nat) list \<Rightarrow> (nat \<times> (nat \<times> nat) list) option" where
  "remove_ending pos [] = None"
| "remove_ending pos ((stop, close) # rest) =
     (if stop = pos then Some (close, rest)
      else map_option (\<lambda>(c, r). (c, (stop, close) # r)) (remove_ending pos rest))"

definition close_torn_if :: "parser \<Rightarrow> nat option \<times> parser" where
  "close_torn_if p =
     (case remove_ending (p_pos p) (p_open_torn_ifs p) of
        None \<Rightarrow> (None, p)
      | Some (close, rest) \<Rightarrow> (Some close, p\<lparr>p_open_torn_ifs := rest\<rparr>))"

definition torn_if_skip ::
  "nat \<Rightarrow> (nat \<times> nat) list \<Rightarrow> parser \<Rightarrow> nat option \<times> (nat \<times> nat) list" where
  "torn_if_skip n pending p =
     (let at = p_pos p + n in
      case input_kind (p_input p) at of
        None \<Rightarrow> (None, pending)
      | Some kind \<Rightarrow>
          if kind = T_PreIf then
            (case conditional_at p at of
               None \<Rightarrow> (None, pending)
             | Some grp \<Rightarrow>
                 (case c_active grp of
                    Some (start, stop) \<Rightarrow>
                      (Some (start - p_pos p), pending @ [(stop, c_close grp)])
                  | None \<Rightarrow> (Some (c_close grp + 1 - p_pos p), pending)))
          else if kind \<in> {T_PreElsIf, T_PreElse, T_PreEndIf} then
            (map_option (\<lambda>(_, close). close + 1 - p_pos p)
               (find (\<lambda>(stop, _). stop = at) (p_open_torn_ifs p @ pending)), pending)
          else (None, pending))"


section \<open>Boundaries\<close>

definition boundary_holds :: "boundary \<Rightarrow> parser \<Rightarrow> bool" where
  "boundary_holds b p =
     (case b of
        AtEndProcedure \<Rightarrow> at_tok T_KwEndProcedure p
      | AtEndFunction \<Rightarrow> at_tok T_KwEndFunction p
      | AtEndDo \<Rightarrow> at_tok T_KwEndDo p
      | AtThen \<Rightarrow> at_tok T_KwThen p
      | AtPreprocThen \<Rightarrow> at_tok T_KwThen p
      | AtHandlerComma \<Rightarrow> at_tok T_Comma p
      | AtDo \<Rightarrow> at_tok T_KwDo p
      | AtToOrDo \<Rightarrow> at_any [T_KwTo, T_KwDo] p
      | AtIfCloser \<Rightarrow> at_any [T_KwElsIf, T_KwElse, T_KwEndIf] p
      | AtTryCloser \<Rightarrow> at_any [T_KwExcept, T_KwEndTry] p
      | AtParenListPunctuation \<Rightarrow> at_any [T_RParen, T_Comma] p
      | AtClosingParen \<Rightarrow> at_tok T_RParen p
      | AtClosingBracket \<Rightarrow> at_tok T_RBracket p
      | AtDeclarationStart \<Rightarrow>
          at_any [T_KwProcedure, T_KwFunction, T_KwVar, T_KwAsync, T_AnnAtClient,
            T_AnnAtServer, T_AnnAtServerNoContext, T_AnnAtClientAtServer,
            T_AnnAtClientAtServerNoContext, T_AnnBefore, T_AnnAfter, T_AnnAround,
            T_AnnChangeAndValidate, T_AnnCustom, T_PreRegion, T_PreEndRegion] p
      | AtPreprocCloser \<Rightarrow>
          at_preproc_if_directive p \<and> \<not> at_crossed_preproc_if_directive p \<and>
          \<not> at_torn_if_end p)"

definition set_grammar_boundary :: "boundary \<Rightarrow> parser \<Rightarrow> parser" where
  "set_grammar_boundary b p = p\<lparr>p_at_grammar_boundary := Some b\<rparr>"

definition push_boundary :: "boundary \<Rightarrow> parser \<Rightarrow> parser" where
  "push_boundary b p = p\<lparr>p_enclosing_boundaries := p_enclosing_boundaries p @ [b]\<rparr>"

definition pop_boundary :: "parser \<Rightarrow> parser" where
  "pop_boundary p = p\<lparr>p_enclosing_boundaries := butlast (p_enclosing_boundaries p)\<rparr>"

definition within_boundary ::
  "boundary \<Rightarrow> (parser \<Rightarrow> ('r \<times> parser) outcome) \<Rightarrow> parser \<Rightarrow> ('r \<times> parser) outcome" where
  "within_boundary b f p =
     and_then (f (push_boundary b p)) (\<lambda>(r, p). Inr (r, pop_boundary p))"

text \<open>The same for a closure without a result.\<close>

definition within_boundary_unit ::
  "boundary \<Rightarrow> (parser \<Rightarrow> parser outcome) \<Rightarrow> parser \<Rightarrow> parser outcome" where
  "within_boundary_unit b f p =
     and_then (f (push_boundary b p)) (\<lambda>p. Inr (pop_boundary p))"

definition at_enclosing_boundary :: "parser \<Rightarrow> bool" where
  "at_enclosing_boundary p = list_ex (\<lambda>b. boundary_holds b p) (p_enclosing_boundaries p)"

definition at_declared_boundary :: "parser \<Rightarrow> bool" where
  "at_declared_boundary p =
     (case p_at_grammar_boundary p of None \<Rightarrow> False | Some b \<Rightarrow> boundary_holds b p)"

definition at_statement_separator :: "parser \<Rightarrow> bool" where
  "at_statement_separator p \<longleftrightarrow>
     at_tok T_Semicolon p \<or> at_tok T_PreIf p \<or> at_declared_boundary p \<or>
     at_enclosing_boundary p \<or> at_torn_if_end p"

definition at_declaration_start :: "parser \<Rightarrow> bool" where
  "at_declaration_start p \<longleftrightarrow>
     at_any [T_KwFunction, T_KwProcedure] p \<and> nth_kind 1 p = Some T_Ident"


section \<open>Markers\<close>

record marker =
  mk_pos :: nat
  mk_start_token :: nat

record completed_marker =
  cm_pos :: nat
  cm_start_token :: nat

definition start :: "parser \<Rightarrow> marker \<times> parser" where
  "start p =
     (\<lparr>mk_pos = length (p_events p), mk_start_token = raw_at (p_input p) (p_pos p)\<rparr>,
      push_event Placeholder p)"

definition complete :: "marker \<Rightarrow> node_kind \<Rightarrow> parser \<Rightarrow> (completed_marker \<times> parser) outcome" where
  "complete m kind p =
     (if mk_pos m < length (p_events p) then
        Inr (\<lparr>cm_pos = mk_pos m, cm_start_token = mk_start_token m\<rparr>,
             push_event Finish (p\<lparr>p_events := (p_events p)[mk_pos m := Start kind None]\<rparr>))
      else Inl Panic)"

text \<open>\<open>complete\<close> where the source drops the completed marker.\<close>

definition close_node :: "marker \<Rightarrow> node_kind \<Rightarrow> parser \<Rightarrow> parser outcome" where
  "close_node m kind p = and_then (complete m kind p) (\<lambda>(_, p). Inr p)"

definition abandon :: "marker \<Rightarrow> parser \<Rightarrow> parser outcome" where
  "abandon m p =
     (if p_events p = [] then Inl Panic
      else if mk_pos m = length (p_events p) - 1 \<and> last (p_events p) = Placeholder
      then Inr (p\<lparr>p_events := butlast (p_events p)\<rparr>)
      else Inr p)"

definition precede :: "completed_marker \<Rightarrow> parser \<Rightarrow> (marker \<times> parser) outcome" where
  "precede c p =
     (let new_pos = length (p_events p);
          p = push_event Placeholder p in
      if cm_pos c < length (p_events p) then
        Inr (\<lparr>mk_pos = new_pos, mk_start_token = cm_start_token c\<rparr>,
             p\<lparr>p_events := (p_events p)[cm_pos c := link_event (new_pos - cm_pos c)
                 (p_events p ! cm_pos c)]\<rparr>)
      else Inl Panic)"


section \<open>Errors and recovery\<close>

text \<open>The assertions on the recovery kind are panics, as in a build with assertions.\<close>

definition emit_error :: "parse_error \<Rightarrow> parser \<Rightarrow> parser outcome" where
  "emit_error err p =
     (if recovery err \<notin> {BumpToken, Custom} then Inl Panic
      else
        let (m, p) = start p;
            p = (if \<not> at_end p then bump p else p);
            p = push_event (Error err) p
        in close_node m NK_Error p)"

definition emit_missing :: "parse_error \<Rightarrow> parser \<Rightarrow> parser outcome" where
  "emit_missing err p =
     (if recovery err \<noteq> MissingToken then Inl Panic
      else
        let (m, p) = start p;
            p = push_event (Error err) p
        in close_node m NK_Error p)"

definition emit_error_at_marker :: "marker \<Rightarrow> parse_error \<Rightarrow> parser \<Rightarrow> parser outcome" where
  "emit_error_at_marker m err p =
     (if recovery err \<noteq> RecoverySpan then Inl Panic
      else close_node m NK_Error (push_event (ErrorWithSpan (mk_start_token m) err) p))"

definition error_recovery :: "parser \<Rightarrow> recovery_kind" where
  "error_recovery p =
     (if current p = None \<or> at_statement_separator p then MissingToken else BumpToken)"

definition emit_recovering :: "parse_error \<Rightarrow> parser \<Rightarrow> parser outcome" where
  "emit_recovering err p =
     (if recovery err = MissingToken then emit_missing err p else emit_error err p)"

definition expect :: "token_kind \<Rightarrow> parser \<Rightarrow> (bool \<times> parser) outcome" where
  "expect kind p =
     (if \<not> at_declared_boundary p \<and> at_tok kind p then Inr (True, bump p)
      else
        and_then (emit_recovering (Expected [kind] (current p) (error_recovery p)) p)
          (\<lambda>p. Inr (False, p)))"

definition expect_no_bump :: "token_kind \<Rightarrow> parser \<Rightarrow> (bool \<times> parser) outcome" where
  "expect_no_bump kind p =
     (if \<not> at_declared_boundary p \<and> at_tok kind p then Inr (True, bump p)
      else
        and_then (emit_missing (Expected [kind] (current p) MissingToken) p)
          (\<lambda>p. Inr (False, p)))"

text \<open>\<open>expect\<close> as a statement, its answer dropped.\<close>

definition require :: "token_kind \<Rightarrow> parser \<Rightarrow> parser outcome" where
  "require kind p = and_then (expect kind p) (\<lambda>(_, p). Inr p)"

definition error_unexpected :: "parser \<Rightarrow> parser outcome" where
  "error_unexpected p = emit_recovering (Unexpected (current p) (error_recovery p)) p"

definition error_custom :: "message \<Rightarrow> parser \<Rightarrow> parser outcome" where
  "error_custom msg p = emit_recovering (CustomError msg (error_recovery p)) p"

definition error_custom_no_bump :: "message \<Rightarrow> parser \<Rightarrow> parser outcome" where
  "error_custom_no_bump msg p = emit_missing (CustomError msg MissingToken) p"

definition error_expected :: "token_kind \<Rightarrow> parser \<Rightarrow> parser outcome" where
  "error_expected kind p =
     (let (m, p) = start p
      in emit_error_at_marker m (Expected [kind] (current p) RecoverySpan) p)"

definition error_custom_at_marker :: "marker \<Rightarrow> message \<Rightarrow> parser \<Rightarrow> parser outcome" where
  "error_custom_at_marker m msg p = emit_error_at_marker m (CustomError msg RecoverySpan) p"

definition at_error :: "parser \<Rightarrow> bool" where
  "at_error p = at_tok T_Error p"

definition error_checkpoint :: "parser \<Rightarrow> nat" where
  "error_checkpoint p = length (p_events p)"

definition has_error_since :: "nat \<Rightarrow> parser \<Rightarrow> bool" where
  "has_error_since checkpoint p = list_ex is_error_event (drop checkpoint (p_events p))"


section \<open>The guard against endless loops\<close>

definition check_iteration_limit :: "parser \<Rightarrow> parser outcome" where
  "check_iteration_limit p =
     (let recent = (if POSITION_HISTORY_SIZE \<le> length (p_recent_positions p)
                    then tl (p_recent_positions p) else p_recent_positions p);
          p = p\<lparr>p_iteration_count := p_iteration_count p + 1,
                p_recent_positions := recent @ [p_pos p]\<rparr> in
      if p_iteration_count p < MAX_ITERATIONS then Inr p
      else if \<not> length (remdups (p_recent_positions p)) < 5 then Inr (p\<lparr>p_iteration_count := 0\<rparr>)
      else Inl Panic)"

text \<open>What a loop that consumes a token on every pass needs to run to its end.\<close>

definition loop_fuel :: "parser \<Rightarrow> nat" where
  "loop_fuel p = Suc (Suc (input_len (p_input p) - p_pos p))"

definition bump_removed_until :: "nat \<Rightarrow> parser \<Rightarrow> parser outcome" where
  "bump_removed_until next_pos p =
     while_do (loop_fuel p) (\<lambda>p. p_pos p < next_pos \<and> \<not> at_end p)
       (\<lambda>p. and_then (check_iteration_limit p) (\<lambda>p. let p = bump_removed p in Inr p)) p"


section \<open>Misspelt closers\<close>

definition closer_spellings :: "token_kind \<Rightarrow> ustring list" where
  "closer_spellings kind =
    (if kind = T_KwEndIf then
       [[0x41A, 0x43E, 0x43D, 0x435, 0x446, 0x415, 0x441, 0x43B, 0x438],
        ascii ''EndIf'']
     else if kind = T_KwEndDo then
       [[0x41A, 0x43E, 0x43D, 0x435, 0x446, 0x426, 0x438, 0x43A, 0x43B, 0x430],
        ascii ''EndDo'']
     else if kind = T_KwEndTry then
       [[0x41A, 0x43E, 0x43D, 0x435, 0x446, 0x41F, 0x43E, 0x43F, 0x44B, 0x442, 0x43A, 0x438],
        ascii ''EndTry'']
     else if kind = T_KwExcept then
       [[0x418, 0x441, 0x43A, 0x43B, 0x44E, 0x447, 0x435, 0x43D, 0x438, 0x435],
        ascii ''Except'']
     else if kind = T_KwEndProcedure then
       [[0x41A, 0x43E, 0x43D, 0x435, 0x446, 0x41F, 0x440, 0x43E, 0x446, 0x435, 0x434, 0x443, 0x440, 0x44B],
        ascii ''EndProcedure'']
     else if kind = T_KwEndFunction then
       [[0x41A, 0x43E, 0x43D, 0x435, 0x446, 0x424, 0x443, 0x43D, 0x43A, 0x446, 0x438, 0x438],
        ascii ''EndFunction'']
     else if kind = T_KwElse then
       [[0x418, 0x43D, 0x430, 0x447, 0x435],
        ascii ''Else'']
     else if kind = T_KwElsIf then
       [[0x418, 0x43D, 0x430, 0x447, 0x435, 0x415, 0x441, 0x43B, 0x438],
        ascii ''ElsIf'']
     else [])"

text \<open>
  The rows of the distance table. \<open>edit_cell\<close> is the body of the inner loop: row
  \<open>i\<close>, column \<open>j\<close>, the row so far, the previous row and the one before it.
\<close>

definition edit_cell ::
  "ustring \<Rightarrow> ustring \<Rightarrow> nat \<Rightarrow> nat list \<Rightarrow> nat list \<Rightarrow> nat list \<Rightarrow> nat \<Rightarrow> nat" where
  "edit_cell a b i prev_prev prev cur j =
     (let substitution = (if a ! (i - 1) \<noteq> b ! (j - 1) then 1 else 0);
          v = min (min (prev ! j + 1) (cur ! (j - 1) + 1)) (prev ! (j - 1) + substitution)
      in if 1 < i \<and> 1 < j \<and> a ! (i - 1) = b ! (j - 2) \<and> a ! (i - 2) = b ! (j - 1)
         then min v (prev_prev ! (j - 2) + 1) else v)"

definition edit_row :: "ustring \<Rightarrow> ustring \<Rightarrow> nat \<Rightarrow> nat list \<Rightarrow> nat list \<Rightarrow> nat list" where
  "edit_row a b i prev_prev prev =
     fold (\<lambda>j cur. cur @ [edit_cell a b i prev_prev prev cur j]) [1..<length b + 1] [i]"

definition edit_rows :: "ustring \<Rightarrow> ustring \<Rightarrow> nat list \<times> nat list" where
  "edit_rows a b =
     fold (\<lambda>i (prev_prev, prev). (prev, edit_row a b i prev_prev prev))
       [1..<length a + 1] ([], [0..<length b + 1])"

definition edit_distance_within :: "ustring \<Rightarrow> ustring \<Rightarrow> nat \<Rightarrow> bool" where
  "edit_distance_within a b max_edits =
     (if max_edits < (length a - length b) + (length b - length a) then False
      else snd (edit_rows a b) ! length b \<le> max_edits)"

definition is_typo_of :: "(uchar \<Rightarrow> ustring) \<Rightarrow> ustring \<Rightarrow> ustring \<Rightarrow> bool" where
  "is_typo_of to_lowercase text spelling =
     (let text = concat (map to_lowercase text);
          spelling = concat (map to_lowercase spelling) in
      if text = spelling then False
      else if length text < 3 \<or> length spelling < 3 \<or> take 3 text \<noteq> take 3 spelling then False
      else edit_distance_within text spelling 2)"

definition resembles_closer :: "nat \<Rightarrow> token_kind \<Rightarrow> parser \<Rightarrow> bool" where
  "resembles_closer pos closer p =
     list_ex (is_typo_of (p_to_lowercase p) (input_text (p_input p) pos)) (closer_spellings closer)"

end
