(* ===== verification/Parser_Logic.thy ===== *)
theory Parser_Logic
  imports Parser_Core
begin

text \<open>
  A program logic for the grammar. The assertion \<open>st\<close> describes a parser state
  relative to the state a rule was entered with: how far the cursor has come, how much
  of the iteration budget is left, which markers are open, and that the events between
  them are well-formed segments. Every primitive operation has one rule that says how
  it transforms the assertion; the rules of the grammar are then proved by walking
  through their text with the collection \<open>wp\<close>.
\<close>

named_theorems wp \<open>how each operation transforms the assertion\<close>


section \<open>Open markers\<close>

text \<open>
  The events of a state are those of the base state, followed by the pieces between
  the markers a rule holds, the innermost first: \<open>Fresh\<close> is a marker from \<open>start\<close>,
  \<open>Linked\<close> one from \<open>precede\<close>, \<open>Opened\<close> either of them, and \<open>Done\<close> a completed node
  that may still be preceded.
\<close>

datatype mark = Fresh nat | Linked nat | Opened nat | Done nat

definition fresh_piece :: "nat \<Rightarrow> event list \<Rightarrow> event list \<Rightarrow> bool" where
  "fresh_piece j e es \<longleftrightarrow> (\<exists>s. es = e @ Placeholder # s \<and> j = length e \<and> seg s)"

definition linked_piece :: "nat \<Rightarrow> event list \<Rightarrow> event list \<Rightarrow> bool" where
  "linked_piece j e es \<longleftrightarrow>
     (\<exists>c d g s. es = e @ c[d := link_event (length c + length g - d) (c ! d)] @ g @ Placeholder # s \<and>
        j = length e + length c + length g \<and> chain d c \<and> seg g \<and> seg s)"

definition done_piece :: "nat \<Rightarrow> event list \<Rightarrow> event list \<Rightarrow> bool" where
  "done_piece j e es \<longleftrightarrow>
     (\<exists>c d g. es = e @ c @ g \<and> j = length e + d \<and> chain d c \<and> seg g)"

primrec piece :: "mark \<Rightarrow> event list \<Rightarrow> event list \<Rightarrow> bool" where
  "piece (Fresh j) = fresh_piece j"
| "piece (Linked j) = linked_piece j"
| "piece (Opened j) = (\<lambda>e es. fresh_piece j e es \<or> linked_piece j e es)"
| "piece (Done j) = done_piece j"

primrec frames :: "event list \<Rightarrow> mark list \<Rightarrow> event list \<Rightarrow> bool" where
  "frames e0 [] es = (\<exists>s. es = e0 @ s \<and> seg s)"
| "frames e0 (m # ms) es = (\<exists>e. piece m e es \<and> frames e0 ms e)"

lemma frames_refl [simp]: "frames es [] es"
  using seg_chain.seg_Nil by simp

lemma fresh_piece_grow: "fresh_piece j e es \<Longrightarrow> seg s \<Longrightarrow> fresh_piece j e (es @ s)"
  unfolding fresh_piece_def using seg_append by force

lemma linked_piece_grow: "linked_piece j e es \<Longrightarrow> seg s \<Longrightarrow> linked_piece j e (es @ s)"
  unfolding linked_piece_def by (metis append.assoc append_Cons seg_append)

lemma done_piece_grow: "done_piece j e es \<Longrightarrow> seg s \<Longrightarrow> done_piece j e (es @ s)"
  unfolding done_piece_def by (metis append.assoc seg_append)

lemma frames_grow: "frames e0 ms es \<Longrightarrow> seg s \<Longrightarrow> frames e0 ms (es @ s)"
proof (cases ms)
  case (Cons m ms')
  assume "frames e0 ms es" "seg s"
  with Cons fresh_piece_grow linked_piece_grow done_piece_grow show ?thesis
    by (cases m) (simp_all, blast+)
qed (auto intro: seg_append)

lemma frames_trans: "frames e0 ms es \<Longrightarrow> frames es [] es' \<Longrightarrow> frames e0 ms es'"
  by (auto intro: frames_grow)

lemma piece_complete:
  assumes "piece (Opened j) e es"
  shows "j < length es \<and> es ! j = Placeholder \<and> done_piece j e (es[j := Start k None] @ [Finish])"
  using assms unfolding piece.simps
proof (elim disjE)
  assume "fresh_piece j e es"
  then obtain s where es: "es = e @ Placeholder # s" "j = length e" "seg s"
    by (auto simp: fresh_piece_def)
  then have "chain 0 (Start k None # s @ [Finish])"
    by (simp add: seg_chain.chain_node)
  moreover have "es[j := Start k None] @ [Finish] = e @ (Start k None # s @ [Finish]) @ []"
    by (simp add: es)
  ultimately have "done_piece j e (es[j := Start k None] @ [Finish])"
    unfolding done_piece_def using es(2) seg_chain.seg_Nil by (metis add_0_right)
  then show ?thesis
    by (simp add: es)
next
  assume "linked_piece j e es"
  then obtain c d g s where
    es: "es = e @ c[d := link_event (length c + length g - d) (c ! d)] @ g @ Placeholder # s"
    and j: "j = length e + length c + length g" and c: "chain d c" "seg g" "seg s"
    by (auto simp: linked_piece_def)
  let ?c = "c[d := link_event (length c + length g - d) (c ! d)] @ g @ Start k None # s @ [Finish]"
  have "chain (length c + length g) ?c"
    using c by (rule seg_chain.chain_up)
  moreover have "es[j := Start k None] @ [Finish] = e @ ?c @ []"
    by (simp add: es j list_update_append)
  ultimately have "done_piece j e (es[j := Start k None] @ [Finish])"
    unfolding done_piece_def using j seg_chain.seg_Nil by (metis add.assoc)
  then show ?thesis
    by (simp add: es j nth_append)
qed

lemma frames_complete:
  assumes "frames e0 (Opened j # ms) es"
  shows "j < length es" "es ! j = Placeholder"
    "frames e0 (Done j # ms) (es[j := Start k None] @ [Finish])"
  using assms piece_complete [of j _ es k] by (auto simp del: piece.simps(3))

lemma frames_done: "frames e0 (Done j # ms) es \<Longrightarrow> frames e0 ms es"
proof -
  assume "frames e0 (Done j # ms) es"
  then obtain e c d g where "es = e @ c @ g" "chain d c" "seg g" "frames e0 ms e"
    by (auto simp: done_piece_def)
  then show ?thesis
    using seg_chain.seg_node [OF seg_chain.seg_Nil] by (auto intro!: frames_grow seg_append)
qed

lemma frames_precede:
  assumes "frames e0 (Done j # ms) es"
  shows "j < length es" "\<exists>k. es ! j = Start k None"
    "frames e0 (Linked (length es) # ms) (es[j := link_event (length es - j) (es ! j)] @ [Placeholder])"
proof -
  obtain e c d g where
    es: "es = e @ c @ g" and j: "j = length e + d" and c: "chain d c" "seg g" and e: "frames e0 ms e"
    using assms by (auto simp: done_piece_def)
  from c(1) have d: "d < length c" "\<exists>k. c ! d = Start k None"
    using chain_head by auto
  show "j < length es" "\<exists>k. es ! j = Start k None"
    using d by (auto simp: es j nth_append)
  have "es[j := link_event (length es - j) (es ! j)] @ [Placeholder]
      = e @ c[d := link_event (length c + length g - d) (c ! d)] @ g @ Placeholder # []"
    using d by (simp add: es j list_update_append nth_append)
  moreover have "length es = length e + length c + length g"
    by (simp add: es)
  ultimately have "linked_piece (length es) e
      (es[j := link_event (length es - j) (es ! j)] @ [Placeholder])"
    unfolding linked_piece_def using c seg_chain.seg_Nil by blast
  with e show "frames e0 (Linked (length es) # ms)
      (es[j := link_event (length es - j) (es ! j)] @ [Placeholder])"
    by auto
qed

lemma frames_abandon:
  assumes "frames e0 (Fresh j # ms) es"
  shows "es \<noteq> []" "frames e0 ms es" "j = length es - 1 \<Longrightarrow> frames e0 ms (butlast es)"
proof -
  obtain e s where es: "es = e @ Placeholder # s" "j = length e" "seg s" "frames e0 ms e"
    using assms by (auto simp: fresh_piece_def)
  show "es \<noteq> []"
    using es by simp
  have "seg (Placeholder # s)"
    using seg_append [OF seg_chain.seg_Placeholder [OF seg_chain.seg_Nil] es(3)] by simp
  then show "frames e0 ms es"
    using es frames_grow by simp
  show "frames e0 ms (butlast es)" if "j = length es - 1"
    using es that by (simp add: butlast_append)
qed


section \<open>The assertion\<close>

definition remaining :: "parser \<Rightarrow> nat" where
  "remaining p = input_len (p_input p) - p_pos p"

text \<open>
  Each token pays for three calls of \<open>check_iteration_limit\<close>: what is counted already
  and what the tokens ahead can pay for.
\<close>

definition cost :: "parser \<Rightarrow> int" where
  "cost p = int (p_iteration_count p) + 3 * int (remaining p)"

definition wf :: "parser \<Rightarrow> bool" where
  "wf p \<longleftrightarrow> p_pos p \<le> input_len (p_input p) \<and> p_at_grammar_boundary p = None \<and>
     (\<forall>(stop, close) \<in> set (p_open_torn_ifs p). stop \<le> close) \<and>
     event_tokens (p_events p) = take (p_pos p) (p_kinds p)"

text \<open>
  What is fixed while a rule runs: the fuel of the recursive calls, the number of
  iterations the caller can account for, and the state the rule was entered with.
\<close>

record ctx =
  cx_fuel :: nat
  cx_budget :: int
  cx_base :: parser

definition may_panic :: "ctx \<Rightarrow> bool" where
  "may_panic z \<longleftrightarrow> int MAX_ITERATIONS \<le> cx_budget z"

definition st :: "ctx \<Rightarrow> boundary list \<Rightarrow> nat \<Rightarrow> int \<Rightarrow> mark list \<Rightarrow> parser \<Rightarrow> bool" where
  "st z bd lo n ms p \<longleftrightarrow>
     wf p \<and> p_input p = p_input (cx_base z) \<and> p_enclosing_boundaries p = bd \<and>
     p_pos (cx_base z) \<le> p_pos p \<and> lo \<le> p_pos p \<and> cost p + n \<le> cost (cx_base z) \<and>
     frames (p_events (cx_base z)) ms (p_events p) \<and>
     remaining (cx_base z) \<le> cx_fuel z \<and> cost (cx_base z) + 2 \<le> cx_budget z"

text \<open>A token is left.\<close>

definition has_more :: "parser \<Rightarrow> bool" where
  "has_more p \<longleftrightarrow> current p \<noteq> None"

text \<open>Operations that leave everything a decision of the grammar looks at.\<close>

definition same_cursor :: "parser \<Rightarrow> parser \<Rightarrow> bool" where
  "same_cursor q p \<longleftrightarrow>
     current q = current p \<and> has_more q = has_more p \<and> p_input q = p_input p \<and>
     p_pos q = p_pos p \<and> p_open_torn_ifs q = p_open_torn_ifs p \<and>
     p_open_inline_inserts q = p_open_inline_inserts p \<and>
     p_open_preproc_ifs q = p_open_preproc_ifs p \<and>
     p_crossed_preproc_ifs q = p_crossed_preproc_ifs p"

declare same_cursor_def [simp] has_more_def [simp]

lemma st_weaken: "st z bd lo n ms p \<Longrightarrow> lo' \<le> lo \<Longrightarrow> n' \<le> n \<Longrightarrow> st z bd lo' n' ms p"
  by (auto simp: st_def)

lemma st_here: "st z bd lo n ms p \<Longrightarrow> st z bd (p_pos p) n ms p"
  by (auto simp: st_def)

lemma st_lo: "st z bd lo n ms p \<Longrightarrow> lo \<le> p_pos p"
  by (simp add: st_def)

lemma st_remaining: "st z bd lo n ms p \<Longrightarrow> st z bd' lo' n' ms' q \<Longrightarrow> p_pos p < p_pos q
    \<Longrightarrow> remaining q < remaining p"
  by (auto simp: st_def remaining_def wf_def)

lemma st_opened:
  "st z bd lo n (Fresh j # ms) p \<Longrightarrow> st z bd lo n (Opened j # ms) p"
  "st z bd lo n (Linked j # ms) p \<Longrightarrow> st z bd lo n (Opened j # ms) p"
  by (auto simp: st_def)

lemma st_done: "st z bd lo n (Done j # ms) p \<Longrightarrow> st z bd lo n ms p"
  unfolding st_def using frames_done by blast

lemma current_get: "current p = get (p_kinds p) (p_pos p)"
  by (simp add: current_def nth_kind_def input_kind_def)

lemma at_end_iff: "at_end p \<longleftrightarrow> current p = None"
  by (simp add: at_end_def current_get get_eq_None input_len_def)


lemma has_more_tok: "at_tok k p \<Longrightarrow> has_more p"
  by (simp add: at_tok_def)

lemma at_any_iff: "at_any ks p \<longleftrightarrow> (\<exists>k \<in> set ks. current p = Some k)"
  by (auto simp: at_any_def at_tok_def list_ex_iff)

lemma at_end_more: "at_end p \<longleftrightarrow> \<not> has_more p"
  by (simp add: at_end_iff has_more_def)

lemma more_at [wp]: "at_tok k p \<Longrightarrow> has_more p" "at_any ks p \<Longrightarrow> has_more p" "\<not> at_end p \<Longrightarrow> has_more p"
  "at_keyword_kind p \<Longrightarrow> has_more p" "at_ts ts p \<Longrightarrow> has_more p"
  by (auto simp: has_more_def at_tok_def at_any_iff at_end_iff at_keyword_kind_def at_ts_def
      split: option.splits)



section \<open>Moving the cursor\<close>

lemma track_group_fields [simp]:
  "p_input (track_group k p) = p_input p" "p_pos (track_group k p) = p_pos p"
  "p_events (track_group k p) = p_events p"
  "p_iteration_count (track_group k p) = p_iteration_count p"
  "p_at_grammar_boundary (track_group k p) = p_at_grammar_boundary p"
  "p_enclosing_boundaries (track_group k p) = p_enclosing_boundaries p"
  "p_open_torn_ifs (track_group k p) = p_open_torn_ifs p"
  by (simp_all add: track_group_def)

lemma st_consume:
  assumes "st z bd lo n ms p" and "current p = Some k"
    and "p_input q = p_input p" "p_pos q = Suc (p_pos p)" "p_events q = p_events p @ [Token k]"
    "p_iteration_count q = p_iteration_count p"
    "p_at_grammar_boundary q = p_at_grammar_boundary p"
    "p_enclosing_boundaries q = p_enclosing_boundaries p" "p_open_torn_ifs q = p_open_torn_ifs p"
  shows "st z bd (Suc lo) (n + 3) ms q"
proof -
  have pos: "p_pos p < length (p_kinds p)" "p_kinds p ! p_pos p = k"
    using assms(2) by (auto simp: current_get get_eq_Some)
  have "seg [Token k]"
    using seg_chain.seg_Token [OF seg_chain.seg_Nil] by simp
  with assms pos show ?thesis
    by (auto simp: st_def wf_def cost_def remaining_def input_len_def take_Suc_conv_app_nth
        intro: frames_grow)
qed

lemma st_bump: "st z bd lo n ms p \<Longrightarrow> has_more p \<Longrightarrow> st z bd (Suc lo) (n + 3) ms (bump p)"
  by (auto simp: bump_def push_event_def intro: st_consume)

lemma st_bump_removed:
  "st z bd lo n ms p \<Longrightarrow> has_more p \<Longrightarrow> st z bd (Suc lo) (n + 3) ms (bump_removed p)"
  by (auto simp: bump_removed_def push_event_def intro: st_consume)

lemma st_bump_weak: "st z bd lo n ms p \<Longrightarrow> st z bd lo n ms (bump p)"
  by (cases "current p = None") (simp add: bump_def, rule st_weaken [OF st_bump], auto)

lemma st_bump_removed_weak: "st z bd lo n ms p \<Longrightarrow> st z bd lo n ms (bump_removed p)"
  by (cases "current p = None") (simp add: bump_removed_def, rule st_weaken [OF st_bump_removed], auto)

lemma wp_bump_at [wp]:
  assumes "st z bd lo n ms p" and "has_more p"
    and "\<And>q. st z bd (Suc lo) (n + 3) ms q \<Longrightarrow> returns pn (f q) Q"
  shows "returns pn (Let (bump p) f) Q"
  using assms st_bump by (simp add: Let_def)

lemma wp_bump_removed_at [wp]:
  assumes "st z bd lo n ms p" and "has_more p"
    and "\<And>q. st z bd (Suc lo) (n + 3) ms q \<Longrightarrow> returns pn (f q) Q"
  shows "returns pn (Let (bump_removed p) f) Q"
  using assms st_bump_removed by (simp add: Let_def)

lemma wp_bump_if [wp]:
  assumes "st z bd lo n ms p" and "\<And>q. st z bd lo n ms q \<Longrightarrow> returns pn (f q) Q"
  shows "returns pn (Let (if c then bump p else p) f) Q"
  using assms st_bump_weak by (simp add: Let_def)

lemma wp_bump_removed_if [wp]:
  assumes "st z bd lo n ms p" and "\<And>q. st z bd lo n ms q \<Longrightarrow> returns pn (f q) Q"
  shows "returns pn (Let (if c then bump_removed p else p) f) Q"
  using assms st_bump_removed_weak by (simp add: Let_def)

lemma wp_eat_drop [wp]:
  assumes "st z bd lo n ms p" and "\<And>q. st z bd lo n ms q \<Longrightarrow> returns pn (f q) Q"
  shows "returns pn (Let (snd (eat k p)) f) Q"
  using assms st_bump_weak by (simp add: Let_def eat_def)

lemma wp_eat [wp]:
  assumes "st z bd lo n ms p"
    and "\<And>q. st z bd (Suc lo) (n + 3) ms q \<Longrightarrow> returns pn (f (True, q)) Q"
    and "st z bd lo n ms p \<Longrightarrow> \<not> at_tok k p \<Longrightarrow> returns pn (f (False, p)) Q"
  shows "returns pn (Let (eat k p) f) Q"
  using assms st_bump more_at(1) by (auto simp: Let_def eat_def)


section \<open>Fields the assertion does not read\<close>

lemma st_other_fields [simp]:
  "st z bd lo n ms (p\<lparr>p_open_inline_inserts := i\<rparr>) = st z bd lo n ms p"
  "st z bd lo n ms (p\<lparr>p_open_preproc_ifs := j\<rparr>) = st z bd lo n ms p"
  "st z bd lo n ms (p\<lparr>p_crossed_preproc_ifs := l\<rparr>) = st z bd lo n ms p"
  by (simp_all add: st_def wf_def cost_def remaining_def)

lemma current_other_fields [simp]:
  "current (p\<lparr>p_open_inline_inserts := i\<rparr>) = current p"
  "current (p\<lparr>p_crossed_preproc_ifs := l\<rparr>) = current p"
  by (simp_all add: current_get)

lemma wp_insert_marker [wp]:
  assumes "st z bd lo n ms p" and "at_any [T_PreInsert, T_PreEndInsert] p"
    and "\<And>q. st z bd (Suc lo) (n + 3) ms q \<Longrightarrow> returns pn (f q) Q"
  shows "returns pn (Let (bump_inline_insert_marker p) f) Q"
  using assms
  by (auto simp: Let_def bump_inline_insert_marker_def at_tok_def at_any_iff intro!: assms(3) st_bump)

lemma wp_crossed_end [wp]:
  assumes "st z bd lo n ms p" and "at_tok T_PreEndIf p" and "at_crossed_preproc_if_directive p"
    and "\<And>q. st z bd (Suc lo) (n + 3) ms q \<Longrightarrow> returns pn (f q) Q"
  shows "returns pn (Let (bump_crossed_preproc_if_end p) f) Q"
  unfolding Let_def
  by (rule assms(4)) (use assms(1-3) has_more_tok [OF assms(2)] in
    \<open>auto simp: bump_crossed_preproc_if_end_def intro!: st_bump\<close>)

lemma wp_forget [wp]:
  assumes "st z bd lo n ms p" and "\<And>q. st z bd lo n ms q \<Longrightarrow> current q = current p \<Longrightarrow> returns pn (f q) Q"
  shows "returns pn (Let (forget_inline_inserts p) f) Q"
  using assms by (simp add: Let_def forget_inline_inserts_def)

lemma wp_take_crossed [wp]:
  assumes "st z bd lo n ms p"
    and "\<And>l q. st z bd lo n ms q \<Longrightarrow> current q = current p \<Longrightarrow> returns pn (f (l, q)) Q"
  shows "returns pn (Let (take_crossed_preproc_ifs p) f) Q"
  using assms by (simp add: Let_def take_crossed_preproc_ifs_def)

lemma wp_quiet [wp]:
  assumes "st z bd lo n ms p" and "\<And>q. st z bd lo n ms q \<Longrightarrow> returns pn (f q) Q"
  shows "returns pn (Let (restore_crossed_preproc_ifs l p) f) Q"
    "returns pn (Let (enter_preproc_if p) f) Q"
    "returns pn (Let (leave_preproc_if p) f) Q"
    "returns pn (Let (if c then cross_preproc_if p else p) f) Q"
  using assms
  by (simp_all add: Let_def restore_crossed_preproc_ifs_def enter_preproc_if_def
      leave_preproc_if_def cross_preproc_if_def)


section \<open>Boundaries\<close>

lemma wp_push_boundary [wp]:
  assumes "st z bd lo n ms p"
    and "\<And>q. st z (bd @ [b]) lo n ms q \<Longrightarrow> same_cursor q p \<Longrightarrow> returns pn (f q) Q"
  shows "returns pn (Let (push_boundary b p) f) Q"
  unfolding Let_def
  by (rule assms(2))
    (use assms(1) in \<open>auto simp: push_boundary_def st_def wf_def cost_def remaining_def current_get\<close>)

lemma wp_pop_boundary [wp]:
  assumes "st z (bd @ [b]) lo n ms p" and "\<And>q. st z bd lo n ms q \<Longrightarrow> returns pn (f q) Q"
  shows "returns pn (Let (pop_boundary p) f) Q"
  unfolding Let_def
  by (rule assms(2))
    (use assms(1) in \<open>auto simp: pop_boundary_def st_def wf_def cost_def remaining_def\<close>)

text \<open>A scope is read through: push, the body, pop.\<close>

lemma within_boundary_unfold:
  "within_boundary b f p =
     (let p = push_boundary b p in and_then (f p) (\<lambda>(r, p). let p = pop_boundary p in Inr (r, p)))"
  "within_boundary_unit b g p =
     (let p = push_boundary b p in and_then (g p) (\<lambda>p. let p = pop_boundary p in Inr p))"
  by (simp_all add: within_boundary_def within_boundary_unit_def Let_def)


section \<open>Markers\<close>

lemma push_event_fields [simp]:
  "p_input (push_event e p) = p_input p" "p_pos (push_event e p) = p_pos p"
  "p_events (push_event e p) = p_events p @ [e]"
  "p_iteration_count (push_event e p) = p_iteration_count p"
  "p_at_grammar_boundary (push_event e p) = p_at_grammar_boundary p"
  "p_enclosing_boundaries (push_event e p) = p_enclosing_boundaries p"
  "p_open_torn_ifs (push_event e p) = p_open_torn_ifs p"
  "p_open_inline_inserts (push_event e p) = p_open_inline_inserts p"
  "p_open_preproc_ifs (push_event e p) = p_open_preproc_ifs p"
  "p_crossed_preproc_ifs (push_event e p) = p_crossed_preproc_ifs p"
  "current (push_event e p) = current p"
  by (simp_all add: push_event_def current_get)

text \<open>Operations that change the events only, and not their tokens.\<close>

lemma st_events:
  assumes "st z bd lo n ms p"
    and "p_input q = p_input p" "p_pos q = p_pos p" "p_iteration_count q = p_iteration_count p"
    "p_at_grammar_boundary q = p_at_grammar_boundary p"
    "p_enclosing_boundaries q = p_enclosing_boundaries p" "p_open_torn_ifs q = p_open_torn_ifs p"
    and "event_tokens (p_events q) = event_tokens (p_events p)"
    and "frames (p_events (cx_base z)) ms' (p_events q)"
  shows "st z bd lo n ms' q"
  using assms by (auto simp: st_def wf_def cost_def remaining_def)

lemma st_push_error:
  assumes "st z bd lo n ms p" and "is_error_event e"
  shows "st z bd lo n ms (push_event e p)"
proof (rule st_events [OF assms(1)])
  have "seg [e]"
    using assms(2) seg_chain.seg_Error [OF seg_chain.seg_Nil]
      seg_chain.seg_ErrorWithSpan [OF seg_chain.seg_Nil]
    by (auto simp: is_error_event_def split: event.splits)
  then show "frames (p_events (cx_base z)) ms (p_events (push_event e p))"
    using assms(1) by (simp add: st_def frames_grow)
qed (use assms in \<open>auto simp: is_error_event_def split: event.splits\<close>)

lemma st_start_marker:
  assumes "st z bd lo n ms p"
  shows "st z bd lo n (Fresh (length (p_events p)) # ms) (push_event Placeholder p)"
proof (rule st_events [OF assms])
  show "frames (p_events (cx_base z)) (Fresh (length (p_events p)) # ms)
      (p_events (push_event Placeholder p))"
    using assms seg_chain.seg_Nil by (auto simp: st_def fresh_piece_def)
qed simp_all

lemma wp_start [wp]:
  assumes "st z bd lo n ms p"
    and "\<And>m q. st z bd lo n (Fresh (mk_pos m) # ms) q \<Longrightarrow> same_cursor q p \<Longrightarrow> returns pn (f (m, q)) Q"
  shows "returns pn (Let (start p) f) Q"
  using assms(2) [of "fst (start p)"] st_start_marker [OF assms(1)] by (simp add: Let_def start_def)

lemma event_tokens_update_quiet:
  "j < length es \<Longrightarrow> event_tokens [es ! j] = [] \<Longrightarrow> event_tokens [e] = [] \<Longrightarrow>
     event_tokens (es[j := e]) = event_tokens es"
  by (simp add: upd_conv_take_nth_drop) (metis append_Cons append_Nil append_take_drop_id
      Cons_nth_drop_Suc event_tokens_append)

lemma wp_complete_opened:
  assumes "st z bd lo n (Opened (mk_pos m) # ms) p"
  shows "returns pn (complete m k p)
    (\<lambda>(c, q). st z bd lo n (Done (cm_pos c) # ms) q \<and> same_cursor q p)"
proof -
  have f: "frames (p_events (cx_base z)) (Opened (mk_pos m) # ms) (p_events p)"
    using assms by (simp add: st_def)
  note fc = frames_complete [OF f]
  have "st z bd lo n (Done (mk_pos m) # ms)
      (push_event Finish (p\<lparr>p_events := (p_events p)[mk_pos m := Start k None]\<rparr>))"
    using assms fc
    by (intro st_events [OF assms]) (simp_all add: event_tokens_update_quiet del: frames.simps)
  then show ?thesis
    using fc(1) by (simp add: complete_def current_get)
qed

lemma wp_complete [THEN returns_mono, wp]:
  "st z bd lo n (Fresh (mk_pos m) # ms) p \<Longrightarrow>
     returns pn (complete m k p)
    (\<lambda>(c, q). st z bd lo n (Done (cm_pos c) # ms) q \<and> same_cursor q p)"
  "st z bd lo n (Linked (mk_pos m) # ms) p \<Longrightarrow>
     returns pn (complete m k p)
    (\<lambda>(c, q). st z bd lo n (Done (cm_pos c) # ms) q \<and> same_cursor q p)"
  "st z bd lo n (Opened (mk_pos m) # ms) p \<Longrightarrow>
     returns pn (complete m k p)
    (\<lambda>(c, q). st z bd lo n (Done (cm_pos c) # ms) q \<and> same_cursor q p)"
  by (rule wp_complete_opened, (erule st_opened | assumption))+

lemma wp_close_opened:
  assumes "st z bd lo n (Opened (mk_pos m) # ms) p"
  shows "returns pn (close_node m k p) (\<lambda>q. st z bd lo n ms q)"
  unfolding close_node_def
  by (rule returns_bind [OF wp_complete_opened [OF assms]]) (auto intro: st_done)

lemma wp_close [THEN returns_mono, wp]:
  "st z bd lo n (Fresh (mk_pos m) # ms) p \<Longrightarrow> returns pn (close_node m k p) (\<lambda>q. st z bd lo n ms q)"
  "st z bd lo n (Linked (mk_pos m) # ms) p \<Longrightarrow> returns pn (close_node m k p) (\<lambda>q. st z bd lo n ms q)"
  "st z bd lo n (Opened (mk_pos m) # ms) p \<Longrightarrow> returns pn (close_node m k p) (\<lambda>q. st z bd lo n ms q)"
  by (auto intro: wp_close_opened st_opened)

lemma wp_precede [THEN returns_mono, wp]:
  assumes "st z bd lo n (Done (cm_pos c) # ms) p"
  shows "returns pn (precede c p) (\<lambda>(m, q). st z bd lo n (Linked (mk_pos m) # ms) q \<and> same_cursor q p)"
proof -
  have f: "frames (p_events (cx_base z)) (Done (cm_pos c) # ms) (p_events p)"
    using assms by (simp add: st_def)
  note fp = frames_precede [OF f]
  let ?q = "(push_event Placeholder p)\<lparr>p_events := (p_events p @ [Placeholder])
    [cm_pos c := link_event (length (p_events p) - cm_pos c) (p_events p ! cm_pos c)]\<rparr>"
  have link: "event_tokens [link_event d e] = []" if "event_tokens [e] = []" for d e
    using that by (cases e) (simp_all add: link_event_def)
  have "st z bd lo n (Linked (length (p_events p)) # ms) ?q"
  proof (rule st_events [OF assms])
    show "event_tokens (p_events ?q) = event_tokens (p_events p)"
      using fp(1,2) link by (auto simp: list_update_append event_tokens_update_quiet)
    show "frames (p_events (cx_base z)) (Linked (length (p_events p)) # ms) (p_events ?q)"
      using fp by (simp add: list_update_append del: frames.simps)
  qed simp_all
  then show ?thesis
    using fp(1) by (simp add: precede_def Let_def nth_append current_get)
qed

lemma wp_abandon [THEN returns_mono, wp]:
  assumes "st z bd lo n (Fresh (mk_pos m) # ms) p"
  shows "returns pn (abandon m p) (\<lambda>q. st z bd lo n ms q \<and> same_cursor q p)"
proof -
  have f: "frames (p_events (cx_base z)) (Fresh (mk_pos m) # ms) (p_events p)"
    using assms by (simp add: st_def)
  note fa = frames_abandon [OF f]
  have "event_tokens (butlast es) = event_tokens es" if "es \<noteq> []" "last es = Placeholder" for es
    using that event_tokens_append [of "butlast es" "[Placeholder]"]
    by (metis append_Nil2 append_butlast_last_id event_tokens.simps(1,5))
  with fa show ?thesis
    by (auto simp: abandon_def current_get intro!: st_events [OF assms])
qed


section \<open>Errors and recovery\<close>

lemma st_not_declared: "st z bd lo n ms p \<Longrightarrow> \<not> at_declared_boundary p"
  by (simp add: st_def wf_def at_declared_boundary_def)

lemma wp_emit_missing [THEN returns_mono, wp]:
  assumes "st z bd lo n ms p" and "recovery err = MissingToken"
  shows "returns pn (emit_missing err p) (\<lambda>q. st z bd lo n ms q)"
proof -
  have "returns pn (let (m, p) = start p in close_node m NK_Error (push_event (Error err) p))
      (\<lambda>q. st z bd lo n ms q)"
  proof (rule wp_start [OF assms(1)])
    fix m :: marker and q
    assume "st z bd lo n (Fresh (mk_pos m) # ms) q"
    then have "st z bd lo n (Fresh (mk_pos m) # ms) (push_event (Error err) q)"
      by (rule st_push_error) (simp add: is_error_event_def)
    then show "returns pn (case (m, q) of (m, p) \<Rightarrow> close_node m NK_Error (push_event (Error err) p))
        (\<lambda>q. st z bd lo n ms q)"
      by (simp add: wp_close_opened st_opened)
  qed
  with assms(2) show ?thesis
    by (simp add: emit_missing_def Let_def)
qed

lemma wp_emit_error:
  assumes "st z bd lo n ms p" and "recovery err = BumpToken" and "has_more p"
  shows "returns pn (emit_error err p) (\<lambda>q. st z bd (Suc lo) (n + 3) ms q)"
proof -
  have "returns pn (let (m, p) = start p;
      p = (if \<not> at_end p then bump p else p) in close_node m NK_Error (push_event (Error err) p))
      (\<lambda>q. st z bd (Suc lo) (n + 3) ms q)"
  proof (rule wp_start [OF assms(1)])
    fix m :: marker and q
    assume q: "st z bd lo n (Fresh (mk_pos m) # ms) q" "same_cursor q p"
    then have "st z bd (Suc lo) (n + 3) (Fresh (mk_pos m) # ms) (push_event (Error err) (bump q))"
      using assms(3) by (intro st_push_error st_bump) (simp_all add: is_error_event_def)
    then show "returns pn (case (m, q) of (m, p) \<Rightarrow> let p = (if \<not> at_end p then bump p else p) in
        close_node m NK_Error (push_event (Error err) p)) (\<lambda>q. st z bd (Suc lo) (n + 3) ms q)"
      using q assms(3) by (simp add: wp_close_opened st_opened at_end_iff)
  qed
  with assms(2) show ?thesis
    by (simp add: emit_error_def Let_def)
qed

text \<open>An error is recorded without moving, or at the price of one token.\<close>

lemma wp_emit_recovering:
  assumes "st z bd lo n ms p" and "recovery err = error_recovery p"
  shows "returns pn (emit_recovering err p)
    (\<lambda>q. if current p = None \<or> at_statement_separator p then st z bd lo n ms q
         else st z bd (Suc lo) (n + 3) ms q)"
  using assms
  by (auto simp: emit_recovering_def error_recovery_def
      intro: wp_emit_missing wp_emit_error [THEN returns_mono] split: if_splits)

lemma wp_emit_weak:
  assumes "st z bd lo n ms p" and "recovery err = error_recovery p"
  shows "returns pn (emit_recovering err p) (\<lambda>q. st z bd lo n ms q)"
  by (rule returns_mono [OF wp_emit_recovering [OF assms]]) (auto split: if_splits elim: st_weaken)

lemma wp_error [THEN returns_mono, wp]:
  assumes "st z bd lo n ms p"
  shows "returns pn (error_unexpected p) (\<lambda>q. st z bd lo n ms q)"
    "returns pn (error_custom msg p) (\<lambda>q. st z bd lo n ms q)"
    "returns pn (error_custom_no_bump msg p) (\<lambda>q. st z bd lo n ms q)"
  unfolding error_unexpected_def error_custom_def error_custom_no_bump_def
  by (rule wp_emit_weak [OF assms] wp_emit_missing [OF assms]; simp)+

lemma wp_error_moves:
  assumes "st z bd lo n ms p" and "has_more p" and "\<not> at_statement_separator p"
  shows "returns pn (error_unexpected p) (\<lambda>q. st z bd (Suc lo) (n + 3) ms q)"
    "returns pn (error_custom msg p) (\<lambda>q. st z bd (Suc lo) (n + 3) ms q)"
  unfolding error_unexpected_def error_custom_def
  by (rule returns_mono [OF wp_emit_recovering [OF assms(1)]]; use assms in simp)+

lemma wp_require [THEN returns_mono, wp]:
  assumes "st z bd lo n ms p"
  shows "returns pn (require k p) (\<lambda>q. st z bd lo n ms q)"
proof -
  have "returns pn (expect k p) (\<lambda>(_, q). st z bd lo n ms q)"
    using assms
    by (auto simp: expect_def returns_and_then intro: st_bump_weak wp_emit_weak)
  then show ?thesis
    by (auto simp: require_def returns_and_then elim: returns_mono)
qed

lemma wp_require_at:
  assumes "st z bd lo n ms p" and "at_tok k p"
  shows "returns pn (require k p) (\<lambda>q. st z bd (Suc lo) (n + 3) ms q)"
  using assms st_bump [OF assms(1)] st_not_declared [OF assms(1)] more_at(1) [OF assms(2)]
  by (simp add: require_def expect_def)

lemma wp_require_no_bump [THEN returns_mono, wp]:
  assumes "st z bd lo n ms p"
  shows "returns pn (expect_no_bump k p) (\<lambda>(_, q). st z bd lo n ms q)"
  using assms
  by (auto simp: expect_no_bump_def returns_and_then intro: st_bump_weak wp_emit_missing)

lemma wp_error_at_opened:
  assumes "st z bd lo n (Opened (mk_pos m) # ms) p"
  shows "returns pn (error_custom_at_marker m msg p) (\<lambda>q. st z bd lo n ms q)"
  unfolding error_custom_at_marker_def emit_error_at_marker_def
  using st_push_error [OF assms] by (simp add: wp_close_opened is_error_event_def)

lemma wp_error_at_marker [THEN returns_mono, wp]:
  "st z bd lo n (Fresh (mk_pos m) # ms) p \<Longrightarrow>
     returns pn (error_custom_at_marker m msg p) (\<lambda>q. st z bd lo n ms q)"
  "st z bd lo n (Linked (mk_pos m) # ms) p \<Longrightarrow>
     returns pn (error_custom_at_marker m msg p) (\<lambda>q. st z bd lo n ms q)"
  by (auto intro: wp_error_at_opened st_opened)


section \<open>The guard\<close>

lemma boundary_same_cursor:
  "same_cursor q p \<Longrightarrow> boundary_holds b q = boundary_holds b p"
  by (cases b) (simp_all add: boundary_holds_def at_any_iff at_tok_def at_preproc_if_directive_def
      at_crossed_preproc_if_directive_def at_torn_if_end_def)

text \<open>The questions a loop asks again behind the guard.\<close>

definition same_view :: "parser \<Rightarrow> parser \<Rightarrow> bool" where
  "same_view q p \<longleftrightarrow> (at_end q \<longleftrightarrow> at_end p) \<and> (\<forall>k. at_tok k q \<longleftrightarrow> at_tok k p) \<and>
     (\<forall>b. boundary_holds b q \<longleftrightarrow> boundary_holds b p) \<and>
     (at_enclosing_boundary q \<longleftrightarrow> at_enclosing_boundary p)"

lemma wp_check [THEN returns_mono, wp]:
  assumes "st z bd lo n ms p" and "-1 \<le> n"
  shows "returns (may_panic z) (check_iteration_limit p)
    (\<lambda>q. st z bd lo (n - 1) ms q \<and> same_cursor q p \<and> same_view q p)"
proof -
  have "p_iteration_count p + 1 < MAX_ITERATIONS" if "\<not> may_panic z"
    using assms that by (auto simp: st_def cost_def may_panic_def)
  with assms(1) have st: "returns (may_panic z) (check_iteration_limit p)
      (\<lambda>q. st z bd lo (n - 1) ms q \<and> same_cursor q p)"
    by (auto simp: check_iteration_limit_def Let_def st_def wf_def cost_def remaining_def
        current_get)
  have "same_view q p" if "st z bd lo (n - 1) ms q \<and> same_cursor q p" for q
    using that assms(1) boundary_same_cursor [of q p]
    by (simp add: same_view_def at_tok_def at_end_iff at_enclosing_boundary_def st_def)
  with st show ?thesis
    by (auto elim: returns_mono)
qed


section \<open>Loops\<close>

lemma loop_fuel_remaining: "loop_fuel p = Suc (Suc (remaining p))"
  by (simp add: loop_fuel_def remaining_def)

text \<open>A loop that consumes a token on every pass.\<close>

lemma wp_while [THEN returns_mono, wp]:
  assumes "st z bd lo n ms p"
    and step: "\<And>p. st z bd (max lo (p_pos p)) n ms p \<Longrightarrow> c p \<Longrightarrow>
      returns pn (body p) (\<lambda>q. st z bd (Suc (p_pos p)) n ms q)"
  shows "returns pn (while_do (loop_fuel p) c body p) (\<lambda>q. st z bd lo n ms q \<and> \<not> c q)"
proof (rule returns_while [where I = "st z bd lo n ms" and \<mu> = remaining])
  fix s
  assume s: "st z bd lo n ms s" "c s"
  have "st z bd (max lo (p_pos s)) n ms s"
    using s(1) by (simp add: st_def)
  from step [OF this s(2)]
  show "returns pn (body s) (\<lambda>q. st z bd lo n ms q \<and> remaining q < remaining s)"
  proof (rule returns_mono)
    fix q
    assume q: "st z bd (Suc (p_pos s)) n ms q"
    have "st z bd lo n ms q"
      using q st_lo [OF s(1)] by (auto elim: st_weaken)
    then show "st z bd lo n ms q \<and> remaining q < remaining s"
      using st_remaining [OF s(1) q] st_lo [OF q] by simp
  qed
qed (use assms(1) in \<open>auto simp: loop_fuel_remaining\<close>)

text \<open>If such a loop is entered, its first pass has moved the cursor.\<close>

lemma wp_while_some:
  assumes "st z bd lo n ms p" and "c p" and "0 \<le> k"
    and step: "\<And>p. st z bd (max lo (p_pos p)) n ms p \<Longrightarrow> c p \<Longrightarrow>
      returns pn (body p) (\<lambda>q. st z bd (Suc (p_pos p)) (n + k) ms q)"
  shows "returns pn (while_do (loop_fuel p) c body p) (\<lambda>q. st z bd (Suc lo) (n + k) ms q)"
proof (rule returns_while [where \<mu> = remaining
      and I = "\<lambda>s. st z bd lo n ms s \<and> c s \<or> st z bd (Suc lo) (n + k) ms s"])
  fix s
  assume "st z bd lo n ms s \<and> c s \<or> st z bd (Suc lo) (n + k) ms s" and c: "c s"
  then have s: "st z bd lo n ms s"
    using assms(3) by (auto elim: st_weaken)
  then have "st z bd (max lo (p_pos s)) n ms s"
    by (simp add: st_def)
  from step [OF this c]
  show "returns pn (body s) (\<lambda>q. (st z bd lo n ms q \<and> c q \<or> st z bd (Suc lo) (n + k) ms q)
      \<and> remaining q < remaining s)"
  proof (rule returns_mono)
    fix q
    assume q: "st z bd (Suc (p_pos s)) (n + k) ms q"
    have "st z bd (Suc lo) (n + k) ms q"
      using q st_lo [OF s] by (auto elim: st_weaken)
    then show "(st z bd lo n ms q \<and> c q \<or> st z bd (Suc lo) (n + k) ms q)
        \<and> remaining q < remaining s"
      using st_remaining [OF s q] st_lo [OF q] by simp
  qed
qed (use assms in \<open>auto simp: loop_fuel_remaining\<close>)

text \<open>The same with values the passes hand on, and with a break in the middle.\<close>

lemma wp_loop:
  assumes "st z bd lo n (M x) p" and "J x p"
    and step: "\<And>x p. st z bd (max lo (p_pos p)) n (M x) p \<Longrightarrow> J x p \<Longrightarrow> returns pn (body (x, p))
      (\<lambda>r. case r of Inl (y, q) \<Rightarrow> st z bd (Suc (p_pos p)) n (M y) q \<and> J y q | Inr v \<Rightarrow> Q v)"
  shows "returns pn (loop (loop_fuel p) body (x, p)) Q"
proof (rule returns_loop [where \<mu> = "\<lambda>(x, p). remaining p"
      and I = "\<lambda>(x, p). st z bd lo n (M x) p \<and> J x p"])
  fix s
  assume s: "case s of (x, p) \<Rightarrow> st z bd lo n (M x) p \<and> J x p"
  obtain x p where xp: "s = (x, p)"
    by (cases s)
  with s have p: "st z bd lo n (M x) p" and J: "J x p"
    by simp_all
  have next_ok: "st z bd lo n (M y) q \<and> remaining q < remaining p"
    if q: "st z bd (Suc (p_pos p)) n (M y) q" for y q
    using st_remaining [OF p q] st_lo [OF q] st_lo [OF p] q by (auto elim: st_weaken)
  have "st z bd (max lo (p_pos p)) n (M x) p"
    using p by (simp add: st_def)
  from step [OF this J]
  show "returns pn (body s) (\<lambda>r. case r of
      Inl s' \<Rightarrow> (case s' of (x, p) \<Rightarrow> st z bd lo n (M x) p \<and> J x p) \<and>
        (case s' of (x, p) \<Rightarrow> remaining p) < (case s of (x, p) \<Rightarrow> remaining p)
    | Inr v \<Rightarrow> Q v)"
    unfolding xp by (rule returns_mono) (use next_ok in \<open>auto split: sum.splits\<close>)
qed (use assms in \<open>simp_all add: loop_fuel_remaining\<close>)

lemma wp_loop_plain [wp]:
  assumes "st z bd lo n ms p"
    and "\<And>x p. st z bd (max lo (p_pos p)) n ms p \<Longrightarrow> returns pn (body (x, p))
      (\<lambda>r. case r of Inl (_, q) \<Rightarrow> st z bd (Suc (p_pos p)) n ms q | Inr v \<Rightarrow> Q v)"
  shows "returns pn (loop (loop_fuel p) body (x, p)) Q"
  by (rule wp_loop [where M = "\<lambda>_. ms" and J = "\<lambda>_ _. True"]) (use assms in \<open>auto simp: split_def\<close>)


section \<open>Control\<close>

lemma returns_if:
  "(c \<Longrightarrow> returns pn A Q) \<Longrightarrow> (\<not> c \<Longrightarrow> returns pn B Q) \<Longrightarrow> returns pn (if c then A else B) Q"
  by simp

text \<open>Both branches of a conditional statement lead back to the assertion it started from.\<close>

lemma wp_choice [THEN returns_mono, wp]:
  assumes "st z bd lo n ms p"
    and "st z bd lo n ms p \<Longrightarrow> c \<Longrightarrow> returns pn A (\<lambda>q. st z bd lo n ms q)"
    and "st z bd lo n ms p \<Longrightarrow> \<not> c \<Longrightarrow> returns pn B (\<lambda>q. st z bd lo n ms q)"
  shows "returns pn (if c then A else B) (\<lambda>q. st z bd lo n ms q)"
  using assms by simp

lemma same_cursor_back [wp]:
  "same_cursor q p \<Longrightarrow> has_more p \<Longrightarrow> has_more q"
  "same_cursor q p \<Longrightarrow> at_tok k p \<Longrightarrow> at_tok k q"
  "same_cursor q p \<Longrightarrow> at_torn_if_end p \<Longrightarrow> at_torn_if_end q"
  by (simp_all add: at_tok_def at_torn_if_end_def at_any_iff)

declare conjE [wp] st_weaken [wp] has_more_def [simp del] same_view_def [simp]

lemma Let_values:
  "Let (c :: bool) f = f c" "Let (i :: nat) g = g i" "Let (s :: token_set) h = h s"
  by simp_all

lemmas wp_simps =
  Let_values de_Morgan_disj not_not
  split_paired_all prod.case option.case sum.case returns_and_then returns_Inr within_boundary_unfold

text \<open>Removed text costs two of the three units each of its tokens brings.\<close>

lemma wp_bump_removed_until [THEN returns_mono, wp]:
  assumes "st z bd lo n ms p" and "-1 \<le> n"
  shows "returns (may_panic z) (bump_removed_until k p) (\<lambda>q. st z bd lo n ms q)"
  using assms unfolding bump_removed_until_def
  by - (assumption | simp only: wp_simps | erule wp | (simp; fail))+

lemma wp_bump_removed_some:
  assumes "st z bd lo n ms p" and "-1 \<le> n" and "p_pos p < k" and "has_more p"
  shows "returns (may_panic z) (bump_removed_until k p) (\<lambda>q. st z bd (Suc lo) (n + 2) ms q)"
  unfolding bump_removed_until_def
proof (rule wp_while_some [OF assms(1)])
  fix p
  assume "st z bd (max lo (p_pos p)) n ms p" and "p_pos p < k \<and> \<not> at_end p"
  then show "returns (may_panic z)
      (and_then (check_iteration_limit p) (\<lambda>p. let p = bump_removed p in Inr p))
      (\<lambda>q. st z bd (Suc (p_pos p)) (n + 2) ms q)"
    using assms(2) by - (assumption | simp only: wp_simps | erule wp | (simp; fail))+
qed (use assms in \<open>auto simp: at_end_more\<close>)


section \<open>Torn groups\<close>

lemma torn_if_here_ok:
  assumes "torn_if_here p = Some grp"
  shows "at_tok T_PreIf p" "group_ok (p_kinds p) grp" "c_open grp = p_pos p"
  using assms group_at_ok by (auto simp: torn_if_here_def conditional_at_def split: if_splits)

lemma wp_open_torn_if [wp]:
  assumes "st z bd lo n ms p" and "stop \<le> close"
    and "\<And>q. st z bd lo n ms q \<Longrightarrow> returns pn (f q) Q"
  shows "returns pn (Let (open_torn_if stop close p) f) Q"
  unfolding Let_def
  by (rule assms(3))
    (use assms(1,2) in \<open>auto simp: open_torn_if_def st_def wf_def cost_def remaining_def\<close>)

lemma remove_ending_Some:
  "remove_ending pos xs = Some (close, rest) \<Longrightarrow> (pos, close) \<in> set xs \<and> set rest \<subseteq> set xs"
  by (induction pos xs arbitrary: close rest rule: remove_ending.induct) (auto split: if_splits)

lemma remove_ending_None: "remove_ending pos xs = None \<Longrightarrow> \<not> list_ex (\<lambda>(stop, _). stop = pos) xs"
  by (induction pos xs rule: remove_ending.induct) (auto split: if_splits)

lemma close_torn_if_cases:
  assumes "st z bd lo n ms p"
  obtains (here) close q where "close_torn_if p = (Some close, q)" "st z bd lo n ms q"
      "current q = current p" "p_pos q = p_pos p" "p_pos p \<le> close"
    | (no_group) "close_torn_if p = (None, p)" "\<not> at_torn_if_end p"
proof (cases "remove_ending (p_pos p) (p_open_torn_ifs p)")
  case None
  then show ?thesis
    using no_group remove_ending_None by (simp add: close_torn_if_def at_torn_if_end_def)
next
  case (Some r)
  obtain close rest where r: "r = (close, rest)"
    by (cases r)
  have rest: "(p_pos p, close) \<in> set (p_open_torn_ifs p)" "set rest \<subseteq> set (p_open_torn_ifs p)"
    using remove_ending_Some Some r by auto
  then have "st z bd lo n ms (p\<lparr>p_open_torn_ifs := rest\<rparr>)" "p_pos p \<le> close"
    using assms by (auto simp: st_def wf_def cost_def remaining_def)
  then show ?thesis
    using here Some r by (simp add: close_torn_if_def current_get)
qed


section \<open>Progress\<close>

text \<open>
  A rule that reads an operand moves the cursor unless it stands where the statement
  ends. \<open>aim\<close> is the assertion in front of an operand: the target position and budget
  are reached already, or the token here will be consumed and reach them.
\<close>

definition aim ::
  "ctx \<Rightarrow> boundary list \<Rightarrow> nat \<Rightarrow> int \<Rightarrow> nat \<Rightarrow> int \<Rightarrow> mark list \<Rightarrow> parser \<Rightarrow> bool" where
  "aim z bd lo n lo' n' ms p \<longleftrightarrow>
     st z bd lo n ms p \<and> lo \<le> lo' \<and> lo' \<le> Suc lo \<and> n \<le> n' \<and> n' \<le> n + 1 \<and>
     (st z bd lo' n' ms p \<or> has_more p \<and> \<not> at_statement_separator p)"

lemma aim_refl: "st z bd lo n ms p \<Longrightarrow> aim z bd lo n lo n ms p"
  by (simp add: aim_def)

lemma aim_step:
  "st z bd lo n ms p \<Longrightarrow> has_more p \<Longrightarrow> \<not> at_statement_separator p \<Longrightarrow>
     aim z bd lo n (Suc lo) (n + 1) ms p"
  by (simp add: aim_def)

lemma aim_bounds: "aim z bd lo n lo' n' ms p \<Longrightarrow> lo \<le> lo' \<and> n \<le> n'"
  by (simp add: aim_def)

lemma aim_reached:
  assumes "st z bd (Suc lo) (n + 1) ms q" and "aim z bd lo n lo' n' ms' p"
  shows "aim z bd lo n lo' n' ms q"
  using assms by (auto simp: aim_def elim!: st_weaken)

lemma separator_same_cursor:
  assumes "same_cursor q p" and "st z bd lo n ms p" and "st z bd lo' n' ms' q"
  shows "at_statement_separator q = at_statement_separator p"
proof -
  have "at_enclosing_boundary q = at_enclosing_boundary p"
    using assms boundary_same_cursor [OF assms(1)] by (simp add: at_enclosing_boundary_def st_def)
  then show ?thesis
    using assms st_not_declared [OF assms(2)] st_not_declared [OF assms(3)]
    by (simp add: at_statement_separator_def at_tok_def at_torn_if_end_def at_any_iff)
qed

lemma aim_start [wp]:
  assumes "aim z bd lo n lo' n' ms p"
    and "\<And>m q. aim z bd lo n lo' n' (Fresh (mk_pos m) # ms) q \<Longrightarrow> same_cursor q p \<Longrightarrow>
      returns pn (f (m, q)) Q"
  shows "returns pn (Let (start p) f) Q"
proof -
  obtain m q where mq: "start p = (m, q)"
    by (cases "start p")
  have start: "st z bd l k (Fresh (mk_pos m) # ms) q \<and> same_cursor q p" if "st z bd l k ms p" for l k
    using wp_start [OF that, of False "\<lambda>(m, q). Inr (m, q)"
        "\<lambda>(m, q). st z bd l k (Fresh (mk_pos m) # ms) q \<and> same_cursor q p"] mq
    by (simp add: Let_def)
  then have "same_cursor q p" "aim z bd lo n lo' n' (Fresh (mk_pos m) # ms) q"
    using assms(1) separator_same_cursor [of q p] unfolding aim_def
    by (metis same_cursor_back(1))+
  with assms(2) mq show ?thesis
    by (simp del: same_cursor_def)
qed

text \<open>Consuming a token reaches the aim.\<close>

lemma aim_bump [wp]:
  assumes "aim z bd lo n lo' n' ms p" and "has_more p"
    and "\<And>q. st z bd (Suc lo) (n + 3) ms q \<Longrightarrow> lo' \<le> Suc lo \<Longrightarrow> n' \<le> n + 3 \<Longrightarrow> returns pn (f q) Q"
  shows "returns pn (Let (bump p) f) Q"
  using assms st_bump by (auto simp: aim_def Let_def)

end
