(* ===== verification/Grammar_Calls.thy ===== *)
theory Grammar_Calls
  imports Parser_Logic
begin

text \<open>
  The interface between the rules of the grammar. The rules of \<open>parser/src/grammar\<close>
  call each other in circles; every circle passes through one of the functions named by
  \<open>nonterm\<close>, and it does so after consuming a token. A rule of the model takes the
  table of these functions as an argument, so that it can be read and verified on its
  own; \<open>Grammar\<close> ties the knot.

  The locale \<open>grammar_calls\<close> is the contract of that table. Its clients are the rules;
  it is discharged for the table of the parser in \<open>Grammar\<close>.
\<close>

datatype nonterm =
    Expression | NotExpr | UnaryExpr | Statement | PreprocLogicalOperand | PreprocessorIf

type_synonym calls = "nonterm \<Rightarrow> parser \<Rightarrow> (bool \<times> parser) outcome"

text \<open>A call whose result is not used.\<close>

definition call :: "calls \<Rightarrow> nonterm \<Rightarrow> parser \<Rightarrow> parser outcome" where
  "call rec nt p = and_then (rec nt p) (\<lambda>(_, p). Inr p)"

locale grammar_calls =
  fixes rec :: calls and N :: nat
  assumes rec_quiet: "nt \<in> {Expression, NotExpr, UnaryExpr, PreprocLogicalOperand} \<Longrightarrow>
      st z bd lo n ms p \<Longrightarrow> p_pos (cx_base z) < lo \<Longrightarrow> 0 \<le> n \<Longrightarrow> cx_fuel z = N \<Longrightarrow>
      returns (may_panic z) (rec nt p) (\<lambda>(_, q). st z bd lo n ms q)"
    and rec_statement: "st z bd lo n ms p \<Longrightarrow> p_pos (cx_base z) < lo \<Longrightarrow> 0 \<le> n \<Longrightarrow>
      cx_fuel z = N \<Longrightarrow> has_more p \<Longrightarrow> \<not> at_enclosing_boundary p \<Longrightarrow>
      returns (may_panic z) (rec Statement p) (\<lambda>(_, q). st z bd (Suc lo) (n + 1) ms q)"
    and rec_preprocessor_if: "st z bd lo n ms p \<Longrightarrow> p_pos (cx_base z) < lo \<Longrightarrow> 0 \<le> n \<Longrightarrow>
      cx_fuel z = N \<Longrightarrow> at_tok T_PreIf p \<Longrightarrow>
      returns (may_panic z) (rec PreprocessorIf p) (\<lambda>(_, q). st z bd (Suc lo) (n + 1) ms q)"
begin

lemma wp_call_quiet [THEN returns_mono, wp]:
  assumes "st z bd lo n ms p" and "p_pos (cx_base z) < lo" and "0 \<le> n" and "cx_fuel z = N"
  shows "returns (may_panic z) (call rec Expression p) (\<lambda>q. st z bd lo n ms q)"
    "returns (may_panic z) (call rec NotExpr p) (\<lambda>q. st z bd lo n ms q)"
    "returns (may_panic z) (call rec UnaryExpr p) (\<lambda>q. st z bd lo n ms q)"
    "returns (may_panic z) (call rec PreprocLogicalOperand p) (\<lambda>q. st z bd lo n ms q)"
  unfolding call_def by (rule returns_bind [OF rec_quiet [OF _ assms]]; auto)+

lemmas wp_rec_statement [wp] = rec_statement [THEN returns_mono]

lemma wp_call_preprocessor_if [THEN returns_mono, wp]:
  assumes "st z bd lo n ms p" and "p_pos (cx_base z) < lo" and "0 \<le> n" and "cx_fuel z = N"
    and "at_tok T_PreIf p"
  shows "returns (may_panic z) (call rec PreprocessorIf p) (\<lambda>q. st z bd (Suc lo) (n + 1) ms q)"
  unfolding call_def by (rule returns_bind [OF rec_preprocessor_if [OF assms]]) auto

end

end
