(* ===== verification/Grammar_Preproc.thy ===== *)
theory Grammar_Preproc
  imports Grammar_Calls
begin

text \<open>
  The preprocessor rules of \<open>parser/src/grammar.rs\<close> that hold no statements: regions,
  removed and inserted blocks, the condition of an \<open>#If\<close>, and the two parts of a
  conditional group that tears a construct apart.
\<close>

section \<open>Rules\<close>

definition preprocessor_region :: "parser \<Rightarrow> parser outcome" where
  "preprocessor_region p =
     (let (m, p) = start p;
          p = bump p;
          p = (if \<not> a_line_break_precedes p \<and> at_tok T_Ident p then bump p else p)
      in close_node m NK_PreRegionDir p)"

definition preprocessor_end_region :: "parser \<Rightarrow> parser outcome" where
  "preprocessor_end_region p =
     (let (m, p) = start p;
          p = bump p
      in close_node m NK_PreRegionDir p)"

definition preproc_symbol :: "parser \<Rightarrow> parser outcome" where
  "preproc_symbol p =
     (let (m, p) = start p in
      and_then (if at_tok T_Ident p then let p = bump p in Inr p else error_unexpected p)
        (\<lambda>p. close_node m NK_PreSymbol p))"

definition preproc_logical_expression :: "calls \<Rightarrow> parser \<Rightarrow> parser outcome" where
  "preproc_logical_expression rec p =
     (let (m, p) = start p in
      and_then (call rec PreprocLogicalOperand p) (\<lambda>p.
      and_then
        (while_do (loop_fuel p) (\<lambda>p. at_any [T_KwAnd, T_KwOr] p)
          (\<lambda>p. and_then (check_iteration_limit p) (\<lambda>p.
               let (op_m, p) = start p;
                   p = bump p in
               and_then (close_node op_m NK_PreBoolOp p) (\<lambda>p.
               call rec PreprocLogicalOperand p))) p) (\<lambda>p.
      close_node m NK_PreLogicalExpr p)))"

definition preproc_logical_operand :: "calls \<Rightarrow> parser \<Rightarrow> parser outcome" where
  "preproc_logical_operand rec p =
     (let (m, p) = start p in
      and_then
        (if at_tok T_LParen p then
           let p = bump p in
           and_then
             (within_boundary_unit AtClosingParen
               (\<lambda>p. if at_tok T_KwNot p then let p = bump p in call rec PreprocLogicalOperand p
                    else preproc_logical_expression rec p) p) (\<lambda>p.
           require T_RParen p)
         else if at_tok T_KwNot p then let p = bump p in call rec PreprocLogicalOperand p
         else preproc_symbol p) (\<lambda>p.
      close_node m NK_PreLogicalOperand p))"

definition preproc_expression :: "calls \<Rightarrow> parser \<Rightarrow> parser outcome" where
  "preproc_expression rec p =
     (let (m, p) = start p in
      and_then (preproc_logical_expression rec p) (\<lambda>p.
      close_node m NK_PreExpr p))"

definition torn_preprocessor_if :: "calls \<Rightarrow> parser \<Rightarrow> parser outcome" where
  "torn_preprocessor_if rec p =
     (case torn_if_here p of
        None \<Rightarrow> Inr p
      | Some grp \<Rightarrow>
          let (m, p) = start p;
              p = bump p in
          and_then (within_boundary_unit AtPreprocThen (preproc_expression rec) p) (\<lambda>p.
          and_then (require T_KwThen p) (\<lambda>p.
          and_then
            (case c_active grp of
               Some (from_at, to_at) \<Rightarrow>
                 and_then (bump_removed_until from_at p) (\<lambda>p.
                 let p = open_torn_if to_at (c_close grp) p in Inr p)
             | None \<Rightarrow> bump_removed_until (c_close grp + 1) p) (\<lambda>p.
          close_node m NK_PreTornIfPart p))))"

definition torn_preprocessor_if_end :: "parser \<Rightarrow> parser outcome" where
  "torn_preprocessor_if_end p =
     (case close_torn_if p of
        (None, p) \<Rightarrow> Inr p
      | (Some close, p) \<Rightarrow>
          let (m, p) = start p in
          and_then (bump_removed_until (close + 1) p) (\<lambda>p.
          close_node m NK_PreTornIfPart p))"

definition preprocessor_delete :: "parser \<Rightarrow> parser outcome" where
  "preprocessor_delete p =
     (let (m, p) = start p;
          p = bump p in
      and_then
        (while_do (loop_fuel p) (\<lambda>p. \<not> at_end p \<and> \<not> at_tok T_PreEndDelete p)
          (\<lambda>p. and_then (check_iteration_limit p) (\<lambda>p. let p = bump p in Inr p)) p) (\<lambda>p.
      let p = snd (eat T_PreEndDelete p)
      in close_node m NK_PreDeleteDir p))"

definition preprocessor_insert :: "parser \<Rightarrow> parser outcome" where
  "preprocessor_insert p =
     (let (m, p) = start p;
          p = bump p in
      and_then
        (while_do (loop_fuel p) (\<lambda>p. \<not> at_end p \<and> \<not> at_tok T_PreEndInsert p)
          (\<lambda>p. and_then (check_iteration_limit p) (\<lambda>p. let p = bump p in Inr p)) p) (\<lambda>p.
      let p = snd (eat T_PreEndInsert p)
      in close_node m NK_PreInsertDir p))"


section \<open>Their contracts\<close>

declare if_split [split del]

lemma wp_preproc_symbol [THEN returns_mono, wp]:
  assumes "st z bd lo n ms p"
  shows "returns pn (preproc_symbol p) (\<lambda>q. st z bd lo n ms q)"
  using assms unfolding preproc_symbol_def
  by - (assumption | simp only: wp_simps | erule wp | (simp; fail))+

lemma wp_preprocessor_region [THEN returns_mono, wp]:
  assumes "st z bd lo n ms p" and "has_more p"
  shows "returns pn (preprocessor_region p) (\<lambda>q. st z bd (Suc lo) (n + 3) ms q)"
  using assms unfolding preprocessor_region_def
  by - (assumption | simp only: wp_simps | erule wp | (simp; fail))+

lemma wp_preprocessor_end_region [THEN returns_mono, wp]:
  assumes "st z bd lo n ms p" and "has_more p"
  shows "returns pn (preprocessor_end_region p) (\<lambda>q. st z bd (Suc lo) (n + 3) ms q)"
  using assms unfolding preprocessor_end_region_def
  by - (assumption | simp only: wp_simps | erule wp | (simp; fail))+

lemma wp_preprocessor_delete [THEN returns_mono, wp]:
  assumes "st z bd lo n ms p" and "-1 \<le> n" and "has_more p"
  shows "returns (may_panic z) (preprocessor_delete p) (\<lambda>q. st z bd (Suc lo) (n + 3) ms q)"
  using assms unfolding preprocessor_delete_def
  by - (assumption | simp only: wp_simps | erule wp | (simp; fail))+

lemma wp_preprocessor_insert [THEN returns_mono, wp]:
  assumes "st z bd lo n ms p" and "-1 \<le> n" and "has_more p"
  shows "returns (may_panic z) (preprocessor_insert p) (\<lambda>q. st z bd (Suc lo) (n + 3) ms q)"
  using assms unfolding preprocessor_insert_def
  by - (assumption | simp only: wp_simps | erule wp | (simp; fail))+

lemma wp_torn_preprocessor_if_end [THEN returns_mono, wp]:
  assumes "st z bd lo n ms p" and "-1 \<le> n" and "at_torn_if_end p"
  shows "returns (may_panic z) (torn_preprocessor_if_end p) (\<lambda>q. st z bd (Suc lo) (n + 2) ms q)"
  using assms(1)
proof (cases rule: close_torn_if_cases)
  case (here close q)
  have "has_more q"
    using assms(3) here(3) by (auto simp: at_torn_if_end_def at_any_iff has_more_def)
  then show ?thesis
    unfolding torn_preprocessor_if_end_def here(1) using here(2,4,5) assms(2)
    by - (assumption | simp only: wp_simps
        | erule wp_bump_removed_some [THEN returns_mono] wp | (simp; fail))+
qed (use assms in simp)

context grammar_calls
begin

lemma wp_preproc_logical_expression [THEN returns_mono, wp]:
  assumes "st z bd lo n ms p" and "p_pos (cx_base z) < lo" and "0 \<le> n" and "cx_fuel z = N"
  shows "returns (may_panic z) (preproc_logical_expression rec p) (\<lambda>q. st z bd lo n ms q)"
  using assms unfolding preproc_logical_expression_def
  by - (assumption | simp only: wp_simps | erule wp | (simp; fail))+

lemma wp_preproc_logical_operand [THEN returns_mono, wp]:
  assumes "st z bd lo n ms p" and "p_pos (cx_base z) \<le> lo" and "0 \<le> n" and "cx_fuel z = N"
  shows "returns (may_panic z) (preproc_logical_operand rec p) (\<lambda>q. st z bd lo n ms q)"
  using assms unfolding preproc_logical_operand_def
  by - (assumption | simp only: wp_simps | erule wp | (simp; fail))+

lemma wp_preproc_expression [THEN returns_mono, wp]:
  assumes "st z bd lo n ms p" and "p_pos (cx_base z) < lo" and "0 \<le> n" and "cx_fuel z = N"
  shows "returns (may_panic z) (preproc_expression rec p) (\<lambda>q. st z bd lo n ms q)"
  using assms unfolding preproc_expression_def
  by - (assumption | simp only: wp_simps | erule wp | (simp; fail))+

lemma wp_torn_preprocessor_if:
  assumes "st z bd lo n ms p" and "p_pos (cx_base z) \<le> lo" and "-1 \<le> n" and "cx_fuel z = N"
    and "torn_if_here p = Some grp"
  shows "returns (may_panic z) (torn_preprocessor_if rec p) (\<lambda>q. st z bd (Suc lo) (n + 3) ms q)"
proof (cases "c_active grp")
  case None
  show ?thesis
    unfolding torn_preprocessor_if_def assms(5) option.case None
    using assms(1-4) torn_if_here_ok(1) [OF assms(5)]
    by - (assumption | simp only: wp_simps | erule wp | (simp; fail))+
next
  case (Some body)
  obtain from_at to_at where body: "body = (from_at, to_at)"
    by (cases body)
  with Some have "to_at \<le> c_close grp"
    using torn_if_here_ok(2) [OF assms(5)] by (auto simp: group_ok_def)
  then show ?thesis
    unfolding torn_preprocessor_if_def assms(5) option.case Some body
    using assms(1-4) torn_if_here_ok(1) [OF assms(5)]
    by - (assumption | simp only: wp_simps | erule wp | (simp; fail))+
qed

end

end
