(* ===== verification/Grammar_Expr.thy ===== *)
theory Grammar_Expr
  imports Grammar_Preproc
begin

text \<open>
  The expression rules (\<open>parser/src/grammar/expressions.rs\<close>): the ladder of operators,
  postfix chains, primaries, and the markers of extensions and conditional groups that
  may stand inside an expression.
\<close>

section \<open>Markers inside an expression\<close>

definition CROSS_LINE_PROPERTY_NAME_TOKENS :: token_set where
  "CROSS_LINE_PROPERTY_NAME_TOKENS =
     token_set_new [T_Ident, T_KwProcedure, T_KwFunction, T_KwExecute, T_KwGoto, T_KwBreak,
       T_KwContinue, T_KwTo, T_KwTrue, T_KwFalse, T_KwUndefined, T_KwNull, T_KwNew]"

definition TORN_EXPRESSION_CONTINUATION :: token_set where
  "TORN_EXPRESSION_CONTINUATION =
     token_set_new [T_KwOr, T_KwAnd, T_Eq, T_Neq, T_Lt, T_Le, T_Gt, T_Ge, T_Plus, T_Minus,
       T_Star, T_Slash, T_Percent, T_Dot, T_LBracket, T_LParen, T_RParen, T_RBracket,
       T_Comma, T_KwThen, T_KwDo, T_KwTo]"

definition at_inline_directive :: "parser \<Rightarrow> bool" where
  "at_inline_directive p =
     (if at_any [T_PreInsert, T_PreDelete] p then True
      else if at_tok T_PreEndInsert p then inline_insert_open p
      else if at_tok T_PreIf p then at_torn_if_inline p
      else if at_any [T_PreElsIf, T_PreElse, T_PreEndIf] p then at_torn_if_end p
      else False)"

definition inline_delete :: "parser \<Rightarrow> parser outcome" where
  "inline_delete p =
     (let (m, p) = start p;
          p = bump_removed p in
      and_then
        (while_do (loop_fuel p) (\<lambda>p. \<not> at_end p \<and> \<not> at_tok T_PreEndDelete p)
          (\<lambda>p. and_then (check_iteration_limit p) (\<lambda>p. let p = bump_removed p in Inr p)) p) (\<lambda>p.
      let p = (if at_tok T_PreEndDelete p then bump_removed p else p)
      in close_node m NK_PreDeleteDir p))"

text \<open>One pass of the loop of \<open>inline_directives\<close>.\<close>

definition inline_directive :: "calls \<Rightarrow> parser \<Rightarrow> parser outcome" where
  "inline_directive rec p =
     (if at_tok T_PreIf p then torn_preprocessor_if rec p
      else if at_torn_if_end p then torn_preprocessor_if_end p
      else if at_tok T_PreDelete p then inline_delete p
      else if at_tok T_PreInsert p \<and> \<not> insert_here_is_closed p then
        let (m, p) = start p;
            p = bump p
        in error_custom_at_marker m MsgInsertWithoutEnd p
      else let p = bump_inline_insert_marker p in Inr p)"

definition inline_directives :: "calls \<Rightarrow> parser \<Rightarrow> parser outcome" where
  "inline_directives rec p =
     while_do (loop_fuel p) at_inline_directive
       (\<lambda>p. and_then (check_iteration_limit p) (\<lambda>p. inline_directive rec p)) p"

text \<open>
  The inner loop of the look-ahead: the offset behind a removed block that starts at
  offset \<open>n\<close>, \<open>None\<close> when the block does not end.
\<close>

definition past_removed :: "nat \<Rightarrow> parser \<Rightarrow> nat option outcome" where
  "past_removed n p =
     loop (loop_fuel p)
       (\<lambda>n. let n = n + 1 in
            case nth_kind n p of
              None \<Rightarrow> Inr (Inr None)
            | Some k \<Rightarrow> if k = T_PreEndDelete then Inr (Inr (Some (n + 1))) else Inr (Inl n)) n"

definition at_inline_directives_before :: "(token_kind \<Rightarrow> bool) \<Rightarrow> parser \<Rightarrow> bool outcome" where
  "at_inline_directives_before continues p =
     loop (loop_fuel p)
       (\<lambda>(n, opened, torn).
          case torn_if_skip n torn p of
            (Some resume, torn) \<Rightarrow> Inr (Inl (resume, opened, torn))
          | (None, torn) \<Rightarrow>
              (case nth_kind n p of
                 None \<Rightarrow> Inr (Inr False)
               | Some k \<Rightarrow>
                   if k = T_PreInsert then Inr (Inl (n + 1, opened + 1, torn))
                   else if k = T_PreEndInsert \<and> 0 < opened then
                     Inr (Inl (n + 1, opened - 1, torn))
                   else if k = T_PreDelete then
                     and_then (past_removed n p) (\<lambda>r.
                     case r of None \<Rightarrow> Inr (Inr False) | Some n \<Rightarrow> Inr (Inl (n, opened, torn)))
                   else if 0 < n then Inr (Inr (continues k))
                   else Inr (Inr False)))
       (0, p_open_inline_inserts p, [])"

definition inline_directives_before ::
  "calls \<Rightarrow> (token_kind \<Rightarrow> bool) \<Rightarrow> parser \<Rightarrow> parser outcome" where
  "inline_directives_before rec continues p =
     and_then (at_inline_directives_before continues p) (\<lambda>ahead.
     if ahead then inline_directives rec p else Inr p)"

definition continue_across_inline_directives :: "calls \<Rightarrow> parser \<Rightarrow> (bool \<times> parser) outcome" where
  "continue_across_inline_directives rec p =
     (if at_tok T_PreEndInsert p \<and> inline_insert_open p then
        let p = bump_inline_insert_marker p in Inr (True, p)
      else
        let torn = (at_torn_if_end p \<or> at_torn_if_inline p) in
        and_then
          (at_inline_directives_before
            (\<lambda>kind. token_set_contains TORN_EXPRESSION_CONTINUATION kind \<or>
               (torn \<and> kind = T_Semicolon)) p) (\<lambda>ahead.
        if ahead then and_then (inline_directives rec p) (\<lambda>p. Inr (True, p))
        else Inr (False, p)))"


section \<open>Primaries\<close>

definition string_continuation_tail :: "calls \<Rightarrow> parser \<Rightarrow> parser outcome" where
  "string_continuation_tail rec p =
     loop (loop_fuel p)
       (\<lambda>(u :: unit, p). and_then (check_iteration_limit p) (\<lambda>p.
          if at_any [T_StringTail, T_String] p then let p = bump p in Inr (Inr p)
          else if at_tok T_StringPart p then let p = bump p in Inr (Inl ((), p))
          else if at_inline_directive p then
            and_then (inline_directives rec p) (\<lambda>p. Inr (Inl ((), p)))
          else if current p = None then
            and_then (error_custom MsgUnclosedString p) (\<lambda>p. Inr (Inr p))
          else and_then (error_custom MsgTokenInString p) (\<lambda>p. Inr (Inr p)))) ((), p)"

definition string_literal :: "calls \<Rightarrow> parser \<Rightarrow> (completed_marker \<times> parser) outcome" where
  "string_literal rec p =
     (let (m, p) = start p in
      and_then
        (loop (loop_fuel p)
          (\<lambda>(u :: unit, p).
             if at_tok T_String p then
               let p = bump p in
               if \<not> at_any [T_String, T_StringStart] p then Inr (Inr p) else Inr (Inl ((), p))
             else if at_tok T_StringStart p then
               let p = bump p in
               and_then (string_continuation_tail rec p) (\<lambda>p.
               if \<not> at_any [T_String, T_StringStart] p then Inr (Inr p) else Inr (Inl ((), p)))
             else Inr (Inr p)) ((), p)) (\<lambda>p.
      complete m NK_Literal p))"

definition await_expr :: "calls \<Rightarrow> parser \<Rightarrow> (completed_marker \<times> parser) outcome" where
  "await_expr rec p =
     (let (m, p) = start p;
          p = bump p in
      and_then (call rec Expression p) (\<lambda>p.
      complete m NK_AwaitExpr p))"

definition arg_list :: "calls \<Rightarrow> parser \<Rightarrow> parser outcome" where
  "arg_list rec p =
     (let (m, p) = start p;
          p = bump p in
      and_then
        (within_boundary_unit AtParenListPunctuation
          (\<lambda>p. and_then (inline_directives rec p) (\<lambda>p.
               if \<not> at_tok T_RParen p then
                 and_then
                   (if \<not> at_tok T_Comma p \<and> \<not> at_tok T_RParen p then call rec Expression p
                    else Inr p) (\<lambda>p.
                 loop (loop_fuel p)
                   (\<lambda>(u :: unit, p).
                      let (eaten, p) = eat T_Comma p in
                      if eaten then
                        and_then (check_iteration_limit p) (\<lambda>p.
                        and_then (inline_directives rec p) (\<lambda>p.
                        and_then
                          (if \<not> at_tok T_Comma p \<and> \<not> at_tok T_RParen p
                           then call rec Expression p else Inr p) (\<lambda>p.
                        Inr (Inl ((), p)))))
                      else Inr (Inr p)) ((), p))
               else Inr p)) p) (\<lambda>p.
      and_then (require T_RParen p) (\<lambda>p.
      close_node m NK_ArgList p)))"

definition new_expr :: "calls \<Rightarrow> parser \<Rightarrow> (completed_marker \<times> parser) outcome" where
  "new_expr rec p =
     (let (m, p) = start p;
          p = bump p in
      and_then (inline_directives_before rec (\<lambda>kind. kind = T_Ident \<or> kind = T_LParen) p) (\<lambda>p.
      let p = (if at_tok T_Ident p then bump p else p) in
      and_then (inline_directives_before rec (\<lambda>kind. kind = T_LParen) p) (\<lambda>p.
      and_then (if at_tok T_LParen p then arg_list rec p else Inr p) (\<lambda>p.
      complete m NK_NewExpr p))))"

definition continues_the_surrounding_expression :: "parser \<Rightarrow> bool" where
  "continues_the_surrounding_expression p =
     at_any [T_KwOr, T_KwAnd, T_Eq, T_Neq, T_Lt, T_Le, T_Gt, T_Ge, T_Plus, T_Minus, T_Star,
       T_Slash, T_Percent, T_Dot, T_LBracket] p"

definition ternary_expr :: "calls \<Rightarrow> parser \<Rightarrow> (completed_marker \<times> parser) outcome" where
  "ternary_expr rec p =
     (let (m, p) = start p;
          p = bump p;
          (opened, p) = eat T_LParen p in
      if \<not> opened then
        and_then
          (if continues_the_surrounding_expression p
           then and_then (expect_no_bump T_LParen p) (\<lambda>(_, p). Inr p)
           else require T_LParen p) (\<lambda>p.
        complete m NK_TernaryExpr p)
      else
        and_then
          (within_boundary_unit AtParenListPunctuation
            (\<lambda>p. and_then (call rec Expression p) (\<lambda>p.
                 and_then (require T_Comma p) (\<lambda>p.
                 and_then (call rec Expression p) (\<lambda>p.
                 and_then (require T_Comma p) (\<lambda>p.
                 call rec Expression p)))) ) p) (\<lambda>p.
        and_then (require T_RParen p) (\<lambda>p.
        complete m NK_TernaryExpr p)))"

text \<open>\<open>Some(..)\<close> around a completed marker, and \<open>None\<close> after an error.\<close>

definition some_node ::
  "(completed_marker \<times> parser) outcome \<Rightarrow> (completed_marker option \<times> parser) outcome" where
  "some_node r = and_then r (\<lambda>(c, p). Inr (Some c, p))"

definition no_node :: "parser outcome \<Rightarrow> (completed_marker option \<times> parser) outcome" where
  "no_node r = and_then r (\<lambda>p. Inr (None, p))"

definition primary_expr :: "calls \<Rightarrow> parser \<Rightarrow> (completed_marker option \<times> parser) outcome" where
  "primary_expr rec p =
     (if at_any [T_Decimal, T_Float, T_Date] p then
        let (m, p) = start p; p = bump p in some_node (complete m NK_Literal p)
      else if at_any [T_String, T_StringStart] p then some_node (string_literal rec p)
      else if at_any [T_StringPart, T_StringTail] p then no_node (error_custom MsgStringFragment p)
      else if at_any [T_KwTrue, T_KwFalse] p then
        let (m, p) = start p; p = bump p in some_node (complete m NK_Literal p)
      else if at_any [T_KwUndefined, T_KwNull] p then
        let (m, p) = start p; p = bump p in some_node (complete m NK_Literal p)
      else if at_tok T_KwAwait p then some_node (await_expr rec p)
      else if at_tok T_Ident p then
        let (m, p) = start p; p = bump p in some_node (complete m NK_Ident p)
      else if at_tok T_LParen p then
        let (m, p) = start p; p = bump p in
        and_then (within_boundary_unit AtClosingParen (call rec Expression) p) (\<lambda>p.
        and_then (require T_RParen p) (\<lambda>p.
        some_node (complete m NK_ParenExpr p)))
      else if at_tok T_KwNew p then some_node (new_expr rec p)
      else if at_tok T_Question p then some_node (ternary_expr rec p)
      else no_node (error_unexpected p))"


section \<open>Postfix chains\<close>

text \<open>
  The loop state of \<open>postfix_expr_with_call_info\<close>: the completed left-hand side,
  \<open>postfix_after_constructor\<close> and \<open>is_valid_statement\<close>.
\<close>

definition postfix_dot ::
  "calls \<Rightarrow> completed_marker \<Rightarrow> bool \<Rightarrow> bool \<Rightarrow> parser
    \<Rightarrow> (((completed_marker \<times> bool \<times> bool) \<times> parser) + (bool \<times> parser)) outcome" where
  "postfix_dot rec lhs after_constructor valid p =
     and_then (precede lhs p) (\<lambda>(m, p).
     and_then
       (if after_constructor then
          let (dot, p) = start p;
              p = bump p
          in error_custom_at_marker dot MsgAfterConstructor p
        else let p = bump p in Inr p) (\<lambda>p.
     and_then (inline_directives_before rec (\<lambda>kind. kind = T_Ident \<or> is_keyword kind) p) (\<lambda>p.
     let crossed_newline = a_line_break_precedes p;
         is_orphaned_declaration = (crossed_newline \<and> at_declaration_start p);
         at_property_name = (if crossed_newline then at_ts CROSS_LINE_PROPERTY_NAME_TOKENS p
                             else at_tok T_Ident p \<or> at_keyword_kind p) in
     if at_property_name \<and> \<not> is_orphaned_declaration then
       let p = bump p in
       and_then (complete m NK_FieldExpr p) (\<lambda>(lhs, p).
       Inr (Inl ((lhs, False, False), p)))
     else
       and_then (error_custom_no_bump MsgPropertyName p) (\<lambda>p.
       and_then (close_node m NK_FieldExpr p) (\<lambda>p.
       Inr (Inr (valid, p)))))))"

definition postfix_pass ::
  "calls \<Rightarrow> (completed_marker \<times> bool \<times> bool) \<times> parser
    \<Rightarrow> (((completed_marker \<times> bool \<times> bool) \<times> parser) + (bool \<times> parser)) outcome" where
  "postfix_pass rec = (\<lambda>((lhs, after_constructor, valid), p).
     and_then (check_iteration_limit p) (\<lambda>p.
     if at_tok T_Dot p then postfix_dot rec lhs after_constructor valid p
     else if at_tok T_LBracket p then
       and_then (precede lhs p) (\<lambda>(m, p).
       let p = bump p in
       and_then (within_boundary_unit AtClosingBracket (call rec Expression) p) (\<lambda>p.
       and_then (require T_RBracket p) (\<lambda>p.
       and_then (complete m NK_IndexExpr p) (\<lambda>(lhs, p).
       Inr (Inl ((lhs, False, True), p))))))
     else if at_tok T_LParen p then
       and_then (precede lhs p) (\<lambda>(m, p).
       and_then (arg_list rec p) (\<lambda>p.
       and_then (complete m NK_CallExpr p) (\<lambda>(lhs, p).
       Inr (Inl ((lhs, False, True), p)))))
     else if at_any [T_PreInsert, T_PreEndInsert, T_PreDelete, T_PreIf, T_PreElsIf,
         T_PreElse, T_PreEndIf] p then
       and_then (continue_across_inline_directives rec p) (\<lambda>(taken, p).
       if taken then Inr (Inl ((lhs, after_constructor, valid), p))
       else Inr (Inr (valid, p)))
     else Inr (Inr (valid, p))))"

definition postfix_expr_with_call_info :: "calls \<Rightarrow> parser \<Rightarrow> (bool \<times> parser) outcome" where
  "postfix_expr_with_call_info rec p =
     (let postfix_after_constructor = at_tok T_KwNew p in
      and_then (primary_expr rec p) (\<lambda>(lhs, p).
      case lhs of
        None \<Rightarrow> Inr (False, p)
      | Some lhs \<Rightarrow>
          loop (loop_fuel p) (postfix_pass rec) ((lhs, postfix_after_constructor, False), p)))"

definition postfix_expr :: "calls \<Rightarrow> parser \<Rightarrow> parser outcome" where
  "postfix_expr rec p = and_then (postfix_expr_with_call_info rec p) (\<lambda>(_, p). Inr p)"

definition postfix_expression_for_assignment :: "calls \<Rightarrow> parser \<Rightarrow> (bool \<times> parser) outcome" where
  "postfix_expression_for_assignment rec p = postfix_expr_with_call_info rec p"


section \<open>The ladder of operators\<close>

definition unary_expr :: "calls \<Rightarrow> parser \<Rightarrow> parser outcome" where
  "unary_expr rec p =
     and_then (inline_directives rec p) (\<lambda>p.
     if at_any [T_Plus, T_Minus] p then let p = bump p in call rec UnaryExpr p
     else postfix_expr rec p)"

text \<open>
  The loop every level of binary operators has: the completed left-hand side gets a
  parent, the operator and the right-hand side follow, and the result is the next
  left-hand side. The answer says whether an operator was seen.
\<close>

definition binary_loop ::
  "bool \<Rightarrow> token_kind list \<Rightarrow> (parser \<Rightarrow> parser outcome) \<Rightarrow> marker \<Rightarrow> parser
    \<Rightarrow> ((bool \<times> marker) \<times> parser) outcome" where
  "binary_loop guarded operators operand lhs p =
     loop (loop_fuel p)
       (\<lambda>((seen, lhs), p).
          if at_any operators p then
            and_then (if guarded then check_iteration_limit p else Inr p) (\<lambda>p.
            and_then (complete lhs NK_Expr p) (\<lambda>(c, p).
            and_then (precede c p) (\<lambda>(m, p).
            let p = bump p;
                (rhs, p) = start p in
            and_then (operand p) (\<lambda>p.
            and_then (close_node rhs NK_Expr p) (\<lambda>p.
            and_then (complete m NK_BinaryExpr p) (\<lambda>(c, p).
            and_then (precede c p) (\<lambda>(lhs, p).
            Inr (Inl ((True, lhs), p)))))))))
          else Inr (Inr ((seen, lhs), p)))
       ((False, lhs), p)"

definition multiplicative_expr :: "calls \<Rightarrow> parser \<Rightarrow> parser outcome" where
  "multiplicative_expr rec p =
     (let (lhs, p) = start p in
      and_then (unary_expr rec p) (\<lambda>p.
      and_then (binary_loop True [T_Star, T_Slash, T_Percent] (unary_expr rec) lhs p) (\<lambda>((_, lhs), p).
      close_node lhs NK_Expr p)))"

definition additive_expr :: "calls \<Rightarrow> parser \<Rightarrow> parser outcome" where
  "additive_expr rec p =
     (let (lhs, p) = start p in
      and_then (multiplicative_expr rec p) (\<lambda>p.
      and_then (binary_loop True [T_Plus, T_Minus] (multiplicative_expr rec) lhs p) (\<lambda>((_, lhs), p).
      close_node lhs NK_Expr p)))"

definition comparison_expr :: "calls \<Rightarrow> parser \<Rightarrow> parser outcome" where
  "comparison_expr rec p =
     (let (lhs, p) = start p in
      and_then (additive_expr rec p) (\<lambda>p.
      and_then
        (binary_loop False [T_Eq, T_Neq, T_Lt, T_Le, T_Gt, T_Ge] (additive_expr rec) lhs p)
        (\<lambda>((saw_comparison, lhs), p).
      if saw_comparison then close_node lhs NK_Expr p else abandon lhs p)))"

definition not_expr :: "calls \<Rightarrow> parser \<Rightarrow> parser outcome" where
  "not_expr rec p =
     and_then (inline_directives rec p) (\<lambda>p.
     if at_tok T_KwNot p then
       let (m, p) = start p;
           p = bump p in
       and_then (call rec NotExpr p) (\<lambda>p.
       close_node m NK_UnaryExpr p)
     else comparison_expr rec p)"

definition and_expr :: "calls \<Rightarrow> parser \<Rightarrow> parser outcome" where
  "and_expr rec p =
     (let (lhs, p) = start p in
      and_then (not_expr rec p) (\<lambda>p.
      and_then (binary_loop True [T_KwAnd] (not_expr rec) lhs p) (\<lambda>((_, lhs), p).
      close_node lhs NK_Expr p)))"

definition or_expr :: "calls \<Rightarrow> parser \<Rightarrow> parser outcome" where
  "or_expr rec p =
     (let (lhs, p) = start p in
      and_then (and_expr rec p) (\<lambda>p.
      and_then (binary_loop True [T_KwOr] (and_expr rec) lhs p) (\<lambda>((_, lhs), p).
      close_node lhs NK_Expr p)))"

definition expression :: "calls \<Rightarrow> parser \<Rightarrow> parser outcome" where
  "expression rec p = or_expr rec p"



section \<open>The look-ahead\<close>

declare if_split [split del]

text \<open>
  The look-ahead moves forward on every pass: behind a directive of a torn group lies
  the branch that is read or the end of the group.
\<close>

definition pairs_ok :: "(nat \<times> nat) list \<Rightarrow> bool" where
  "pairs_ok xs \<longleftrightarrow> (\<forall>(stop, close) \<in> set xs. stop \<le> close)"

lemma find_ending:
  "find (\<lambda>(stop, _). stop = at) xs = Some (stop, close) \<Longrightarrow> (at, close) \<in> set xs"
  by (induction xs) (auto split: if_splits)

lemma torn_if_skip_forward:
  assumes "wf p" and "pairs_ok pending" and "torn_if_skip n pending p = (Some resume, pending')"
  shows "n < resume \<and> p_pos p + n < input_len (p_input p) \<and> pairs_ok pending'"
proof -
  obtain k where k: "input_kind (p_input p) (p_pos p + n) = Some k"
    using assms(3) by (cases "input_kind (p_input p) (p_pos p + n)") (auto simp: torn_if_skip_def Let_def)
  then have len: "p_pos p + n < input_len (p_input p)"
    by (simp add: input_kind_def get_eq_Some input_len_def)
  show ?thesis
  proof (cases "k = T_PreIf")
    case True
    with assms(3) k obtain grp where grp: "conditional_at p (p_pos p + n) = Some grp"
      by (auto simp: torn_if_skip_def Let_def split: option.splits)
    then have "group_ok (p_kinds p) grp" "c_open grp = p_pos p + n"
      using group_at_ok by (auto simp: conditional_at_def)
    then show ?thesis
      using assms(2,3) k True grp len
      by (auto simp: torn_if_skip_def Let_def group_ok_def pairs_ok_def split: option.splits)
  next
    case False
    then have "map_option (\<lambda>(_, close). close + 1 - p_pos p)
        (find (\<lambda>(stop, _). stop = p_pos p + n) (p_open_torn_ifs p @ pending)) = Some resume"
      and pending: "pending' = pending"
      using assms(3) k by (auto simp: torn_if_skip_def Let_def split: if_splits)
    then obtain stop close where
      found: "find (\<lambda>(stop, _). stop = p_pos p + n) (p_open_torn_ifs p @ pending) = Some (stop, close)"
      and r: "resume = close + 1 - p_pos p"
      by auto
    have c: "(p_pos p + n, close) \<in> set (p_open_torn_ifs p @ pending)"
      by (rule find_ending [OF found])
    have "p_pos p + n \<le> close"
      using c assms(1,2) by (auto simp: wf_def pairs_ok_def)
    then show ?thesis
      using r len assms(2) pending by simp
  qed
qed

lemma torn_if_skip_None: "torn_if_skip n pending p = (None, pending') \<Longrightarrow> pending' = pending"
  by (auto simp: torn_if_skip_def Let_def split: option.splits if_splits)

lemma past_removed_forward:
  assumes "p_pos p + n < input_len (p_input p)"
  shows "returns pn (past_removed n p) (\<lambda>r. case r of None \<Rightarrow> True | Some m \<Rightarrow> n < m)"
  unfolding past_removed_def
proof (rule returns_loop [where I = "\<lambda>m. n \<le> m \<and> p_pos p + m < input_len (p_input p)"
      and \<mu> = "\<lambda>m. input_len (p_input p) - (p_pos p + m)"])
  fix m
  assume "n \<le> m \<and> p_pos p + m < input_len (p_input p)"
  then show "returns pn (let n = m + 1 in
      case nth_kind n p of None \<Rightarrow> Inr (Inr None)
      | Some k \<Rightarrow> if k = T_PreEndDelete then Inr (Inr (Some (n + 1))) else Inr (Inl n))
      (\<lambda>r. case r of
        Inl m' \<Rightarrow> (n \<le> m' \<and> p_pos p + m' < input_len (p_input p)) \<and>
          input_len (p_input p) - (p_pos p + m') < input_len (p_input p) - (p_pos p + m)
      | Inr v \<Rightarrow> (case v of None \<Rightarrow> True | Some m \<Rightarrow> n < m))"
    by (cases "nth_kind (m + 1) p")
      (auto simp: nth_kind_def input_kind_def get_eq_Some input_len_def split: if_split)
qed (use assms in \<open>auto simp: loop_fuel_def\<close>)

lemma torn_if_skip_here:
  assumes "torn_if_skip 0 [] p = (Some resume, pending)"
  shows "at_inline_directive p"
proof -
  obtain k where k: "current p = Some k"
    using assms by (cases "current p") (auto simp: torn_if_skip_def current_def nth_kind_def Let_def)
  have "list_ex (\<lambda>(stop, _). stop = p_pos p) (p_open_torn_ifs p)"
    if "find (\<lambda>(stop, _). stop = p_pos p) (p_open_torn_ifs p) = Some (a, b)" for a b
    using find_ending [OF that] by (auto simp: list_ex_iff)
  with assms k show ?thesis
    by (auto simp: torn_if_skip_def current_def nth_kind_def Let_def at_inline_directive_def
        at_torn_if_inline_def at_torn_if_end_def at_any_iff at_tok_def split: option.splits if_splits)
qed

lemma inline_directive_kinds:
  "current p = Some T_PreInsert \<Longrightarrow> at_inline_directive p"
  "current p = Some T_PreDelete \<Longrightarrow> at_inline_directive p"
  "current p = Some T_PreEndInsert \<Longrightarrow> 0 < p_open_inline_inserts p \<Longrightarrow> at_inline_directive p"
  by (simp_all add: at_inline_directive_def at_any_iff at_tok_def inline_insert_open_def)

text \<open>What a pass of the look-ahead knows: nothing is skipped yet, or a marker stands here.\<close>

definition look_inv :: "parser \<Rightarrow> nat \<times> nat \<times> (nat \<times> nat) list \<Rightarrow> bool" where
  "look_inv p s = (case s of (m, opened, torn) \<Rightarrow>
     pairs_ok torn \<and>
     (if m = 0 then torn = [] \<and> opened = p_open_inline_inserts p else at_inline_directive p))"

lemma look_inv_first:
  assumes "look_inv p (m, opened, torn)" and "nth_kind m p = Some k"
    and "k = T_PreInsert \<or> k = T_PreDelete \<or> k = T_PreEndInsert \<and> 0 < opened"
  shows "at_inline_directive p"
  using assms inline_directive_kinds [of p]
  by (cases "m = 0") (auto simp: look_inv_def current_def)

lemma look_pass:
  assumes wf: "wf p" and inv: "look_inv p (m, opened, torn)"
  shows "returns pn
    (case torn_if_skip m torn p of
       (Some resume, torn) \<Rightarrow> Inr (Inl (resume, opened, torn))
     | (None, torn) \<Rightarrow>
         (case nth_kind m p of
            None \<Rightarrow> Inr (Inr False)
          | Some k \<Rightarrow>
              if k = T_PreInsert then Inr (Inl (m + 1, opened + 1, torn))
              else if k = T_PreEndInsert \<and> 0 < opened then
                Inr (Inl (m + 1, opened - 1, torn))
              else if k = T_PreDelete then
                and_then (past_removed m p) (\<lambda>r.
                case r of None \<Rightarrow> Inr (Inr False) | Some n \<Rightarrow> Inr (Inl (n, opened, torn)))
              else if 0 < m then Inr (Inr (continues k))
              else Inr (Inr False)))
    (\<lambda>r. case r of
       Inl (m', opened', torn') \<Rightarrow> look_inv p (m', opened', torn') \<and> m < m' \<and>
         p_pos p + m < input_len (p_input p)
     | Inr v \<Rightarrow> v \<longrightarrow> at_inline_directive p)"
proof -
  obtain resume torn' where skip: "torn_if_skip m torn p = (resume, torn')"
    by (cases "torn_if_skip m torn p")
  have torn: "pairs_ok torn"
    using inv by (simp add: look_inv_def)
  show ?thesis
  proof (cases resume)
    case None
    then have [simp]: "torn' = torn"
      using skip torn_if_skip_None by simp
    show ?thesis
    proof (cases "nth_kind m p")
      case (Some k)
      then have len: "p_pos p + m < input_len (p_input p)"
        by (simp add: nth_kind_def input_kind_def get_eq_Some input_len_def)
      have past: "returns pn (past_removed m p) (\<lambda>r. case r of None \<Rightarrow> True | Some n \<Rightarrow> m < n)"
        by (rule past_removed_forward [OF len])
      show ?thesis
        using skip None Some len torn past look_inv_first [OF inv Some] inv
        by (auto simp: returns_and_then look_inv_def split: if_split option.splits elim!: returns_mono)
    qed (use skip None in simp)
  next
    case (Some r)
    have fwd: "m < r \<and> p_pos p + m < input_len (p_input p) \<and> pairs_ok torn'"
      using torn_if_skip_forward [OF wf torn] skip Some by simp
    moreover have "at_inline_directive p"
      using inv skip Some torn_if_skip_here [of p] by (cases "m = 0") (auto simp: look_inv_def)
    ultimately show ?thesis
      using skip Some by (simp add: look_inv_def)
  qed
qed

lemma wp_look_ahead [THEN returns_mono, wp]:
  assumes "st z bd lo n ms p"
  shows "returns pn (at_inline_directives_before continues p)
    (\<lambda>ahead. st z bd lo n ms p \<and> (ahead \<longrightarrow> at_inline_directive p))"
proof -
  have wf: "wf p"
    using assms by (simp add: st_def)
  have "returns pn (at_inline_directives_before continues p) (\<lambda>ahead. ahead \<longrightarrow> at_inline_directive p)"
    unfolding at_inline_directives_before_def
  proof (rule returns_loop [where I = "look_inv p"
        and \<mu> = "\<lambda>(m, opened, torn). input_len (p_input p) - (p_pos p + m)"], goal_cases)
    case (3 s)
    obtain m opened torn where s: "s = (m, opened, torn)"
      by (cases s)
    show ?case
      unfolding s prod.case
      by (rule returns_mono [OF look_pass [OF wf]]) (use 3 s in \<open>auto split: sum.splits\<close>)
  qed (auto simp: look_inv_def pairs_ok_def loop_fuel_def)
  with assms show ?thesis
    by (auto elim: returns_mono)
qed


section \<open>Contracts of the markers\<close>

lemma wp_inline_delete [THEN returns_mono, wp]:
  assumes "st z bd lo n ms p" and "-1 \<le> n" and "has_more p"
  shows "returns (may_panic z) (inline_delete p) (\<lambda>q. st z bd (Suc lo) (n + 3) ms q)"
  using assms unfolding inline_delete_def
  by - (assumption | simp only: wp_simps | erule wp | (simp; fail))+

lemma inline_directive_torn:
  "at_inline_directive p \<Longrightarrow> at_tok T_PreIf p \<Longrightarrow> \<exists>grp. torn_if_here p = Some grp"
  by (auto simp: at_inline_directive_def at_torn_if_inline_def torn_if_here_def at_any_iff at_tok_def
      split: if_splits)

lemma inline_directive_insert:
  "at_inline_directive p \<Longrightarrow> \<not> at_tok T_PreIf p \<Longrightarrow> \<not> at_torn_if_end p \<Longrightarrow> \<not> at_tok T_PreDelete p
     \<Longrightarrow> at_any [T_PreInsert, T_PreEndInsert] p"
  by (auto simp: at_inline_directive_def at_any_iff at_tok_def split: if_splits)

lemma same_cursor_inline: "same_cursor q p \<Longrightarrow> at_inline_directive p \<Longrightarrow> at_inline_directive q"
  by (auto simp: at_inline_directive_def at_torn_if_inline_def at_torn_if_end_def at_any_iff
      at_tok_def inline_insert_open_def conditional_at_def split: if_splits)

declare same_cursor_inline [wp]

context grammar_calls
begin

lemma wp_inline_directive [THEN returns_mono, wp]:
  assumes p: "st z bd lo n ms p" and "p_pos (cx_base z) \<le> lo" and "-1 \<le> n" and "cx_fuel z = N"
    and here: "at_inline_directive p"
  shows "returns (may_panic z) (inline_directive rec p) (\<lambda>q. st z bd (Suc lo) (n + 2) ms q)"
  unfolding inline_directive_def
proof (intro returns_if)
  assume "at_tok T_PreIf p"
  with here obtain grp where grp: "torn_if_here p = Some grp"
    using inline_directive_torn by blast
  show "returns (may_panic z) (torn_preprocessor_if rec p) (\<lambda>q. st z bd (Suc lo) (n + 2) ms q)"
    by (rule returns_mono [OF wp_torn_preprocessor_if [OF assms(1-4) grp]]) (auto elim: st_weaken)
next
  assume "\<not> at_tok T_PreIf p" "\<not> at_torn_if_end p" "\<not> at_tok T_PreDelete p"
  with here have insert_marker: "at_any [T_PreInsert, T_PreEndInsert] p"
    using inline_directive_insert by blast
  show "returns (may_panic z) (let p = bump_inline_insert_marker p in Inr p)
      (\<lambda>q. st z bd (Suc lo) (n + 2) ms q)"
    using p insert_marker by - (assumption | simp only: wp_simps | erule wp | (simp; fail))+
  show "returns (may_panic z) (let (m, p) = start p; p = bump p
        in error_custom_at_marker m MsgInsertWithoutEnd p) (\<lambda>q. st z bd (Suc lo) (n + 2) ms q)"
    using p insert_marker by - (assumption | simp only: wp_simps | erule wp | (simp; fail))+
qed (insert assms, (assumption | simp only: wp_simps | erule wp | (simp; fail))+)

lemma wp_inline_some:
  assumes "st z bd lo n ms p" and "p_pos (cx_base z) \<le> lo" and "0 \<le> n" and "cx_fuel z = N"
    and "at_inline_directive p"
  shows "returns (may_panic z) (inline_directives rec p) (\<lambda>q. st z bd (Suc lo) (n + 1) ms q)"
  unfolding inline_directives_def
proof (rule wp_while_some [OF assms(1)])
  fix p
  assume "st z bd (max lo (p_pos p)) n ms p" and "at_inline_directive p"
  then show "returns (may_panic z)
      (and_then (check_iteration_limit p) (\<lambda>p. inline_directive rec p))
      (\<lambda>q. st z bd (Suc (p_pos p)) (n + 1) ms q)"
    using assms(2-4) by - (assumption | simp only: wp_simps | erule wp | (simp; fail))+
qed (use assms(5) in simp_all)

lemma wp_inline_directives [THEN returns_mono, wp]:
  assumes "st z bd lo n ms p" and "p_pos (cx_base z) \<le> lo" and "0 \<le> n" and "cx_fuel z = N"
  shows "returns (may_panic z) (inline_directives rec p) (\<lambda>q. st z bd lo n ms q)"
proof (cases "at_inline_directive p")
  case True
  show ?thesis
    by (rule returns_mono [OF wp_inline_some [OF assms True]]) (auto elim: st_weaken)
next
  case False
  with assms(1) show ?thesis
    by (simp add: inline_directives_def while_do_def loop_fuel_def)
qed

lemma wp_inline_before [THEN returns_mono, wp]:
  assumes "st z bd lo n ms p" and "p_pos (cx_base z) \<le> lo" and "0 \<le> n" and "cx_fuel z = N"
  shows "returns (may_panic z) (inline_directives_before rec continues p) (\<lambda>q. st z bd lo n ms q)"
  using assms unfolding inline_directives_before_def
  by - (assumption | simp only: wp_simps | erule wp | (simp; fail))+

lemma wp_continue_across [THEN returns_mono, wp]:
  assumes p: "st z bd lo n ms p" and "p_pos (cx_base z) \<le> lo" and "0 \<le> n" and "cx_fuel z = N"
  shows "returns (may_panic z) (continue_across_inline_directives rec p)
    (\<lambda>(r, q). if r then st z bd (Suc lo) (n + 1) ms q else st z bd lo n ms q)"
  unfolding continue_across_inline_directives_def
proof (intro returns_if)
  assume "at_tok T_PreEndInsert p \<and> inline_insert_open p"
  then have "at_any [T_PreInsert, T_PreEndInsert] p"
    by (simp add: at_any_iff at_tok_def)
  with p show "returns (may_panic z) (let p = bump_inline_insert_marker p in Inr (True, p))
      (\<lambda>(r, q). if r then st z bd (Suc lo) (n + 1) ms q else st z bd lo n ms q)"
    by - (assumption | simp only: wp_simps if_True | erule wp | (simp; fail))+
next
  show "returns (may_panic z)
      (let torn = at_torn_if_end p \<or> at_torn_if_inline p in
       and_then (at_inline_directives_before
         (\<lambda>kind. token_set_contains TORN_EXPRESSION_CONTINUATION kind \<or> torn \<and> kind = T_Semicolon) p)
         (\<lambda>ahead. if ahead then and_then (inline_directives rec p) (\<lambda>p. Inr (True, p))
                  else Inr (False, p)))
      (\<lambda>(r, q). if r then st z bd (Suc lo) (n + 1) ms q else st z bd lo n ms q)"
    unfolding Let_def
  proof (rule returns_bind [OF wp_look_ahead [OF p]])
    fix ahead
    assume "st z bd lo n ms p \<and> (ahead \<longrightarrow> at_inline_directive p)"
    then show "returns (may_panic z)
        (if ahead then and_then (inline_directives rec p) (\<lambda>p. Inr (True, p)) else Inr (False, p))
        (\<lambda>(r, q). if r then st z bd (Suc lo) (n + 1) ms q else st z bd lo n ms q)"
      using wp_inline_some [OF assms] by (cases ahead) (auto simp: returns_and_then elim: returns_mono)
  qed
qed

lemma wp_string_continuation_tail [THEN returns_mono, wp]:
  assumes "st z bd lo n ms p" and "p_pos (cx_base z) \<le> lo" and "1 \<le> n" and "cx_fuel z = N"
  shows "returns (may_panic z) (string_continuation_tail rec p) (\<lambda>q. st z bd lo (n - 1) ms q)"
  using assms unfolding string_continuation_tail_def
  by - (assumption | simp only: wp_simps | erule wp_inline_some [THEN returns_mono] wp
      | rule returns_if | (simp; fail))+

lemma wp_string_literal [THEN returns_mono, wp]:
  assumes "st z bd lo n ms p" and "p_pos (cx_base z) \<le> lo" and "0 \<le> n" and "cx_fuel z = N"
    and "at_any [T_String, T_StringStart] p"
  shows "returns (may_panic z) (string_literal rec p)
    (\<lambda>(c, q). st z bd (Suc lo) (n + 2) (Done (cm_pos c) # ms) q)"
  unfolding string_literal_def
proof (rule wp_start [OF assms(1)], unfold prod.case returns_and_then, goal_cases)
  case (1 m q)
  show ?case
  proof (rule wp_loop [where M = "\<lambda>_. Fresh (mk_pos m) # ms"
        and J = "\<lambda>_ p. at_any [T_String, T_StringStart] p", OF 1(1)], goal_cases)
    case (2 x p)
    then show ?case
      using assms(2-4)
      by - (assumption | simp only: wp_simps not_not | rule returns_if conjI
          | erule wp | (simp add: at_any_iff at_tok_def; fail))+
  qed (use assms(5) 1(2) in \<open>simp add: at_any_iff\<close>)
qed

lemma wp_await_expr [THEN returns_mono, wp]:
  assumes "st z bd lo n ms p" and "p_pos (cx_base z) \<le> lo" and "0 \<le> n" and "cx_fuel z = N"
    and "has_more p"
  shows "returns (may_panic z) (await_expr rec p)
    (\<lambda>(c, q). st z bd (Suc lo) (n + 2) (Done (cm_pos c) # ms) q)"
  using assms unfolding await_expr_def
  by - (assumption | simp only: wp_simps | erule wp | (simp; fail))+

lemma wp_arg_list [THEN returns_mono, wp]:
  assumes "st z bd lo n ms p" and "p_pos (cx_base z) \<le> lo" and "0 \<le> n" and "cx_fuel z = N"
    and "has_more p"
  shows "returns (may_panic z) (arg_list rec p) (\<lambda>q. st z bd (Suc lo) (n + 3) ms q)"
  using assms unfolding arg_list_def
  by - (assumption | simp only: wp_simps | erule wp | rule returns_if | (simp; fail))+

lemma wp_new_expr [THEN returns_mono, wp]:
  assumes "st z bd lo n ms p" and "p_pos (cx_base z) \<le> lo" and "0 \<le> n" and "cx_fuel z = N"
    and "has_more p"
  shows "returns (may_panic z) (new_expr rec p)
    (\<lambda>(c, q). st z bd (Suc lo) (n + 2) (Done (cm_pos c) # ms) q)"
  using assms unfolding new_expr_def
  by - (assumption | simp only: wp_simps | erule wp | rule returns_if | (simp; fail))+

lemma wp_ternary_expr [THEN returns_mono, wp]:
  assumes "st z bd lo n ms p" and "p_pos (cx_base z) \<le> lo" and "0 \<le> n" and "cx_fuel z = N"
    and "has_more p"
  shows "returns (may_panic z) (ternary_expr rec p)
    (\<lambda>(c, q). st z bd (Suc lo) (n + 2) (Done (cm_pos c) # ms) q)"
  using assms unfolding ternary_expr_def
  by - (assumption | simp only: wp_simps not_True_eq_False not_False_eq_True if_True if_False
      | erule wp | rule returns_if | (simp; fail))+

lemma aim_inline_directives [THEN returns_mono, wp]:
  assumes p: "aim z bd lo n lo' n' ms p"
    and "p_pos (cx_base z) \<le> lo" and "0 \<le> n" and "cx_fuel z = N"
  shows "returns (may_panic z) (inline_directives rec p) (\<lambda>q. aim z bd lo n lo' n' ms q)"
proof (cases "at_inline_directive p")
  case True
  have "st z bd lo n ms p"
    using p by (simp add: aim_def)
  then show ?thesis
    by (rule returns_mono [OF wp_inline_some [OF _ assms(2-4) True]]) (rule aim_reached [OF _ p])
next
  case False
  with p show ?thesis
    by (simp add: inline_directives_def while_do_def loop_fuel_def)
qed

text \<open>The error of an operand that is missing.\<close>

lemma aim_error:
  assumes p: "aim z bd lo n lo' n' ms p"
  shows "returns pn (no_node (error_unexpected p)) (\<lambda>(c, q). c = None \<and> st z bd lo' n' ms q)"
    "returns pn (no_node (error_custom msg p)) (\<lambda>(c, q). c = None \<and> st z bd lo' n' ms q)"
proof -
  have "returns pn (error_unexpected p) (\<lambda>q. st z bd lo' n' ms q) \<and>
      returns pn (error_custom msg p) (\<lambda>q. st z bd lo' n' ms q)"
  proof (cases "st z bd lo' n' ms p")
    case True
    then show ?thesis
      by (auto intro: wp_error)
  next
    case False
    with p have "st z bd lo n ms p" "has_more p" "\<not> at_statement_separator p" "lo' \<le> Suc lo" "n' \<le> n + 1"
      by (auto simp: aim_def)
    then show ?thesis
      by (auto intro!: wp_error_moves [THEN returns_mono] elim: st_weaken)
  qed
  then show "returns pn (no_node (error_unexpected p)) (\<lambda>(c, q). c = None \<and> st z bd lo' n' ms q)"
    "returns pn (no_node (error_custom msg p)) (\<lambda>(c, q). c = None \<and> st z bd lo' n' ms q)"
    by (auto simp: no_node_def returns_and_then elim: returns_mono)
qed

definition primary_post where
  "primary_post z bd lo n lo' n' ms r = (case r of
     (Some c, q) \<Rightarrow> st z bd (Suc lo) (n + 2) (Done (cm_pos c) # ms) q
   | (None, q) \<Rightarrow> st z bd lo' n' ms q)"

lemma primary_post_simps [simp]:
  "primary_post z bd lo n lo' n' ms (Some c, q) = st z bd (Suc lo) (n + 2) (Done (cm_pos c) # ms) q"
  "primary_post z bd lo n lo' n' ms (None, q) = st z bd lo' n' ms q"
  by (simp_all add: primary_post_def)

lemma wp_primary_expr:
  assumes p: "aim z bd lo n lo' n' ms p"
    and "p_pos (cx_base z) \<le> lo" and "0 \<le> n" and "cx_fuel z = N"
  shows "returns (may_panic z) (primary_expr rec p) (primary_post z bd lo n lo' n' ms)"
proof -
  have st: "st z bd lo n ms p"
    using p by (simp add: aim_def)
  note errors = aim_error [OF p, THEN returns_mono]
  show ?thesis
    unfolding primary_expr_def some_node_def
    using st assms(2-4)
    by - (assumption | simp only: wp_simps primary_post_simps | rule returns_if errors
        | erule wp | (clarsimp; fail))+
qed

text \<open>
  What a pass of the postfix loop leaves: a longer chain, or the end of it at the price
  of the guard.
\<close>

definition postfix_post where
  "postfix_post z bd pos n lo' n' ms r = (case r of
     Inl ((lhs, _, _), q) \<Rightarrow> st z bd (Suc pos) n (Done (cm_pos lhs) # ms) q
   | Inr (_, q) \<Rightarrow> st z bd lo' n' ms q)"

lemma postfix_post_simps [simp]:
  "postfix_post z bd pos n lo' n' ms (Inl ((lhs, a, v), q)) = st z bd (Suc pos) n (Done (cm_pos lhs) # ms) q"
  "postfix_post z bd pos n lo' n' ms (Inr (v, q)) = st z bd lo' n' ms q"
  by (simp_all add: postfix_post_def)

lemma postfix_post_weaken [wp]:
  "postfix_post z bd pos n lo' n' ms r \<Longrightarrow> m \<le> n \<Longrightarrow> lo'' \<le> lo' \<Longrightarrow> n'' \<le> n' \<Longrightarrow>
     postfix_post z bd pos m lo'' n'' ms r"
  by (auto simp: postfix_post_def split: sum.splits elim: st_weaken)

lemma wp_postfix_dot [THEN returns_mono, wp]:
  assumes "st z bd lo n (Done (cm_pos lhs) # ms) p"
    and "p_pos (cx_base z) \<le> lo" and "0 \<le> n" and "cx_fuel z = N" and "has_more p"
  shows "returns (may_panic z) (postfix_dot rec lhs after valid p)
    (postfix_post z bd lo (n + 3) (Suc lo) (n + 3) ms)"
proof -
  have name: "has_more q" if "(if c then at_ts ts q else at_tok T_Ident q \<or> at_keyword_kind q)" for c ts q
    using that more_at by (cases c) auto
  show ?thesis
    using assms unfolding postfix_dot_def
    by - (assumption | simp only: wp_simps postfix_post_simps | rule returns_if | erule wp
        | erule name | (simp; fail))+
qed

lemma wp_postfix_pass:
  assumes "st z bd lo n (Done (cm_pos lhs) # ms) p"
    and "p_pos (cx_base z) \<le> lo" and "1 \<le> n" and "cx_fuel z = N"
  shows "returns (may_panic z) (postfix_pass rec ((lhs, after, valid), p))
    (postfix_post z bd lo n lo (n - 1) ms)"
  using assms unfolding postfix_pass_def
  by - (assumption | simp only: wp_simps postfix_post_simps if_True if_False | rule returns_if
      | erule wp st_done | (simp; fail))+

lemma wp_postfix_chain [THEN returns_mono, wp]:
  assumes p: "aim z bd lo n lo' n' ms p"
    and "p_pos (cx_base z) \<le> lo" and "0 \<le> n" and "cx_fuel z = N"
  shows "returns (may_panic z) (postfix_expr_with_call_info rec p) (\<lambda>(_, q). st z bd lo' n' ms q)"
  unfolding postfix_expr_with_call_info_def Let_values
proof (rule returns_bind [OF wp_primary_expr [OF assms]], clarsimp, goal_cases)
  case (1 lhs q)
  have "lo' \<le> Suc lo" "n' \<le> n + 1"
    using p by (auto simp: aim_def)
  show ?case
  proof (cases lhs)
    case (Some c)
    with 1 have c: "st z bd (Suc lo) (n + 2) (Done (cm_pos c) # ms) q"
      by simp
    show ?thesis
      unfolding Some option.case
    proof (rule wp_loop [where M = "\<lambda>(lhs, _, _). Done (cm_pos lhs) # ms"
          and J = "\<lambda>_ _. True" and z = z and bd = bd and lo = "Suc lo" and n = "n + 2"], goal_cases)
      case (3 x p)
      obtain lhs after valid where x: "x = (lhs, after, valid)"
        by (cases x)
      with 3 have "st z bd (max (Suc lo) (p_pos p)) (n + 2) (Done (cm_pos lhs) # ms) p"
        by simp
      then show ?case
        unfolding x
        by (rule returns_mono [OF wp_postfix_pass])
          (use assms(2-4) \<open>lo' \<le> Suc lo\<close> \<open>n' \<le> n + 1\<close> in
            \<open>auto simp: postfix_post_def split: sum.splits elim!: st_weaken\<close>)
    qed (use c in simp_all)
  qed (use 1 in simp)
qed

lemmas wp_postfix_weak [wp] = wp_postfix_chain [OF aim_refl]

lemma aim_postfix_expr [THEN returns_mono, wp]:
  assumes "aim z bd lo n lo' n' ms p"
    and "p_pos (cx_base z) \<le> lo" and "0 \<le> n" and "cx_fuel z = N"
  shows "returns (may_panic z) (postfix_expr rec p) (\<lambda>q. st z bd lo' n' ms q)"
  using assms unfolding postfix_expr_def
  by - (assumption | simp only: wp_simps | erule wp | (simp; fail))+


section \<open>Contracts of the operators\<close>

lemma aim_unary_expr [THEN returns_mono, wp]:
  assumes "aim z bd lo n lo' n' ms p"
    and "p_pos (cx_base z) \<le> lo" and "0 \<le> n" and "cx_fuel z = N"
  shows "returns (may_panic z) (unary_expr rec p) (\<lambda>q. st z bd lo' n' ms q)"
  using assms unfolding unary_expr_def
  by - (assumption | simp only: wp_simps | rule returns_if | erule wp | (simp; fail))+

lemmas wp_unary_expr [wp] = aim_unary_expr [OF aim_refl]

lemma wp_close_seen [THEN returns_mono, wp]:
  "st z bd lo n ((if seen then Linked else Fresh) (mk_pos m) # ms) p \<Longrightarrow>
     returns pn (close_node m k p) (\<lambda>q. st z bd lo n ms q)"
  by (cases seen) (auto intro: wp_close_opened st_opened)

lemma wp_if_seen:
  assumes "st z bd lo n ((if seen then Linked else Fresh) j # ms) p"
    and "st z bd lo n (Linked j # ms) p \<Longrightarrow> returns pn A Q"
    and "st z bd lo n (Fresh j # ms) p \<Longrightarrow> returns pn B Q"
  shows "returns pn (if seen then A else B) Q"
  using assms by (cases seen) simp_all

text \<open>The operand of a binary level is any rule that keeps the assertion.\<close>

lemma wp_binary_loop [THEN returns_mono]:
  assumes lhs: "st z bd lo n (Fresh (mk_pos lhs) # ms) p"
    and z: "p_pos (cx_base z) \<le> lo" "0 \<le> n" "cx_fuel z = N"
    and operand [THEN returns_mono, wp]: "\<And>lo n ms p. st z bd lo n ms p \<Longrightarrow>
      p_pos (cx_base z) \<le> lo \<Longrightarrow> 0 \<le> n \<Longrightarrow> returns (may_panic z) (operand p) (\<lambda>q. st z bd lo n ms q)"
  shows "returns (may_panic z) (binary_loop guarded operators operand lhs p)
    (\<lambda>((seen, lhs), q). st z bd lo n ((if seen then Linked else Fresh) (mk_pos lhs) # ms) q)"
  unfolding binary_loop_def
proof (rule wp_loop [where M = "\<lambda>(seen, lhs). (if seen then Linked else Fresh) (mk_pos lhs) # ms"
      and J = "\<lambda>_ _. True" and z = z and bd = bd and lo = lo and n = n], goal_cases)
  case (3 x p)
  obtain seen lhs where x: "x = (seen, lhs)"
    by (cases x)
  show ?case
    using 3 z unfolding x
    by (cases seen) (simp_all only: prod.case if_True if_False,
      (assumption | simp only: wp_simps if_True if_False | rule returns_if TrueI conjI | erule wp | (simp; fail))+)
qed (use lhs in simp_all)

lemma aim_multiplicative_expr [THEN returns_mono, wp]:
  assumes "aim z bd lo n lo' n' ms p"
    and "p_pos (cx_base z) \<le> lo" and "0 \<le> n" and "cx_fuel z = N"
  shows "returns (may_panic z) (multiplicative_expr rec p) (\<lambda>q. st z bd lo' n' ms q)"
  using assms aim_bounds [OF assms(1)] unfolding multiplicative_expr_def
  by - (assumption | simp only: wp_simps | erule wp wp_binary_loop | (simp; fail))+

lemmas wp_multiplicative_expr [wp] = aim_multiplicative_expr [OF aim_refl]

lemma aim_additive_expr [THEN returns_mono, wp]:
  assumes "aim z bd lo n lo' n' ms p"
    and "p_pos (cx_base z) \<le> lo" and "0 \<le> n" and "cx_fuel z = N"
  shows "returns (may_panic z) (additive_expr rec p) (\<lambda>q. st z bd lo' n' ms q)"
  using assms aim_bounds [OF assms(1)] unfolding additive_expr_def
  by - (assumption | simp only: wp_simps | erule wp wp_binary_loop | (simp; fail))+

lemmas wp_additive_expr [wp] = aim_additive_expr [OF aim_refl]

lemma aim_comparison_expr [THEN returns_mono, wp]:
  assumes "aim z bd lo n lo' n' ms p"
    and "p_pos (cx_base z) \<le> lo" and "0 \<le> n" and "cx_fuel z = N"
  shows "returns (may_panic z) (comparison_expr rec p) (\<lambda>q. st z bd lo' n' ms q)"
  using assms aim_bounds [OF assms(1)] unfolding comparison_expr_def
  by - (assumption | simp only: wp_simps if_True if_False | erule wp_if_seen
      | erule wp wp_binary_loop | (simp; fail))+

lemmas wp_comparison_expr [wp] = aim_comparison_expr [OF aim_refl]

lemma aim_not_expr [THEN returns_mono, wp]:
  assumes "aim z bd lo n lo' n' ms p"
    and "p_pos (cx_base z) \<le> lo" and "0 \<le> n" and "cx_fuel z = N"
  shows "returns (may_panic z) (not_expr rec p) (\<lambda>q. st z bd lo' n' ms q)"
  using assms aim_bounds [OF assms(1)] unfolding not_expr_def
  by - (assumption | simp only: wp_simps | rule returns_if | erule wp | (simp; fail))+

lemmas wp_not_expr [wp] = aim_not_expr [OF aim_refl]

lemma aim_and_expr [THEN returns_mono, wp]:
  assumes "aim z bd lo n lo' n' ms p"
    and "p_pos (cx_base z) \<le> lo" and "0 \<le> n" and "cx_fuel z = N"
  shows "returns (may_panic z) (and_expr rec p) (\<lambda>q. st z bd lo' n' ms q)"
  using assms aim_bounds [OF assms(1)] unfolding and_expr_def
  by - (assumption | simp only: wp_simps | erule wp wp_binary_loop | (simp; fail))+

lemmas wp_and_expr [wp] = aim_and_expr [OF aim_refl]

lemma aim_or_expr [THEN returns_mono, wp]:
  assumes "aim z bd lo n lo' n' ms p"
    and "p_pos (cx_base z) \<le> lo" and "0 \<le> n" and "cx_fuel z = N"
  shows "returns (may_panic z) (or_expr rec p) (\<lambda>q. st z bd lo' n' ms q)"
  using assms aim_bounds [OF assms(1)] unfolding or_expr_def
  by - (assumption | simp only: wp_simps | erule wp wp_binary_loop | (simp; fail))+

lemmas wp_or_expr [wp] = aim_or_expr [OF aim_refl]

lemma aim_expression [THEN returns_mono, wp]:
  assumes "aim z bd lo n lo' n' ms p"
    and "p_pos (cx_base z) \<le> lo" and "0 \<le> n" and "cx_fuel z = N"
  shows "returns (may_panic z) (expression rec p) (\<lambda>q. st z bd lo' n' ms q)"
  using assms unfolding expression_def
  by - (assumption | erule wp)+

lemmas wp_expression [wp] = aim_expression [OF aim_refl]

end

end
