(* ===== verification/Grammar_Stmts.thy ===== *)
theory Grammar_Stmts
  imports Grammar_Expr
begin

text \<open>
  The statement rules (\<open>parser/src/grammar/statements.rs\<close>), but for \<open>statement\<close> itself,
  which needs the rules for declarations and conditional regions and is in \<open>Grammar\<close>.
\<close>

section \<open>Lists of statements\<close>

text \<open>The closers whose misspelling the statement at \<open>head\<close> may be.\<close>

definition recovered_closers :: "nat \<Rightarrow> token_kind list \<Rightarrow> parser \<Rightarrow> token_set \<Rightarrow> token_set" where
  "recovered_closers head closers p recovered =
     fold (\<lambda>closer recovered.
             if resembles_closer head closer p
             then token_set_union recovered (token_set_new [closer]) else recovered)
       closers recovered"

definition stmt_list_of ::
  "calls \<Rightarrow> token_kind list \<Rightarrow> token_kind list \<Rightarrow> parser \<Rightarrow> (token_set \<times> parser) outcome" where
  "stmt_list_of rec terminators closers p =
     (let (m, p) = start p in
      and_then
        (loop (loop_fuel p)
          (\<lambda>(recovered, p).
             if \<not> at_end p \<and> \<not> list_ex (\<lambda>t. at_tok t p) terminators \<and> \<not> at_enclosing_boundary p then
               and_then (check_iteration_limit p) (\<lambda>p.
               if at_end p \<or> list_ex (\<lambda>t. at_tok t p) terminators \<or> at_enclosing_boundary p
               then Inr (Inr (recovered, p))
               else
                 let head = token_pos p in
                 and_then (rec Statement p) (\<lambda>(wrong, p).
                 Inr (Inl (if wrong then recovered_closers head closers p recovered else recovered, p))))
             else Inr (Inr (recovered, p)))
          (token_set_empty, p)) (\<lambda>(recovered, p).
      and_then (close_node m NK_StmtList p) (\<lambda>p.
      Inr (recovered, p))))"

definition stmt_list :: "calls \<Rightarrow> token_kind \<Rightarrow> parser \<Rightarrow> (bool \<times> parser) outcome" where
  "stmt_list rec terminator p =
     and_then (stmt_list_of rec [terminator] [terminator] p) (\<lambda>(recovered, p).
     Inr (\<not> token_set_is_empty recovered, p))"

definition expect_stmt_list_terminator :: "token_kind \<Rightarrow> bool \<Rightarrow> parser \<Rightarrow> parser outcome" where
  "expect_stmt_list_terminator terminator closer_typo p =
     (if at_tok terminator p \<or> \<not> closer_typo then require terminator p else Inr p)"

definition at_end_of_statement :: "parser \<Rightarrow> bool" where
  "at_end_of_statement p \<longleftrightarrow> at_tok T_Semicolon p \<or> at_end p \<or> at_enclosing_boundary p"


section \<open>Statements\<close>

definition return_stmt :: "calls \<Rightarrow> parser \<Rightarrow> parser outcome" where
  "return_stmt rec p =
     (let (m, p) = start p;
          p = bump p in
      and_then (if \<not> at_end_of_statement p then expression rec p else Inr p) (\<lambda>p.
      let p = snd (eat T_Semicolon p)
      in close_node m NK_ReturnStmt p))"

definition if_stmt :: "calls \<Rightarrow> parser \<Rightarrow> parser outcome" where
  "if_stmt rec p =
     (let (m, p) = start p;
          p = bump p in
      and_then
        (within_boundary AtIfCloser (\<lambda>p.
           and_then (within_boundary_unit AtThen (expression rec) p) (\<lambda>p.
           and_then (require T_KwThen p) (\<lambda>p.
           and_then (stmt_list_of rec [T_KwElsIf, T_KwElse, T_KwEndIf] [T_KwEndIf] p) (\<lambda>(recovered, p).
           and_then
             (loop (loop_fuel p)
               (\<lambda>(recovered, p).
                  if at_tok T_KwElsIf p then
                    and_then (check_iteration_limit p) (\<lambda>p.
                    let (em, p) = start p;
                        p = bump p in
                    and_then (within_boundary_unit AtThen (expression rec) p) (\<lambda>p.
                    and_then (require T_KwThen p) (\<lambda>p.
                    and_then (stmt_list_of rec [T_KwElsIf, T_KwElse, T_KwEndIf] [T_KwEndIf] p)
                      (\<lambda>(more_recovered, p).
                    and_then (close_node em NK_ElseIfClause p) (\<lambda>p.
                    Inr (Inl (token_set_union recovered more_recovered, p)))))))
                  else Inr (Inr (recovered, p)))
               (recovered, p)) (\<lambda>(recovered, p).
           if at_tok T_KwElse p then
             let (em, p) = start p;
                 p = bump p in
             and_then (stmt_list_of rec [T_KwEndIf] [T_KwEndIf] p) (\<lambda>(more_recovered, p).
             and_then (close_node em NK_ElseClause p) (\<lambda>p.
             Inr (token_set_union recovered more_recovered, p)))
           else Inr (recovered, p)))))) p) (\<lambda>(recovered, p).
      and_then (expect_stmt_list_terminator T_KwEndIf (token_set_contains recovered T_KwEndIf) p) (\<lambda>p.
      let p = snd (eat T_Semicolon p)
      in close_node m NK_IfStmt p)))"

definition while_stmt :: "calls \<Rightarrow> parser \<Rightarrow> parser outcome" where
  "while_stmt rec p =
     (let (m, p) = start p;
          p = bump p in
      and_then
        (within_boundary AtEndDo (\<lambda>p.
           and_then (within_boundary_unit AtDo (expression rec) p) (\<lambda>p.
           and_then (require T_KwDo p) (\<lambda>p.
           stmt_list rec T_KwEndDo p))) p) (\<lambda>(recovered, p).
      and_then (expect_stmt_list_terminator T_KwEndDo recovered p) (\<lambda>p.
      let p = snd (eat T_Semicolon p)
      in close_node m NK_WhileStmt p)))"

definition for_stmt :: "calls \<Rightarrow> parser \<Rightarrow> parser outcome" where
  "for_stmt rec p =
     (let (m, p) = start p;
          p = bump p in
      if at_tok T_KwEach p then
        and_then
          (within_boundary AtEndDo (\<lambda>p.
             let p = bump p;
                 p = (if at_tok T_Ident p then bump p else p) in
             and_then
               (within_boundary_unit AtDo (\<lambda>p.
                  and_then (require T_KwIn p) (\<lambda>p.
                  expression rec p)) p) (\<lambda>p.
             and_then (require T_KwDo p) (\<lambda>p.
             stmt_list rec T_KwEndDo p))) p) (\<lambda>(recovered, p).
        and_then (expect_stmt_list_terminator T_KwEndDo recovered p) (\<lambda>p.
        let p = snd (eat T_Semicolon p)
        in close_node m NK_ForEachStmt p))
      else
        and_then
          (within_boundary AtEndDo (\<lambda>p.
             let p = (if at_tok T_Ident p then bump p else p) in
             and_then (require T_Eq p) (\<lambda>p.
             and_then
               (within_boundary_unit AtToOrDo (\<lambda>p.
                  and_then (expression rec p) (\<lambda>p.
                  require T_KwTo p)) p) (\<lambda>p.
             and_then (within_boundary_unit AtDo (expression rec) p) (\<lambda>p.
             and_then (require T_KwDo p) (\<lambda>p.
             stmt_list rec T_KwEndDo p))))) p) (\<lambda>(recovered, p).
        and_then (expect_stmt_list_terminator T_KwEndDo recovered p) (\<lambda>p.
        let p = snd (eat T_Semicolon p)
        in close_node m NK_ForStmt p)))"

definition try_stmt :: "calls \<Rightarrow> parser \<Rightarrow> parser outcome" where
  "try_stmt rec p =
     (let (m, p) = start p;
          p = bump p in
      and_then
        (within_boundary AtTryCloser (\<lambda>p.
           and_then (stmt_list_of rec [T_KwExcept] [T_KwExcept, T_KwEndTry] p) (\<lambda>(body_typos, p).
           and_then
             (expect_stmt_list_terminator T_KwExcept (token_set_contains body_typos T_KwExcept) p) (\<lambda>p.
           let (em, p) = start p in
           and_then (stmt_list_of rec [T_KwEndTry] [T_KwEndTry] p) (\<lambda>(except_typos, p).
           and_then (close_node em NK_ExceptClause p) (\<lambda>p.
           Inr ((body_typos, except_typos), p)))))) p) (\<lambda>((body_typos, except_typos), p).
      and_then
        (expect_stmt_list_terminator T_KwEndTry
          (token_set_contains body_typos T_KwEndTry \<or> token_set_contains except_typos T_KwEndTry) p) (\<lambda>p.
      let p = snd (eat T_Semicolon p)
      in close_node m NK_TryStmt p)))"

text \<open>The body of the loop over the arguments, and the loop.\<close>

definition raise_pass :: "calls \<Rightarrow> parser \<Rightarrow> (parser + parser) outcome" where
  "raise_pass rec p =
     (if \<not> at_tok T_RParen p \<and> \<not> at_end p then
        and_then (check_iteration_limit p) (\<lambda>p.
        and_then
          (if at_tok T_Comma p then Inr p
           else if \<not> at_tok T_RParen p then expression rec p
           else Inr p) (\<lambda>p.
        if at_tok T_Comma p then let p = bump p in Inr (Inl p)
        else if \<not> at_tok T_RParen p then Inr (Inr p)
        else Inr (Inl p)))
      else Inr (Inr p))"

definition parse_raise_call_args :: "calls \<Rightarrow> parser \<Rightarrow> parser outcome" where
  "parse_raise_call_args rec p =
     (if \<not> at_tok T_LParen p then Inl Panic
      else
        let p = bump p in
        and_then
          (within_boundary_unit AtParenListPunctuation
            (\<lambda>p. loop (loop_fuel p) (raise_pass rec) p) p) (\<lambda>p.
        require T_RParen p))"

definition raise_stmt :: "calls \<Rightarrow> parser \<Rightarrow> parser outcome" where
  "raise_stmt rec p =
     (let (m, p) = start p;
          p = bump p in
      and_then
        (if at_tok T_LParen p then parse_raise_call_args rec p
         else if \<not> at_end_of_statement p then expression rec p
         else Inr p) (\<lambda>p.
      let p = snd (eat T_Semicolon p)
      in close_node m NK_RaiseStmt p))"

definition goto_stmt :: "parser \<Rightarrow> parser outcome" where
  "goto_stmt p =
     (let (m, p) = start p;
          p = bump p;
          (tilde, p) = eat T_Tilde p;
          keyword_name = (tilde \<and> at_keyword_kind p \<and> \<not> a_gap_precedes p);
          p = (if at_tok T_Ident p \<or> keyword_name then bump p else p);
          p = snd (eat T_Semicolon p)
      in close_node m NK_GotoStmt p)"

definition label_stmt :: "parser \<Rightarrow> parser outcome" where
  "label_stmt p =
     (let (m, p) = start p;
          p = bump p;
          keyword_name = (at_keyword_kind p \<and> \<not> a_gap_precedes p \<and> nth_kind 1 p = Some T_Colon) in
      and_then (if keyword_name then let p = bump p in Inr p else require T_Ident p) (\<lambda>p.
      and_then (require T_Colon p) (\<lambda>p.
      close_node m NK_LabelStmt p)))"

definition execute_stmt :: "calls \<Rightarrow> parser \<Rightarrow> parser outcome" where
  "execute_stmt rec p =
     (let (m, p) = start p;
          p = bump p in
      and_then (expression rec p) (\<lambda>p.
      let p = snd (eat T_Semicolon p)
      in close_node m NK_ExecuteStmt p))"

definition add_handler_stmt :: "calls \<Rightarrow> parser \<Rightarrow> parser outcome" where
  "add_handler_stmt rec p =
     (let (m, p) = start p;
          p = bump p in
      and_then
        (within_boundary_unit AtHandlerComma (\<lambda>p.
           and_then (expression rec p) (\<lambda>p.
           require T_Comma p)) p) (\<lambda>p.
      and_then (expression rec p) (\<lambda>p.
      let p = snd (eat T_Semicolon p)
      in close_node m NK_AddHandlerStmt p)))"

definition remove_handler_stmt :: "calls \<Rightarrow> parser \<Rightarrow> parser outcome" where
  "remove_handler_stmt rec p =
     (let (m, p) = start p;
          p = bump p in
      and_then
        (within_boundary_unit AtHandlerComma (\<lambda>p.
           and_then (expression rec p) (\<lambda>p.
           require T_Comma p)) p) (\<lambda>p.
      and_then (expression rec p) (\<lambda>p.
      let p = snd (eat T_Semicolon p)
      in close_node m NK_RemoveHandlerStmt p)))"

definition assignment_or_call :: "calls \<Rightarrow> parser \<Rightarrow> (bool \<times> parser) outcome" where
  "assignment_or_call rec p =
     (let (m, p) = start p in
      and_then (postfix_expression_for_assignment rec p) (\<lambda>(is_valid_stmt, p).
      let (eaten, p) = eat T_Eq p in
      if eaten then
        and_then (expression rec p) (\<lambda>p.
        and_then (close_node m NK_AssignStmt p) (\<lambda>p.
        let p = snd (eat T_Semicolon p) in Inr (False, p)))
      else if is_valid_stmt then
        and_then (close_node m NK_CallStmt p) (\<lambda>p.
        let p = snd (eat T_Semicolon p) in Inr (False, p))
      else
        and_then (error_custom_at_marker m MsgCallOrAssignment p) (\<lambda>p.
        let p = snd (eat T_Semicolon p) in Inr (True, p))))"


section \<open>Contracts\<close>

declare if_split [split del]

lemma wp_goto_stmt [THEN returns_mono, wp]:
  assumes "st z bd lo n ms p" and "has_more p"
  shows "returns pn (goto_stmt p) (\<lambda>q. st z bd (Suc lo) (n + 1) ms q)"
  using assms unfolding goto_stmt_def
  by - (assumption | simp only: wp_simps | erule wp | rule returns_if | (simp; fail))+

lemma wp_label_stmt [THEN returns_mono, wp]:
  assumes "st z bd lo n ms p" and "has_more p"
  shows "returns pn (label_stmt p) (\<lambda>q. st z bd (Suc lo) (n + 1) ms q)"
  using assms unfolding label_stmt_def
  by - (assumption | simp only: wp_simps | erule wp | rule returns_if | (simp; fail))+

context grammar_calls
begin

lemma wp_stmt_list_of [THEN returns_mono, wp]:
  assumes "st z bd lo n ms p" and "p_pos (cx_base z) < lo" and "1 \<le> n" and "cx_fuel z = N"
  shows "returns (may_panic z) (stmt_list_of rec terminators closers p) (\<lambda>(_, q). st z bd lo n ms q)"
  using assms unfolding stmt_list_of_def
  by - (assumption | simp only: wp_simps | erule wp | rule returns_if | (simp; fail))+

lemma wp_stmt_list [THEN returns_mono, wp]:
  assumes "st z bd lo n ms p" and "p_pos (cx_base z) < lo" and "1 \<le> n" and "cx_fuel z = N"
  shows "returns (may_panic z) (stmt_list rec terminator p) (\<lambda>(_, q). st z bd lo n ms q)"
  using assms unfolding stmt_list_def
  by - (assumption | simp only: wp_simps | erule wp | (simp; fail))+

lemma wp_expect_terminator [THEN returns_mono, wp]:
  assumes "st z bd lo n ms p"
  shows "returns pn (expect_stmt_list_terminator terminator typo p) (\<lambda>q. st z bd lo n ms q)"
  using assms unfolding expect_stmt_list_terminator_def
  by - (assumption | simp only: wp_simps | erule wp | (simp; fail))+

lemma wp_return_stmt [THEN returns_mono, wp]:
  assumes "st z bd lo n ms p" and "p_pos (cx_base z) \<le> lo" and "0 \<le> n" and "cx_fuel z = N"
    and "has_more p"
  shows "returns (may_panic z) (return_stmt rec p) (\<lambda>q. st z bd (Suc lo) (n + 1) ms q)"
  using assms unfolding return_stmt_def
  by - (assumption | simp only: wp_simps | erule wp | rule returns_if | (simp; fail))+

lemma wp_if_stmt [THEN returns_mono, wp]:
  assumes "st z bd lo n ms p" and "p_pos (cx_base z) \<le> lo" and "0 \<le> n" and "cx_fuel z = N"
    and "has_more p"
  shows "returns (may_panic z) (if_stmt rec p) (\<lambda>q. st z bd (Suc lo) (n + 1) ms q)"
  using assms unfolding if_stmt_def
  by - (assumption | simp only: wp_simps | erule wp | rule returns_if | (simp; fail))+

lemma wp_while_stmt [THEN returns_mono, wp]:
  assumes "st z bd lo n ms p" and "p_pos (cx_base z) \<le> lo" and "0 \<le> n" and "cx_fuel z = N"
    and "has_more p"
  shows "returns (may_panic z) (while_stmt rec p) (\<lambda>q. st z bd (Suc lo) (n + 1) ms q)"
  using assms unfolding while_stmt_def
  by - (assumption | simp only: wp_simps | erule wp | rule returns_if | (simp; fail))+

lemma wp_for_stmt [THEN returns_mono, wp]:
  assumes "st z bd lo n ms p" and "p_pos (cx_base z) \<le> lo" and "0 \<le> n" and "cx_fuel z = N"
    and "has_more p"
  shows "returns (may_panic z) (for_stmt rec p) (\<lambda>q. st z bd (Suc lo) (n + 1) ms q)"
  using assms unfolding for_stmt_def
  by - (assumption | simp only: wp_simps | rule returns_if | erule wp | (simp; fail))+

lemma wp_try_stmt [THEN returns_mono, wp]:
  assumes "st z bd lo n ms p" and "p_pos (cx_base z) \<le> lo" and "0 \<le> n" and "cx_fuel z = N"
    and "has_more p"
  shows "returns (may_panic z) (try_stmt rec p) (\<lambda>q. st z bd (Suc lo) (n + 1) ms q)"
  using assms unfolding try_stmt_def
  by - (assumption | simp only: wp_simps | erule wp | rule returns_if | (simp; fail))+

lemma wp_execute_stmt [THEN returns_mono, wp]:
  assumes "st z bd lo n ms p" and "p_pos (cx_base z) \<le> lo" and "0 \<le> n" and "cx_fuel z = N"
    and "has_more p"
  shows "returns (may_panic z) (execute_stmt rec p) (\<lambda>q. st z bd (Suc lo) (n + 1) ms q)"
  using assms unfolding execute_stmt_def
  by - (assumption | simp only: wp_simps | erule wp | rule returns_if | (simp; fail))+

lemma wp_add_handler_stmt [THEN returns_mono, wp]:
  assumes "st z bd lo n ms p" and "p_pos (cx_base z) \<le> lo" and "0 \<le> n" and "cx_fuel z = N"
    and "has_more p"
  shows "returns (may_panic z) (add_handler_stmt rec p) (\<lambda>q. st z bd (Suc lo) (n + 1) ms q)"
  using assms unfolding add_handler_stmt_def
  by - (assumption | simp only: wp_simps | erule wp | rule returns_if | (simp; fail))+

lemma wp_remove_handler_stmt [THEN returns_mono, wp]:
  assumes "st z bd lo n ms p" and "p_pos (cx_base z) \<le> lo" and "0 \<le> n" and "cx_fuel z = N"
    and "has_more p"
  shows "returns (may_panic z) (remove_handler_stmt rec p) (\<lambda>q. st z bd (Suc lo) (n + 1) ms q)"
  using assms unfolding remove_handler_stmt_def
  by - (assumption | simp only: wp_simps | erule wp | rule returns_if | (simp; fail))+

text \<open>
  A pass over an argument consumes a comma, or stands in front of the closing
  parenthesis, or ends the list.
\<close>

lemma wp_raise_pass:
  assumes "st z bd lo n ms p" and "p_pos (cx_base z) \<le> lo" and "1 \<le> n" and "cx_fuel z = N"
  shows "returns (may_panic z) (raise_pass rec p)
    (\<lambda>r. case r of
       Inl q \<Rightarrow> st z bd (Suc lo) n ms q \<or> at_tok T_RParen q \<and> st z bd lo (n - 1) ms q
     | Inr q \<Rightarrow> st z bd lo (n - 1) ms q)"
  using assms unfolding raise_pass_def
  by - (assumption | simp only: wp_simps | erule wp | rule returns_if
      | (rule disjI2, rule conjI; assumption) | (rule disjI1, erule st_weaken; simp; fail) | (simp; fail))+

lemma wp_raise_args_loop [THEN returns_mono, wp]:
  assumes "st z bd lo n ms p" and "p_pos (cx_base z) \<le> lo" and "1 \<le> n" and "cx_fuel z = N"
  shows "returns (may_panic z) (loop (loop_fuel p) (raise_pass rec) p) (\<lambda>q. st z bd lo (n - 1) ms q)"
proof (rule returns_loop [where
      I = "\<lambda>s. st z bd lo (if at_tok T_RParen s then n - 1 else n) ms s"
      and \<mu> = "\<lambda>s. remaining s + (if at_tok T_RParen s then 0 else 1)"], goal_cases)
  case (3 s)
  show ?case
  proof (cases "at_tok T_RParen s")
    case True
    then show ?thesis
      using 3 by (simp add: raise_pass_def)
  next
    case False
    then have s: "st z bd lo n ms s"
      using 3 by simp
    have moved: "remaining q < remaining s \<and> st z bd lo n ms q \<and> st z bd lo (n - 1) ms q"
      if "st z bd (Suc (p_pos s)) n ms q" for q
      using that st_lo [OF that] st_lo [OF s] st_remaining [OF s that]
      by (auto elim: st_weaken)
    have stayed: "remaining q \<le> remaining s \<and> st z bd lo (n - 1) ms q"
      if "st z bd (p_pos s) (n - 1) ms q" for q
      using that s st_lo [OF s] by (auto simp: st_def remaining_def)
    have "p_pos (cx_base z) \<le> p_pos s"
      using s by (simp add: st_def)
    from wp_raise_pass [OF st_here [OF s] this assms(3,4)] show ?thesis
      by (rule returns_mono)
        (use False in \<open>auto split: sum.splits if_split dest!: moved stayed\<close>)
  qed
qed (use assms in \<open>auto simp: loop_fuel_remaining split: if_split elim: st_weaken\<close>)

lemma wp_parse_raise_call_args [THEN returns_mono, wp]:
  assumes "st z bd lo n ms p" and "p_pos (cx_base z) \<le> lo" and "0 \<le> n" and "cx_fuel z = N"
    and "at_tok T_LParen p"
  shows "returns (may_panic z) (parse_raise_call_args rec p) (\<lambda>q. st z bd (Suc lo) (n + 1) ms q)"
  using assms unfolding parse_raise_call_args_def
  by - (assumption | simp only: wp_simps if_True if_False simp_thms | erule wp | rule returns_if | (simp; fail))+

lemma wp_raise_stmt [THEN returns_mono, wp]:
  assumes "st z bd lo n ms p" and "p_pos (cx_base z) \<le> lo" and "0 \<le> n" and "cx_fuel z = N"
    and "has_more p"
  shows "returns (may_panic z) (raise_stmt rec p) (\<lambda>q. st z bd (Suc lo) (n + 1) ms q)"
  using assms unfolding raise_stmt_def
  by - (assumption | simp only: wp_simps | erule wp | rule returns_if | (simp; fail))+

text \<open>A statement that starts with a name consumes at least that name.\<close>

lemma wp_assignment_or_call [THEN returns_mono, wp]:
  assumes "aim z bd lo n (Suc lo) (n + 1) ms p"
    and "p_pos (cx_base z) \<le> lo" and "0 \<le> n" and "cx_fuel z = N"
  shows "returns (may_panic z) (assignment_or_call rec p) (\<lambda>(_, q). st z bd (Suc lo) (n + 1) ms q)"
  using assms unfolding assignment_or_call_def postfix_expression_for_assignment_def
  by - (assumption | simp only: wp_simps if_True if_False simp_thms | rule returns_if | erule wp | (simp; fail))+

end

end
