(* ===== verification/Grammar_Items.thy ===== *)
theory Grammar_Items
  imports Grammar_Stmts
begin

text \<open>
  The rules for declarations (\<open>parser/src/grammar/items.rs\<close>): compiler directives and
  annotations, procedures and functions with their parameters, variables.
\<close>

section \<open>Annotations\<close>

definition compiler_directive :: "parser \<Rightarrow> parser outcome" where
  "compiler_directive p =
     (let (m, p) = start p;
          p = bump p
      in close_node m NK_CompilerDirective p)"

definition annotation_param_value :: "parser \<Rightarrow> parser outcome" where
  "annotation_param_value p =
     (if at_any [T_Decimal, T_Float, T_String, T_Date, T_KwTrue, T_KwFalse, T_KwUndefined, T_KwNull] p
      then let p = bump p in Inr p
      else if at_any [T_Minus, T_Plus] p then
        let p = bump p;
            p = (if at_tok T_Decimal p \<or> at_tok T_Float p then bump p else p)
        in Inr p
      else error_unexpected p)"

definition annotation_param :: "parser \<Rightarrow> parser outcome" where
  "annotation_param p =
     (let (m, p) = start p in
      and_then
        (if at_tok T_Ident p then
           let p = bump p;
               (eaten, p) = eat T_Eq p in
           if eaten then annotation_param_value p else Inr p
         else annotation_param_value p) (\<lambda>p.
      close_node m NK_AnnotationParam p))"

definition annotation_params :: "parser \<Rightarrow> parser outcome" where
  "annotation_params p =
     (let (m, p) = start p;
          p = bump p in
      and_then
        (within_boundary_unit AtParenListPunctuation (\<lambda>p.
           if \<not> at_tok T_RParen p then
             and_then (annotation_param p) (\<lambda>p.
             loop (loop_fuel p)
               (\<lambda>(u :: unit, p).
                  let (eaten, p) = eat T_Comma p in
                  if eaten then
                    and_then (check_iteration_limit p) (\<lambda>p.
                    and_then (annotation_param p) (\<lambda>p.
                    Inr (Inl ((), p))))
                  else Inr (Inr p)) ((), p))
           else Inr p) p) (\<lambda>p.
      and_then (require T_RParen p) (\<lambda>p.
      close_node m NK_AnnotationParams p)))"

definition annotation :: "parser \<Rightarrow> parser outcome" where
  "annotation p =
     (let (m, p) = start p;
          p = bump p in
      and_then (if at_tok T_LParen p then annotation_params p else Inr p) (\<lambda>p.
      close_node m NK_Annotation p))"


section \<open>Variables\<close>

definition report_missing_name :: "message \<Rightarrow> parser \<Rightarrow> parser outcome" where
  "report_missing_name expected p =
     (if \<not> at_end p \<and> \<not> at_error p then error_custom_no_bump expected p else Inr p)"

definition var_declaration_content :: "parser \<Rightarrow> parser outcome" where
  "var_declaration_content p =
     (let p = bump p in
      and_then
        (if at_tok T_Ident p then let p = bump p in Inr p
         else report_missing_name MsgVariableName p) (\<lambda>p.
      let p = snd (eat T_KwExport p) in
      and_then
        (loop (loop_fuel p)
          (\<lambda>(u :: unit, p).
             let (eaten, p) = eat T_Comma p in
             if eaten then
               and_then (check_iteration_limit p) (\<lambda>p.
               and_then
                 (if at_tok T_Ident p then let p = bump p in Inr p
                  else report_missing_name MsgVariableName p) (\<lambda>p.
               let p = snd (eat T_KwExport p) in
               Inr (Inl ((), p))))
             else Inr (Inr p)) ((), p)) (\<lambda>p.
      let p = snd (eat T_Semicolon p) in Inr p)))"

definition var_declaration :: "parser \<Rightarrow> parser outcome" where
  "var_declaration p =
     (let (m, p) = start p in
      and_then (var_declaration_content p) (\<lambda>p.
      close_node m NK_VarDef p))"


section \<open>Procedures and functions\<close>

definition param :: "calls \<Rightarrow> parser \<Rightarrow> parser outcome" where
  "param rec p =
     (let (m, p) = start p;
          p = snd (eat T_KwVal p) in
      and_then
        (if at_tok T_Ident p then let p = bump p in Inr p
         else if \<not> at_end p \<and> \<not> at_enclosing_boundary p \<and> \<not> at_error p \<and> \<not> at_tok T_Eq p
         then error_custom MsgParameterName p
         else Inr p) (\<lambda>p.
      let (eaten, p) = eat T_Eq p in
      and_then (if eaten then expression rec p else Inr p) (\<lambda>p.
      close_node m NK_Param p)))"

definition param_list :: "calls \<Rightarrow> parser \<Rightarrow> parser outcome" where
  "param_list rec p =
     (let (m, p) = start p;
          p = bump p in
      and_then
        (within_boundary_unit AtParenListPunctuation (\<lambda>p.
           if \<not> at_tok T_RParen p then
             and_then (param rec p) (\<lambda>p.
             loop (loop_fuel p)
               (\<lambda>(u :: unit, p).
                  let (eaten, p) = eat T_Comma p in
                  if eaten then
                    and_then (check_iteration_limit p) (\<lambda>p.
                    and_then (param rec p) (\<lambda>p.
                    Inr (Inl ((), p))))
                  else Inr (Inr p)) ((), p))
           else Inr p) p) (\<lambda>p.
      and_then (require T_RParen p) (\<lambda>p.
      close_node m NK_ParamList p)))"

definition procedure_def_content :: "calls \<Rightarrow> parser \<Rightarrow> parser outcome" where
  "procedure_def_content rec p =
     (let p = forget_inline_inserts p;
          (outer_crossed, p) = take_crossed_preproc_ifs p;
          p = snd (eat T_KwAsync p) in
      and_then (require T_KwProcedure p) (\<lambda>p.
      and_then
        (within_boundary AtEndProcedure (\<lambda>p.
           and_then
             (if at_tok T_Ident p \<or> (at_keyword_kind p \<and> \<not> at_tok T_KwEndProcedure p)
              then let p = bump p in Inr p
              else if at_tok T_KwEndProcedure p then report_missing_name MsgProcedureName p
              else Inr p) (\<lambda>p.
           and_then (if at_tok T_LParen p then param_list rec p else Inr p) (\<lambda>p.
           let p = snd (eat T_KwExport p) in
           stmt_list rec T_KwEndProcedure p))) p) (\<lambda>(recovered, p).
      and_then (expect_stmt_list_terminator T_KwEndProcedure recovered p) (\<lambda>p.
      let p = restore_crossed_preproc_ifs outer_crossed p in Inr p))))"

definition procedure_def :: "calls \<Rightarrow> parser \<Rightarrow> parser outcome" where
  "procedure_def rec p =
     (let (m, p) = start p in
      and_then (procedure_def_content rec p) (\<lambda>p.
      close_node m NK_ProcedureDef p))"

definition function_def_content :: "calls \<Rightarrow> parser \<Rightarrow> parser outcome" where
  "function_def_content rec p =
     (let p = forget_inline_inserts p;
          (outer_crossed, p) = take_crossed_preproc_ifs p;
          p = snd (eat T_KwAsync p) in
      and_then (require T_KwFunction p) (\<lambda>p.
      and_then
        (within_boundary AtEndFunction (\<lambda>p.
           and_then
             (if at_tok T_Ident p \<or> (at_keyword_kind p \<and> \<not> at_tok T_KwEndFunction p)
              then let p = bump p in Inr p
              else if at_tok T_KwEndFunction p then report_missing_name MsgFunctionName p
              else Inr p) (\<lambda>p.
           and_then (if at_tok T_LParen p then param_list rec p else Inr p) (\<lambda>p.
           let p = snd (eat T_KwExport p) in
           stmt_list rec T_KwEndFunction p))) p) (\<lambda>(recovered, p).
      and_then (expect_stmt_list_terminator T_KwEndFunction recovered p) (\<lambda>p.
      let p = restore_crossed_preproc_ifs outer_crossed p in Inr p))))"

definition function_def :: "calls \<Rightarrow> parser \<Rightarrow> parser outcome" where
  "function_def rec p =
     (let (m, p) = start p in
      and_then (function_def_content rec p) (\<lambda>p.
      close_node m NK_FunctionDef p))"


section \<open>Contracts\<close>

declare if_split [split del]

lemma wp_compiler_directive [THEN returns_mono, wp]:
  assumes "st z bd lo n ms p" and "has_more p"
  shows "returns pn (compiler_directive p) (\<lambda>q. st z bd (Suc lo) (n + 3) ms q)"
  using assms unfolding compiler_directive_def
  by - (assumption | simp only: wp_simps | erule wp | (simp; fail))+

lemma wp_annotation_param_value [THEN returns_mono, wp]:
  assumes "st z bd lo n ms p"
  shows "returns pn (annotation_param_value p) (\<lambda>q. st z bd lo n ms q)"
  using assms unfolding annotation_param_value_def
  by - (assumption | simp only: wp_simps | erule wp | (simp; fail))+

lemma wp_annotation_param [THEN returns_mono, wp]:
  assumes "st z bd lo n ms p"
  shows "returns pn (annotation_param p) (\<lambda>q. st z bd lo n ms q)"
  using assms unfolding annotation_param_def
  by - (assumption | simp only: wp_simps if_True if_False | erule wp | (simp; fail))+

lemma wp_annotation_params [THEN returns_mono, wp]:
  assumes "st z bd lo n ms p" and "0 \<le> n" and "has_more p"
  shows "returns (may_panic z) (annotation_params p) (\<lambda>q. st z bd (Suc lo) (n + 3) ms q)"
  using assms unfolding annotation_params_def
  by - (assumption | simp only: wp_simps if_True if_False | erule wp | rule returns_if | (simp; fail))+

lemma wp_annotation [THEN returns_mono, wp]:
  assumes "st z bd lo n ms p" and "-1 \<le> n" and "has_more p"
  shows "returns (may_panic z) (annotation p) (\<lambda>q. st z bd (Suc lo) (n + 3) ms q)"
  using assms unfolding annotation_def
  by - (assumption | simp only: wp_simps | erule wp | (simp; fail))+

lemma wp_report_missing_name [THEN returns_mono, wp]:
  assumes "st z bd lo n ms p"
  shows "returns pn (report_missing_name msg p) (\<lambda>q. st z bd lo n ms q)"
  using assms unfolding report_missing_name_def
  by - (assumption | simp only: wp_simps | erule wp | (simp; fail))+

lemma wp_var_declaration_content [THEN returns_mono, wp]:
  assumes "st z bd lo n ms p" and "0 \<le> n" and "has_more p"
  shows "returns (may_panic z) (var_declaration_content p) (\<lambda>q. st z bd (Suc lo) (n + 3) ms q)"
  using assms unfolding var_declaration_content_def
  by - (assumption | simp only: wp_simps if_True if_False | erule wp | rule returns_if | (simp; fail))+

lemma wp_var_declaration [THEN returns_mono, wp]:
  assumes "st z bd lo n ms p" and "0 \<le> n" and "has_more p"
  shows "returns (may_panic z) (var_declaration p) (\<lambda>q. st z bd (Suc lo) (n + 3) ms q)"
  using assms unfolding var_declaration_def
  by - (assumption | simp only: wp_simps | erule wp | (simp; fail))+

text \<open>The header of a declaration: \<open>Async\<close>, the word that opens it, or both.\<close>

lemma wp_header:
  assumes "st z bd lo n ms p" and "current p \<in> {Some T_KwAsync, Some k}"
    and "\<And>q. st z bd (Suc lo) (n + 3) ms q \<Longrightarrow> returns pn (f q) Q"
  shows "returns pn (Let (snd (eat T_KwAsync p)) (\<lambda>p. and_then (require k p) f)) Q"
proof (cases "at_tok T_KwAsync p")
  case True
  then have "st z bd (Suc lo) (n + 3) ms (bump p)"
    by (intro st_bump assms(1)) (rule has_more_tok)
  then have "returns pn (and_then (require k (bump p)) f) Q"
    by - (assumption | simp only: wp_simps | erule wp | rule assms(3))+
  with True show ?thesis
    by (simp add: eat_def)
next
  case False
  then have "at_tok k p"
    using assms(2) by (auto simp: at_tok_def)
  then have "returns pn (and_then (require k p) f) Q"
    by (rule returns_bind [OF wp_require_at [OF assms(1)]]) (rule assms(3))
  with False show ?thesis
    by (simp add: eat_def)
qed

lemma name_here: "at_tok k p \<or> at_keyword_kind p \<and> c \<Longrightarrow> has_more p"
  using more_at by blast

context grammar_calls
begin

lemma wp_param [THEN returns_mono, wp]:
  assumes "st z bd lo n ms p" and "p_pos (cx_base z) < lo" and "0 \<le> n" and "cx_fuel z = N"
  shows "returns (may_panic z) (param rec p) (\<lambda>q. st z bd lo n ms q)"
  using assms unfolding param_def
  by - (assumption | simp only: wp_simps if_True if_False | erule wp | rule returns_if | (simp; fail))+

lemma wp_param_list [THEN returns_mono, wp]:
  assumes "st z bd lo n ms p" and "p_pos (cx_base z) \<le> lo" and "0 \<le> n" and "cx_fuel z = N"
    and "has_more p"
  shows "returns (may_panic z) (param_list rec p) (\<lambda>q. st z bd (Suc lo) (n + 3) ms q)"
  using assms unfolding param_list_def
  by - (assumption | simp only: wp_simps if_True if_False | erule wp | rule returns_if | (simp; fail))+

lemma wp_procedure_def_content [THEN returns_mono, wp]:
  assumes "st z bd lo n ms p" and "p_pos (cx_base z) \<le> lo" and "-1 \<le> n" and "cx_fuel z = N"
    and "current p \<in> {Some T_KwAsync, Some T_KwProcedure}"
  shows "returns (may_panic z) (procedure_def_content rec p) (\<lambda>q. st z bd (Suc lo) (n + 3) ms q)"
  using assms unfolding procedure_def_content_def
  by - (assumption | simp only: wp_simps | erule name_here wp_header wp | rule returns_if | (simp; fail))+

lemma wp_procedure_def [THEN returns_mono, wp]:
  assumes "st z bd lo n ms p" and "p_pos (cx_base z) \<le> lo" and "-1 \<le> n" and "cx_fuel z = N"
    and "current p \<in> {Some T_KwAsync, Some T_KwProcedure}"
  shows "returns (may_panic z) (procedure_def rec p) (\<lambda>q. st z bd (Suc lo) (n + 3) ms q)"
  using assms unfolding procedure_def_def
  by - (assumption | simp only: wp_simps | erule wp | (simp; fail))+

lemma wp_function_def_content [THEN returns_mono, wp]:
  assumes "st z bd lo n ms p" and "p_pos (cx_base z) \<le> lo" and "-1 \<le> n" and "cx_fuel z = N"
    and "current p \<in> {Some T_KwAsync, Some T_KwFunction}"
  shows "returns (may_panic z) (function_def_content rec p) (\<lambda>q. st z bd (Suc lo) (n + 3) ms q)"
  using assms unfolding function_def_content_def
  by - (assumption | simp only: wp_simps | erule name_here wp_header wp | rule returns_if | (simp; fail))+

lemma wp_function_def [THEN returns_mono, wp]:
  assumes "st z bd lo n ms p" and "p_pos (cx_base z) \<le> lo" and "-1 \<le> n" and "cx_fuel z = N"
    and "current p \<in> {Some T_KwAsync, Some T_KwFunction}"
  shows "returns (may_panic z) (function_def rec p) (\<lambda>q. st z bd (Suc lo) (n + 3) ms q)"
  using assms unfolding function_def_def
  by - (assumption | simp only: wp_simps | erule wp | (simp; fail))+

end

end
