(* ===== verification/Grammar.thy ===== *)
theory Grammar
  imports Grammar_Items
begin

text \<open>
  The top of the grammar (\<open>parser/src/grammar.rs\<close>): annotated declarations, conditional
  regions, \<open>statement\<close>, the module, and the table that ties the recursive rules
  together. The main result is \<open>parse_events_returns\<close>: whatever the lexer delivers, the
  grammar returns, and the events it leaves are one well-formed node whose tokens are
  the significant tokens of the input in their order.
\<close>

section \<open>Annotated declarations\<close>

definition directive_kinds :: "token_kind list" where
  "directive_kinds = [T_AnnAtClient, T_AnnAtServer, T_AnnAtServerNoContext,
     T_AnnAtClientAtServer, T_AnnAtClientAtServerNoContext]"

definition annotation_kinds :: "token_kind list" where
  "annotation_kinds = [T_AnnBefore, T_AnnAfter, T_AnnAround, T_AnnChangeAndValidate, T_AnnCustom]"

definition annotated_item :: "calls \<Rightarrow> parser \<Rightarrow> parser outcome" where
  "annotated_item rec p =
     (let (outer, p) = start p in
      and_then
        (within_boundary_unit AtDeclarationStart (\<lambda>p.
           and_then
             (while_do (loop_fuel p) (\<lambda>p. at_any (directive_kinds @ annotation_kinds) p)
               (\<lambda>p. and_then (check_iteration_limit p) (\<lambda>p.
                    if at_any directive_kinds p then compiler_directive p else annotation p)) p) (\<lambda>p.
           while_do (loop_fuel p) (\<lambda>p. at_any [T_PreRegion, T_PreEndRegion] p \<or> at_torn_if_end p)
             (\<lambda>p. and_then (check_iteration_limit p) (\<lambda>p.
                  if at_tok T_PreRegion p then preprocessor_region p
                  else if at_tok T_PreEndRegion p then preprocessor_end_region p
                  else torn_preprocessor_if_end p)) p)) p) (\<lambda>p.
      if at_tok T_KwAsync p then
        if nth_kind 1 p = Some T_KwProcedure then
          and_then (procedure_def_content rec p) (\<lambda>p. close_node outer NK_ProcedureDef p)
        else if nth_kind 1 p = Some T_KwFunction then
          and_then (function_def_content rec p) (\<lambda>p. close_node outer NK_FunctionDef p)
        else and_then (abandon outer p) (\<lambda>p. error_unexpected p)
      else if at_tok T_KwProcedure p then
        and_then (procedure_def_content rec p) (\<lambda>p. close_node outer NK_ProcedureDef p)
      else if at_tok T_KwFunction p then
        and_then (function_def_content rec p) (\<lambda>p. close_node outer NK_FunctionDef p)
      else if at_tok T_KwVar p then
        and_then (var_declaration_content p) (\<lambda>p. close_node outer NK_VarDef p)
      else and_then (abandon outer p) (\<lambda>p. error_unexpected p)))"


section \<open>Module items\<close>

text \<open>
  The \<open>match\<close> that \<open>source_file\<close> and \<open>preproc_content\<close> share; the first two arguments
  are the rules for \<open>#If\<close> and for a statement.
\<close>

definition module_item ::
  "(parser \<Rightarrow> parser outcome) \<Rightarrow> (parser \<Rightarrow> (bool \<times> parser) outcome) \<Rightarrow> calls
    \<Rightarrow> parser \<Rightarrow> parser outcome" where
  "module_item if_rule stmt_rule rec p =
     (if at_tok T_KwAsync p then
        if nth_kind 1 p = Some T_KwProcedure then procedure_def rec p
        else if nth_kind 1 p = Some T_KwFunction then function_def rec p
        else error_unexpected p
      else if at_tok T_KwProcedure p then procedure_def rec p
      else if at_tok T_KwFunction p then function_def rec p
      else if at_tok T_KwVar p then var_declaration p
      else if at_tok T_PreRegion p then preprocessor_region p
      else if at_tok T_PreEndRegion p then preprocessor_end_region p
      else if at_tok T_PreIf p then if_rule p
      else if at_tok T_PreDelete p then preprocessor_delete p
      else if at_tok T_PreInsert p then preprocessor_insert p
      else if at_any directive_kinds p then annotated_item rec p
      else if at_any annotation_kinds p then annotated_item rec p
      else and_then (stmt_rule p) (\<lambda>(_, p). Inr p))"

definition preproc_content :: "calls \<Rightarrow> parser \<Rightarrow> parser outcome" where
  "preproc_content rec p =
     loop (loop_fuel p)
       (\<lambda>(u :: unit, p).
          if \<not> at_end p \<and> \<not> boundary_holds AtPreprocCloser p \<and> \<not> at_enclosing_boundary p then
            and_then (check_iteration_limit p) (\<lambda>p.
            if at_end p \<or> boundary_holds AtPreprocCloser p \<or> at_enclosing_boundary p
            then Inr (Inr p)
            else
              and_then (module_item (call rec PreprocessorIf) (rec Statement) rec p) (\<lambda>p.
              Inr (Inl ((), p))))
          else Inr (Inr p)) ((), p)"

definition preprocessor_if :: "calls \<Rightarrow> parser \<Rightarrow> parser outcome" where
  "preprocessor_if rec p =
     (if at_torn_if_statement p then torn_preprocessor_if rec p
      else
        let (m, p) = start p;
            p = bump p;
            p = enter_preproc_if p in
        and_then
          (within_boundary_unit AtPreprocCloser (\<lambda>p.
             and_then (within_boundary_unit AtPreprocThen (preproc_expression rec) p) (\<lambda>p.
             and_then (require T_KwThen p) (\<lambda>p.
             and_then (preproc_content rec p) (\<lambda>p.
             and_then
               (while_do (loop_fuel p) (\<lambda>p. at_tok T_PreElsIf p)
                 (\<lambda>p. and_then (check_iteration_limit p) (\<lambda>p.
                      let (elsif_m, p) = start p;
                          p = bump p in
                      and_then (within_boundary_unit AtPreprocThen (preproc_expression rec) p) (\<lambda>p.
                      and_then (require T_KwThen p) (\<lambda>p.
                      and_then (preproc_content rec p) (\<lambda>p.
                      close_node elsif_m NK_PreElsIfClause p))))) p) (\<lambda>p.
             if at_tok T_PreElse p then
               let (else_m, p) = start p;
                   p = bump p in
               and_then (preproc_content rec p) (\<lambda>p.
               close_node else_m NK_PreElseClause p)
             else Inr p))))) p) (\<lambda>p.
        let p = leave_preproc_if p;
            crossed = (\<not> at_end p \<and> \<not> at_preproc_if_directive p \<and> at_enclosing_boundary p) in
        and_then (require T_PreEndIf p) (\<lambda>p.
        let p = (if crossed then cross_preproc_if p else p)
        in close_node m NK_PreIfDir p)))"


section \<open>Statements and the module\<close>

text \<open>The last arm of \<open>statement\<close>: anything that starts no statement is read as an expression.\<close>

definition expression_stmt :: "calls \<Rightarrow> parser \<Rightarrow> parser outcome" where
  "expression_stmt rec p =
     (let (m, p) = start p in
      and_then (expression rec p) (\<lambda>p.
      and_then (close_node m NK_CallStmt p) (\<lambda>p.
      let p = snd (eat T_Semicolon p) in Inr p)))"

definition statement :: "calls \<Rightarrow> parser \<Rightarrow> (bool \<times> parser) outcome" where
  "statement rec p =
     (if at_tok T_Ident p then assignment_or_call rec p
      else
        and_then
          (if at_tok T_Semicolon p then
             let (m, p) = start p; p = bump p in close_node m NK_EmptyStmt p
           else if at_tok T_KwReturn p then return_stmt rec p
           else if at_tok T_KwIf p then if_stmt rec p
           else if at_tok T_KwWhile p then while_stmt rec p
           else if at_tok T_KwFor p then for_stmt rec p
           else if at_tok T_KwTry p then try_stmt rec p
           else if at_tok T_KwRaise p then raise_stmt rec p
           else if at_tok T_KwBreak p then
             let (m, p) = start p; p = bump p; p = snd (eat T_Semicolon p) in close_node m NK_BreakStmt p
           else if at_tok T_KwContinue p then
             let (m, p) = start p; p = bump p; p = snd (eat T_Semicolon p) in close_node m NK_ContinueStmt p
           else if at_tok T_KwGoto p then goto_stmt p
           else if at_tok T_Tilde p then label_stmt p
           else if at_tok T_KwExecute p then execute_stmt rec p
           else if at_tok T_KwAddHandler p then add_handler_stmt rec p
           else if at_tok T_KwRemoveHandler p then remove_handler_stmt rec p
           else if at_tok T_KwVar p then var_declaration p
           else if at_tok T_PreRegion p then preprocessor_region p
           else if at_tok T_PreEndRegion p then preprocessor_end_region p
           else if at_tok T_PreIf p then preprocessor_if rec p
           else if at_any [T_PreElsIf, T_PreElse, T_PreEndIf] p \<and> at_torn_if_end p then
             torn_preprocessor_if_end p
           else if at_tok T_PreElsIf p \<and> at_crossed_preproc_if_directive p then
             let p = bump p in
             and_then (within_boundary_unit AtThen (preproc_expression rec) p) (\<lambda>p.
             require T_KwThen p)
           else if at_tok T_PreElse p \<and> at_crossed_preproc_if_directive p then
             let p = bump p in Inr p
           else if at_tok T_PreEndIf p \<and> at_crossed_preproc_if_directive p then
             let p = bump_crossed_preproc_if_end p in Inr p
           else if at_tok T_PreDelete p then preprocessor_delete p
           else if at_tok T_PreInsert p then preprocessor_insert p
           else if at_tok T_PreEndInsert p \<and> inline_insert_open p then
             let p = bump_inline_insert_marker p in Inr p
           else if current p \<noteq> None then
             expression_stmt rec p
           else Inr p) (\<lambda>p.
        Inr (False, p)))"

definition source_file :: "calls \<Rightarrow> parser \<Rightarrow> parser outcome" where
  "source_file rec p =
     (let (m, p) = start p in
      and_then
        (loop (loop_fuel p)
          (\<lambda>(u :: unit, p).
             if \<not> at_end p then
               and_then (check_iteration_limit p) (\<lambda>p.
               if at_end p then Inr (Inr p)
               else
                 and_then (module_item (preprocessor_if rec) (statement rec) rec p) (\<lambda>p.
                 Inr (Inl ((), p))))
             else Inr (Inr p)) ((), p)) (\<lambda>p.
      close_node m NK_SourceFile p))"


section \<open>The table of recursive rules\<close>

definition no_answer :: "parser outcome \<Rightarrow> (bool \<times> parser) outcome" where
  "no_answer r = and_then r (\<lambda>p. Inr (False, p))"

primrec grammar_rec :: "nat \<Rightarrow> calls" where
  "grammar_rec 0 = (\<lambda>nt p. Inl OutOfFuel)"
| "grammar_rec (Suc n) = (\<lambda>nt p.
     case nt of
       Expression \<Rightarrow> no_answer (expression (grammar_rec n) p)
     | NotExpr \<Rightarrow> no_answer (not_expr (grammar_rec n) p)
     | UnaryExpr \<Rightarrow> no_answer (unary_expr (grammar_rec n) p)
     | Statement \<Rightarrow> statement (grammar_rec n) p
     | PreprocLogicalOperand \<Rightarrow> no_answer (preproc_logical_operand (grammar_rec n) p)
     | PreprocessorIf \<Rightarrow> no_answer (preprocessor_if (grammar_rec n) p))"

text \<open>
  \<open>parse\<close> of \<open>parser/src/lib.rs\<close> up to the sink: the recursion may go as deep as the
  module has significant tokens.
\<close>

definition parse_events :: "(uchar \<Rightarrow> ustring) \<Rightarrow> token list \<Rightarrow> event list outcome" where
  "parse_events to_lowercase tokens =
     (let p = parser_new to_lowercase tokens in
      and_then (source_file (grammar_rec (input_len (p_input p))) p) (\<lambda>p.
      Inr (parser_finish p)))"


section \<open>Contracts\<close>

declare if_split [split del]

lemma annotation_loop:
  assumes "st z bd lo n ms p" and "0 \<le> n" and "at_any (directive_kinds @ annotation_kinds) p"
  shows "returns (may_panic z)
    (while_do (loop_fuel p) (\<lambda>p. at_any (directive_kinds @ annotation_kinds) p)
      (\<lambda>p. and_then (check_iteration_limit p) (\<lambda>p.
           if at_any directive_kinds p then compiler_directive p else annotation p)) p)
    (\<lambda>q. st z bd (Suc lo) (n + 2) ms q)"
proof (rule wp_while_some [OF assms(1)], goal_cases)
  case (3 p)
  then show ?case
    using assms(2)
    by - (assumption | simp only: wp_simps | rule returns_if | erule wp | (simp; fail))+
qed (use assms(3) in simp_all)

lemma annotated_here:
  "at_any directive_kinds p \<Longrightarrow> at_any (directive_kinds @ annotation_kinds) p"
  "at_any annotation_kinds p \<Longrightarrow> at_any (directive_kinds @ annotation_kinds) p"
  by (auto simp: at_any_iff)

lemma torn_end_here: "at_any ks p \<or> at_torn_if_end p \<Longrightarrow> has_more p"
  by (auto simp: at_torn_if_end_def intro: more_at)

lemma same_cursor_torn: "same_cursor q p \<Longrightarrow> at_any [T_PreRegion, T_PreEndRegion] p \<or> at_torn_if_end p
    \<Longrightarrow> \<not> at_tok T_PreRegion q \<Longrightarrow> \<not> at_tok T_PreEndRegion q \<Longrightarrow> at_torn_if_end q"
  by (auto simp: at_torn_if_end_def at_any_iff at_tok_def)

context grammar_calls
begin

lemma wp_annotated_item [THEN returns_mono, wp]:
  assumes "st z bd lo n ms p" and "p_pos (cx_base z) \<le> lo" and "0 \<le> n" and "cx_fuel z = N"
    and "at_any (directive_kinds @ annotation_kinds) p"
  shows "returns (may_panic z) (annotated_item rec p) (\<lambda>q. st z bd (Suc lo) (n + 1) ms q)"
  using assms unfolding annotated_item_def
  by - (assumption | simp only: wp_simps | rule returns_if
     | erule annotation_loop [THEN returns_mono] torn_end_here same_cursor_torn wp 
     | (simp add: at_any_iff at_tok_def; fail))+

text \<open>
  An item of a module or of a region consumes a token, provided the rules for \<open>#If\<close> and
  for a statement do.
\<close>

lemma wp_module_item [THEN returns_mono]:
  assumes "st z bd lo n ms p" and "p_pos (cx_base z) \<le> lo" and "0 \<le> n" and "cx_fuel z = N"
    and "has_more p" and inside: "st z bd lo n ms p \<Longrightarrow> \<not> at_enclosing_boundary p"
    and if_rule: "st z bd lo n ms p \<Longrightarrow> at_tok T_PreIf p \<Longrightarrow>
      returns (may_panic z) (if_rule p) (\<lambda>q. st z bd (Suc lo) (n + 1) ms q)"
    and stmt_rule: "st z bd lo n ms p \<Longrightarrow> \<not> at_tok T_PreIf p \<Longrightarrow> \<not> at_enclosing_boundary p \<Longrightarrow>
      returns (may_panic z) (stmt_rule p) (\<lambda>(_, q). st z bd (Suc lo) (n + 1) ms q)"
  shows "returns (may_panic z) (module_item if_rule stmt_rule rec p)
    (\<lambda>q. st z bd (Suc lo) (n + 1) ms q)"
proof -
  have async: "\<not> at_statement_separator p" if "at_tok T_KwAsync p"
    using that st_not_declared [OF assms(1)] inside [OF assms(1)]
    by (auto simp: at_statement_separator_def at_tok_def at_torn_if_end_def at_any_iff)
  note leaves = if_rule [OF assms(1)]
    stmt_rule [OF assms(1) _ inside [OF assms(1)], THEN returns_mono]
    wp_error_moves(1) [OF assms(1,5), THEN returns_mono]
  show ?thesis
    using assms(1-5) async unfolding module_item_def
    by - (assumption | simp only: wp_simps | rule returns_if leaves | erule wp annotated_here
        | (simp add: at_any_iff at_tok_def; fail))+
qed

lemma wp_preproc_content [THEN returns_mono, wp]:
  assumes "st z bd lo n ms p" and "p_pos (cx_base z) < lo" and "1 \<le> n" and "cx_fuel z = N"
  shows "returns (may_panic z) (preproc_content rec p) (\<lambda>q. st z bd lo n ms q)"
  using assms unfolding preproc_content_def
  by - (assumption | simp only: wp_simps | rule returns_if | erule wp wp_module_item | (simp; fail))+

lemma wp_preprocessor_if [THEN returns_mono, wp]:
  assumes "st z bd lo n ms p" and "p_pos (cx_base z) \<le> lo" and "0 \<le> n" and "cx_fuel z = N"
    and "at_tok T_PreIf p"
  shows "returns (may_panic z) (preprocessor_if rec p) (\<lambda>q. st z bd (Suc lo) (n + 1) ms q)"
proof -
  have torn: "\<exists>grp. torn_if_here p = Some grp" if "at_torn_if_statement p"
    using that by (auto simp: at_torn_if_statement_def torn_if_here_def split: option.splits)
  have "returns (may_panic z) (torn_preprocessor_if rec p) (\<lambda>q. st z bd (Suc lo) (n + 1) ms q)"
    if "at_torn_if_statement p"
    using torn [OF that] wp_torn_preprocessor_if [OF assms(1,2) _ assms(4)] assms(3)
    by (auto elim!: returns_mono st_weaken)
  then show ?thesis
    using assms unfolding preprocessor_if_def
    by - (assumption | simp only: wp_simps | rule returns_if | erule wp | (simp; fail))+
qed

lemma wp_expression_stmt [THEN returns_mono]:
  assumes "aim z bd lo n (Suc lo) (n + 1) ms p"
    and "p_pos (cx_base z) \<le> lo" and "0 \<le> n" and "cx_fuel z = N"
  shows "returns (may_panic z) (expression_stmt rec p) (\<lambda>q. st z bd (Suc lo) (n + 1) ms q)"
  using assms unfolding expression_stmt_def
  by - (assumption | simp only: wp_simps | erule wp | (simp; fail))+

lemma wp_statement [THEN returns_mono, wp]:
  assumes p: "st z bd lo n ms p" and "p_pos (cx_base z) \<le> lo" and "0 \<le> n" and "cx_fuel z = N"
    and "has_more p" and "\<not> at_enclosing_boundary p"
  shows "returns (may_panic z) (statement rec p) (\<lambda>(_, q). st z bd (Suc lo) (n + 1) ms q)"
proof -
  have aim: "aim z bd lo n (Suc lo) (n + 1) ms p"
    if "\<not> at_tok T_Semicolon p" "\<not> at_tok T_PreIf p" "\<not> at_torn_if_end p"
    using that st_not_declared [OF p] assms(5,6) aim_step [OF p]
    by (simp add: at_statement_separator_def)
  have name: "\<not> at_tok T_Semicolon p" "\<not> at_tok T_PreIf p" "\<not> at_torn_if_end p" if "at_tok T_Ident p"
    using that by (auto simp: at_tok_def at_torn_if_end_def at_any_iff)
  have torn: "\<not> at_torn_if_end p" if "\<not> (at_any [T_PreElsIf, T_PreElse, T_PreEndIf] p \<and> at_torn_if_end p)"
    using that by (simp add: at_torn_if_end_def)
  note operand = wp_assignment_or_call [OF aim assms(2-4)] wp_expression_stmt [OF aim assms(2-4)]
  show ?thesis
    using assms unfolding statement_def
    by - (assumption | simp only: wp_simps | rule returns_if operand torn | erule wp name
        | (simp add: at_any_iff at_tok_def has_more_def; fail))+
qed

text \<open>The loop over the items of a module ends only at the end of the input.\<close>

lemma wp_source_items:
  assumes "st z [] lo n ms p" and "p_pos (cx_base z) \<le> lo" and "1 \<le> n" and "cx_fuel z = N"
  shows "returns (may_panic z)
    (loop (loop_fuel p)
       (\<lambda>(u :: unit, p).
          if \<not> at_end p then
            and_then (check_iteration_limit p) (\<lambda>p.
            if at_end p then Inr (Inr p)
            else
              and_then (module_item (preprocessor_if rec) (statement rec) rec p) (\<lambda>p.
              Inr (Inl ((), p))))
          else Inr (Inr p)) ((), p))
    (\<lambda>q. st z [] lo 0 ms q \<and> at_end q)"
proof -
  have top_level: "\<not> at_enclosing_boundary p" if "st z [] l k ms p" for l k p
    using that by (simp add: st_def at_enclosing_boundary_def)
  show ?thesis
    using assms
    by - (assumption | simp only: wp_simps | rule returns_if conjI | erule wp wp_module_item
        | erule top_level | (simp; fail))+
qed

end


section \<open>The knot\<close>

text \<open>A state reached from a state reached is reached.\<close>

lemma st_trans:
  assumes p: "st z bd lo n ms p"
    and q: "st \<lparr>cx_fuel = m, cx_budget = cx_budget z, cx_base = p\<rparr> bd lo' n' [] q"
  shows "st z bd lo' (n + n') ms q"
  using assms frames_trans [of "p_events (cx_base z)" ms "p_events p" "p_events q"]
  by (auto simp: st_def simp del: frames.simps)

text \<open>Entering a recursive rule: at least one token has been consumed since the last entry.\<close>

lemma st_enter:
  assumes "st z bd lo n ms p" and "p_pos (cx_base z) < lo" and "0 \<le> n" and "cx_fuel z = Suc m"
  shows "st \<lparr>cx_fuel = m, cx_budget = cx_budget z, cx_base = p\<rparr> bd (p_pos p) 0 [] p"
  using assms by (auto simp: st_def remaining_def wf_def simp del: frames.simps intro: frames_refl)

lemma st_no_fuel:
  "st z bd lo n ms p \<Longrightarrow> p_pos (cx_base z) < lo \<Longrightarrow> cx_fuel z \<noteq> 0"
  by (auto simp: st_def remaining_def wf_def)

lemma may_panic_enter [simp]:
  "may_panic \<lparr>cx_fuel = m, cx_budget = cx_budget z, cx_base = p\<rparr> = may_panic z"
  by (simp add: may_panic_def)

lemma grammar_rec_calls: "grammar_calls (grammar_rec n) n"
proof (induction n)
  case 0
  show ?case
    by unfold_locales (auto dest: st_no_fuel)
next
  case (Suc m)
  let ?z = "\<lambda>z p. \<lparr>cx_fuel = m, cx_budget = cx_budget z, cx_base = p\<rparr>"
  show ?case
  proof (unfold_locales, goal_cases)
    case (1 nt z bd lo n ms p)
    note enter = st_enter [OF 1(2-5)]
    have rules: "returns (may_panic (?z z p)) (expression (grammar_rec m) p) (st (?z z p) bd (p_pos p) 0 [])"
      "returns (may_panic (?z z p)) (not_expr (grammar_rec m) p) (st (?z z p) bd (p_pos p) 0 [])"
      "returns (may_panic (?z z p)) (unary_expr (grammar_rec m) p) (st (?z z p) bd (p_pos p) 0 [])"
      "returns (may_panic (?z z p)) (preproc_logical_operand (grammar_rec m) p) (st (?z z p) bd (p_pos p) 0 [])"
      by (rule grammar_calls.wp_expression [OF Suc.IH enter]
          grammar_calls.wp_not_expr [OF Suc.IH enter] grammar_calls.wp_unary_expr [OF Suc.IH enter]
          grammar_calls.wp_preproc_logical_operand [OF Suc.IH enter]; simp)+
    have "returns (may_panic (?z z p)) (grammar_rec (Suc m) nt p) (\<lambda>(_, q). st (?z z p) bd (p_pos p) 0 [] q)"
      using 1(1) rules by (elim insertE emptyE) (simp_all add: no_answer_def returns_and_then)
    then show ?case
      unfolding may_panic_enter
      by (rule returns_mono) (use st_lo [OF 1(2)] in \<open>auto dest!: st_trans [OF 1(2)] elim: st_weaken\<close>)
  next
    case (2 z bd lo n ms p)
    note enter = st_enter [OF 2(1-4)]
    have "returns (may_panic (?z z p)) (grammar_rec (Suc m) Statement p)
        (\<lambda>(_, q). st (?z z p) bd (Suc (p_pos p)) 1 [] q)"
      using grammar_calls.wp_statement [OF Suc.IH enter _ _ _ 2(5,6)] by auto
    then show ?case
      unfolding may_panic_enter
      by (rule returns_mono) (use st_lo [OF 2(1)] in \<open>auto dest!: st_trans [OF 2(1)] elim: st_weaken\<close>)
  next
    case (3 z bd lo n ms p)
    note enter = st_enter [OF 3(1-4)]
    have "returns (may_panic (?z z p)) (grammar_rec (Suc m) PreprocessorIf p)
        (\<lambda>(_, q). st (?z z p) bd (Suc (p_pos p)) 1 [] q)"
      using grammar_calls.wp_preprocessor_if [OF Suc.IH enter _ _ _ 3(5)]
      by (auto simp: no_answer_def returns_and_then)
    then show ?case
      unfolding may_panic_enter
      by (rule returns_mono) (use st_lo [OF 3(1)] in \<open>auto dest!: st_trans [OF 3(1)] elim: st_weaken\<close>)
  qed
qed

interpretation bsl: grammar_calls "grammar_rec n" n for n
  by (rule grammar_rec_calls)


section \<open>The module\<close>

text \<open>
  The state the parser starts with, seen from a base whose count is one ahead: that is
  the unit the first call of the guard is paid with.
\<close>

definition start_ctx :: "parser \<Rightarrow> ctx" where
  "start_ctx p = \<lparr>cx_fuel = remaining p, cx_budget = cost p + 3,
     cx_base = p\<lparr>p_iteration_count := p_iteration_count p + 1\<rparr>\<rparr>"

lemma st_start:
  assumes "wf p" and "p_enclosing_boundaries p = []"
  shows "st (start_ctx p) [] (p_pos p) 1 [] p"
  using assms by (auto simp: st_def start_ctx_def cost_def remaining_def simp del: frames.simps)

lemma parser_new_fields [simp]:
  "p_input (parser_new lc ts) = input_new ts" "p_events (parser_new lc ts) = []"
  "p_enclosing_boundaries (parser_new lc ts) = []"
  by (simp_all add: parser_new_def)

lemma wf_new: "wf (parser_new lc ts)"
  by (simp add: wf_def parser_new_def)

lemma remaining_new: "remaining (parser_new lc ts) = length (significant ts)"
  by (simp add: remaining_def parser_new_def)

lemma source_file_events:
  assumes "wf p" and "p_events p = []" and "p_enclosing_boundaries p = []"
  shows "returns (int MAX_ITERATIONS \<le> cost p + 3) (source_file (grammar_rec (remaining p)) p)
    (\<lambda>q. \<exists>s. p_events q = Start NK_SourceFile None # s @ [Finish] \<and> seg s \<and>
       event_tokens s = p_kinds p)"
proof -
  have panic: "may_panic (start_ctx p) = (int MAX_ITERATIONS \<le> cost p + 3)"
    by (simp add: may_panic_def start_ctx_def)
  have final: "returns pn (close_node m NK_SourceFile q) (\<lambda>q. \<exists>s. p_events q = Start NK_SourceFile None # s @ [Finish]
      \<and> seg s \<and> event_tokens s = p_kinds p)"
    if q: "st (start_ctx p) [] lo n [Fresh 0] q" and m: "mk_pos m = 0" and "at_end q" for pn lo n m q
  proof -
    obtain s where s: "p_events q = Placeholder # s" "seg s"
      using q assms(2) by (auto simp: st_def start_ctx_def fresh_piece_def)
    have "p_input q = p_input p" "p_pos q = length (p_kinds q)"
        "event_tokens (p_events q) = take (p_pos q) (p_kinds q)"
      using q \<open>at_end q\<close> by (auto simp: st_def wf_def start_ctx_def at_end_def input_len_def)
    with s m show ?thesis
      by (simp add: close_node_def complete_def)
  qed
  have q: "st (start_ctx p) [] (p_pos p) 1 [Fresh 0] (push_event Placeholder p)"
    using st_start_marker [OF st_start [OF assms(1,3)]] assms(2) by simp
  have "returns (may_panic (start_ctx p)) (source_file (grammar_rec (remaining p)) p)
    (\<lambda>q. \<exists>s. p_events q = Start NK_SourceFile None # s @ [Finish] \<and> seg s \<and> event_tokens s = p_kinds p)"
    unfolding source_file_def start_def Let_def prod.case returns_and_then
    by (rule returns_mono [OF bsl.wp_source_items [OF q]])
      (use assms(2) final in \<open>auto simp: start_ctx_def\<close>)
  then show ?thesis
    by (simp only: panic)
qed

lemma parse_events_returns:
  "returns (1000000 \<le> 3 * length (significant ts) + 3) (parse_events lc ts)
    (\<lambda>es. \<exists>s. es = Start NK_SourceFile None # s @ [Finish] \<and> seg s \<and>
       event_tokens s = map tk_kind (significant ts))"
proof -
  have cost: "(int MAX_ITERATIONS \<le> cost (parser_new lc ts) + 3)
      = (1000000 \<le> 3 * length (significant ts) + 3)"
    by (auto simp: cost_def remaining_new MAX_ITERATIONS_def) (simp_all add: parser_new_def)
  have "input_len (p_input (parser_new lc ts)) = remaining (parser_new lc ts)"
    by (simp add: remaining_def parser_new_def)
  with source_file_events [OF wf_new, of lc ts] show ?thesis
    unfolding parse_events_def cost [symmetric]
    by (auto simp: Let_def returns_and_then parser_finish_def elim!: returns_mono)
qed

end
