(* ===== verification/Sink.thy ===== *)
theory Sink
  imports Grammar
begin

text \<open>
  The sink (\<open>parser/src/sink.rs\<close>): it replays the events into the tree builder, opens
  the nodes of a forward-parent chain together, puts the trivia the grammar never saw
  back between the tokens, and computes the range of every diagnostic. The builder
  itself is a library; the model records the commands it is given, in order.
\<close>

section \<open>State\<close>

datatype command = StartNode syntax_kind | FinishNode | PutToken syntax_kind ustring

datatype deferred = DeferredStart syntax_kind | DeferredFinish

record sink =
  s_log :: "command list"
  s_tokens :: "token list"
  s_token_pos :: nat
  s_last_significant :: "nat option"
  s_pending_trivia :: "nat option"
  s_deferred :: "deferred list"
  s_deferred_depth :: nat
  s_open_nodes :: nat
  s_errors :: "(text_range \<times> parse_error) list"

definition sink_new :: "token list \<Rightarrow> sink" where
  "sink_new tokens =
     \<lparr>s_log = [], s_tokens = tokens, s_token_pos = 0, s_last_significant = None,
      s_pending_trivia = None, s_deferred = [], s_deferred_depth = 0, s_open_nodes = 0,
      s_errors = []\<rparr>"


section \<open>Ranges of diagnostics\<close>

text \<open>\<open>u32::try_from(..).unwrap_or(u32::MAX)\<close> and \<open>usize::saturating_add\<close>.\<close>

definition to_u32 :: "nat \<Rightarrow> nat" where
  "to_u32 offset = min offset 4294967295"

definition sat_add :: "nat \<Rightarrow> nat \<Rightarrow> nat" where
  "sat_add a b = min (a + b) 18446744073709551615"

definition source_len :: "sink \<Rightarrow> nat" where
  "source_len s =
     (case last_opt (s_tokens s) of
        None \<Rightarrow> 0
      | Some t \<Rightarrow> to_u32 (sat_add (tk_offset t) (str_len (tk_text t))))"

definition clamp_offset :: "sink \<Rightarrow> nat \<Rightarrow> nat" where
  "clamp_offset s offset = min (to_u32 offset) (source_len s)"

definition safe_range :: "nat \<Rightarrow> nat \<Rightarrow> text_range outcome" where
  "safe_range a b = text_range_new a (max b a)"

definition offset_of_next_significant :: "sink \<Rightarrow> nat \<Rightarrow> nat" where
  "offset_of_next_significant s from_pos =
     (case find (\<lambda>t. \<not> sk_is_trivia (token_kind_to_syntax (tk_kind t)))
             (drop (min from_pos (length (s_tokens s))) (s_tokens s)) of
        None \<Rightarrow> source_len s
      | Some t \<Rightarrow> clamp_offset s (tk_offset t))"

definition previous_token_range_or_zero_at_start :: "sink \<Rightarrow> text_range outcome" where
  "previous_token_range_or_zero_at_start s =
     (case s_last_significant s of
        None \<Rightarrow> Inr (0, 0)
      | Some pos \<Rightarrow>
          (case get (s_tokens s) pos of
             None \<Rightarrow> Inr (source_len s, source_len s)
           | Some t \<Rightarrow>
               safe_range (clamp_offset s (tk_offset t))
                 (clamp_offset s (sat_add (tk_offset t) (str_len (tk_text t))))))"

definition compute_error_range :: "sink \<Rightarrow> parse_error \<Rightarrow> nat option \<Rightarrow> text_range outcome" where
  "compute_error_range s err span_start_token =
     (case recovery err of
        BumpToken \<Rightarrow> previous_token_range_or_zero_at_start s
      | MissingToken \<Rightarrow>
          let offset = offset_of_next_significant s (s_token_pos s) in Inr (offset, offset)
      | RecoverySpan \<Rightarrow>
          safe_range
            (case span_start_token of
               None \<Rightarrow> source_len s
             | Some idx \<Rightarrow> offset_of_next_significant s idx)
            (offset_of_next_significant s (s_token_pos s))
      | Custom \<Rightarrow>
          if s_last_significant s \<noteq> None then previous_token_range_or_zero_at_start s
          else let offset = offset_of_next_significant s (s_token_pos s) in Inr (offset, offset))"


section \<open>The builder\<close>

definition start_node :: "syntax_kind \<Rightarrow> sink \<Rightarrow> sink" where
  "start_node k s = s\<lparr>s_log := s_log s @ [StartNode k], s_open_nodes := s_open_nodes s + 1\<rparr>"

text \<open>The count of open nodes is unsigned: closing a node that is not open panics.\<close>

definition finish_node :: "sink \<Rightarrow> sink outcome" where
  "finish_node s =
     (if s_open_nodes s = 0 then Inl Panic
      else Inr (s\<lparr>s_log := s_log s @ [FinishNode], s_open_nodes := s_open_nodes s - 1\<rparr>))"

definition put_token :: "token_kind \<Rightarrow> ustring \<Rightarrow> sink \<Rightarrow> sink" where
  "put_token k text s = s\<lparr>s_log := s_log s @ [PutToken (token_kind_to_syntax k) text]\<rparr>"

primrec perform_nodes :: "deferred list \<Rightarrow> sink \<Rightarrow> sink outcome" where
  "perform_nodes [] s = Inr s"
| "perform_nodes (d # ds) s =
     (case d of
        DeferredStart k \<Rightarrow> perform_nodes ds (start_node k s)
      | DeferredFinish \<Rightarrow> and_then (finish_node s) (perform_nodes ds))"

definition perform_deferred_nodes :: "sink \<Rightarrow> sink outcome" where
  "perform_deferred_nodes s =
     and_then (perform_nodes (s_deferred s) (s\<lparr>s_deferred_depth := 0, s_deferred := []\<rparr>)) (\<lambda>s.
     Inr (s\<lparr>s_deferred := []\<rparr>))"

text \<open>A slice \<open>&tokens[a..b]\<close> panics unless \<open>a \<le> b \<le> len\<close>.\<close>

definition flush_trivia :: "sink \<Rightarrow> sink outcome" where
  "flush_trivia s =
     (case s_pending_trivia s of
        None \<Rightarrow> Inr s
      | Some from_pos \<Rightarrow>
          if from_pos \<le> s_token_pos s \<and> s_token_pos s \<le> length (s_tokens s) then
            Inr (fold (\<lambda>t. put_token (tk_kind t) (tk_text t))
                   (take (s_token_pos s - from_pos) (drop from_pos (s_tokens s)))
                   (s\<lparr>s_pending_trivia := None\<rparr>))
          else Inl Panic)"

definition get_or_insert :: "nat option \<Rightarrow> nat \<Rightarrow> nat option" where
  "get_or_insert cell x = (case cell of None \<Rightarrow> Some x | Some y \<Rightarrow> Some y)"

function skip_trivia :: "sink \<Rightarrow> sink" where
  "skip_trivia s =
     (case get (s_tokens s) (s_token_pos s) of
        None \<Rightarrow> s
      | Some t \<Rightarrow>
          if sk_is_trivia (token_kind_to_syntax (tk_kind t)) then
            skip_trivia (s\<lparr>s_pending_trivia := get_or_insert (s_pending_trivia s) (s_token_pos s),
                           s_token_pos := s_token_pos s + 1\<rparr>)
          else s)"
  by pat_completeness auto
termination
  by (relation "measure (\<lambda>s. length (s_tokens s) - s_token_pos s)") (auto simp: get_eq_Some)

declare skip_trivia.simps [simp del]

definition sink_token :: "token_kind \<Rightarrow> sink \<Rightarrow> sink outcome" where
  "sink_token kind s =
     (let s = skip_trivia s in
      case get (s_tokens s) (s_token_pos s) of
        None \<Rightarrow> Inr s
      | Some t \<Rightarrow>
          and_then (flush_trivia s) (\<lambda>s.
          and_then (perform_deferred_nodes s) (\<lambda>s.
          let s = put_token kind (tk_text t) s in
          Inr (s\<lparr>s_last_significant := Some (s_token_pos s), s_token_pos := s_token_pos s + 1\<rparr>))))"

function take_the_tail :: "sink \<Rightarrow> sink" where
  "take_the_tail s =
     (if s_token_pos s < length (s_tokens s) then
        take_the_tail (s\<lparr>s_pending_trivia := get_or_insert (s_pending_trivia s) (s_token_pos s),
                         s_token_pos := s_token_pos s + 1\<rparr>)
      else s)"
  by pat_completeness auto
termination
  by (relation "measure (\<lambda>s. length (s_tokens s) - s_token_pos s)") auto

declare take_the_tail.simps [simp del]


section \<open>Forward parents\<close>

text \<open>The first loop of \<open>finish\<close>: every \<open>Start\<close> another one links to is skipped later.\<close>

definition mark_chain :: "event list \<Rightarrow> nat \<Rightarrow> bool list \<Rightarrow> bool list outcome" where
  "mark_chain es i skip =
     (case es ! i of
        Start _ (Some fwd) \<Rightarrow>
          loop (Suc (length es))
            (\<lambda>(skip, idx).
               case get es idx of
                 None \<Rightarrow> Inl Panic
               | Some (Start _ fp) \<Rightarrow>
                   let skip = skip[idx := True] in
                   (case fp of Some next_fwd \<Rightarrow> Inr (Inl (skip, idx + next_fwd)) | None \<Rightarrow> Inr (Inr skip))
               | Some _ \<Rightarrow> Inr (Inr skip))
            (skip, i + fwd)
      | _ \<Rightarrow> Inr skip)"

primrec mark_chains :: "event list \<Rightarrow> nat list \<Rightarrow> bool list \<Rightarrow> bool list outcome" where
  "mark_chains es [] skip = Inr skip"
| "mark_chains es (i # is) skip = and_then (mark_chain es i skip) (mark_chains es is)"

text \<open>The kinds along a chain; a link that leads to no \<open>Start\<close> is \<open>unreachable!\<close>.\<close>

definition forward_parents :: "event list \<Rightarrow> nat \<Rightarrow> node_kind \<Rightarrow> nat option \<Rightarrow> node_kind list outcome" where
  "forward_parents es i kind fp =
     loop (Suc (length es))
       (\<lambda>(kinds, idx, fp).
          case fp of
            None \<Rightarrow> Inr (Inr kinds)
          | Some fwd \<Rightarrow>
              (case get es (idx + fwd) of
                 Some (Start k fp) \<Rightarrow> Inr (Inl (kinds @ [k], idx + fwd, fp))
               | _ \<Rightarrow> Inl Panic))
       ([kind], i, fp)"


section \<open>The replay\<close>

definition sink_open :: "node_kind list \<Rightarrow> sink \<Rightarrow> sink" where
  "sink_open kinds s =
     (let defer = (0 < s_open_nodes s \<or> s_deferred s \<noteq> []) in
      fold (\<lambda>kind s.
              if defer then
                s\<lparr>s_deferred := s_deferred s @ [DeferredStart (node_kind_to_syntax kind)],
                  s_deferred_depth := s_deferred_depth s + 1\<rparr>
              else start_node (node_kind_to_syntax kind) s)
        (rev kinds) s)"

definition sink_close :: "sink \<Rightarrow> sink outcome" where
  "sink_close s =
     (if 0 < s_deferred_depth s then
        Inr (s\<lparr>s_deferred := s_deferred s @ [DeferredFinish],
               s_deferred_depth := s_deferred_depth s - 1\<rparr>)
      else
        and_then (perform_deferred_nodes s) (\<lambda>s.
        and_then (if s_open_nodes s = 1 then flush_trivia (take_the_tail s) else Inr s) (\<lambda>s.
        finish_node s)))"

definition sink_error :: "parse_error \<Rightarrow> nat option \<Rightarrow> sink \<Rightarrow> sink outcome" where
  "sink_error err span_start s =
     and_then (compute_error_range s err span_start) (\<lambda>span.
     Inr (s\<lparr>s_errors := s_errors s @ [(span, err)]\<rparr>))"

definition sink_event :: "event list \<Rightarrow> bool list \<Rightarrow> nat \<Rightarrow> sink \<Rightarrow> sink outcome" where
  "sink_event es skip i s =
     (case es ! i of
        Start kind fp \<Rightarrow>
          if skip ! i then Inr s
          else and_then (forward_parents es i kind fp) (\<lambda>kinds. Inr (sink_open kinds s))
      | Finish \<Rightarrow> sink_close s
      | Token kind \<Rightarrow> sink_token kind s
      | Placeholder \<Rightarrow> Inr s
      | Error err \<Rightarrow> sink_error err None s
      | ErrorWithSpan start_token err \<Rightarrow> sink_error err (Some start_token) s)"

primrec sink_events :: "event list \<Rightarrow> bool list \<Rightarrow> nat list \<Rightarrow> sink \<Rightarrow> sink outcome" where
  "sink_events es skip [] s = Inr s"
| "sink_events es skip (i # is) s = and_then (sink_event es skip i s) (sink_events es skip is)"

text \<open>The result: the commands the builder got and the diagnostics handed over to it.\<close>

definition sink_finish ::
  "token list \<Rightarrow> event list \<Rightarrow> (command list \<times> (text_range \<times> parse_error) list) outcome" where
  "sink_finish tokens es =
     and_then (mark_chains es [0..<length es] (replicate (length es) False)) (\<lambda>skip.
     and_then (sink_events es skip [0..<length es] (sink_new tokens)) (\<lambda>s.
     Inr (s_log s, s_errors s)))"

end
