(* ===== verification/Event_Trees.thy ===== *)
theory Event_Trees
  imports Events
begin

text \<open>
  What a well-formed event stream means: the bracketed sequence of nodes, tokens and
  diagnostics it stands for, with the nodes that \<open>precede\<close> opened late put where they
  belong. The second half relates that meaning to positions in a stream, the way a
  reader finds it by following the links.
\<close>

section \<open>Meaning\<close>

datatype op = Open node_kind | Close | Tok token_kind | Err parse_error "nat option"

inductive seg_ops :: "event list \<Rightarrow> op list \<Rightarrow> bool"
  and chain_ops :: "nat \<Rightarrow> event list \<Rightarrow> op list \<Rightarrow> bool" where
  ops_Nil: "seg_ops [] []"
| ops_Token: "seg_ops s x \<Longrightarrow> seg_ops (s @ [Token k]) (x @ [Tok k])"
| ops_Error: "seg_ops s x \<Longrightarrow> seg_ops (s @ [Error e]) (x @ [Err e None])"
| ops_ErrorWithSpan: "seg_ops s x \<Longrightarrow> seg_ops (s @ [ErrorWithSpan n e]) (x @ [Err e (Some n)])"
| ops_Placeholder: "seg_ops s x \<Longrightarrow> seg_ops (s @ [Placeholder]) x"
| ops_append: "seg_ops s x \<Longrightarrow> chain_ops d c y \<Longrightarrow> seg_ops (s @ c) (x @ y)"
| ops_node: "seg_ops s x \<Longrightarrow> chain_ops 0 (Start k None # s @ [Finish]) (Open k # x @ [Close])"
| ops_up: "chain_ops d c x \<Longrightarrow> seg_ops g y \<Longrightarrow> seg_ops s w \<Longrightarrow>
    chain_ops (length c + length g)
      (c[d := link_event (length c + length g - d) (c ! d)] @ g @ Start k None # s @ [Finish])
      (Open k # x @ y @ w @ [Close])"

lemma seg_has_ops_aux:
  "seg s \<Longrightarrow> \<exists>x. seg_ops s x"
  "chain d c \<Longrightarrow> \<exists>x. chain_ops d c x"
  by (induction rule: seg_chain.inducts) (blast intro: seg_ops_chain_ops.intros)+

lemmas seg_has_ops = seg_has_ops_aux(1)

lemma ops_chain_head_aux:
  "seg_ops s x \<Longrightarrow> True"
  "chain_ops d c x \<Longrightarrow> d < length c \<and> (\<exists>k. c ! d = Start k None)"
proof (induction rule: seg_ops_chain_ops.inducts)
  case (ops_up d c x g y s w k)
  then show ?case
    by (auto simp: nth_append)
qed auto

lemmas ops_chain_head = ops_chain_head_aux(2)

text \<open>The depth of a sequence, and that a sequence never closes what it did not open.\<close>

primrec op_depth :: "op \<Rightarrow> int" where
  "op_depth (Open _) = 1"
| "op_depth Close = -1"
| "op_depth (Tok _) = 0"
| "op_depth (Err _ _) = 0"

definition depth :: "op list \<Rightarrow> int" where
  "depth x = sum_list (map op_depth x)"

definition proper :: "op list \<Rightarrow> bool" where
  "proper x \<longleftrightarrow> (\<forall>n. 0 \<le> depth (take n x))"

primrec op_tokens :: "op list \<Rightarrow> token_kind list" where
  "op_tokens [] = []"
| "op_tokens (a # x) = (case a of Tok k \<Rightarrow> k # op_tokens x | _ \<Rightarrow> op_tokens x)"

lemma op_tokens_append [simp]: "op_tokens (x @ y) = op_tokens x @ op_tokens y"
  by (induction x) (auto split: op.splits)

lemma depth_append [simp]: "depth (x @ y) = depth x + depth y"
  by (simp add: depth_def)

lemma depth_Nil [simp]: "depth [] = 0"
  by (simp add: depth_def)

lemma depth_Cons [simp]: "depth (a # x) = op_depth a + depth x"
  by (simp add: depth_def)

lemma proper_append: "proper x \<Longrightarrow> depth x = 0 \<Longrightarrow> proper y \<Longrightarrow> proper (x @ y)"
  unfolding proper_def by (metis add_0 depth_append append.right_neutral linorder_linear take_all
      take_append take_eq_Nil diff_is_0_eq)

lemma proper_snoc: "proper x \<Longrightarrow> 0 \<le> depth x + op_depth a \<Longrightarrow> proper (x @ [a])"
  unfolding proper_def by (metis (no_types, lifting) depth_Cons depth_Nil add.right_neutral
      depth_append append_take_drop_id linorder_linear not_less_eq_eq take_all take_append
      length_append_singleton append_self_conv take_eq_Nil diff_is_0_eq)

lemma proper_node: "proper x \<Longrightarrow> depth x = 0 \<Longrightarrow> proper (Open k # x @ [Close])"
proof -
  assume x: "proper x" "depth x = 0"
  show ?thesis
    unfolding proper_def
  proof
    fix n
    show "0 \<le> depth (take n (Open k # x @ [Close]))"
    proof (cases n)
      case (Suc m)
      have "0 \<le> depth (take m x)"
        using x(1) by (simp add: proper_def)
      then show ?thesis
        using x(2) by (cases "m \<le> length x") (auto simp: Suc take_Cons' depth_def)
    qed simp
  qed
qed

lemma ops_proper_aux:
  "seg_ops s x \<Longrightarrow> proper x \<and> depth x = 0"
  "chain_ops d c x \<Longrightarrow> proper x \<and> depth x = 0"
proof (induction rule: seg_ops_chain_ops.inducts)
  case (ops_up d c x g y s w k)
  then have "proper (x @ y @ w)" "depth (x @ y @ w) = 0"
    by (auto intro: proper_append)
  then show ?case
    using proper_node [of "x @ y @ w" k] by simp
qed (auto simp: proper_node intro: proper_append proper_snoc, simp add: proper_def)

lemmas ops_proper = ops_proper_aux(1)

lemma ops_tokens_aux:
  "seg_ops s x \<Longrightarrow> op_tokens x = event_tokens s"
  "chain_ops d c x \<Longrightarrow> op_tokens x = event_tokens c"
proof (induction rule: seg_ops_chain_ops.inducts)
  case (ops_up d c x g y s w k)
  obtain k0 where "d < length c" "c ! d = Start k0 None"
    using ops_chain_head [OF ops_up(1)] by blast
  with ops_up show ?case
    by (simp add: link_event_def event_tokens_update_start)
qed simp_all

lemmas ops_tokens = ops_tokens_aux(1)


section \<open>Positions\<close>

text \<open>
  The links of a stream \<open>E\<close>, read by position. \<open>link_from E i j\<close>: the \<open>Start\<close> at \<open>i\<close>
  names the one at \<open>j\<close> as its parent. \<open>ancestors E i ks\<close>: the kinds found by following
  the links from \<open>i\<close>, innermost first.
\<close>

definition is_start :: "event \<Rightarrow> bool" where
  "is_start e = (case e of Start _ _ \<Rightarrow> True | _ \<Rightarrow> False)"

lemma is_start_simps [simp]:
  "is_start (Start k f)" "\<not> is_start Finish" "\<not> is_start (Token t)" "\<not> is_start Placeholder"
  "\<not> is_start (Error e)" "\<not> is_start (ErrorWithSpan n e)"
  by (simp_all add: is_start_def)

definition link_from :: "event list \<Rightarrow> nat \<Rightarrow> nat \<Rightarrow> bool" where
  "link_from E i j \<longleftrightarrow> (\<exists>k f. E ! i = Start k (Some f) \<and> j = i + f)"

definition linked :: "event list \<Rightarrow> nat \<Rightarrow> bool" where
  "linked E j \<longleftrightarrow> (\<exists>i < length E. link_from E i j)"

inductive ancestors :: "event list \<Rightarrow> nat \<Rightarrow> node_kind list \<Rightarrow> bool" for E where
  ancestors_last: "E ! i = Start k None \<Longrightarrow> ancestors E i [k]"
| ancestors_step: "E ! i = Start k (Some f) \<Longrightarrow> ancestors E (i + f) ks \<Longrightarrow> ancestors E i (k # ks)"

inductive_cases ancestors_NoneE: "ancestors E i ks"

text \<open>Every link leads forward, to a \<open>Start\<close> of the same stretch.\<close>

definition closed_links :: "event list \<Rightarrow> bool" where
  "closed_links E \<longleftrightarrow>
     (\<forall>i j. i < length E \<longrightarrow> link_from E i j \<longrightarrow> i < j \<and> j < length E \<and> is_start (E ! j))"

lemma link_from_append:
  "link_from (xs @ ys) i j \<longleftrightarrow>
     (if i < length xs then link_from xs i j
      else length xs \<le> j \<and> link_from ys (i - length xs) (j - length xs))"
proof (cases "i < length xs")
  case False
  then show ?thesis
    by (auto simp: link_from_def nth_append)
qed (simp add: link_from_def nth_append)

lemma closed_links_append:
  assumes "closed_links xs" "closed_links ys"
  shows "closed_links (xs @ ys)"
  unfolding closed_links_def
proof (intro allI impI)
  fix i j
  assume i: "i < length (xs @ ys)" and l: "link_from (xs @ ys) i j"
  show "i < j \<and> j < length (xs @ ys) \<and> is_start ((xs @ ys) ! j)"
  proof (cases "i < length xs")
    case True
    then have "link_from xs i j"
      using l by (simp add: link_from_append)
    with True assms(1) have "i < j" "j < length xs" "is_start (xs ! j)"
      unfolding closed_links_def by blast+
    then show ?thesis
      by (simp add: nth_append)
  next
    case False
    then have "length xs \<le> j" "link_from ys (i - length xs) (j - length xs)" "i - length xs < length ys"
      using l i by (auto simp: link_from_append)
    with assms(2) have "i - length xs < j - length xs" "j - length xs < length ys"
      "is_start (ys ! (j - length xs))"
      unfolding closed_links_def by blast+
    then show ?thesis
      using \<open>length xs \<le> j\<close> False by (auto simp: nth_append)
  qed
qed

lemma closed_links_plain: "(\<And>k f. e \<noteq> Start k (Some f)) \<Longrightarrow> closed_links [e]"
  by (auto simp: closed_links_def link_from_def)

lemma closed_links_node: "closed_links s \<Longrightarrow> closed_links (Start k None # s @ [Finish])"
  using closed_links_append [OF closed_links_plain closed_links_append [OF _ closed_links_plain], of "Start k None" s Finish]
  by simp

lemma closed_links_up:
  assumes c: "closed_links c" "d < length c" "c ! d = Start k0 None"
    and g: "closed_links g" and s: "closed_links s"
  shows "closed_links (c[d := link_event (length c + length g - d) (c ! d)] @ g @ Start k None # s @ [Finish])"
    (is "closed_links (?c @ g @ ?r)")
proof -
  have tail: "closed_links (g @ ?r)"
    using closed_links_append [OF g closed_links_node [OF s, of k]] by simp
  have start: "is_start (?c ! i) \<longleftrightarrow> is_start (c ! i)" for i
    using c(2,3) by (cases "i = d") (auto simp: link_event_def)
  show ?thesis
    unfolding closed_links_def
  proof (intro allI impI)
    fix i j
    assume i: "i < length (?c @ g @ ?r)" and l: "link_from (?c @ g @ ?r) i j"
    consider (head) "i = d" | (inside) "i < length c" "i \<noteq> d" | (after) "length c \<le> i"
      by linarith
    then show "i < j \<and> j < length (?c @ g @ ?r) \<and> is_start ((?c @ g @ ?r) ! j)"
    proof cases
      case head
      then have "j = length c + length g"
        using l c(2,3) by (auto simp: link_from_def link_event_def nth_append)
      then show ?thesis
        using head c(2) by (simp add: nth_append)
    next
      case inside
      then have "link_from c i j"
        using l by (simp add: link_from_def nth_append)
      with inside c(1) have "i < j" "j < length c" "is_start (c ! j)"
        unfolding closed_links_def by blast+
      then show ?thesis
        using start [of j] by (simp add: nth_append del: nth_list_update_eq)
    next
      case after
      then have "length c \<le> j" "link_from (g @ ?r) (i - length c) (j - length c)"
        "i - length c < length (g @ ?r)"
        using l i by (auto simp: link_from_append [of ?c])
      with tail have "i - length c < j - length c" "j - length c < length (g @ ?r)"
        "is_start ((g @ ?r) ! (j - length c))"
        unfolding closed_links_def by blast+
      then show ?thesis
        using after \<open>length c \<le> j\<close> by (auto simp: nth_append [of ?c])
    qed
  qed
qed

lemma ops_closed_aux:
  "seg_ops s x \<Longrightarrow> closed_links s"
  "chain_ops d c x \<Longrightarrow> closed_links c"
proof (induction rule: seg_ops_chain_ops.inducts)
  case (ops_up d c x g y s w k)
  obtain k0 where "d < length c" "c ! d = Start k0 None"
    using ops_chain_head [OF ops_up(1)] by blast
  then show ?case
    using ops_up by (intro closed_links_up)
qed (auto intro: closed_links_append closed_links_plain closed_links_node
       simp: closed_links_def [of "[]"])


text \<open>
  What a reader of \<open>E\<close> that follows the links does at each position: a \<open>Start\<close> that
  another one names is passed over, any other opens its whole chain, outermost first.
\<close>

inductive emit :: "event list \<Rightarrow> nat \<Rightarrow> op list \<Rightarrow> bool" for E where
  emit_passed: "is_start (E ! i) \<Longrightarrow> linked E i \<Longrightarrow> emit E i []"
| emit_start: "is_start (E ! i) \<Longrightarrow> \<not> linked E i \<Longrightarrow> ancestors E i ks \<Longrightarrow> emit E i (map Open (rev ks))"
| emit_finish: "E ! i = Finish \<Longrightarrow> emit E i [Close]"
| emit_token: "E ! i = Token k \<Longrightarrow> emit E i [Tok k]"
| emit_placeholder: "E ! i = Placeholder \<Longrightarrow> emit E i []"
| emit_error: "E ! i = Error e \<Longrightarrow> emit E i [Err e None]"
| emit_error_span: "E ! i = ErrorWithSpan n e \<Longrightarrow> emit E i [Err e (Some n)]"

inductive emits :: "event list \<Rightarrow> nat \<Rightarrow> nat \<Rightarrow> op list \<Rightarrow> bool" for E a where
  emits_none: "emits E a 0 []"
| emits_more: "emits E a n x \<Longrightarrow> emit E (a + n) y \<Longrightarrow> emits E a (Suc n) (x @ y)"

lemma emits_append: "emits E (a + n) m y \<Longrightarrow> emits E a n x \<Longrightarrow> emits E a (n + m) (x @ y)"
  by (induction rule: emits.induct) (auto intro: emits_more simp: add.assoc simp flip: append_assoc)

lemma emits_one: "emit E a x \<Longrightarrow> emits E a 1 x"
  using emits_more [OF emits_none, of E a x] by simp

text \<open>
  \<open>sits E a s\<close>: the stream \<open>E\<close> holds \<open>s\<close> at position \<open>a\<close>. \<open>quiet E a n\<close>: no link from
  before \<open>a\<close> lands in the \<open>n\<close> positions from there.
\<close>

definition sits :: "event list \<Rightarrow> nat \<Rightarrow> event list \<Rightarrow> bool" where
  "sits E a s \<longleftrightarrow> a + length s \<le> length E \<and> (\<forall>i < length s. E ! (a + i) = s ! i)"

definition quiet :: "event list \<Rightarrow> nat \<Rightarrow> nat \<Rightarrow> bool" where
  "quiet E a n \<longleftrightarrow> (\<forall>i < a. \<forall>j. link_from E i j \<longrightarrow> j < a \<or> a + n \<le> j)"

lemma sitsD: "sits E a s \<Longrightarrow> i < length s \<Longrightarrow> E ! (a + i) = s ! i"
  by (simp add: sits_def)

lemma sits_append: "sits E a (s @ t) \<longleftrightarrow> sits E a s \<and> sits E (a + length s) t"
proof (intro iffI conjI)
  assume st: "sits E a (s @ t)"
  show "sits E a s"
    unfolding sits_def using st by (auto simp: sits_def nth_append)
  show "sits E (a + length s) t"
    unfolding sits_def
  proof (intro conjI allI impI)
    show "a + length s + length t \<le> length E"
      using st by (simp add: sits_def)
    fix i
    assume "i < length t"
    then show "E ! (a + length s + i) = t ! i"
      using sitsD [OF st, of "length s + i"] by (simp add: add.assoc)
  qed
next
  assume st: "sits E a s \<and> sits E (a + length s) t"
  have "E ! (a + i) = t ! (i - length s)" if "length s \<le> i" "i < length s + length t" for i
    using st that sitsD [of E "a + length s" t "i - length s"] by auto
  then show "sits E a (s @ t)"
    using st by (auto simp: sits_def nth_append)
qed

lemma sits_single: "sits E a [e] \<longleftrightarrow> a < length E \<and> E ! a = e"
  by (auto simp: sits_def)

lemma quiet_shrink: "quiet E a (m + n) \<Longrightarrow> quiet E a m"
  by (fastforce simp: quiet_def)

lemma quiet_advance:
  assumes "quiet E a (m + n)"
    and "\<And>i j. i < m \<Longrightarrow> link_from E (a + i) j \<Longrightarrow> j < a + m \<or> a + m + n \<le> j"
  shows "quiet E (a + m) n"
  unfolding quiet_def
proof (intro allI impI)
  fix i j
  assume i: "i < a + m" and l: "link_from E i j"
  show "j < a + m \<or> a + m + n \<le> j"
  proof (cases "i < a")
    case True
    with assms(1) l have "j < a \<or> a + (m + n) \<le> j"
      unfolding quiet_def by blast
    then show ?thesis
      by auto
  next
    case False
    then show ?thesis
      using assms(2) [of "i - a" j] i l by simp
  qed
qed

lemma link_from_sits:
  assumes "sits E a s" "closed_links s" "i < length s" "link_from E (a + i) j"
  shows "j < a + length s"
proof -
  have "link_from s i (j - a)" "a \<le> j"
    using assms(1,3,4) by (auto simp: link_from_def sitsD)
  then have "j - a < length s"
    using assms(2,3) unfolding closed_links_def by blast
  then show ?thesis
    using \<open>a \<le> j\<close> by simp
qed

lemma quiet_past:
  assumes "quiet E a (length s + n)" "sits E a s" "closed_links s"
  shows "quiet E (a + length s) n"
  using assms by (intro quiet_advance) (auto dest: link_from_sits)

lemma not_linked:
  assumes "closed_links E" "quiet E a n" "0 < n"
  shows "\<not> linked E a"
proof
  assume "linked E a"
  then obtain i where i: "i < length E" "link_from E i a"
    by (auto simp: linked_def)
  then have "i < a"
    using assms(1) unfolding closed_links_def by blast
  then have "a < a \<or> a + n \<le> a"
    using i(2) assms(2) unfolding quiet_def by blast
  then show False
    using assms(3) by simp
qed

text \<open>The reader finds in a well-formed stretch exactly its meaning.\<close>

lemma emits_node:
  assumes E: "closed_links E" and at_s: "sits E (Suc a) s" "E ! (Suc a + length s) = Finish"
    and up: "ancestors E a (k # ks)" "\<And>j. link_from E a j \<Longrightarrow> a + length s + 2 \<le> j"
    and q: "quiet E a (length s + 2)"
    and s: "closed_links s" "quiet E (Suc a) (length s) \<Longrightarrow> emits E (Suc a) (length s) x"
  shows "emits E a (length s + 2) (map Open (rev ks) @ Open k # x @ [Close])"
proof -
  have "is_start (E ! a)"
    using up(1) by (auto elim: ancestors.cases)
  moreover have "\<not> linked E a"
    using not_linked [OF E q] by simp
  ultimately have "emit E a (map Open (rev (k # ks)))"
    using up(1) by (rule emit_start)
  then have first: "emits E a 1 (map Open (rev (k # ks)))"
    by (rule emits_one)
  have "quiet E (a + 1) (length s)"
    using up(2) by (intro quiet_advance [OF quiet_shrink [of E a "1 + length s" 1]]) (use q in force)+
  then have "emits E (a + 1) (length s) x"
    using s(2) by simp
  then have "emits E a (1 + length s) (map Open (rev (k # ks)) @ x)"
    by (rule emits_append [OF _ first])
  moreover have "emits E (a + (1 + length s)) 1 [Close]"
    using at_s(2) by (intro emits_one emit_finish) simp
  ultimately show ?thesis
    using emits_append by fastforce
qed


lemma emits_up:
  assumes E: "closed_links E" and d: "d < length c" "c ! d = Start k0 None"
    and at_E: "sits E a ((c[d := link_event (length c + length g - d) (c ! d)] @ g @ Start k None # s @ [Finish])
                    [length c + length g := E ! (a + (length c + length g))])"
    and up: "ancestors E (a + (length c + length g)) (k # ks)"
      "\<And>j. link_from E (a + (length c + length g)) j \<Longrightarrow> a + (length c + length g) + length s + 2 \<le> j"
    and q: "quiet E a (length c + length g + length s + 2)"
    and closed: "closed_links c" "closed_links g" "closed_links s"
    and c: "sits E a (c[d := E ! (a + d)]) \<Longrightarrow> ancestors E (a + d) (k0 # k # ks) \<Longrightarrow>
      (\<And>j. link_from E (a + d) j \<Longrightarrow> a + length c \<le> j) \<Longrightarrow> quiet E a (length c) \<Longrightarrow>
      emits E a (length c) (map Open (rev (k # ks)) @ x)"
    and g: "sits E (a + length c) g \<Longrightarrow> quiet E (a + length c) (length g) \<Longrightarrow>
      emits E (a + length c) (length g) y"
    and s: "sits E (a + (length c + length g) + 1) s \<Longrightarrow>
      quiet E (a + (length c + length g) + 1) (length s) \<Longrightarrow>
      emits E (a + (length c + length g) + 1) (length s) w"
  shows "emits E a (length c + length g + length s + 2)
    (map Open (rev ks) @ Open k # x @ y @ w @ [Close])"
proof -
  let ?D = "length c + length g"
  let ?c = "c[d := Start k0 (Some (?D - d))]"
  have "sits E a (?c @ g @ E ! (a + ?D) # s @ [Finish])"
    using at_E d by (simp add: link_event_def list_update_append)
  then have at_c: "sits E a ?c" and at_g: "sits E (a + length c) g"
    and at_s: "sits E (a + ?D + 1) s" and at_f: "E ! (a + ?D + 1 + length s) = Finish"
    and len: "a + ?D < length E"
    using sits_append [of E "a + length c + length g" "[E ! (a + ?D)]"]
    by (simp_all add: sits_append sits_single add.assoc)
  have at_d: "E ! (a + d) = Start k0 (Some (?D - d))"
    using sitsD [OF at_c, of d] d by simp
  then have at_c': "sits E a (c[d := E ! (a + d)])"
    using at_c by simp
  have link_d: "link_from E (a + d) j \<longleftrightarrow> j = a + ?D" for j
    using at_d d(1) by (auto simp: link_from_def)
  have link_c: "j < a + length c \<or> j = a + ?D" if "i < length c" "link_from E (a + i) j" for i j
  proof (cases "i = d")
    case False
    have "sits (E[a + d := c ! d]) a c"
      using at_c d(1) unfolding sits_def by (auto simp: nth_list_update)
    moreover have "link_from (E[a + d := c ! d]) (a + i) j"
      using that(2) False by (simp add: link_from_def)
    ultimately show ?thesis
      using link_from_sits [OF _ closed(1) that(1)] by blast
  qed (use that link_d in simp)
  have "ancestors E (a + d) (k0 # k # ks)"
    using ancestors_step [OF at_d, of "k # ks"] up(1) d(1) by simp
  then have part1: "emits E a (length c) (map Open (rev (k # ks)) @ x)"
    using c at_c' link_d quiet_shrink [of E a "length c" "length g + length s + 2"] q
    by (simp add: add.assoc)
  have "quiet E (a + length c) (length g)"
    by (rule quiet_advance [OF quiet_shrink [of E a "length c + length g" "length s + 2"]])
      (use q link_c in \<open>fastforce simp: add.assoc\<close>)+
  then have part2: "emits E (a + length c) (length g) y"
    using g at_g by blast
  have link_D: "j \<le> a + ?D \<or> a + ?D + length s + 2 \<le> j" 
    if i: "i < Suc ?D" and l: "link_from E (a + i) j" for i j
  proof -
    consider "i < length c" | "length c \<le> i" "i < ?D" | "i = ?D"
      using i by linarith
    then show ?thesis
    proof cases
      case 2
      then have "j < a + length c + length g"
        using link_from_sits [OF at_g closed(2), of "i - length c" j] l by simp
      then show ?thesis
        by simp
    qed (use link_c [of i j] up(2) [of j] l in auto)
  qed
  have "quiet E (a + Suc ?D) (length s)"
    by (rule quiet_advance [OF quiet_shrink [of E a "Suc ?D + length s" 1]])
      (use q link_D in \<open>fastforce simp: add.assoc\<close>)+
  then have part3: "emits E (a + (?D + 1)) (length s) w"
    using s at_s by (simp add: add.assoc)
  have "linked E (a + ?D)"
    using link_d len d(1) by (auto simp: linked_def intro!: exI [of _ "a + d"])
  moreover have "is_start (E ! (a + ?D))"
    using up(1) by (auto elim: ancestors.cases)
  ultimately have mid: "emits E (a + ?D) 1 []"
    by (intro emits_one emit_passed)
  have fin: "emits E (a + (?D + 1 + length s)) 1 [Close]"
    using at_f by (intro emits_one emit_finish) (simp add: add.assoc)
  show ?thesis
    using emits_append [OF fin emits_append [OF part3 emits_append [OF mid emits_append [OF part2 part1]]]]
    by (simp add: add.assoc)
qed


lemma ops_emits_aux:
  "seg_ops s x \<Longrightarrow> closed_links E \<Longrightarrow> sits E a s \<Longrightarrow> quiet E a (length s) \<Longrightarrow> emits E a (length s) x"
  "chain_ops d c x \<Longrightarrow> closed_links E \<Longrightarrow> c ! d = Start k None \<Longrightarrow> sits E a (c[d := E ! (a + d)]) \<Longrightarrow>
    ancestors E (a + d) (k # ks) \<Longrightarrow> (\<And>j. link_from E (a + d) j \<Longrightarrow> a + length c \<le> j) \<Longrightarrow>
    quiet E a (length c) \<Longrightarrow> emits E a (length c) (map Open (rev ks) @ x)"
proof (induction arbitrary: E a and E a k ks rule: seg_ops_chain_ops.inducts)
  case (ops_append s x d c y)
  obtain k where d: "d < length c" "c ! d = Start k None"
    using ops_chain_head [OF ops_append(2)] by blast
  have at_s: "sits E a s" and at_c: "sits E (a + length s) c"
    using ops_append.prems by (simp_all add: sits_append)
  have at_d: "E ! (a + length s + d) = c ! d"
    using sitsD [OF at_c d(1)] .
  moreover have "c[d := Start k None] = c"
    using list_update_id [of c d] d(2) by simp
  ultimately have "emits E (a + length s) (length c) (map Open (rev []) @ y)"
    using d at_c ops_append.prems ops_closed_aux(1) [OF ops_append(1)] at_s
    by (intro ops_append.IH(2) [where k = k])
      (auto intro: quiet_past ancestors_last simp: link_from_def)
  moreover have "emits E a (length s) x"
    using at_s ops_append.prems by (intro ops_append.IH(1)) (auto intro: quiet_shrink)
  ultimately show ?case
    using emits_append by fastforce
next
  case (ops_node s x k0)
  then show ?case
    using emits_node [OF ops_node.prems(1), of a s k ks x] ops_closed_aux(1) [OF ops_node(1)]
      sits_append [of E a "[E ! a]"]
    by (simp add: sits_append sits_single)
next
  case (ops_up d c x g y s w k0)
  obtain k1 where d: "d < length c" "c ! d = Start k1 None"
    using ops_chain_head [OF ops_up(1)] by blast
  then have k: "k = k0"
    using ops_up.prems(2) by (simp add: nth_append)
  have "emits E a (length c + length g + length s + 2) (map Open (rev ks) @ Open k # x @ y @ w @ [Close])"
  proof (rule emits_up [OF ops_up.prems(1) d])
    show "sits E a ((c[d := link_event (length c + length g - d) (c ! d)] @ g @ Start k None # s @ [Finish])
        [length c + length g := E ! (a + (length c + length g))])"
      using ops_up.prems(3) k by simp
    show "a + (length c + length g) + length s + 2 \<le> j"
      if "link_from E (a + (length c + length g)) j" for j
      using ops_up.prems(5) [OF that] by simp
    show "quiet E a (length c + length g + length s + 2)"
      using ops_up.prems(6) by (simp add: add.assoc)
    show "emits E a (length c) (map Open (rev (k # ks)) @ x)"
      if "sits E a (c[d := E ! (a + d)])" "ancestors E (a + d) (k1 # k # ks)"
        "\<And>j. link_from E (a + d) j \<Longrightarrow> a + length c \<le> j" "quiet E a (length c)"
      using ops_up.IH(1) [OF ops_up.prems(1) d(2)] that by blast
  qed (use ops_up ops_closed_aux in \<open>auto intro: ops_up.IH\<close>)
  then show ?case
    by (simp add: k add.assoc)
qed (auto simp: sits_append sits_single intro!: emits_none emits_more [where y = "[]", simplified]
       emits_more intro: emit.intros quiet_shrink [where n = 1, simplified])


lemma stream_emits:
  assumes "seg_ops s x" and E: "E = Start k None # s @ [Finish]"
  shows "closed_links E" "emit E 0 [Open k]" "emits E 1 (length s) x"
    "emit E (1 + length s) [Close]"
proof -
  show closed: "closed_links E"
    using ops_closed_aux(2) [OF ops_node [OF assms(1), of k]] by (simp add: E)
  have quiet0: "quiet E 0 n" for n
    by (simp add: quiet_def)
  have anc: "ancestors E 0 [k]"
    by (rule ancestors_last) (simp add: E)
  show "emit E 0 [Open k]"
    using emit_start [OF _ not_linked [OF closed quiet0 [of 1]] anc] by (simp add: E)
  have at_E: "sits E 0 ([Start k None] @ s @ [Finish])"
    by (simp add: sits_def E)
  then have at_s: "sits E 1 s" and fin: "E ! (1 + length s) = Finish"
    by (simp_all only: sits_append sits_single) simp_all
  have "quiet E 1 (length s)"
    by (auto simp: quiet_def link_from_def E)
  then show "emits E 1 (length s) x"
    using ops_emits_aux(1) [OF assms(1) closed at_s] by simp
  show "emit E (1 + length s) [Close]"
    using fin by (rule emit_finish)
qed

end
