(* ===== verification/Sink_Replay.thy ===== *)
theory Sink_Replay
  imports Sink Event_Trees
begin

text \<open>
  The sink follows the links the way \<open>Event_Trees\<close> reads a stream: its first pass marks
  exactly the \<open>Start\<close> events another one names, its second pass finds the whole chain of
  every other one, and the events it replays are the operations of the stream's
  meaning, one after the other.
\<close>

section \<open>The first pass\<close>

lemma closed_linksD:
  assumes "closed_links E" "i < length E" "E ! i = Start k (Some f)"
  shows "0 < f" "i + f < length E" "\<exists>k' f'. E ! (i + f) = Start k' f'"
proof -
  have "link_from E i (i + f)"
    using assms(3) by (simp add: link_from_def)
  then have "i < i + f \<and> i + f < length E \<and> is_start (E ! (i + f))"
    using assms(1,2) unfolding closed_links_def by blast
  then show "0 < f" "i + f < length E" "\<exists>k' f'. E ! (i + f) = Start k' f'"
    by (auto simp: is_start_def split: event.splits)
qed

text \<open>What a partly filled array of marks may hold.\<close>

definition marks_sound :: "event list \<Rightarrow> bool list \<Rightarrow> bool" where
  "marks_sound E skip \<longleftrightarrow> length skip = length E \<and> (\<forall>j < length E. skip ! j \<longrightarrow> linked E j)"

definition marks_grow :: "bool list \<Rightarrow> bool list \<Rightarrow> bool" where
  "marks_grow skip skip' \<longleftrightarrow> (\<forall>j < length skip. skip ! j \<longrightarrow> skip' ! j)"

lemma nth_set_True: "j < length xs \<Longrightarrow> xs[i := True] ! j \<longleftrightarrow> i = j \<or> xs ! j"
  by (cases "i = j") auto

lemma marks_sound_set: "marks_sound E skip \<Longrightarrow> linked E i \<Longrightarrow> marks_sound E (skip[i := True])"
  by (auto simp: marks_sound_def nth_set_True)

lemma marks_grow_set: "marks_grow skip skip' \<Longrightarrow> length skip' = length skip \<Longrightarrow> marks_grow skip (skip'[i := True])"
  by (auto simp: marks_grow_def nth_set_True)

lemma mark_chain_returns:
  assumes E: "closed_links E" and i: "i < length E" and sk: "marks_sound E skip"
  shows "returns False (mark_chain E i skip) (\<lambda>skip'. marks_sound E skip' \<and> marks_grow skip skip' \<and>
    (\<forall>j. link_from E i j \<longrightarrow> skip' ! j))"
proof (cases "\<exists>k f. E ! i = Start k (Some f)")
  case True
  then obtain k f where at_i: "E ! i = Start k (Some f)"
    by blast
  let ?I = "\<lambda>(sk, idx). marks_sound E sk \<and> marks_grow skip sk \<and> linked E idx \<and> idx < length E \<and>
    (\<exists>k f. E ! idx = Start k f) \<and> (idx = i + f \<or> sk ! (i + f))"
  have lin: "linked E (i + f)"
    using i at_i by (auto simp: linked_def link_from_def)
  show ?thesis
    unfolding mark_chain_def at_i event.case option.case
  proof (rule returns_loop [where I = ?I and \<mu> = "\<lambda>(sk, idx). length E - idx"])
    show "?I (skip, i + f)"
      using lin closed_linksD [OF E i at_i] sk by (simp add: marks_grow_def)
    fix s
    assume I: "?I s"
    obtain sk idx where s: "s = (sk, idx)"
      by fastforce
    then obtain k' fp where idx: "idx < length E" "E ! idx = Start k' fp"
      using I by auto
    have set': "marks_sound E (sk[idx := True])" "marks_grow skip (sk[idx := True])"
      "sk[idx := True] ! (i + f)"
      using I s idx(1) sk closed_linksD(2) [OF E i at_i]
      by (auto intro!: marks_sound_set marks_grow_set simp: nth_set_True marks_sound_def)
    show "returns False
        (case s of (skip, idx) \<Rightarrow>
          (case get E idx of
             None \<Rightarrow> Inl Panic
           | Some (Start _ fp) \<Rightarrow>
               let skip = skip[idx := True] in
               (case fp of Some next_fwd \<Rightarrow> Inr (Inl (skip, idx + next_fwd)) | None \<Rightarrow> Inr (Inr skip))
           | Some _ \<Rightarrow> Inr (Inr skip)))
        (\<lambda>r. case r of Inl s' \<Rightarrow> ?I s' \<and> (\<lambda>(sk, idx). length E - idx) s' < (\<lambda>(sk, idx). length E - idx) s
           | Inr skip' \<Rightarrow> marks_sound E skip' \<and> marks_grow skip skip' \<and> (\<forall>j. link_from E i j \<longrightarrow> skip' ! j))"
    proof (cases fp)
      case None
      then show ?thesis
        using s idx set' at_i by (simp add: Let_def link_from_def)
    next
      case (Some g)
      then have "linked E (idx + g)"
        using idx by (auto simp: linked_def link_from_def)
      then show ?thesis
        using s idx set' Some closed_linksD [OF E idx(1), of k' g] by (auto simp: Let_def)
    qed
  qed simp
next
  case False
  then have "mark_chain E i skip = Inr skip"
    by (auto simp: mark_chain_def split: event.splits option.splits)
  then show ?thesis
    using False sk by (auto simp: marks_grow_def link_from_def)
qed

lemma mark_chains_returns:
  assumes E: "closed_links E"
  shows "marks_sound E skip \<Longrightarrow> set is \<subseteq> {..<length E} \<Longrightarrow>
    returns False (mark_chains E is skip) (\<lambda>skip'. marks_sound E skip' \<and> marks_grow skip skip' \<and>
      (\<forall>i \<in> set is. \<forall>j. link_from E i j \<longrightarrow> skip' ! j))"
proof (induction "is" arbitrary: skip)
  case Nil
  then show ?case
    by (simp add: marks_grow_def)
next
  case (Cons i "is")
  show ?case
    unfolding mark_chains.simps
  proof (rule returns_bind [OF mark_chain_returns [OF E]])
    fix sk
    assume sk: "marks_sound E sk \<and> marks_grow skip sk \<and> (\<forall>j. link_from E i j \<longrightarrow> sk ! j)"
    have inside: "j < length sk" if "link_from E i j" for j
      using E [unfolded closed_links_def, rule_format, OF _ that] Cons.prems sk
      by (simp add: marks_sound_def)
    show "returns False (mark_chains E is sk) (\<lambda>skip'. marks_sound E skip' \<and> marks_grow skip skip' \<and>
        (\<forall>i \<in> set (i # is). \<forall>j. link_from E i j \<longrightarrow> skip' ! j))"
      by (rule returns_mono [OF Cons.IH]) (use sk inside Cons.prems in \<open>auto simp: marks_grow_def marks_sound_def\<close>)
  qed (use Cons.prems in auto)
qed

lemma mark_pass_returns:
  assumes "closed_links E"
  shows "returns False (mark_chains E [0..<length E] (replicate (length E) False))
    (\<lambda>skip. \<forall>j < length E. skip ! j \<longleftrightarrow> linked E j)"
proof (rule returns_mono [OF mark_chains_returns [OF assms]])
  fix skip
  assume "marks_sound E skip \<and> marks_grow (replicate (length E) False) skip \<and>
    (\<forall>i \<in> set [0..<length E]. \<forall>j. link_from E i j \<longrightarrow> skip ! j)"
  then show "\<forall>j < length E. skip ! j \<longleftrightarrow> linked E j"
    by (auto simp: marks_sound_def linked_def)
qed (auto simp: marks_sound_def)


section \<open>The chain of a node\<close>

lemma forward_parents_loop:
  assumes "ancestors E i ks" "closed_links E" "i < length E" "E ! i = Start k fp" "length E - i < n"
  shows "loop n (\<lambda>(kinds, idx, fp).
          case fp of
            None \<Rightarrow> Inr (Inr kinds)
          | Some fwd \<Rightarrow>
              (case get E (idx + fwd) of
                 Some (Start k fp) \<Rightarrow> Inr (Inl (kinds @ [k], idx + fwd, fp))
               | _ \<Rightarrow> Inl Panic)) (kinds, i, fp) = Inr (kinds @ tl ks)"
  using assms
proof (induction arbitrary: k fp n kinds)
  case (ancestors_last i k)
  then show ?case
    by (cases n) auto
next
  case (ancestors_step i k' f ks)
  have f: "0 < f" "i + f < length E"
    using closed_linksD [OF ancestors_step.prems(1,2) ancestors_step.hyps(1)] by auto
  obtain k2 f2 where k2: "E ! (i + f) = Start k2 f2"
    using closed_linksD [OF ancestors_step.prems(1,2) ancestors_step.hyps(1)] by blast
  obtain m where m: "n = Suc m"
    using ancestors_step.prems(4) by (cases n) auto
  have "length E - (i + f) < m"
    using ancestors_step.prems(4) m f by simp
  moreover have "ks = k2 # tl ks"
    using ancestors_step.hyps(2) k2 by (auto elim: ancestors.cases)
  ultimately show ?case
    using ancestors_step.IH [OF ancestors_step.prems(1) f(2) k2, of m "kinds @ [k2]"]
      ancestors_step.prems(3) ancestors_step.hyps(1) f(2) k2 m by auto
qed

lemma forward_parents_ancestors:
  assumes "ancestors E i ks" "closed_links E" "i < length E" "E ! i = Start k fp"
  shows "forward_parents E i k fp = Inr ks"
proof -
  have "ks = k # tl ks"
    using assms(1,4) by (auto elim: ancestors.cases)
  then show ?thesis
    unfolding forward_parents_def using forward_parents_loop [OF assms, of "Suc (length E)" "[k]"] by simp
qed



section \<open>The second pass\<close>

primrec sink_op :: "op \<Rightarrow> sink \<Rightarrow> sink outcome" where
  "sink_op (Open k) s = Inr (sink_open [k] s)"
| "sink_op Close s = sink_close s"
| "sink_op (Tok k) s = sink_token k s"
| "sink_op (Err e n) s = sink_error e n s"

primrec sink_ops :: "op list \<Rightarrow> sink \<Rightarrow> sink outcome" where
  "sink_ops [] s = Inr s"
| "sink_ops (a # x) s = and_then (sink_op a s) (sink_ops x)"

lemma sink_events_append:
  "sink_events E skip (is @ js) s = and_then (sink_events E skip is s) (sink_events E skip js)"
  by (induction "is" arbitrary: s) (auto simp: and_then_def split: sum.splits)

text \<open>While a node is open, opening a chain is opening its nodes one by one.\<close>

lemma sink_open_append:
  "0 < s_open_nodes s \<Longrightarrow> sink_open (ks @ [k]) s = sink_open ks (sink_open [k] s)"
  by (simp add: sink_open_def)

lemma sink_open_Nil: "sink_open [] s = s"
  by (simp add: sink_open_def)

lemma open_nodes_sink_open: "0 < s_open_nodes s \<Longrightarrow> 0 < s_open_nodes (sink_open [k] s)"
  by (simp add: sink_open_def)

lemma sink_ops_opens: "0 < s_open_nodes s \<Longrightarrow> sink_ops (map Open (rev ks)) s = Inr (sink_open ks s)"
  by (induction ks arbitrary: s rule: rev_induct)
    (simp_all add: sink_open_Nil sink_open_append open_nodes_sink_open)

lemma sink_event_emit:
  assumes "emit E i x" "closed_links E" "i < length E" "skip ! i \<longleftrightarrow> linked E i"
    and "is_start (E ! i) \<Longrightarrow> \<not> linked E i \<Longrightarrow> 0 < s_open_nodes s"
  shows "sink_event E skip i s = sink_ops x s"
  using assms(1)
proof cases
  case (emit_start ks)
  obtain k fp where k: "E ! i = Start k fp"
    using emit_start(2) by (auto simp: is_start_def split: event.splits)
  then have "sink_event E skip i s = Inr (sink_open ks s)"
    using forward_parents_ancestors [OF emit_start(4) assms(2,3) k] emit_start(3) assms(4)
    by (simp add: sink_event_def)
  then show ?thesis
    using sink_ops_opens [of s ks] emit_start assms(5) by simp
next
  case emit_passed
  then show ?thesis
    using assms(4) by (simp add: sink_event_def is_start_def split: event.splits)
qed (simp_all add: sink_event_def and_then_def split: sum.splits)

text \<open>
  A property of states that every operation of the meaning carries on holds after the
  events that mean it.
\<close>

lemma sink_ops_carry:
  assumes step: "\<And>pre a post s. x = pre @ a # post \<Longrightarrow> J pre s \<Longrightarrow> returns False (sink_op a s) (J (pre @ [a]))"
  shows "x = pre @ y @ post \<Longrightarrow> J pre s \<Longrightarrow> returns False (sink_ops y s) (J (pre @ y))"
proof (induction y arbitrary: pre s)
  case (Cons a y)
  have "returns False (sink_op a s) (J (pre @ [a]))"
    using Cons.prems by (intro step [where post = "y @ post"]) auto
  then show ?case
    unfolding sink_ops.simps by (rule returns_bind) (use Cons in force)
qed simp

lemma emits_carry:
  assumes "emits E a n y" and "closed_links E" "a + n \<le> length E"
    and skip: "\<forall>j < length E. skip ! j \<longleftrightarrow> linked E j"
    and step: "\<And>pre a post s. x = pre @ a # post \<Longrightarrow> J pre s \<Longrightarrow> returns False (sink_op a s) (J (pre @ [a]))"
    and "open": "\<And>pre s. J pre s \<Longrightarrow> 0 < s_open_nodes s"
    and "J [] s"
  shows "x = y @ post \<Longrightarrow> returns False (sink_events E skip [a..<a + n] s) (J y)"
  using assms(1,3)
proof (induction arbitrary: post)
  case emits_none
  then show ?case
    using \<open>J [] s\<close> by simp
next
  case (emits_more n y z)
  have before: "returns False (sink_events E skip [a..<a + n] s) (J y)"
    using emits_more by simp
  have this_event: "returns False (sink_event E skip (a + n) s') (J (y @ z))" if "J y s'" for s'
    using sink_event_emit [OF emits_more(2) assms(2), of skip s'] emits_more(4,5) skip "open" [OF that]
      sink_ops_carry [where x = x and J = J, OF step emits_more(4) [unfolded append_assoc] that] by simp
  have "returns False (sink_events E skip ([a..<a + n] @ [a + n]) s) (J (y @ z))"
    unfolding sink_events_append
    by (rule returns_bind [OF before]) (simp add: returns_and_then this_event)
  then show ?case
    by simp
qed

end
