(* ===== verification/Lexer.thy ===== *)
theory Lexer
  imports Tokens
begin

text \<open>
  The lexer (\<open>lexer/src/lib.rs\<close>). The automaton that finds the longest pattern at the
  front of a text is generated by the \<open>logos\<close> macro and is a parameter here: for a text
  that is not empty it yields the kind whose pattern won, or none, and how many
  characters it covers. The callbacks that finish an identifier and a comment, and the
  loop of \<open>tokenize\<close>, are the program's own.
\<close>

type_synonym automaton = "ustring \<Rightarrow> token_kind option \<times> nat"

section \<open>Callbacks\<close>

text \<open>The kinds whose pattern names \<open>finish_identifier\<close>.\<close>

definition identifier_kinds :: "token_kind list" where
  "identifier_kinds =
    [T_KwProcedure, T_KwEndProcedure, T_KwFunction, T_KwEndFunction, T_KwExport,
     T_KwVal, T_KwIf, T_KwThen, T_KwElsIf, T_KwElse,
     T_KwEndIf, T_KwFor, T_KwEach, T_KwIn, T_KwTo,
     T_KwWhile, T_KwDo, T_KwEndDo, T_KwReturn, T_KwContinue,
     T_KwBreak, T_KwGoto, T_KwTry, T_KwExcept, T_KwEndTry,
     T_KwRaise, T_KwVar, T_KwNew, T_KwExecute, T_KwAddHandler,
     T_KwRemoveHandler, T_KwAsync, T_KwAwait, T_KwAnd, T_KwOr,
     T_KwNot, T_KwTrue, T_KwFalse, T_KwUndefined, T_KwNull,
     T_AnnAtClient, T_AnnAtServer, T_AnnAtServerNoContext, T_AnnAtClientAtServerNoContext, T_AnnAtClientAtServer,
     T_AnnBefore, T_AnnAfter, T_AnnAround, T_AnnChangeAndValidate, T_AnnCustom,
     T_Ident]"

definition is_ascii_alphabetic :: "uchar \<Rightarrow> bool" where
  "is_ascii_alphabetic c \<longleftrightarrow> (65 \<le> c \<and> c \<le> 90) \<or> (97 \<le> c \<and> c \<le> 122)"

text \<open>
  A letter is asked of the automaton itself, on the text of that one character; the
  callback then sees an empty remainder and leaves the kind as it is.
\<close>

definition is_identifier_letter :: "automaton \<Rightarrow> uchar \<Rightarrow> bool" where
  "is_identifier_letter rules c \<longleftrightarrow>
     is_ascii_alphabetic c \<or> fst (rules [c]) = Some T_Ident \<or> fst (rules [c]) = Some T_KwAnd"

definition identifier_char :: "automaton \<Rightarrow> uchar \<Rightarrow> bool" where
  "identifier_char rules c \<longleftrightarrow> c = 95 \<or> (48 \<le> c \<and> c \<le> 57) \<or> is_identifier_letter rules c"

text \<open>Both callbacks get the matched text and the remainder; they yield the kind and how far to bump.\<close>

definition finish_identifier :: "automaton \<Rightarrow> ustring \<Rightarrow> ustring \<Rightarrow> token_kind \<Rightarrow> token_kind \<times> nat" where
  "finish_identifier rules text remainder original_kind =
     (let consumed = length (takeWhile (identifier_char rules) remainder) in
      if consumed = 0 then (original_kind, 0)
      else if take 1 (text @ take consumed remainder) = [38] then (T_AnnCustom, consumed)
      else (T_Ident, consumed))"

definition finish_comment :: "ustring \<Rightarrow> nat" where
  "finish_comment remainder =
     (let carriage_returns = length (takeWhile (\<lambda>c. c = 13) remainder) in
      if 0 < carriage_returns \<and>
         (case get remainder carriage_returns of None \<Rightarrow> True | Some c \<Rightarrow> c = 10)
      then carriage_returns else 0)"


section \<open>Tokens\<close>

definition next_lexeme :: "automaton \<Rightarrow> ustring \<Rightarrow> token_kind \<times> nat" where
  "next_lexeme rules rest =
     (case rules rest of
        (None, n) \<Rightarrow> (T_Error, n)
      | (Some kind, n) \<Rightarrow>
          if kind = T_Comment then (kind, n + finish_comment (drop n rest))
          else if kind \<in> set identifier_kinds then
            (case finish_identifier rules (take n rest) (drop n rest) kind of (kind, m) \<Rightarrow> (kind, n + m))
          else (kind, n))"

definition tokenize :: "automaton \<Rightarrow> ustring \<Rightarrow> token list outcome" where
  "tokenize rules input =
     loop (Suc (length input))
       (\<lambda>(rest, offset, tokens).
          if rest = [] then Inr (Inr tokens)
          else
            let (kind, n) = next_lexeme rules rest;
                text = take n rest
            in Inr (Inl (drop n rest, offset + str_len text,
                         tokens @ [\<lparr>tk_kind = kind, tk_text = text, tk_offset = offset\<rparr>])))
       (input, 0, [])"

text \<open>
  What the generated automaton promises: it covers at least one character of a text that
  has any, and none beyond its end.
\<close>

definition covers_some :: "automaton \<Rightarrow> bool" where
  "covers_some rules \<longleftrightarrow> (\<forall>s. s \<noteq> [] \<longrightarrow> 0 < snd (rules s) \<and> snd (rules s) \<le> length s)"


section \<open>Properties\<close>

lemma finish_comment_le: "finish_comment r \<le> length r"
  by (simp add: finish_comment_def Let_def length_takeWhile_le)

lemma finish_identifier_le: "snd (finish_identifier rules w r k) \<le> length r"
  by (simp add: finish_identifier_def Let_def length_takeWhile_le)

lemma next_lexeme_covers:
  assumes "covers_some rules" "s \<noteq> []"
  shows "0 < snd (next_lexeme rules s)" "snd (next_lexeme rules s) \<le> length s"
proof -
  obtain r n where r: "rules s = (r, n)"
    by fastforce
  then have n: "0 < n" "n \<le> length s"
    using assms by (metis covers_some_def snd_conv)+
  then show "0 < snd (next_lexeme rules s)"
    by (auto simp: next_lexeme_def r split: option.splits prod.splits)
  show "snd (next_lexeme rules s) \<le> length s"
    using n finish_comment_le [of "drop n s"] finish_identifier_le [of rules "take n s" "drop n s"]
    by (auto simp: next_lexeme_def r split: option.splits prod.splits) (metis snd_conv add_le_imp_le_diff le_diff_conv2 add.commute)
qed

text \<open>Tokens that lie one after the other from an offset on.\<close>

fun contiguous :: "nat \<Rightarrow> token list \<Rightarrow> bool" where
  "contiguous pos [] = True"
| "contiguous pos (t # ts) \<longleftrightarrow> tk_offset t = pos \<and> tk_text t \<noteq> [] \<and> contiguous (pos + str_len (tk_text t)) ts"

definition source_text :: "token list \<Rightarrow> ustring" where
  "source_text ts = concat (map tk_text ts)"

lemma source_text_append [simp]: "source_text (xs @ ys) = source_text xs @ source_text ys"
  by (simp add: source_text_def)

lemma source_text_single [simp]: "source_text [t] = tk_text t"
  by (simp add: source_text_def)

lemma contiguous_snoc:
  "contiguous pos ts \<Longrightarrow> tk_offset t = pos + str_len (source_text ts) \<Longrightarrow> tk_text t \<noteq> [] \<Longrightarrow>
   contiguous pos (ts @ [t])"
  by (induction pos ts rule: contiguous.induct) (simp_all add: source_text_def add.assoc)

lemma tokenize_returns:
  assumes "covers_some rules"
  shows "returns False (tokenize rules input) (\<lambda>ts. source_text ts = input \<and> contiguous 0 ts)"
  unfolding tokenize_def
proof (rule returns_loop [where I = "\<lambda>(rest, offset, ts). source_text ts @ rest = input \<and>
      offset = str_len (source_text ts) \<and> contiguous 0 ts" and \<mu> = "\<lambda>(rest, _). length rest"])
  fix s :: "ustring \<times> nat \<times> token list"
  assume I: "case s of (rest, offset, ts) \<Rightarrow> source_text ts @ rest = input \<and>
      offset = str_len (source_text ts) \<and> contiguous 0 ts"
  obtain rest offset ts where s: "s = (rest, offset, ts)"
    by (metis prod.exhaust)
  obtain k n where kn: "next_lexeme rules rest = (k, n)"
    by fastforce
  show "returns False
     (case s of (rest, offset, tokens) \<Rightarrow>
        if rest = [] then Inr (Inr tokens)
        else
          let (kind, n) = next_lexeme rules rest;
              text = take n rest
          in Inr (Inl (drop n rest, offset + str_len text,
                       tokens @ [\<lparr>tk_kind = kind, tk_text = text, tk_offset = offset\<rparr>])))
     (\<lambda>r. case r of
        Inl s' \<Rightarrow> (case s' of (rest, offset, ts) \<Rightarrow> source_text ts @ rest = input \<and>
            offset = str_len (source_text ts) \<and> contiguous 0 ts) \<and>
          (case s' of (rest, _) \<Rightarrow> length rest) < (case s of (rest, _) \<Rightarrow> length rest)
      | Inr ts \<Rightarrow> source_text ts = input \<and> contiguous 0 ts)"
  proof (cases "rest = []")
    case False
    then have "0 < n" "n \<le> length rest"
      using next_lexeme_covers [OF assms False] kn by simp_all
    then show ?thesis
      using I False by (auto simp: s kn Let_def intro: contiguous_snoc)
  qed (use I s in auto)
qed (simp_all add: source_text_def)

end
