(* ===== verification/Sink_Tree.thy ===== *)
theory Sink_Tree
  imports Sink_Replay Lexer
begin

text \<open>
  What the sink gives to the builder. The commands are the nodes and tokens of the
  stream's meaning, in order, with the trivia of the source put back so that no token
  is lost; and the trivia of a gap lies at the lowest depth between the two significant
  tokens around it, that is, in their closest common ancestor.
\<close>

section \<open>Command sequences\<close>

primrec cmd_depth :: "command \<Rightarrow> int" where
  "cmd_depth (StartNode _) = 1"
| "cmd_depth FinishNode = -1"
| "cmd_depth (PutToken _ _) = 0"

definition cdepth :: "command list \<Rightarrow> int" where
  "cdepth l = sum_list (map cmd_depth l)"

definition trivia_cmd :: "command \<Rightarrow> bool" where
  "trivia_cmd c = (case c of PutToken k _ \<Rightarrow> sk_is_trivia k | _ \<Rightarrow> False)"

definition word_cmd :: "command \<Rightarrow> bool" where
  "word_cmd c = (case c of PutToken k _ \<Rightarrow> \<not> sk_is_trivia k | _ \<Rightarrow> False)"

definition node_cmd :: "command \<Rightarrow> bool" where
  "node_cmd c = (case c of PutToken _ _ \<Rightarrow> False | _ \<Rightarrow> True)"

definition token_cmd :: "token \<Rightarrow> command" where
  "token_cmd t = PutToken (token_kind_to_syntax (tk_kind t)) (tk_text t)"

lemma cmd_simps [simp]:
  "\<not> trivia_cmd (StartNode k)" "\<not> trivia_cmd FinishNode" "trivia_cmd (PutToken k w) = sk_is_trivia k"
  "\<not> word_cmd (StartNode k)" "\<not> word_cmd FinishNode" "word_cmd (PutToken k w) = (\<not> sk_is_trivia k)"
  "node_cmd (StartNode k)" "node_cmd FinishNode" "\<not> node_cmd (PutToken k w)"
  by (simp_all add: trivia_cmd_def word_cmd_def node_cmd_def)

lemma cdepth_simps [simp]:
  "cdepth [] = 0" "cdepth (c # l) = cmd_depth c + cdepth l" "cdepth (l @ m) = cdepth l + cdepth m"
  by (simp_all add: cdepth_def)

lemma cdepth_flat: "\<forall>c \<in> set l. \<not> node_cmd c \<Longrightarrow> cdepth l = 0"
proof (induction l)
  case (Cons c l)
  then show ?case
    by (cases c) auto
qed simp

text \<open>
  A sequence rises if it never closes a node it did not open, and sinks if it leaves
  none of the nodes open that it opened.
\<close>

definition rising_log :: "command list \<Rightarrow> bool" where
  "rising_log l \<longleftrightarrow> (\<forall>n. 0 \<le> cdepth (take n l))"

definition sinking :: "command list \<Rightarrow> bool" where
  "sinking l \<longleftrightarrow> (\<forall>n. cdepth (drop n l) \<le> 0)"

lemma rising_Nil [simp]: "rising_log []"
  by (simp add: rising_log_def)

lemma sinking_Nil [simp]: "sinking []"
  by (simp add: sinking_def)

lemma rising_append: "rising_log l \<Longrightarrow> (\<And>n. 0 \<le> cdepth l + cdepth (take n m)) \<Longrightarrow> rising_log (l @ m)"
  unfolding rising_log_def by simp (metis diff_is_0_eq linorder_linear take_all take_eq_Nil cdepth_simps(1) add.right_neutral)

lemma rising_snoc: "rising_log l \<Longrightarrow> 0 \<le> cdepth l + cmd_depth c \<Longrightarrow> rising_log (l @ [c])"
proof (rule rising_append)
  fix n
  assume "rising_log l" "0 \<le> cdepth l + cmd_depth c"
  then show "0 \<le> cdepth l + cdepth (take n [c])"
    unfolding rising_log_def by (cases n) (auto dest: spec [of _ "length l"])
qed

lemma sinking_append: "sinking l \<Longrightarrow> sinking m \<Longrightarrow> sinking (l @ m)"
  unfolding sinking_def by (metis cdepth_simps(3) add_nonpos_nonpos drop_append)

lemma sinking_balanced: "rising_log l \<Longrightarrow> cdepth l = 0 \<Longrightarrow> sinking l"
  unfolding rising_log_def sinking_def
  by (metis append_take_drop_id cdepth_simps(3) add_nonneg_eq_0_iff linorder_linear add_le_same_cancel2 order.trans)

lemma sinking_finish: "sinking [FinishNode]"
  unfolding sinking_def by (simp add: drop_Cons')

text \<open>
  Trivia at position \<open>i\<close> is at the lowest depth of its gap: from there one reaches any
  position \<open>j\<close> without crossing a significant token only upwards in depth.
\<close>

definition lowest :: "command list \<Rightarrow> bool" where
  "lowest l \<longleftrightarrow> (\<forall>i j. i < length l \<longrightarrow> j \<le> length l \<longrightarrow> trivia_cmd (l ! i) \<longrightarrow>
     (\<forall>m. min i j \<le> m \<and> m < max i j \<longrightarrow> \<not> word_cmd (l ! m)) \<longrightarrow>
     cdepth (take i l) \<le> cdepth (take j l))"


lemma lowestD:
  assumes "lowest l" "i < length l" "j \<le> length l" "trivia_cmd (l ! i)"
    "\<And>m. min i j \<le> m \<Longrightarrow> m < max i j \<Longrightarrow> \<not> word_cmd (l ! m)"
  shows "cdepth (take i l) \<le> cdepth (take j l)"
  using assms unfolding lowest_def by blast

lemma lowest_Nil [simp]: "lowest []"
  by (simp add: lowest_def)

lemma word_not_trivia: "word_cmd c \<Longrightarrow> \<not> trivia_cmd c"
  by (cases c) auto

lemma lowest_word:
  assumes l: "lowest l" and c: "word_cmd c"
  shows "lowest (l @ [c])"
  unfolding lowest_def
proof (intro allI impI)
  fix i j
  assume i: "i < length (l @ [c])" and j: "j \<le> length (l @ [c])" and t: "trivia_cmd ((l @ [c]) ! i)"
    and free: "\<forall>m. min i j \<le> m \<and> m < max i j \<longrightarrow> \<not> word_cmd ((l @ [c]) ! m)"
  have i': "i < length l"
    using i t word_not_trivia [OF c] by (auto simp: nth_append less_Suc_eq)
  have j': "j \<le> length l"
    using free [rule_format, of "length l"] c i' by (cases "j \<le> length l") simp_all
  have "\<not> word_cmd (l ! m)" if "min i j \<le> m" "m < max i j" for m
    using free [rule_format, of m] that i' j' by (auto simp: nth_append max_def split: if_splits)
  then show "cdepth (take i (l @ [c])) \<le> cdepth (take j (l @ [c]))"
    using lowestD [OF l i' j'] t i' j' by (simp add: nth_append)
qed

lemma lowest_gap:
  assumes A: "lowest A" "A \<noteq> [] \<Longrightarrow> word_cmd (last A)"
    and R: "\<forall>c \<in> set R. node_cmd c" "sinking R"
    and T: "\<forall>c \<in> set T. trivia_cmd c"
    and D: "\<forall>c \<in> set D. node_cmd c" "rising_log D"
  shows "lowest (A @ R @ T @ D)"
  unfolding lowest_def
proof (intro allI impI)
  let ?l = "A @ R @ T @ D"
  fix i j
  assume i: "i < length ?l" and j: "j \<le> length ?l" and t: "trivia_cmd (?l ! i)"
    and free: "\<forall>m. min i j \<le> m \<and> m < max i j \<longrightarrow> \<not> word_cmd (?l ! m)"
  have edge: "word_cmd (?l ! (length A - 1))" if "A \<noteq> []"
    using A(2) that by (simp add: nth_append last_conv_nth)
  have node_trivia: "\<not> trivia_cmd c" if "node_cmd c" for c
    using that by (cases c) auto
  have flat: "cdepth (take n T) = 0" for n
    using T node_trivia by (intro cdepth_flat) (blast dest: in_set_takeD)
  have in_R: "\<not> (length A \<le> i \<and> i < length A + length R)"
  proof
    assume "length A \<le> i \<and> i < length A + length R"
    then have "?l ! i \<in> set R"
      by (auto simp: nth_append)
    then show False
      using t R(1) node_trivia by blast
  qed
  have in_D: "\<not> length A + length R + length T \<le> i"
  proof
    assume "length A + length R + length T \<le> i"
    then have "?l ! i \<in> set D"
      using i by (auto simp: nth_append)
    then show False
      using t D(1) node_trivia by blast
  qed
  consider (old) "i < length A" | (new) "length A + length R \<le> i" "i \<le> length A + length R + length T"
    using in_R in_D i by fastforce
  then show "cdepth (take i ?l) \<le> cdepth (take j ?l)"
  proof cases
    case old
    then have edge': "word_cmd (?l ! (length A - 1))"
      by (intro edge) auto
    then have "i \<noteq> length A - 1"
      using t word_not_trivia by blast
    then have j': "j \<le> length A"
      using free [rule_format, of "length A - 1"] edge' old by (cases "j \<le> length A") (simp_all, linarith)
    have "\<not> word_cmd (A ! m)" if "min i j \<le> m" "m < max i j" for m
      using free [rule_format, of m] that old j' by (auto simp: nth_append max_def split: if_splits)
    then show ?thesis
      using lowestD [OF A(1) old j'] t old j' by (simp add: nth_append)
  next
    case new
    have "length A \<le> j"
      using free [rule_format, of "length A - 1"] edge new(1)
      by (cases A; cases "length A \<le> j") simp_all
    have "cdepth (take i ?l) = cdepth A + cdepth R"
      using new flat by simp
    moreover have "cdepth R \<le> cdepth (take (j - length A) R)"
      using R(2) append_take_drop_id [of "j - length A" R] unfolding sinking_def
      by (metis cdepth_simps(3) add_le_same_cancel1)
    moreover have "0 \<le> cdepth (take n D)" for n
      using D(2) by (simp add: rising_log_def)
    ultimately show ?thesis
      using \<open>length A \<le> j\<close> flat by (simp add: add_increasing2)
  qed
qed



section \<open>Operations\<close>

text \<open>Where the trivia that is not handed over yet begins.\<close>

definition gap_start :: "sink \<Rightarrow> nat" where
  "gap_start s = (case s_pending_trivia s of None \<Rightarrow> s_token_pos s | Some i \<Rightarrow> i)"

definition gap :: "sink \<Rightarrow> token list" where
  "gap s = take (s_token_pos s - gap_start s) (drop (gap_start s) (s_tokens s))"

lemma gap_updates [simp]:
  "gap_start (s\<lparr>s_log := v0\<rparr>) = gap_start s" "gap_start (s\<lparr>s_deferred := v1\<rparr>) = gap_start s"
  "gap_start (s\<lparr>s_deferred_depth := v2\<rparr>) = gap_start s" "gap_start (s\<lparr>s_open_nodes := v3\<rparr>) = gap_start s"
  "gap_start (s\<lparr>s_errors := v4\<rparr>) = gap_start s" "gap_start (s\<lparr>s_last_significant := v5\<rparr>) = gap_start s"
  "gap (s\<lparr>s_log := v0\<rparr>) = gap s" "gap (s\<lparr>s_deferred := v1\<rparr>) = gap s"
  "gap (s\<lparr>s_deferred_depth := v2\<rparr>) = gap s" "gap (s\<lparr>s_open_nodes := v3\<rparr>) = gap s"
  "gap (s\<lparr>s_errors := v4\<rparr>) = gap s" "gap (s\<lparr>s_last_significant := v5\<rparr>) = gap s"
  by (simp_all add: gap_start_def gap_def cong: option.case_cong)

primrec deferred_cmd :: "deferred \<Rightarrow> command" where
  "deferred_cmd (DeferredStart k) = StartNode k"
| "deferred_cmd DeferredFinish = FinishNode"

text \<open>\<open>moves s s'\<close>: the cursor moved forward over tokens that joined the gap.\<close>

definition moves :: "sink \<Rightarrow> sink \<Rightarrow> bool" where
  "moves s s' \<longleftrightarrow> s' = s\<lparr>s_pending_trivia := s_pending_trivia s', s_token_pos := s_token_pos s'\<rparr> \<and>
     s_token_pos s \<le> s_token_pos s' \<and> gap_start s' = gap_start s"

lemma moves_refl [simp]: "moves s s"
  by (simp add: moves_def)

lemma moves_step:
  assumes "moves (s\<lparr>s_pending_trivia := get_or_insert (s_pending_trivia s) (s_token_pos s),
    s_token_pos := s_token_pos s + 1\<rparr>) s'"
  shows "moves s s'"
  using assms unfolding moves_def
  by (auto simp: gap_start_def get_or_insert_def split: option.splits)

lemma movesD:
  assumes "moves s s'"
  shows "s_tokens s' = s_tokens s" "s_log s' = s_log s" "s_deferred s' = s_deferred s"
     "s_deferred_depth s' = s_deferred_depth s" "s_open_nodes s' = s_open_nodes s" "s_errors s' = s_errors s"
     "s_last_significant s' = s_last_significant s"
    "gap_start s' = gap_start s" "s_token_pos s \<le> s_token_pos s'"
proof -
  have e: "s' = s\<lparr>s_pending_trivia := s_pending_trivia s', s_token_pos := s_token_pos s'\<rparr>"
    using assms by (simp only: moves_def)
  show "s_tokens s' = s_tokens s" "s_log s' = s_log s" "s_deferred s' = s_deferred s"
     "s_deferred_depth s' = s_deferred_depth s" "s_open_nodes s' = s_open_nodes s" "s_errors s' = s_errors s"
     "s_last_significant s' = s_last_significant s"
    by (subst e, simp)+
qed (use assms in \<open>simp_all add: moves_def\<close>)

lemma skip_trivia_moves:
  "moves s (skip_trivia s) \<and>
   (\<forall>i. s_token_pos s \<le> i \<longrightarrow> i < s_token_pos (skip_trivia s) \<longrightarrow>
      i < length (s_tokens s) \<and> is_trivia (tk_kind (s_tokens s ! i))) \<and>
   (s_token_pos (skip_trivia s) < length (s_tokens s) \<longrightarrow>
      \<not> is_trivia (tk_kind (s_tokens s ! s_token_pos (skip_trivia s))))"
proof (induction s rule: skip_trivia.induct)
  case (1 s)
  show ?case
  proof (cases "s_token_pos s < length (s_tokens s) \<and> is_trivia (tk_kind (s_tokens s ! s_token_pos s))")
    case True
    let ?s = "s\<lparr>s_pending_trivia := get_or_insert (s_pending_trivia s) (s_token_pos s),
      s_token_pos := s_token_pos s + 1\<rparr>"
    have eq: "skip_trivia s = skip_trivia ?s"
      using True by (subst skip_trivia.simps) simp
    have IH: "moves ?s (skip_trivia ?s)"
      "\<forall>i. Suc (s_token_pos s) \<le> i \<longrightarrow> i < s_token_pos (skip_trivia ?s) \<longrightarrow>
        i < length (s_tokens s) \<and> is_trivia (tk_kind (s_tokens s ! i))"
      "s_token_pos (skip_trivia ?s) < length (s_tokens s) \<longrightarrow>
      \<not> is_trivia (tk_kind (s_tokens s ! s_token_pos (skip_trivia ?s)))"
      using 1 True by auto
    then show ?thesis
      unfolding eq using True moves_step by (auto simp: le_eq_less_or_eq [of "s_token_pos s"] Suc_le_eq)
  next
    case False
    then have "skip_trivia s = s"
      by (subst skip_trivia.simps) (auto split: option.splits simp: get_eq_Some)
    then show ?thesis
      using False by auto
  qed
qed

lemma take_the_tail_moves:
  "s_token_pos s \<le> length (s_tokens s) \<Longrightarrow>
   moves s (take_the_tail s) \<and> s_token_pos (take_the_tail s) = length (s_tokens s)"
proof (induction s rule: take_the_tail.induct)
  case (1 s)
  then show ?case
    by (subst (1 2) take_the_tail.simps) (auto intro: moves_step)
qed

lemma fold_put_token:
  "fold (\<lambda>t. put_token (tk_kind t) (tk_text t)) ts s = s\<lparr>s_log := s_log s @ map token_cmd ts\<rparr>"
  by (induction ts arbitrary: s) (simp_all add: put_token_def token_cmd_def)

lemma flush_trivia_gap:
  assumes "gap_start s \<le> s_token_pos s" "s_token_pos s \<le> length (s_tokens s)"
  shows "flush_trivia s = Inr (s\<lparr>s_pending_trivia := None, s_log := s_log s @ map token_cmd (gap s)\<rparr>)"
  using assms by (auto simp: flush_trivia_def gap_def gap_start_def fold_put_token split: option.splits)

lemma perform_nodes_log:
  "(\<And>n. 0 \<le> int (s_open_nodes s) + cdepth (take n (map deferred_cmd ds))) \<Longrightarrow>
   perform_nodes ds s = Inr (s\<lparr>s_log := s_log s @ map deferred_cmd ds,
     s_open_nodes := nat (int (s_open_nodes s) + cdepth (map deferred_cmd ds))\<rparr>)"
proof (induction ds arbitrary: s)
  case (Cons d ds)
  have later: "0 \<le> int (s_open_nodes s) + cmd_depth (deferred_cmd d) + cdepth (take n (map deferred_cmd ds))" for n
    using Cons.prems [of "Suc n"] by simp
  show ?case
  proof (cases d)
    case (DeferredStart k)
    then have "perform_nodes ds (start_node k s) = Inr ((start_node k s)\<lparr>
      s_log := s_log (start_node k s) @ map deferred_cmd ds,
      s_open_nodes := nat (int (s_open_nodes (start_node k s)) + cdepth (map deferred_cmd ds))\<rparr>)"
      using later by (intro Cons.IH) (simp add: start_node_def add.commute)
    then show ?thesis
      using DeferredStart by (simp add: start_node_def add.assoc add.commute)
  next
    case DeferredFinish
    then have pos: "0 < s_open_nodes s"
      using later [of 0] by simp
    let ?s = "s\<lparr>s_log := s_log s @ [FinishNode], s_open_nodes := s_open_nodes s - 1\<rparr>"
    have "perform_nodes ds ?s = Inr (?s\<lparr>s_log := s_log ?s @ map deferred_cmd ds,
      s_open_nodes := nat (int (s_open_nodes ?s) + cdepth (map deferred_cmd ds))\<rparr>)"
      using later DeferredFinish pos by (intro Cons.IH) (simp add: of_nat_diff)
    then show ?thesis
      using DeferredFinish pos by (simp add: finish_node_def of_nat_diff algebra_simps)
  qed
qed simp


lemma perform_deferred_log:
  assumes "rising_log (map deferred_cmd (s_deferred s))"
  shows "perform_deferred_nodes s = Inr (s\<lparr>s_log := s_log s @ map deferred_cmd (s_deferred s),
     s_open_nodes := nat (int (s_open_nodes s) + cdepth (map deferred_cmd (s_deferred s))),
     s_deferred := [], s_deferred_depth := 0\<rparr>)"
proof -
  have "0 \<le> int (s_open_nodes s) + cdepth (take n (map deferred_cmd (s_deferred s)))" for n
    using assms unfolding rising_log_def by (simp add: add_nonneg_nonneg)
  then show ?thesis
    using perform_nodes_log [of "s\<lparr>s_deferred_depth := 0, s_deferred := []\<rparr>" "s_deferred s"]
    by (simp add: perform_deferred_nodes_def)
qed


section \<open>Diagnostics\<close>

text \<open>
  A range lies in the source, does not end before it starts, and, where the tokens cover
  a source whose length fits in 32 bits, begins and ends between two tokens.
\<close>

definition token_edge :: "token list \<Rightarrow> nat \<Rightarrow> bool" where
  "token_edge ts n \<longleftrightarrow> (\<exists>i \<le> length ts. n = str_len (source_text (take i ts)))"

definition measured :: "token list \<Rightarrow> bool" where
  "measured ts \<longleftrightarrow> contiguous 0 ts \<and> str_len (source_text ts) \<le> 4294967295"

definition offset_ok :: "token list \<Rightarrow> nat \<Rightarrow> bool" where
  "offset_ok ts n \<longleftrightarrow> n \<le> source_len (sink_new ts) \<and> (measured ts \<longrightarrow> token_edge ts n)"

definition range_ok :: "token list \<Rightarrow> text_range \<Rightarrow> bool" where
  "range_ok ts r \<longleftrightarrow> fst r \<le> snd r \<and> offset_ok ts (fst r) \<and> offset_ok ts (snd r)"

lemma source_len_tokens: "source_len s = source_len (sink_new (s_tokens s))"
  by (simp add: source_len_def sink_new_def)

lemma contiguous_offset:
  "contiguous pos ts \<Longrightarrow> i < length ts \<Longrightarrow> tk_offset (ts ! i) = pos + str_len (source_text (take i ts))"
proof (induction pos ts arbitrary: i rule: contiguous.induct)
  case (2 pos t ts)
  then show ?case
    by (cases i) (simp_all add: source_text_def add.assoc)
qed simp

lemma token_span_end:
  "contiguous 0 ts \<Longrightarrow> i < length ts \<Longrightarrow>
   tk_offset (ts ! i) + str_len (tk_text (ts ! i)) = str_len (source_text (take (Suc i) ts))"
  by (simp add: contiguous_offset take_Suc_conv_app_nth)

lemma str_len_take_le: "str_len (source_text (take i ts)) \<le> str_len (source_text ts)"
  by (metis append_take_drop_id le_add1 source_text_append str_len_append)

lemma source_len_measured:
  assumes "measured ts"
  shows "source_len (sink_new ts) = str_len (source_text ts)"
proof (cases "ts = []")
  case True
  then show ?thesis
    by (simp add: source_len_def sink_new_def last_opt_def source_text_def)
next
  case False
  then have "tk_offset (last ts) + str_len (tk_text (last ts)) = str_len (source_text ts)"
    using token_span_end [of ts "length ts - 1"] assms by (simp add: measured_def last_conv_nth)
  then show ?thesis
    using assms False
    by (simp add: source_len_def sink_new_def last_opt_def to_u32_def sat_add_def measured_def)
qed

lemma offset_ok_zero: "offset_ok ts 0"
  unfolding offset_ok_def token_edge_def by (auto simp: source_text_def intro!: exI [of _ 0])

lemma offset_ok_len: "offset_ok ts (source_len (sink_new ts))"
  by (auto simp: offset_ok_def token_edge_def source_len_measured intro: exI [of _ "length ts"])

lemma clamp_offset_ok:
  assumes "measured (s_tokens s) \<Longrightarrow> token_edge (s_tokens s) n"
  shows "offset_ok (s_tokens s) (clamp_offset s n)"
proof -
  have "clamp_offset s n = n" if m: "measured (s_tokens s)"
  proof -
    have "n \<le> str_len (source_text (s_tokens s))"
      using assms [OF m] str_len_take_le by (auto simp: token_edge_def)
    then show ?thesis
      using m source_len_measured [OF m] source_len_tokens [of s]
      by (simp add: clamp_offset_def to_u32_def measured_def)
  qed
  then show ?thesis
    using assms by (auto simp: offset_ok_def clamp_offset_def source_len_tokens [of s])
qed

lemma token_edge_offset: "measured ts \<Longrightarrow> i < length ts \<Longrightarrow> token_edge ts (tk_offset (ts ! i))"
  unfolding token_edge_def measured_def using contiguous_offset [of 0 ts i] by (intro exI [of _ i]) simp

lemma token_edge_end:
  assumes "measured ts" "i < length ts"
  shows "token_edge ts (sat_add (tk_offset (ts ! i)) (str_len (tk_text (ts ! i))))"
proof -
  have "tk_offset (ts ! i) + str_len (tk_text (ts ! i)) = str_len (source_text (take (Suc i) ts))"
    using assms token_span_end by (simp add: measured_def)
  then show ?thesis
    using assms str_len_take_le [of "Suc i" ts] unfolding token_edge_def sat_add_def
    by (intro exI [of _ "Suc i"]) (simp add: measured_def)
qed

lemma offset_of_next_ok: "offset_ok (s_tokens s) (offset_of_next_significant s n)"
proof (cases "find (\<lambda>t. \<not> sk_is_trivia (token_kind_to_syntax (tk_kind t)))
             (drop (min n (length (s_tokens s))) (s_tokens s))")
  case None
  then show ?thesis
    using offset_ok_len by (simp add: offset_of_next_significant_def source_len_tokens [of s])
next
  case (Some t)
  then have "t \<in> set (s_tokens s)"
    unfolding find_Some_iff by (metis in_set_dropD nth_mem)
  then obtain i where "i < length (s_tokens s)" "t = s_tokens s ! i"
    by (auto simp: in_set_conv_nth)
  then show ?thesis
    using Some by (auto simp: offset_of_next_significant_def intro: clamp_offset_ok token_edge_offset)
qed

lemma safe_range_returns:
  "offset_ok ts a \<Longrightarrow> offset_ok ts b \<Longrightarrow> returns False (safe_range a b) (range_ok ts)"
  by (auto simp: safe_range_def text_range_new_def range_ok_def max_def)

lemma previous_range_returns:
  "returns False (previous_token_range_or_zero_at_start s) (range_ok (s_tokens s))"
  by (auto simp: previous_token_range_or_zero_at_start_def range_ok_def source_len_tokens [of s]
        get_eq_Some offset_ok_zero offset_ok_len
      intro!: safe_range_returns clamp_offset_ok token_edge_offset token_edge_end split: option.splits)

lemma compute_error_range_returns:
  "returns False (compute_error_range s e n) (range_ok (s_tokens s))"
  by (auto simp: compute_error_range_def Let_def range_ok_def offset_of_next_ok offset_ok_len
        source_len_tokens [of s]
      intro!: safe_range_returns offset_of_next_ok previous_range_returns
      split: recovery_kind.splits option.splits)

primrec op_errors :: "op list \<Rightarrow> parse_error list" where
  "op_errors [] = []"
| "op_errors (a # x) = (case a of Err e _ \<Rightarrow> e # op_errors x | _ \<Rightarrow> op_errors x)"

lemma op_errors_append [simp]: "op_errors (x @ y) = op_errors x @ op_errors y"
  by (induction x) (auto split: op.splits)


section \<open>The commands of a sequence of operations\<close>

primrec op_cmds :: "op list \<Rightarrow> command list" where
  "op_cmds [] = []"
| "op_cmds (a # x) =
     (case a of
        Open k \<Rightarrow> StartNode (node_kind_to_syntax k) # op_cmds x
      | Close \<Rightarrow> FinishNode # op_cmds x
      | Tok k \<Rightarrow> PutToken (token_kind_to_syntax k) [] # op_cmds x
      | Err _ _ \<Rightarrow> op_cmds x)"

primrec without_text :: "command \<Rightarrow> command" where
  "without_text (StartNode k) = StartNode k"
| "without_text FinishNode = FinishNode"
| "without_text (PutToken k w) = PutToken k []"

text \<open>A command log without its trivia and without the texts.\<close>

definition bones :: "command list \<Rightarrow> command list" where
  "bones l = map without_text (filter (\<lambda>c. \<not> trivia_cmd c) l)"

text \<open>The tokens of a command log.\<close>

definition put_tokens :: "command list \<Rightarrow> command list" where
  "put_tokens l = filter (\<lambda>c. \<not> node_cmd c) l"

lemma op_cmds_append [simp]: "op_cmds (x @ y) = op_cmds x @ op_cmds y"
  by (induction x) (auto split: op.splits)

lemma bones_simps [simp]:
  "bones [] = []" "bones (l @ m) = bones l @ bones m"
  "bones (c # l) = (if trivia_cmd c then bones l else without_text c # bones l)"
  by (simp_all add: bones_def)

lemma put_tokens_simps [simp]:
  "put_tokens [] = []" "put_tokens (l @ m) = put_tokens l @ put_tokens m"
  "put_tokens (c # l) = (if node_cmd c then put_tokens l else c # put_tokens l)"
  by (simp_all add: put_tokens_def)

lemma deferred_cmd_node [simp]: "node_cmd (deferred_cmd d)"
  by (cases d) auto

lemma bones_deferred [simp]: "bones (map deferred_cmd ds) = map deferred_cmd ds"
proof (induction ds)
  case (Cons d ds)
  then show ?case
    by (cases d) auto
qed simp

lemma put_tokens_deferred [simp]: "put_tokens (map deferred_cmd ds) = []"
  by (induction ds) simp_all

lemma token_cmd_simps [simp]:
  "trivia_cmd (token_cmd t) = is_trivia (tk_kind t)" "word_cmd (token_cmd t) = (\<not> is_trivia (tk_kind t))"
  "\<not> node_cmd (token_cmd t)"
  by (simp_all add: token_cmd_def)

lemma bones_trivia: "\<forall>t \<in> set ts. is_trivia (tk_kind t) \<Longrightarrow> bones (map token_cmd ts) = []"
  by (induction ts) simp_all

lemma put_tokens_map [simp]: "put_tokens (map token_cmd ts) = map token_cmd ts"
  by (induction ts) simp_all



section \<open>The invariant of the replay\<close>

text \<open>
  The shape of the log: after the root, a part that ends with a significant token, then
  commands that only close nodes, apart from empty ones.
\<close>

definition laid :: "command list \<Rightarrow> bool" where
  "laid l \<longleftrightarrow> (\<exists>A R. l = StartNode SK_SOURCE_FILE # A @ R \<and> lowest A \<and> (A \<noteq> [] \<longrightarrow> word_cmd (last A)) \<and>
     (\<forall>c \<in> set R. node_cmd c) \<and> sinking R)"

lemma laid_root: "laid [StartNode SK_SOURCE_FILE]"
  by (auto simp: laid_def)

lemma laid_sink:
  assumes "laid l" "\<forall>c \<in> set D. node_cmd c" "sinking D"
  shows "laid (l @ D)"
proof -
  obtain A R where l: "l = StartNode SK_SOURCE_FILE # A @ R" "lowest A" "A \<noteq> [] \<longrightarrow> word_cmd (last A)"
    "\<forall>c \<in> set R. node_cmd c" "sinking R"
    using assms(1) by (auto simp: laid_def)
  then show ?thesis
    unfolding laid_def using assms(2,3)
    by (intro exI [of _ A] exI [of _ "R @ D"]) (auto intro: sinking_append)
qed

lemma laid_gap:
  assumes "laid l" "\<forall>c \<in> set T. trivia_cmd c" "\<forall>c \<in> set D. node_cmd c" "rising_log D"
  obtains body where "l @ T @ D = StartNode SK_SOURCE_FILE # body" "lowest body"
proof -
  obtain A R where l: "l = StartNode SK_SOURCE_FILE # A @ R" "lowest A" "A \<noteq> [] \<longrightarrow> word_cmd (last A)"
    "\<forall>c \<in> set R. node_cmd c" "sinking R"
    using assms(1) by (auto simp: laid_def)
  then have "lowest (A @ R @ T @ D)"
    using assms(2-) by (intro lowest_gap) auto
  then show ?thesis
    using that l(1) by simp
qed

lemma laid_word:
  assumes "laid l" "\<forall>c \<in> set T. trivia_cmd c" "\<forall>c \<in> set D. node_cmd c" "rising_log D" "word_cmd c"
  shows "laid (l @ T @ D @ [c])"
proof -
  obtain body where "l @ T @ D = StartNode SK_SOURCE_FILE # body" "lowest body"
    using laid_gap [OF assms(1-4)] .
  then have "l @ T @ D @ [c] = StartNode SK_SOURCE_FILE # (body @ [c]) @ []" "lowest (body @ [c])"
    using lowest_word [of body c] assms(5) by (simp_all flip: append_assoc)
  then show ?thesis
    unfolding laid_def using assms(5) by (intro exI [of _ "body @ [c]"] exI [of _ "[]"]) simp
qed

definition sink_inv :: "token list \<Rightarrow> op list \<Rightarrow> sink \<Rightarrow> bool" where
  "sink_inv ts x s \<longleftrightarrow>
     s_tokens s = ts \<and> laid (s_log s) \<and>
     bones (s_log s) @ map deferred_cmd (s_deferred s) = StartNode SK_SOURCE_FILE # op_cmds x \<and>
     put_tokens (s_log s) = map token_cmd (take (gap_start s) ts) \<and>
     gap_start s \<le> s_token_pos s \<and> s_token_pos s \<le> length ts \<and>
     (\<forall>t \<in> set (gap s). is_trivia (tk_kind t)) \<and>
     map tk_kind (significant (take (s_token_pos s) ts)) = op_tokens x \<and>
     0 < s_open_nodes s \<and> int (s_open_nodes s) + int (s_deferred_depth s) = 1 + depth x \<and>
     rising_log (map deferred_cmd (s_deferred s)) \<and>
     cdepth (map deferred_cmd (s_deferred s)) = int (s_deferred_depth s) \<and>
     map snd (s_errors s) = op_errors x \<and> (\<forall>r \<in> fst ` set (s_errors s). range_ok ts r)"

lemma sink_inv_open_nodes: "sink_inv ts x s \<Longrightarrow> 0 < s_open_nodes s"
  by (simp add: sink_inv_def)

lemma gap_moves:
  assumes "moves s s'" "gap_start s \<le> s_token_pos s"
  shows "gap s' = gap s @ take (s_token_pos s' - s_token_pos s) (drop (s_token_pos s) (s_tokens s))"
  using assms(2) movesD [OF assms(1)]
    take_drop_join [of "gap_start s" "s_token_pos s" "s_token_pos s'" "s_tokens s"]
  by (simp add: gap_def)

lemma sink_inv_open:
  assumes "sink_inv ts x s"
  shows "sink_inv ts (x @ [Open k]) (sink_open [k] s)"
proof -
  have "sink_open [k] s = s\<lparr>s_deferred := s_deferred s @ [DeferredStart (node_kind_to_syntax k)],
      s_deferred_depth := s_deferred_depth s + 1\<rparr>"
    using assms by (simp add: sink_open_def sink_inv_def)
  then show ?thesis
    using assms by (auto simp: sink_inv_def intro: rising_snoc)
qed

lemma sink_inv_error:
  assumes "sink_inv ts x s"
  shows "returns False (sink_error e n s) (sink_inv ts (x @ [Err e n]))"
  unfolding sink_error_def
  by (rule returns_bind [OF compute_error_range_returns])
    (use assms in \<open>auto simp: sink_inv_def\<close>)

lemma sink_inv_close:
  assumes inv: "sink_inv ts x s" and d: "0 < depth x"
  shows "returns False (sink_close s) (sink_inv ts (x @ [Close]))"
proof (cases "0 < s_deferred_depth s")
  case True
  then have "sink_close s = Inr (s\<lparr>s_deferred := s_deferred s @ [DeferredFinish],
      s_deferred_depth := s_deferred_depth s - 1\<rparr>)"
    by (simp add: sink_close_def)
  then show ?thesis
    using True inv by (auto simp: sink_inv_def of_nat_diff intro: rising_snoc)
next
  case False
  let ?D = "map deferred_cmd (s_deferred s)"
  have D: "rising_log ?D" "cdepth ?D = 0" "1 < s_open_nodes s"
    using inv False d by (auto simp: sink_inv_def)
  then have eq: "sink_close s = Inr (s\<lparr>s_log := s_log s @ ?D @ [FinishNode],
      s_open_nodes := s_open_nodes s - 1, s_deferred := [], s_deferred_depth := 0\<rparr>)"
    using perform_deferred_log [OF D(1)] False
    by (simp add: sink_close_def finish_node_def)
  have "laid (s_log s @ ?D @ [FinishNode])"
    using inv D(1,2) sinking_balanced sinking_finish
    by (intro laid_sink) (auto simp: sink_inv_def intro!: sinking_append)
  moreover have "bones (s_log s @ ?D @ [FinishNode]) = StartNode SK_SOURCE_FILE # op_cmds (x @ [Close])"
    using inv by (simp add: sink_inv_def flip: append_assoc)
  ultimately show ?thesis
    unfolding eq using inv D(3) False
    by (simp add: sink_inv_def of_nat_diff del: bones_simps(2))
qed


text \<open>Moving over trivia keeps the invariant.\<close>

lemma significant_append [simp]: "significant (xs @ ys) = significant xs @ significant ys"
  by (simp add: significant_def)

lemma significant_trivia: "\<forall>t \<in> set xs. is_trivia (tk_kind t) \<Longrightarrow> significant xs = []"
  by (auto simp: significant_def filter_empty_conv)

lemma sink_inv_moves:
  assumes inv: "sink_inv ts x s" and "moves s s'" "s_token_pos s' \<le> length ts"
    and tr: "\<forall>t \<in> set (take (s_token_pos s' - s_token_pos s) (drop (s_token_pos s) ts)). is_trivia (tk_kind t)"
  shows "sink_inv ts x s'"
proof -
  have "gap s' = gap s @ take (s_token_pos s' - s_token_pos s) (drop (s_token_pos s) ts)"
    using gap_moves [OF assms(2)] inv by (simp add: sink_inv_def)
  moreover have "take (s_token_pos s') ts =
      take (s_token_pos s) ts @ take (s_token_pos s' - s_token_pos s) (drop (s_token_pos s) ts)"
    using take_drop_join [of 0 "s_token_pos s" "s_token_pos s'" ts] movesD [OF assms(2)] by simp
  moreover note significant_trivia [OF tr]
  ultimately show ?thesis
    using inv tr movesD [OF assms(2)] assms(3) by (auto simp: sink_inv_def)
qed

lemma sink_inv_skip:
  assumes "sink_inv ts x s"
  shows "sink_inv ts x (skip_trivia s)"
proof (rule sink_inv_moves [OF assms])
  note skip = skip_trivia_moves [of s]
  have tokens: "s_tokens s = ts" "s_token_pos s \<le> length ts"
    using assms by (simp_all add: sink_inv_def)
  show "moves s (skip_trivia s)"
    using skip by blast
  show len: "s_token_pos (skip_trivia s) \<le> length ts"
    using skip tokens movesD(9) [of s "skip_trivia s"]
    by (cases "s_token_pos (skip_trivia s) = s_token_pos s")
      (auto dest: spec [of _ "s_token_pos (skip_trivia s) - 1"])
  show "\<forall>t \<in> set (take (s_token_pos (skip_trivia s) - s_token_pos s) (drop (s_token_pos s) ts)).
      is_trivia (tk_kind t)"
    using skip tokens len by (auto simp: in_set_conv_nth)
qed


text \<open>The next significant token is the one the event names.\<close>

lemma next_token:
  assumes inv: "sink_inv ts x s" and rest: "op_tokens x @ k # r = map tk_kind (significant ts)"
    and stop: "s_token_pos s < length ts \<Longrightarrow> \<not> is_trivia (tk_kind (ts ! s_token_pos s))"
  shows "s_token_pos s < length ts" "tk_kind (ts ! s_token_pos s) = k" "\<not> is_trivia k"
proof -
  let ?p = "s_token_pos s"
  have split: "significant ts = significant (take ?p ts) @ significant (drop ?p ts)"
    by (simp flip: significant_append)
  have x: "op_tokens x = map tk_kind (significant (take ?p ts))"
    using inv by (simp add: sink_inv_def)
  show p: "?p < length ts"
    using rest x by (cases "?p < length ts") simp_all
  then have "significant (drop ?p ts) = ts ! ?p # significant (drop (Suc ?p) ts)"
    using stop by (simp add: significant_def flip: Cons_nth_drop_Suc)
  then show "tk_kind (ts ! ?p) = k"
    using rest x split by simp
  then show "\<not> is_trivia k"
    using stop [OF p] by simp
qed

lemma sink_inv_token:
  assumes inv: "sink_inv ts x s" and rest: "op_tokens x @ k # r = map tk_kind (significant ts)"
  shows "returns False (sink_token k s) (sink_inv ts (x @ [Tok k]))"
proof -
  define s1 where "s1 = skip_trivia s"
  let ?p = "s_token_pos s1" and ?D = "map deferred_cmd (s_deferred s1)"
  have inv1: "sink_inv ts x s1"
    using sink_inv_skip [OF inv] by (simp add: s1_def)
  then have f: "s_tokens s1 = ts" "gap_start s1 \<le> ?p" "?p \<le> length ts" "rising_log ?D"
    "\<forall>t \<in> set (gap s1). is_trivia (tk_kind t)" "laid (s_log s1)"
    by (simp_all add: sink_inv_def)
  have stop: "\<not> is_trivia (tk_kind (ts ! ?p))" if "?p < length ts"
    using skip_trivia_moves [of s] that inv by (simp add: s1_def sink_inv_def)
  note t = next_token [OF inv1 rest stop]
  let ?c = "PutToken (token_kind_to_syntax k) (tk_text (ts ! ?p))"
  let ?log = "s_log s1 @ map token_cmd (gap s1) @ ?D @ [?c]"
  let ?s = "s1\<lparr>s_pending_trivia := None, s_log := ?log,
     s_open_nodes := nat (int (s_open_nodes s1) + cdepth ?D), s_deferred := [], s_deferred_depth := 0,
     s_last_significant := Some ?p, s_token_pos := ?p + 1\<rparr>"
  have "sink_token k s = Inr ?s"
    using f t perform_deferred_log [of "s1\<lparr>s_pending_trivia := None, s_log := s_log s1 @ map token_cmd (gap s1)\<rparr>"]
    by (simp add: sink_token_def flip: s1_def) (simp add: flush_trivia_gap put_token_def)
  moreover have "sink_inv ts (x @ [Tok k]) ?s"
    unfolding sink_inv_def
  proof (intro conjI)
    show "laid (s_log ?s)"
      using laid_word [OF f(6), of "map token_cmd (gap s1)" ?D ?c] f(4,5) t(3) by simp
    show "bones (s_log ?s) @ map deferred_cmd (s_deferred ?s)
        = StartNode SK_SOURCE_FILE # op_cmds (x @ [Tok k])"
      using inv1 bones_trivia [OF f(5)] t(3) by (simp add: sink_inv_def flip: append_assoc)
    have "take ?p ts = take (gap_start s1) ts @ gap s1"
      using take_drop_join [of 0 "gap_start s1" ?p ts] f(1,2) by (simp add: gap_def)
    then have "put_tokens ?log = map token_cmd (take (?p + 1) ts)"
      using inv1 t(1,2) by (simp add: sink_inv_def take_Suc_conv_app_nth token_cmd_def)
    moreover have "gap_start ?s = ?p + 1"
      by (simp add: gap_start_def)
    ultimately show "put_tokens (s_log ?s) = map token_cmd (take (gap_start ?s) ts)"
      by simp
    show "map tk_kind (significant (take (s_token_pos ?s) ts)) = op_tokens (x @ [Tok k])"
      using inv1 t by (simp add: sink_inv_def take_Suc_conv_app_nth) (simp add: significant_def)
    show "\<forall>t \<in> set (gap ?s). is_trivia (tk_kind t)"
      by (simp add: gap_def gap_start_def)
    show "gap_start ?s \<le> s_token_pos ?s"
      by (simp add: gap_start_def)
  qed (use inv1 t(1) in \<open>simp_all add: sink_inv_def\<close>)
  ultimately show ?thesis
    by simp
qed


lemma sink_inv_op:
  assumes ops: "x = pre @ a # post" "proper x" "op_tokens x = map tk_kind (significant ts)"
    and inv: "sink_inv ts pre s"
  shows "returns False (sink_op a s) (sink_inv ts (pre @ [a]))"
proof (cases a)
  case Close
  have "0 \<le> depth (take (Suc (length pre)) x)"
    using ops(2) by (simp add: proper_def)
  then have "0 < depth pre"
    using ops(1) Close by simp
  then show ?thesis
    using sink_inv_close [OF inv] Close by simp
next
  case (Tok k)
  then show ?thesis
    using sink_inv_token [OF inv, of k "op_tokens post"] ops by simp
qed (use inv in \<open>simp_all add: sink_inv_open sink_inv_error\<close>)


section \<open>The root\<close>

lemma sink_root:
  assumes "node_kind_to_syntax k = SK_SOURCE_FILE"
  shows "sink_ops [Open k] (sink_new ts) = Inr (start_node SK_SOURCE_FILE (sink_new ts))"
    "sink_inv ts [] (start_node SK_SOURCE_FILE (sink_new ts))"
  using assms laid_root
  by (simp_all add: sink_open_def sink_new_def start_node_def sink_inv_def gap_start_def gap_def
      significant_def)

text \<open>What the builder has been given when the sink is done.\<close>

definition tree_log :: "token list \<Rightarrow> op list \<Rightarrow> command list \<Rightarrow> bool" where
  "tree_log ts x l \<longleftrightarrow>
     (\<exists>body. l = StartNode SK_SOURCE_FILE # body @ [FinishNode] \<and> bones body = op_cmds x \<and>
        lowest body \<and> put_tokens l = map token_cmd ts)"

lemma sink_inv_finish:
  assumes inv: "sink_inv ts x s" and x: "depth x = 0" "op_tokens x = map tk_kind (significant ts)"
  shows "returns False (sink_close s) (\<lambda>s. tree_log ts x (s_log s) \<and>
    map snd (s_errors s) = op_errors x \<and> (\<forall>r \<in> fst ` set (s_errors s). range_ok ts r))"
proof -
  let ?D = "map deferred_cmd (s_deferred s)"
  have f: "s_tokens s = ts" "gap_start s \<le> s_token_pos s" "s_token_pos s \<le> length ts" "rising_log ?D"
    "laid (s_log s)" "s_deferred_depth s = 0" "s_open_nodes s = 1" "cdepth ?D = 0"
    using inv x by (simp_all add: sink_inv_def)
  define s1 where "s1 = s\<lparr>s_log := s_log s @ ?D, s_deferred := []\<rparr>"
  define s2 where "s2 = take_the_tail s1"
  have mv: "moves s1 s2" "s_token_pos s2 = length ts"
    using take_the_tail_moves [of s1] f by (simp_all add: s1_def s2_def)
  have s1: "perform_deferred_nodes s = Inr s1"
    using perform_deferred_log [OF f(4)] f by (simp add: s1_def)
  have inv1: "sink_inv ts x s1"
    using inv f(4,5,8) laid_sink [of "s_log s" ?D] sinking_balanced [of ?D]
    by (auto simp: sink_inv_def s1_def)
  have "significant ts = significant (take (s_token_pos s) ts) @ significant (drop (s_token_pos s) ts)"
    by (metis append_take_drop_id significant_append)
  moreover have "map tk_kind (significant (take (s_token_pos s) ts)) = map tk_kind (significant ts)"
    using inv x by (simp add: sink_inv_def)
  ultimately have "\<forall>t \<in> set (drop (s_token_pos s) ts). is_trivia (tk_kind t)"
    by (simp add: significant_def filter_empty_conv)
  then have inv2: "sink_inv ts x s2"
    using sink_inv_moves [OF inv1 mv(1)] mv(2) by (auto simp: s1_def dest: in_set_takeD)
  let ?l = "s_log s2 @ map token_cmd (gap s2)"
  have "sink_close s = Inr (s2\<lparr>s_pending_trivia := None, s_log := ?l @ [FinishNode], s_open_nodes := 0\<rparr>)"
    using s1 f inv2 mv flush_trivia_gap [of s2] movesD [OF mv(1)]
    by (simp add: sink_close_def sink_inv_def finish_node_def s2_def [symmetric])
      (simp add: s1_def)
  moreover have "tree_log ts x (?l @ [FinishNode])"
  proof -
    have tr: "\<forall>t \<in> set (gap s2). is_trivia (tk_kind t)"
      using inv2 by (simp add: sink_inv_def)
    then obtain body where body: "?l = StartNode SK_SOURCE_FILE # body" "lowest body"
      using laid_gap [of "s_log s2" "map token_cmd (gap s2)" "[]"] inv2 by (auto simp: sink_inv_def)
    have "ts = take (gap_start s2) ts @ gap s2"
      using inv2 mv(2) by (simp add: gap_def sink_inv_def)
    then have "put_tokens ?l = map token_cmd ts"
      using inv2 by (metis put_tokens_simps(2) put_tokens_map map_append sink_inv_def)
    moreover have "bones ?l = StartNode SK_SOURCE_FILE # op_cmds x"
      using inv2 movesD(3) [OF mv(1)] bones_trivia [OF tr] by (simp add: sink_inv_def s1_def)
    ultimately show ?thesis
      unfolding tree_log_def using body by (intro exI [of _ body]) simp
  qed
  ultimately show ?thesis
    using inv2 by (simp add: sink_inv_def)
qed



theorem sink_finish_log:
  assumes "seg_ops s x" and toks: "event_tokens s = map tk_kind (significant ts)"
    and k: "node_kind_to_syntax k = SK_SOURCE_FILE"
  shows "returns False (sink_finish ts (Start k None # s @ [Finish])) (\<lambda>(l, errs).
    tree_log ts x l \<and> map snd errs = op_errors x \<and> (\<forall>r \<in> fst ` set errs. range_ok ts r))"
proof -
  define E where "E = Start k None # s @ [Finish]"
  note em = stream_emits [OF assms(1) E_def]
  have x: "proper x" "depth x = 0" "op_tokens x = map tk_kind (significant ts)"
    using ops_proper [OF assms(1)] ops_tokens [OF assms(1)] toks by auto
  have ixs: "[0..<length E] = 0 # [1..<1 + length s] @ [1 + length s]"
    using upt_conv_Cons [of 0 "1 + length s"] by (simp add: E_def)
  show ?thesis
    unfolding sink_finish_def E_def [symmetric]
  proof (rule returns_bind [OF mark_pass_returns [OF em(1)]])
    fix skip
    assume skip: "\<forall>j < length E. skip ! j \<longleftrightarrow> linked E j"
    have len: "length E = length s + 2" "\<not> linked E 0"
      using not_linked [OF em(1), of 0 1] by (simp_all add: E_def quiet_def)
    have first: "sink_event E skip 0 (sink_new ts) = sink_ops [Open k] (sink_new ts)"
      using skip len by (simp add: sink_event_def E_def forward_parents_def)
    have last: "sink_event E skip (1 + length s) s' = sink_close s'" for s'
      by (simp add: sink_event_def E_def)
    have mid: "returns False (sink_events E skip [1..<1 + length s] (start_node SK_SOURCE_FILE (sink_new ts)))
        (sink_inv ts x)"
      by (rule emits_carry [where x = x and post = "[]", OF em(3) em(1) _ skip])
        (use sink_root(2) [OF k] x len in \<open>auto intro: sink_inv_op sink_inv_open_nodes\<close>)
    show "returns False (and_then (sink_events E skip [0..<length E] (sink_new ts)) (\<lambda>s. Inr (s_log s, s_errors s)))
       (\<lambda>(l, errs). tree_log ts x l \<and> map snd errs = op_errors x \<and> (\<forall>r \<in> fst ` set errs. range_ok ts r))"
      unfolding ixs sink_events.simps first sink_root(1) [OF k] and_then_Inr sink_events_append
        returns_and_then
      by (rule returns_mono [OF mid]) (use last sink_inv_finish x in \<open>simp add: returns_and_then\<close>)
  qed
qed

end
