(* ===== verification/Syntax_Tree.thy ===== *)
theory Syntax_Tree
  imports Sink_Tree Lexer
begin

text \<open>
  From command logs to trees. The tree builder is a library; what its commands mean is
  written down here as the linearisation of a tree, and every log the sink produces is
  shown to be one. \<open>parse\<close> (\<open>parser/src/lib.rs\<close>) composes the lexer, the grammar and the
  sink.
\<close>

section \<open>Nested logs\<close>

inductive nested :: "command list \<Rightarrow> bool" where
  nested_Nil: "nested []"
| nested_token: "nested l \<Longrightarrow> nested (PutToken k w # l)"
| nested_node: "nested l \<Longrightarrow> nested m \<Longrightarrow> nested (StartNode k # l @ FinishNode # m)"

lemma nested_append: "nested l \<Longrightarrow> nested m \<Longrightarrow> nested (l @ m)"
  by (induction rule: nested.induct) (auto intro: nested.intros)

lemma nested_bracket: "nested l \<Longrightarrow> nested (StartNode k # l @ [FinishNode])"
  using nested_node [OF _ nested_Nil] by blast

lemma nested_single: "nested [PutToken k w]"
  by (intro nested.intros)

lemma ops_nested_aux:
  "seg_ops s x \<Longrightarrow> nested (op_cmds x)"
  "chain_ops d c x \<Longrightarrow> nested (op_cmds x)"
proof (induction rule: seg_ops_chain_ops.inducts)
  case (ops_up d c x g y s w k)
  then have "nested (op_cmds x @ op_cmds y @ op_cmds w)"
    by (intro nested_append)
  from nested_bracket [OF this] show ?case
    by simp
qed (auto intro: nested_append nested_single nested_bracket nested_Nil)

text \<open>Trivia does not disturb the nesting.\<close>

lemma nested_trivia: "\<forall>c \<in> set l. trivia_cmd c \<Longrightarrow> nested m \<Longrightarrow> nested (l @ m)"
proof (induction l)
  case (Cons c l)
  then show ?case
    by (cases c) (auto intro: nested_token)
qed simp

lemma bones_eq_Cons:
  assumes "bones l = c # m"
  obtains T c' l' where "l = T @ c' # l'" "\<forall>c \<in> set T. trivia_cmd c" "without_text c' = c" "bones l' = m"
proof -
  obtain c' m' where "filter (\<lambda>c. \<not> trivia_cmd c) l = c' # m'" "without_text c' = c" "map without_text m' = m"
    using assms by (auto simp: bones_def map_eq_Cons_conv)
  then show ?thesis
    using that by (auto simp: filter_eq_Cons_iff bones_def)
qed

lemma bones_eq_append:
  "bones l = a @ b \<Longrightarrow> \<exists>l1 l2. l = l1 @ l2 \<and> bones l1 = a \<and> bones l2 = b"
proof (induction l arbitrary: a)
  case (Cons c l)
  show ?case
  proof (cases "trivia_cmd c \<or> a \<noteq> []")
    case True
    then obtain a' where a': "bones l = a' @ b" "bones [c] @ a' = a"
      using Cons.prems by (cases a) (auto split: if_splits)
    then obtain l1 l2 where "l = l1 @ l2" "bones l1 = a'" "bones l2 = b"
      using Cons.IH by blast
    then show ?thesis
      using a'(2) by (intro exI [of _ "c # l1"] exI [of _ l2]) auto
  next
    case False
    then show ?thesis
      using Cons.prems by (intro exI [of _ "[]"] exI [of _ "c # l"]) simp
  qed
qed simp

lemma bones_eq_Nil: "bones l = [] \<Longrightarrow> \<forall>c \<in> set l. trivia_cmd c"
  by (simp add: bones_def filter_empty_conv)

lemma without_text_eq:
  "without_text c = StartNode k \<longleftrightarrow> c = StartNode k" "without_text c = FinishNode \<longleftrightarrow> c = FinishNode"
  by (cases c; simp)+

lemma nested_bones_aux: "nested m \<Longrightarrow> m = bones l \<Longrightarrow> nested l"
proof (induction arbitrary: l rule: nested.induct)
  case nested_Nil
  then show ?case
    using nested_trivia [OF bones_eq_Nil nested.nested_Nil] by simp
next
  case (nested_token m k w)
  then obtain T c l' where l: "l = T @ c # l'" "\<forall>c \<in> set T. trivia_cmd c"
    "without_text c = PutToken k w" "bones l' = m"
    by (metis bones_eq_Cons)
  then have "nested (c # l')"
    using nested_token.IH [of l'] by (cases c) (auto intro: nested.nested_token)
  then show ?case
    using l nested_trivia by blast
next
  case (nested_node m n k)
  then obtain T c l' where l: "l = T @ c # l'" "\<forall>c \<in> set T. trivia_cmd c"
    "without_text c = StartNode k" "bones l' = m @ FinishNode # n"
    by (metis bones_eq_Cons)
  then obtain l1 l2 where l': "l' = l1 @ l2" "bones l1 = m" "bones l2 = FinishNode # n"
    by (metis bones_eq_append)
  then obtain T2 c2 l3 where l2: "l2 = T2 @ c2 # l3" "\<forall>c \<in> set T2. trivia_cmd c"
    "without_text c2 = FinishNode" "bones l3 = n"
    by (metis bones_eq_Cons)
  have "bones (l1 @ T2) = m"
    using l' l2(2) by (simp add: bones_def)
  then have "nested (l1 @ T2)" "nested l3"
    using nested_node.IH l2(4) by simp_all
  then have "nested (StartNode k # (l1 @ T2) @ FinishNode # l3)"
    by (rule nested.nested_node)
  then show ?case
    using l l' l2 nested_trivia by (simp add: without_text_eq)
qed

lemma nested_bones: "nested (bones l) \<Longrightarrow> nested l"
  using nested_bones_aux by blast


section \<open>Trees\<close>

datatype tree = Node syntax_kind "tree list" | Leaf syntax_kind ustring

primrec linear :: "tree \<Rightarrow> command list" where
  "linear (Node k ts) = StartNode k # concat (map linear ts) @ [FinishNode]"
| "linear (Leaf k w) = [PutToken k w]"

primrec tree_leaves :: "tree \<Rightarrow> (syntax_kind \<times> ustring) list" where
  "tree_leaves (Node k ts) = concat (map tree_leaves ts)"
| "tree_leaves (Leaf k w) = [(k, w)]"

definition tree_text :: "tree \<Rightarrow> ustring" where
  "tree_text t = concat (map snd (tree_leaves t))"

lemma nested_forest: "nested l \<Longrightarrow> \<exists>f. l = concat (map linear f)"
proof (induction rule: nested.induct)
  case nested_Nil
  then show ?case
    by (intro exI [of _ "[]"]) simp
next
  case (nested_token l k w)
  then obtain f where "l = concat (map linear f)"
    by blast
  then show ?case
    by (intro exI [of _ "Leaf k w # f"]) simp
next
  case (nested_node l m k)
  then obtain f g where "l = concat (map linear f)" "m = concat (map linear g)"
    by blast
  then show ?case
    by (intro exI [of _ "Node k f # g"]) simp
qed

lemma put_tokens_concat: "put_tokens (concat ls) = concat (map put_tokens ls)"
  by (induction ls) simp_all

lemma linear_leaves: "put_tokens (linear t) = map (\<lambda>(k, w). PutToken k w) (tree_leaves t)"
proof (induction t)
  case (Node k ts)
  then have "concat (map (put_tokens \<circ> linear) ts)
      = concat (map (\<lambda>t. map (\<lambda>(k, w). PutToken k w) (tree_leaves t)) ts)"
    by (intro arg_cong [where f = concat] map_cong) auto
  then show ?case
    by (simp add: put_tokens_concat map_concat comp_def)
qed simp

text \<open>A log of the sink is the linearisation of one tree whose leaves are the tokens.\<close>

lemma tree_log_tree:
  assumes "tree_log ts x l" "seg_ops s x"
  obtains f where "l = linear (Node SK_SOURCE_FILE f)"
    "tree_leaves (Node SK_SOURCE_FILE f) = map (\<lambda>t. (token_kind_to_syntax (tk_kind t), tk_text t)) ts"
proof -
  obtain body where body: "l = StartNode SK_SOURCE_FILE # body @ [FinishNode]" "bones body = op_cmds x"
    "put_tokens l = map token_cmd ts"
    using assms(1) by (auto simp: tree_log_def)
  then have "nested body"
    using ops_nested_aux(1) [OF assms(2)] nested_bones by simp
  then obtain f where f: "body = concat (map linear f)"
    using nested_forest by blast
  then have l: "l = linear (Node SK_SOURCE_FILE f)"
    using body(1) by simp
  then have "map (\<lambda>(k, w). PutToken k w) (tree_leaves (Node SK_SOURCE_FILE f))
      = map (\<lambda>(k, w). PutToken k w) (map (\<lambda>t. (token_kind_to_syntax (tk_kind t), tk_text t)) ts)"
    using body(3) linear_leaves [of "Node SK_SOURCE_FILE f"] by (simp add: token_cmd_def [abs_def] comp_def)
  moreover have "inj (\<lambda>(k, w). PutToken k w)"
    by (auto simp: inj_def)
  ultimately show ?thesis
    using that [OF l] inj_map_eq_map by blast
qed

lemma tree_text_leaves:
  "tree_leaves t = map (\<lambda>t. (token_kind_to_syntax (tk_kind t), tk_text t)) ts \<Longrightarrow> tree_text t = source_text ts"
  by (simp add: tree_text_def source_text_def comp_def)

end
