(* ===== verification/Parse.thy ===== *)
theory Parse
  imports Syntax_Tree
begin

text \<open>
  \<open>parse\<close> (\<open>parser/src/lib.rs\<close>): the lexer, the grammar and the sink in sequence, and
  what the whole of it guarantees for every source text.
\<close>

definition parse ::
  "automaton \<Rightarrow> (uchar \<Rightarrow> ustring) \<Rightarrow> ustring \<Rightarrow> (command list \<times> (text_range \<times> parse_error) list) outcome"
where
  "parse rules to_lowercase input =
     and_then (tokenize rules input) (\<lambda>tokens.
     and_then (parse_events to_lowercase tokens) (\<lambda>events.
     sink_finish tokens events))"

text \<open>The diagnostics of a stream, in order.\<close>

primrec event_errors :: "event list \<Rightarrow> parse_error list" where
  "event_errors [] = []"
| "event_errors (e # es) =
     (case e of Error err \<Rightarrow> err # event_errors es | ErrorWithSpan _ err \<Rightarrow> err # event_errors es
      | _ \<Rightarrow> event_errors es)"

lemma event_errors_append [simp]: "event_errors (xs @ ys) = event_errors xs @ event_errors ys"
  by (induction xs) (auto split: event.splits)

lemma event_errors_update_start:
  "xs ! i = Start k f \<Longrightarrow> i < length xs \<Longrightarrow> event_errors (xs[i := Start k' f']) = event_errors xs"
proof (induction xs arbitrary: i)
  case (Cons x xs)
  then show ?case
    by (cases i; cases x) auto
qed simp

lemma ops_errors_aux:
  "seg_ops s x \<Longrightarrow> op_errors x = event_errors s"
  "chain_ops d c x \<Longrightarrow> op_errors x = event_errors c"
proof (induction rule: seg_ops_chain_ops.inducts)
  case (ops_up d c x g y s w k)
  obtain k0 where "d < length c" "c ! d = Start k0 None"
    using ops_chain_head [OF ops_up(1)] by blast
  with ops_up show ?case
    by (simp add: link_event_def event_errors_update_start)
qed simp_all

text \<open>Every event stream of the grammar is turned into a tree; the sink never panics on it.\<close>

lemma sink_finish_returns:
  assumes "seg s" "event_tokens s = map tk_kind (significant ts)"
  shows "returns False (sink_finish ts (Start NK_SourceFile None # s @ [Finish])) (\<lambda>(l, errs).
    (\<exists>x. seg_ops s x \<and> tree_log ts x l) \<and> map snd errs = event_errors s \<and>
    (\<forall>r \<in> fst ` set errs. range_ok ts r))"
proof -
  obtain x where x: "seg_ops s x"
    using seg_has_ops [OF assms(1)] by blast
  have "node_kind_to_syntax NK_SourceFile = SK_SOURCE_FILE"
    by (simp add: node_kind_to_syntax_def node_kind_table_def)
  from sink_finish_log [OF x assms(2) this] show ?thesis
    by (rule returns_mono) (use x ops_errors_aux(1) [OF x] in auto)
qed

text \<open>What holds of the result of a parse.\<close>

definition parse_result ::
  "automaton \<Rightarrow> (uchar \<Rightarrow> ustring) \<Rightarrow> ustring \<Rightarrow> command list \<Rightarrow> (text_range \<times> parse_error) list \<Rightarrow> bool"
where
  "parse_result rules lc input log errs \<longleftrightarrow>
     (\<exists>ts s x. tokenize rules input = Inr ts \<and> source_text ts = input \<and> contiguous 0 ts \<and>
        parse_events lc ts = Inr (Start NK_SourceFile None # s @ [Finish]) \<and> seg_ops s x \<and>
        tree_log ts x log \<and> map snd errs = event_errors s \<and> (\<forall>r \<in> fst ` set errs. range_ok ts r))"

lemma length_contiguous: "contiguous n ts \<Longrightarrow> length ts \<le> length (source_text ts)"
proof (induction n ts rule: contiguous.induct)
  case (2 pos t ts)
  then show ?case
    by (cases "tk_text t") (auto simp: source_text_def)
qed simp

lemma parse_returns:
  assumes "covers_some rules"
  shows "returns (333332 < length input) (parse rules lc input) (\<lambda>(l, errs). parse_result rules lc input l errs)"
proof -
  obtain ts where ts: "tokenize rules input = Inr ts" "source_text ts = input" "contiguous 0 ts"
    using returns_total [OF tokenize_returns [OF assms]] by blast
  have "length (significant ts) \<le> length input"
    using length_contiguous [OF ts(3)] ts(2) length_filter_le [of _ ts] le_trans
    unfolding significant_def by blast
  then have panic: "333332 < length input" if "1000000 \<le> 3 * length (significant ts) + 3"
    using that by simp
  from parse_events_returns [of ts lc] show ?thesis
  proof (cases rule: returnsE)
    case (value_result es)
    then obtain s where s: "es = Start NK_SourceFile None # s @ [Finish]" "seg s"
        "event_tokens s = map tk_kind (significant ts)"
      by blast
    obtain l errs x where "sink_finish ts es = Inr (l, errs)" "seg_ops s x" "tree_log ts x l"
      "map snd errs = event_errors s" "\<forall>r \<in> fst ` set errs. range_ok ts r"
      using returns_total [OF sink_finish_returns [OF s(2,3)]] s(1) by auto
    then show ?thesis
      using ts value_result(1) s(1) by (auto simp: parse_def parse_result_def)
  next
    case panic': panic
    then show ?thesis
      using ts(1) panic by (simp add: parse_def)
  qed
qed

lemma parse_value:
  assumes "covers_some rules" "parse rules lc input = Inr (log, errs)"
  shows "parse_result rules lc input log errs"
  using parse_returns [OF assms(1), of input lc] assms(2) by simp

end
