(* ===== verification/Closers.thy ===== *)
theory Closers
  imports Parser_Core
begin

text \<open>
  Two decisions of the recovery, each made by an optimised routine: whether a closing
  parenthesis lies ahead (\<open>match_closers\<close>, one pass over the input for all positions,
  against the scan from one position), and whether a word is a misspelt closer
  (\<open>edit_distance_within\<close>, two rows of the distance table with an early exit, against
  the recursive distance).
\<close>

section \<open>The closing parenthesis ahead\<close>

fun scan_parens :: "kinds \<Rightarrow> nat \<Rightarrow> nat \<Rightarrow> bool" where
  "scan_parens [] parens braces = False"
| "scan_parens (k # ks) parens braces =
     (if k = T_Semicolon then False
      else if k = T_LBrace then scan_parens ks parens (braces + 1)
      else if k = T_RBrace then scan_parens ks parens (braces - 1)
      else if k = T_LParen \<and> braces = 0 then scan_parens ks (parens + 1) braces
      else if k = T_RParen \<and> braces = 0 then
        (if parens = 0 then True else scan_parens ks (parens - 1) braces)
      else scan_parens ks parens braces)"

definition scan_for_closing_paren :: "parser \<Rightarrow> bool" where
  "scan_for_closing_paren p = scan_parens (drop (p_pos p) (p_kinds p)) 0 0"

text \<open>
  The forward pass: the depth before and after each position and whether the position
  is outside braces. The depths are \<open>i32\<close> values; they stay within the length of the
  input.
\<close>

fun paren_depths :: "kinds \<Rightarrow> int \<Rightarrow> nat \<Rightarrow> (int \<times> int \<times> bool) list" where
  "paren_depths [] depth braces = []"
| "paren_depths (k # ks) depth braces =
     (let (depth', braces') =
            (if k = T_Semicolon then (0, 0)
             else if k = T_LBrace then (depth, braces + 1)
             else if k = T_RBrace then (depth, braces - 1)
             else if k = T_LParen \<and> braces = 0 then (depth + 1, braces)
             else if k = T_RParen \<and> braces = 0 then (depth - 1, braces)
             else (depth, braces))
      in (depth, depth', braces = 0) # paren_depths ks depth' braces')"

definition I32_MAX :: int where
  "I32_MAX = 2147483647"

text \<open>The backward pass: the lowest depth still to come, and the answers.\<close>

fun closers_from :: "kinds \<Rightarrow> (int \<times> int \<times> bool) list \<Rightarrow> int \<times> bool option list" where
  "closers_from (k # ks) ((before, after, outside) # ds) =
     (let (lowest, closers) = closers_from ks ds;
          lowest = (if k = T_Semicolon then I32_MAX else min lowest after)
      in (lowest, (if outside then Some (lowest < before) else None) # closers))"
| "closers_from _ _ = (I32_MAX, [])"

definition match_closers :: "kinds \<Rightarrow> bool option list" where
  "match_closers ks = snd (closers_from ks (paren_depths ks 0 0))"

definition closing_paren_ahead :: "parser \<Rightarrow> bool" where
  "closing_paren_ahead p =
     (case get (match_closers (p_kinds p)) (p_pos p) of
        Some (Some ahead) \<Rightarrow> ahead
      | Some None \<Rightarrow> scan_for_closing_paren p
      | None \<Rightarrow> False)"

lemma lowest_scan:
  assumes "depth + int (length ks) \<le> I32_MAX"
  shows "fst (closers_from ks (paren_depths ks depth braces)) < depth - int parens
    \<longleftrightarrow> scan_parens ks parens braces"
  using assms
proof (induction ks parens braces arbitrary: depth rule: scan_parens.induct)
  case (2 k ks parens braces)
  consider (lparen) "k = T_LParen" "braces = 0" | (rparen) "k = T_RParen" "braces = 0"
    | (other) "k \<noteq> T_LParen \<or> braces \<noteq> 0" "k \<noteq> T_RParen \<or> braces \<noteq> 0"
    by blast
  then show ?case
  proof cases
    case lparen
    then show ?thesis
      using 2(3) [of "depth + 1"] 2(6) by (auto simp: Let_def split_def min_less_iff_disj)
  next
    case rparen
    then show ?thesis
      using 2(4) [of "depth - 1"] 2(6)
      by (cases "parens = 0") (auto simp: Let_def split_def min_less_iff_disj of_nat_diff)
  next
    case other
    then show ?thesis
      using 2(1,2,5) [of depth] 2(6) by (auto simp: Let_def split_def min_less_iff_disj)
  qed
qed simp

lemma length_paren_depths [simp]: "length (paren_depths ks depth braces) = length ks"
  by (induction ks depth braces rule: paren_depths.induct) (simp_all add: Let_def split_def)

lemma length_closers_from: "length ds = length ks \<Longrightarrow> length (snd (closers_from ks ds)) = length ks"
  by (induction ks ds rule: closers_from.induct) (simp_all add: Let_def split_def)

lemma closers_nth:
  assumes "depth + int (length ks) \<le> I32_MAX" "int (length ks) \<le> I32_MAX" "pos < length ks"
    "snd (closers_from ks (paren_depths ks depth braces)) ! pos = Some ahead"
  shows "ahead = scan_parens (drop pos ks) 0 0"
  using assms
proof (induction ks arbitrary: depth braces pos)
  case (Cons k ks)
  show ?case
  proof (cases pos)
    case 0
    then have "braces = 0" "ahead = (fst (closers_from (k # ks) (paren_depths (k # ks) depth braces)) < depth - int 0)"
      using Cons.prems(4) by (auto simp: Let_def split_def split: if_splits)
    then show ?thesis
      using lowest_scan [OF Cons.prems(1), of braces 0] 0 by simp
  next
    case (Suc n)
    define d' where "d' = (if k = T_Semicolon then (0, 0)
             else if k = T_LBrace then (depth, braces + 1)
             else if k = T_RBrace then (depth, braces - 1)
             else if k = T_LParen \<and> braces = 0 then (depth + 1, braces)
             else if k = T_RParen \<and> braces = 0 then (depth - 1, braces)
             else (depth, braces))"
    have "fst d' + int (length ks) \<le> I32_MAX"
      using Cons.prems(1,2) by (auto simp: d'_def)
    moreover have "snd (closers_from ks (paren_depths ks (fst d') (snd d'))) ! n = Some ahead"
      using Cons.prems(4) Suc by (simp add: Let_def split_def d'_def)
    ultimately show ?thesis
      using Cons.IH [of "fst d'" n "snd d'"] Cons.prems(2,3) Suc by simp
  qed
qed simp

lemma closing_paren_ahead_scan:
  assumes "int (length (p_kinds p)) \<le> I32_MAX"
  shows "closing_paren_ahead p = scan_for_closing_paren p"
proof (cases "p_pos p < length (p_kinds p)")
  case True
  then show ?thesis
    using closers_nth [of 0 "p_kinds p" "p_pos p" 0] assms length_closers_from [of "paren_depths (p_kinds p) 0 0" "p_kinds p"]
    by (auto simp: closing_paren_ahead_def match_closers_def scan_for_closing_paren_def split: option.splits)
next
  case False
  then show ?thesis
    using length_closers_from [of "paren_depths (p_kinds p) 0 0" "p_kinds p"]
    by (simp add: closing_paren_ahead_def match_closers_def scan_for_closing_paren_def get_def)
qed


section \<open>The distance of two words\<close>

text \<open>
  The recursive distance on the first \<open>i\<close> characters of \<open>a\<close> and the first \<open>j\<close> of \<open>b\<close>:
  deletion, insertion, substitution, and the exchange of two neighbours.
\<close>

function distance :: "ustring \<Rightarrow> ustring \<Rightarrow> nat \<Rightarrow> nat \<Rightarrow> nat" where
  "distance a b i j =
     (if i = 0 then j
      else if j = 0 then i
      else
        let d = min (min (distance a b (i - 1) j + 1) (distance a b i (j - 1) + 1))
                  (distance a b (i - 1) (j - 1) + (if a ! (i - 1) \<noteq> b ! (j - 1) then 1 else 0))
        in if 1 < i \<and> 1 < j \<and> a ! (i - 1) = b ! (j - 2) \<and> a ! (i - 2) = b ! (j - 1)
           then min d (distance a b (i - 2) (j - 2) + 1) else d)"
  by pat_completeness auto
termination
  by (relation "measure (\<lambda>(a, b, i, j). i + j)") auto

declare distance.simps [simp del]

lemma distance_0 [simp]: "distance a b 0 j = j" "distance a b i 0 = i"
  by (subst distance.simps, simp)+

definition distance_row :: "ustring \<Rightarrow> ustring \<Rightarrow> nat \<Rightarrow> nat list" where
  "distance_row a b i = map (distance a b i) [0..<length b + 1]"

lemma distance_row_nth: "j \<le> length b \<Longrightarrow> distance_row a b i ! j = distance a b i j"
  by (simp add: distance_row_def nth_append del: upt_Suc)

lemma edit_cell_distance:
  assumes "0 < i" "0 < j" "j \<le> length b"
    "1 < i \<Longrightarrow> prev_prev = distance_row a b (i - 2)"
  shows "edit_cell a b i prev_prev (distance_row a b (i - 1)) (map (distance a b i) [0..<j]) j = distance a b i j"
  using assms by (subst distance.simps) (auto simp: edit_cell_def Let_def distance_row_nth)

lemma edit_row_distance:
  assumes "0 < i" "1 < i \<Longrightarrow> prev_prev = distance_row a b (i - 2)"
  shows "edit_row a b i prev_prev (distance_row a b (i - 1)) = distance_row a b i"
proof -
  have "fold (\<lambda>j cur. cur @ [edit_cell a b i prev_prev (distance_row a b (i - 1)) cur j]) [1..<n + 1] [i]
      = map (distance a b i) [0..<n + 1]" if "n \<le> length b" for n
    using that
  proof (induction n)
    case 0
    then show ?case
      by simp
  next
    case (Suc n)
    then show ?case
      using edit_cell_distance [of i "Suc n" b prev_prev a] assms by simp
  qed
  then show ?thesis
    by (simp add: edit_row_def distance_row_def del: upt_Suc)
qed

lemma edit_rows_distance: "snd (edit_rows a b) = distance_row a b (length a)"
proof -
  have "\<exists>pp. fold (\<lambda>i (prev_prev, prev). (prev, edit_row a b i prev_prev prev)) [1..<n + 1] ([], [0..<length b + 1])
      = (pp, distance_row a b n) \<and> (0 < n \<longrightarrow> pp = distance_row a b (n - 1))" for n
  proof (induction n)
    case 0
    have "distance_row a b 0 = [0..<length b + 1]"
      unfolding distance_row_def by (rule map_idI) simp
    then show ?case
      by simp
  next
    case (Suc n)
    then obtain pp where pp: "fold (\<lambda>i (prev_prev, prev). (prev, edit_row a b i prev_prev prev)) [1..<n + 1] ([], [0..<length b + 1])
      = (pp, distance_row a b n)" "0 < n \<longrightarrow> pp = distance_row a b (n - 1)"
      by blast
    then show ?case
      using edit_row_distance [of "Suc n" pp a b] by simp
  qed
  from this [of "length a"] show ?thesis
    by (auto simp: edit_rows_def simp del: upt_Suc)
qed

text \<open>The early exit is sound: words of different lengths are at least that far apart.\<close>

lemma min_choice:
  "(let d = min (min x y) z in if c then min d w else d) \<in> {x, y, z :: nat} \<or>
   (c \<and> (let d = min (min x y) z in if c then min d w else d) = w)"
  by (auto simp: Let_def min_def)

lemma distance_choice:
  assumes "i \<noteq> 0" "j \<noteq> 0"
  shows "distance a b i j \<in> {distance a b (i - 1) j + 1, distance a b i (j - 1) + 1,
      distance a b (i - 1) (j - 1) + (if a ! (i - 1) \<noteq> b ! (j - 1) then 1 else 0)} \<or>
    ((1 < i \<and> 1 < j \<and> a ! (i - 1) = b ! (j - 2) \<and> a ! (i - 2) = b ! (j - 1)) \<and>
     distance a b i j = distance a b (i - 2) (j - 2) + 1)"
proof -
  have "distance a b i j =
      (let d = min (min (distance a b (i - 1) j + 1) (distance a b i (j - 1) + 1))
                  (distance a b (i - 1) (j - 1) + (if a ! (i - 1) \<noteq> b ! (j - 1) then 1 else 0))
        in if 1 < i \<and> 1 < j \<and> a ! (i - 1) = b ! (j - 2) \<and> a ! (i - 2) = b ! (j - 1)
           then min d (distance a b (i - 2) (j - 2) + 1) else d)"
    using assms by (subst distance.simps) (simp only: if_False)
  then show ?thesis
    by (simp only: min_choice)
qed

lemma distance_length: "i \<le> j + distance a b i j \<and> j \<le> i + distance a b i j"
proof (induction a b i j rule: distance.induct)
  case (1 a b i j)
  show ?case
  proof (cases "i = 0 \<or> j = 0")
    case True
    then show ?thesis
      by auto
  next
    case False
    then have i: "0 < i" and j: "0 < j"
      by simp_all
    have del: "i - 1 \<le> j + distance a b (i - 1) j" "j \<le> i - 1 + distance a b (i - 1) j"
      and ins: "i \<le> j - 1 + distance a b i (j - 1)" "j - 1 \<le> i + distance a b i (j - 1)"
      and sub: "i - 1 \<le> j - 1 + distance a b (i - 1) (j - 1)" "j - 1 \<le> i - 1 + distance a b (i - 1) (j - 1)"
      using 1(1-3) i j by simp_all
    have swap: "i - 2 \<le> j - 2 + distance a b (i - 2) (j - 2) \<and> j - 2 \<le> i - 2 + distance a b (i - 2) (j - 2)"
      if "1 < i \<and> 1 < j \<and> a ! (i - 1) = b ! (j - 2) \<and> a ! (i - 2) = b ! (j - 1)"
      using 1(4) i j that by simp
    consider "distance a b i j = distance a b (i - 1) j + 1" | "distance a b i j = distance a b i (j - 1) + 1"
      | "distance a b (i - 1) (j - 1) \<le> distance a b i j"
      | "1 < i" "1 < j" "distance a b i j = distance a b (i - 2) (j - 2) + 1"
          "i - 2 \<le> j - 2 + distance a b (i - 2) (j - 2)" "j - 2 \<le> i - 2 + distance a b (i - 2) (j - 2)"
      using distance_choice [of i j a b] False swap by (fastforce split: if_splits)
    then show ?thesis
      by cases (use del ins sub i j in linarith)+
  qed
qed

lemma edit_distance_within_distance:
  "edit_distance_within a b m \<longleftrightarrow> distance a b (length a) (length b) \<le> m"
  using distance_length [of "length a" "length b" a b]
  by (auto simp: edit_distance_within_def edit_rows_distance distance_row_nth)

end
