(* ===== verification/Conditions.thy ===== *)
theory Conditions
  imports Torn_If
begin

text \<open>
  What the evaluator of \<open>torn_if.rs\<close> computes. A condition is printed with the
  parentheses its precedence needs (negation binds tighter than conjunction, conjunction
  tighter than disjunction); evaluating the printed tokens gives the value of the
  condition, every symbol of the preprocessor being true.
\<close>

datatype cond = Symbol | Negation cond | Conj cond cond | Disj cond cond

primrec cond_value :: "cond \<Rightarrow> bool" where
  "cond_value Symbol = True"
| "cond_value (Negation c) = (\<not> cond_value c)"
| "cond_value (Conj c d) = (cond_value c \<and> cond_value d)"
| "cond_value (Disj c d) = (cond_value c \<or> cond_value d)"

text \<open>The level is 0 where a disjunction may stand, 1 for a conjunction, 2 for an operand.\<close>

definition in_parens :: "bool \<Rightarrow> kinds \<Rightarrow> kinds" where
  "in_parens b ks = (if b then T_LParen # ks @ [T_RParen] else ks)"

primrec print_cond :: "cond \<Rightarrow> nat \<Rightarrow> kinds" where
  "print_cond Symbol level = [T_Ident]"
| "print_cond (Negation c) level = T_KwNot # print_cond c 2"
| "print_cond (Conj c d) level = in_parens (1 < level) (print_cond c 1 @ T_KwAnd # print_cond d 2)"
| "print_cond (Disj c d) level = in_parens (0 < level) (print_cond c 0 @ T_KwOr # print_cond d 1)"

text \<open>\<open>holds_at ks stop at xs\<close>: the tokens \<open>xs\<close> stand at \<open>at\<close> and end within \<open>stop\<close>.\<close>

definition holds_at :: "kinds \<Rightarrow> nat \<Rightarrow> nat \<Rightarrow> kinds \<Rightarrow> bool" where
  "holds_at ks stop at xs \<longleftrightarrow> at + length xs \<le> stop \<and> stop \<le> length ks \<and> take (length xs) (drop at ks) = xs"

lemma holds_at_Cons:
  "holds_at ks stop at (x # xs) \<longleftrightarrow> cond_peek ks stop at = Some x \<and> holds_at ks stop (Suc at) xs"
proof (cases "at < length ks")
  case True
  then have "drop at ks = ks ! at # drop (Suc at) ks"
    by (rule Cons_nth_drop_Suc [symmetric])
  then show ?thesis
    using True by (auto simp: holds_at_def cond_peek_def)
qed (auto simp: holds_at_def cond_peek_def)

lemma holds_at_append:
  "holds_at ks stop at (xs @ ys) \<longleftrightarrow> holds_at ks stop at xs \<and> holds_at ks stop (at + length xs) ys"
  by (induction xs arbitrary: at) (auto simp: holds_at_Cons, auto simp: holds_at_def)

text \<open>The two loops as relations: how a value and a position run on to a result.\<close>

inductive runs :: "token_kind \<Rightarrow> (bool \<Rightarrow> bool \<Rightarrow> bool) \<Rightarrow> evaluator \<Rightarrow> kinds \<Rightarrow> nat
    \<Rightarrow> bool \<Rightarrow> nat \<Rightarrow> bool \<times> nat \<Rightarrow> bool" for k f operand ks stop where
  runs_stop: "cond_peek ks stop at \<noteq> Some k \<Longrightarrow> runs k f operand ks stop v at (v, at)"
| runs_step: "cond_peek ks stop at = Some k \<Longrightarrow> operand (Suc at) = Some (r, at') \<Longrightarrow> at < at' \<Longrightarrow>
    runs k f operand ks stop (f v r) at' res \<Longrightarrow> runs k f operand ks stop v at res"

lemma and_loop_runs:
  "runs T_KwAnd (\<and>) operand ks stop v at res \<Longrightarrow> stop - at < n \<Longrightarrow>
   cond_and_loop n operand ks stop v at = Some res"
proof (induction arbitrary: n rule: runs.induct)
  case (runs_stop at v)
  then show ?case
    by (cases n) simp_all
next
  case (runs_step at r at' v res)
  have "at < stop"
    using cond_peek_Some runs_step.hyps(1) .
  then show ?case
    using runs_step by (cases n) simp_all
qed

lemma or_loop_runs:
  "runs T_KwOr (\<or>) (cond_and operand ks stop) ks stop v at res \<Longrightarrow> stop - at < n \<Longrightarrow>
   cond_or_loop n operand ks stop v at = Some res"
proof (induction arbitrary: n rule: runs.induct)
  case (runs_stop at v)
  then show ?case
    by (cases n) simp_all
next
  case (runs_step at r at' v res)
  have "at < stop"
    using cond_peek_Some runs_step.hyps(1) .
  then show ?case
    using runs_step by (cases n) simp_all
qed

text \<open>What is to be shown of a condition at each of the three levels.\<close>

definition starts :: "token_kind \<Rightarrow> (bool \<Rightarrow> bool \<Rightarrow> bool) \<Rightarrow> evaluator \<Rightarrow> kinds \<Rightarrow> nat \<Rightarrow> nat \<Rightarrow> bool \<Rightarrow> nat \<Rightarrow> bool"
where
  "starts k f operand ks stop at v end_at \<longleftrightarrow>
     (\<exists>v0 at0. operand at = Some (v0, at0) \<and>
        (\<forall>res. runs k f operand ks stop v end_at res \<longrightarrow> runs k f operand ks stop v0 at0 res))"

lemma starts_operand: "operand at = Some (v, end_at) \<Longrightarrow> starts k f operand ks stop at v end_at"
  by (auto simp: starts_def)

lemma starts_more:
  assumes "starts k f operand ks stop at v mid" "cond_peek ks stop mid = Some k"
    "operand (Suc mid) = Some (r, end_at)" "mid < end_at"
  shows "starts k f operand ks stop at (f v r) end_at"
proof -
  obtain v0 at0 where s: "operand at = Some (v0, at0)"
    "\<And>res. runs k f operand ks stop v mid res \<Longrightarrow> runs k f operand ks stop v0 at0 res"
    using assms(1) unfolding starts_def by blast
  then show ?thesis
    unfolding starts_def using runs_step [where f = f and v = v and operand = operand, OF assms(2-4)] by blast
qed

lemma starts_result:
  assumes "starts k f operand ks stop at v end_at" "cond_peek ks stop end_at \<noteq> Some k"
  obtains v0 at0 where "operand at = Some (v0, at0)" "runs k f operand ks stop v0 at0 (v, end_at)"
  using assms runs_stop [OF assms(2), where f = f and v = v] unfolding starts_def by blast

lemma cond_and_starts:
  assumes "starts T_KwAnd (\<and>) operand ks stop at v end_at" "cond_peek ks stop end_at \<noteq> Some T_KwAnd"
  shows "cond_and operand ks stop at = Some (v, end_at)"
proof -
  obtain v0 at0 where r: "operand at = Some (v0, at0)"
    "runs T_KwAnd (\<and>) operand ks stop v0 at0 (v, end_at)"
    using starts_result [OF assms] .
  from and_loop_runs [OF r(2), of "Suc (stop - at0)"] r(1) show ?thesis
    by (simp add: cond_and_def del: cond_and_loop.simps)
qed

lemma cond_or_starts:
  assumes "starts T_KwOr (\<or>) (cond_and operand ks stop) ks stop at v end_at"
    "cond_peek ks stop end_at \<noteq> Some T_KwOr"
  shows "cond_or operand ks stop at = Some (v, end_at)"
proof -
  obtain v0 at0 where r: "cond_and operand ks stop at = Some (v0, at0)"
    "runs T_KwOr (\<or>) (cond_and operand ks stop) ks stop v0 at0 (v, end_at)"
    using starts_result [OF assms] .
  from or_loop_runs [OF r(2), of "Suc (stop - at0)"] r(1) show ?thesis
    by (simp add: cond_or_def del: cond_or_loop.simps)
qed

text \<open>The three levels of a condition.\<close>

definition operand_ok :: "kinds \<Rightarrow> nat \<Rightarrow> cond \<Rightarrow> bool" where
  "operand_ok ks stop c \<longleftrightarrow> (\<forall>at n. holds_at ks stop at (print_cond c 2) \<longrightarrow> stop - at < n \<longrightarrow>
     cond_operand n ks stop at = Some (cond_value c, at + length (print_cond c 2)))"

definition and_ok :: "kinds \<Rightarrow> nat \<Rightarrow> cond \<Rightarrow> bool" where
  "and_ok ks stop c \<longleftrightarrow> (\<forall>at n. holds_at ks stop at (print_cond c 1) \<longrightarrow> stop - at < n \<longrightarrow>
     starts T_KwAnd (\<and>) (cond_operand n ks stop) ks stop at (cond_value c) (at + length (print_cond c 1)))"

definition or_ok :: "kinds \<Rightarrow> nat \<Rightarrow> cond \<Rightarrow> bool" where
  "or_ok ks stop c \<longleftrightarrow> (\<forall>at n. holds_at ks stop at (print_cond c 0) \<longrightarrow> stop - at < n \<longrightarrow>
     cond_peek ks stop (at + length (print_cond c 0)) \<noteq> Some T_KwAnd \<longrightarrow>
     starts T_KwOr (\<or>) (cond_and (cond_operand n ks stop) ks stop) ks stop at (cond_value c)
       (at + length (print_cond c 0)))"

lemma and_ok_value:
  assumes "and_ok ks stop c" "holds_at ks stop at (print_cond c 1)" "stop - at < n"
    "cond_peek ks stop (at + length (print_cond c 1)) \<noteq> Some T_KwAnd"
  shows "cond_and (cond_operand n ks stop) ks stop at = Some (cond_value c, at + length (print_cond c 1))"
  using assms cond_and_starts unfolding and_ok_def by blast

lemma or_ok_value:
  assumes "or_ok ks stop c" "holds_at ks stop at (print_cond c 0)" "stop - at < n"
    "cond_peek ks stop (at + length (print_cond c 0)) \<noteq> Some T_KwAnd"
    "cond_peek ks stop (at + length (print_cond c 0)) \<noteq> Some T_KwOr"
  shows "cond_or (cond_operand n ks stop) ks stop at = Some (cond_value c, at + length (print_cond c 0))"
  using assms cond_or_starts unfolding or_ok_def by blast

text \<open>An operand may stand where a conjunction may, a conjunction where a disjunction may.\<close>

lemma and_ok_operand: "operand_ok ks stop c \<Longrightarrow> print_cond c 1 = print_cond c 2 \<Longrightarrow> and_ok ks stop c"
  unfolding operand_ok_def and_ok_def by (metis starts_operand)

lemma or_ok_and: "and_ok ks stop c \<Longrightarrow> print_cond c 0 = print_cond c 1 \<Longrightarrow> or_ok ks stop c"
  unfolding or_ok_def by (metis and_ok_value starts_operand)

lemma operand_ok_parens:
  assumes "or_ok ks stop c" "print_cond c 2 = T_LParen # print_cond c 0 @ [T_RParen]"
  shows "operand_ok ks stop c"
  unfolding operand_ok_def
proof (intro allI impI)
  fix at n
  assume h: "holds_at ks stop at (print_cond c 2)" and n: "stop - at < n"
  let ?fin = "Suc at + length (print_cond c 0)"
  have p: "cond_peek ks stop at = Some T_LParen" "holds_at ks stop (Suc at) (print_cond c 0)"
    "cond_peek ks stop ?fin = Some T_RParen"
    using h assms(2) by (simp_all add: holds_at_Cons holds_at_append)
  obtain m where m: "n = Suc m"
    using n by (cases n) auto
  have "at < stop"
    using cond_peek_Some [OF p(1)] .
  then have "cond_or (cond_operand m ks stop) ks stop (Suc at) = Some (cond_value c, ?fin)"
    using or_ok_value [OF assms(1) p(2), of m] p(3) n m by simp
  then show "cond_operand n ks stop at = Some (cond_value c, at + length (print_cond c 2))"
    using p assms(2) by (simp add: m)
qed

lemma and_ok_Conj:
  assumes "and_ok ks stop c" "operand_ok ks stop d"
  shows "and_ok ks stop (Conj c d)"
  unfolding and_ok_def
proof (intro allI impI)
  fix at n
  assume h: "holds_at ks stop at (print_cond (Conj c d) 1)" and n: "stop - at < n"
  let ?mid = "at + length (print_cond c 1)"
  have p: "holds_at ks stop at (print_cond c 1)" "cond_peek ks stop ?mid = Some T_KwAnd"
    "holds_at ks stop (Suc ?mid) (print_cond d 2)"
    using h by (simp_all add: in_parens_def holds_at_Cons holds_at_append)
  have "starts T_KwAnd (\<and>) (cond_operand n ks stop) ks stop at (cond_value c) ?mid"
    using assms(1) p(1) n unfolding and_ok_def by blast
  moreover have "cond_operand n ks stop (Suc ?mid) = Some (cond_value d, Suc ?mid + length (print_cond d 2))"
    using assms(2) p(3) n unfolding operand_ok_def by (metis diff_le_mono2 le_add1 le_SucI le_less_trans)
  ultimately show "starts T_KwAnd (\<and>) (cond_operand n ks stop) ks stop at (cond_value (Conj c d))
      (at + length (print_cond (Conj c d) 1))"
    using starts_more [OF _ p(2)] by (fastforce simp: in_parens_def)
qed

lemma or_ok_Disj:
  assumes "or_ok ks stop c" "and_ok ks stop d"
  shows "or_ok ks stop (Disj c d)"
  unfolding or_ok_def
proof (intro allI impI)
  fix at n
  assume h: "holds_at ks stop at (print_cond (Disj c d) 0)" and n: "stop - at < n"
    and last: "cond_peek ks stop (at + length (print_cond (Disj c d) 0)) \<noteq> Some T_KwAnd"
  let ?mid = "at + length (print_cond c 0)"
  have p: "holds_at ks stop at (print_cond c 0)" "cond_peek ks stop ?mid = Some T_KwOr"
    "holds_at ks stop (Suc ?mid) (print_cond d 1)"
    using h by (simp_all add: in_parens_def holds_at_Cons holds_at_append)
  have "starts T_KwOr (\<or>) (cond_and (cond_operand n ks stop) ks stop) ks stop at (cond_value c) ?mid"
    using assms(1) p(1,2) n unfolding or_ok_def by simp
  moreover have "cond_and (cond_operand n ks stop) ks stop (Suc ?mid)
      = Some (cond_value d, Suc ?mid + length (print_cond d 1))"
    using and_ok_value [OF assms(2) p(3), of n] n last by (simp add: in_parens_def add.assoc)
  ultimately show "starts T_KwOr (\<or>) (cond_and (cond_operand n ks stop) ks stop) ks stop at
      (cond_value (Disj c d)) (at + length (print_cond (Disj c d) 0))"
    using starts_more [OF _ p(2)] by (fastforce simp: in_parens_def)
qed

lemma operand_ok_Symbol: "operand_ok ks stop Symbol"
  unfolding operand_ok_def
proof (intro allI impI)
  fix at n
  assume "holds_at ks stop at (print_cond Symbol 2)" "stop - at < n"
  then show "cond_operand n ks stop at = Some (cond_value Symbol, at + length (print_cond Symbol 2))"
    by (cases n) (simp_all add: holds_at_Cons)
qed

lemma operand_ok_Negation:
  assumes "operand_ok ks stop c"
  shows "operand_ok ks stop (Negation c)"
  unfolding operand_ok_def
proof (intro allI impI)
  fix at n
  assume h: "holds_at ks stop at (print_cond (Negation c) 2)" and n: "stop - at < n"
  then have p: "cond_peek ks stop at = Some T_KwNot" "holds_at ks stop (Suc at) (print_cond c 2)"
    by (simp_all add: holds_at_Cons)
  obtain m where m: "n = Suc m" "stop - Suc at < m"
    using n cond_peek_Some [OF p(1)] by (cases n) auto
  then have "cond_operand m ks stop (Suc at) = Some (cond_value c, Suc at + length (print_cond c 2))"
    using assms p(2) unfolding operand_ok_def by blast
  then show "cond_operand n ks stop at = Some (cond_value (Negation c), at + length (print_cond (Negation c) 2))"
    using p(1) m by simp
qed

lemma cond_levels: "operand_ok ks stop c \<and> and_ok ks stop c \<and> or_ok ks stop c"
proof (induction c)
  case Symbol
  then show ?case
    using operand_ok_Symbol and_ok_operand or_ok_and by simp
next
  case (Negation c)
  then show ?case
    using operand_ok_Negation and_ok_operand or_ok_and by simp
next
  case (Conj c d)
  then have a: "and_ok ks stop (Conj c d)"
    using and_ok_Conj by blast
  then have o: "or_ok ks stop (Conj c d)"
    using or_ok_and by (simp add: in_parens_def)
  then show ?case
    using a operand_ok_parens by (simp add: in_parens_def)
next
  case (Disj c d)
  then have o: "or_ok ks stop (Disj c d)"
    using or_ok_Disj by blast
  then have "operand_ok ks stop (Disj c d)"
    using operand_ok_parens by (simp add: in_parens_def)
  then show ?case
    using o and_ok_operand by (simp add: in_parens_def)
qed

lemma cond_holds_print:
  "cond_holds (pre @ print_cond c 0 @ post) (length pre) (length pre + length (print_cond c 0)) = cond_value c"
proof -
  let ?ks = "pre @ print_cond c 0 @ post" and ?stop = "length pre + length (print_cond c 0)"
  have "holds_at ?ks ?stop (length pre) (print_cond c 0)"
    by (simp add: holds_at_def)
  from or_ok_value [OF _ this, of "Suc (?stop - length pre)"] cond_levels show ?thesis
    by (simp add: cond_holds_def cond_peek_def del: cond_operand.simps)
qed

end
