(* ===== verification/Text_Ops.thy ===== *)
theory Text_Ops
  imports Prelude
begin

text \<open>
  The operations of Rust's \<open>str\<close>, \<open>slice\<close> and \<open>u32\<close> that the position code uses: the
  UTF-8 bytes of a text, slicing at byte offsets (which panics between two characters),
  \<open>floor_char_boundary\<close>, the number of UTF-16 units, \<open>partition_point\<close> on a partitioned
  slice, casts to \<open>u32\<close> and checked arithmetic (as in a build with overflow checks).
\<close>

section \<open>Machine integers\<close>

definition u32_limit :: nat where
  "u32_limit = 2 ^ 32"

definition as_u32 :: "nat \<Rightarrow> nat" where
  "as_u32 n = n mod u32_limit"

definition u32_add :: "nat \<Rightarrow> nat \<Rightarrow> nat outcome" where
  "u32_add a b = (if a + b < u32_limit then Inr (a + b) else Inl Panic)"

definition u32_sub :: "nat \<Rightarrow> nat \<Rightarrow> nat outcome" where
  "u32_sub a b = (if b \<le> a then Inr (a - b) else Inl Panic)"

lemma u32_limit_pos [simp]: "0 < u32_limit"
  by (simp add: u32_limit_def)

lemma as_u32_id [simp]: "n < u32_limit \<Longrightarrow> as_u32 n = n"
  by (simp add: as_u32_def)

lemma u32_add_ok [simp]: "a + b < u32_limit \<Longrightarrow> u32_add a b = Inr (a + b)"
  by (simp add: u32_add_def)

lemma u32_sub_ok [simp]: "b \<le> a \<Longrightarrow> u32_sub a b = Inr (a - b)"
  by (simp add: u32_sub_def)


section \<open>Slices\<close>

text \<open>\<open>slice::partition_point\<close> of a slice whose elements satisfying the test come first.\<close>

definition partition_point :: "('a \<Rightarrow> bool) \<Rightarrow> 'a list \<Rightarrow> nat" where
  "partition_point P xs = length (takeWhile P xs)"

lemma partition_point_le: "partition_point P xs \<le> length xs"
  by (simp add: partition_point_def length_takeWhile_le)

lemma partition_point_before: "i < partition_point P xs \<Longrightarrow> P (xs ! i)"
  unfolding partition_point_def
  by (metis nth_mem set_takeWhileD takeWhile_nth)

lemma partition_point_at: "partition_point P xs < length xs \<Longrightarrow> \<not> P (xs ! partition_point P xs)"
  unfolding partition_point_def by (rule nth_length_takeWhile)

lemma partition_pointI:
  assumes "n \<le> length xs" and "\<And>i. i < n \<Longrightarrow> P (xs ! i)" and "n < length xs \<Longrightarrow> \<not> P (xs ! n)"
  shows "partition_point P xs = n"
proof (rule ccontr)
  assume "partition_point P xs \<noteq> n"
  then consider "partition_point P xs < n" | "n < partition_point P xs"
    by linarith
  then show False
    using assms partition_point_le [of P xs] partition_point_before [of n P xs]
      partition_point_at [of P xs] by (cases; fastforce)
qed

lemma partition_point_cong:
  "(\<And>x. x \<in> set xs \<Longrightarrow> P x = Q x) \<Longrightarrow> partition_point P xs = partition_point Q xs"
  by (auto simp: partition_point_def intro: takeWhile_cong arg_cong [where f = length])

lemma partition_point_count:
  assumes "sorted_wrt (<) xs"
  shows "partition_point (\<lambda>x. x < n) xs = card {x \<in> set xs. x < (n :: nat)}"
  using assms
proof (induction xs)
  case (Cons x xs)
  show ?case
  proof (cases "x < n")
    case True
    have "{y \<in> set (x # xs). y < n} = insert x {y \<in> set xs. y < n}" and "x \<notin> set xs"
      using Cons.prems True by auto
    then show ?thesis
      using Cons True by (simp add: partition_point_def)
  next
    case False
    then have "{y \<in> set (x # xs). y < n} = {}"
      using Cons.prems by auto
    then show ?thesis
      using False by (simp only: card.empty) (simp add: partition_point_def)
  qed
qed (simp add: partition_point_def)


section \<open>UTF-8\<close>

definition utf8_bytes :: "uchar \<Rightarrow> nat list" where
  "utf8_bytes c =
    (if c < 0x80 then [c]
     else if c < 0x800 then [0xC0 + c div 0x40, 0x80 + c mod 0x40]
     else if c < 0x10000 then [0xE0 + c div 0x1000, 0x80 + c div 0x40 mod 0x40, 0x80 + c mod 0x40]
     else [0xF0 + c div 0x40000, 0x80 + c div 0x1000 mod 0x40, 0x80 + c div 0x40 mod 0x40,
           0x80 + c mod 0x40])"

definition as_bytes :: "ustring \<Rightarrow> nat list" where
  "as_bytes s = concat (map utf8_bytes s)"

lemma length_utf8_bytes [simp]: "length (utf8_bytes c) = len_utf8 c"
  by (simp add: utf8_bytes_def len_utf8_def)

lemma as_bytes_simps [simp]:
  "as_bytes [] = []"
  "as_bytes (c # s) = utf8_bytes c @ as_bytes s"
  "as_bytes (s @ t) = as_bytes s @ as_bytes t"
  by (simp_all add: as_bytes_def)

lemma length_as_bytes [simp]: "length (as_bytes s) = str_len s"
  by (induction s) simp_all

text \<open>An ASCII byte of the encoding is an ASCII character of the text.\<close>

lemma utf8_bytes_ascii: "c < 0x80 \<Longrightarrow> utf8_bytes c = [c]"
  by (simp add: utf8_bytes_def)

lemma utf8_bytes_high: "0x80 \<le> c \<Longrightarrow> b \<in> set (utf8_bytes c) \<Longrightarrow> 0x80 \<le> b"
  by (auto simp: utf8_bytes_def split: if_splits)

lemma ascii_byte: "b < 0x80 \<Longrightarrow> b \<in> set (as_bytes s) \<longleftrightarrow> b \<in> set s"
proof (induction s)
  case (Cons c s)
  have "b \<in> set (utf8_bytes c) \<longleftrightarrow> b = c"
    using Cons.prems utf8_bytes_high [of c b] by (cases "c < 0x80") (auto simp: utf8_bytes_ascii)
  then show ?case
    using Cons by auto
qed simp


section \<open>Slicing\<close>

text \<open>The two parts of a text at a byte offset, none when the offset is inside a character.\<close>

fun str_split_at :: "ustring \<Rightarrow> nat \<Rightarrow> (ustring \<times> ustring) option" where
  "str_split_at [] n = (if n = 0 then Some ([], []) else None)"
| "str_split_at (c # s) n =
    (if n = 0 then Some ([], c # s)
     else if n < len_utf8 c then None
     else map_option (\<lambda>(a, b). (c # a, b)) (str_split_at s (n - len_utf8 c)))"

text \<open>\<open>&text[a..b]\<close>.\<close>

definition str_index :: "ustring \<Rightarrow> nat \<Rightarrow> nat \<Rightarrow> ustring outcome" where
  "str_index s a b =
    (if b < a then Inl Panic
     else case str_split_at s a of
       None \<Rightarrow> Inl Panic
     | Some (_, r) \<Rightarrow>
         (case str_split_at r (b - a) of None \<Rightarrow> Inl Panic | Some (m, _) \<Rightarrow> Inr m))"

text \<open>\<open>&text[a..]\<close>.\<close>

definition str_from :: "ustring \<Rightarrow> nat \<Rightarrow> ustring outcome" where
  "str_from s a = (case str_split_at s a of None \<Rightarrow> Inl Panic | Some (_, r) \<Rightarrow> Inr r)"

text \<open>\<open>str::floor_char_boundary\<close>: the last boundary at or before an offset.\<close>

fun floor_char_boundary :: "ustring \<Rightarrow> nat \<Rightarrow> nat" where
  "floor_char_boundary [] n = 0"
| "floor_char_boundary (c # s) n =
    (if n < len_utf8 c then 0 else len_utf8 c + floor_char_boundary s (n - len_utf8 c))"

text \<open>\<open>text.encode_utf16().count()\<close>.\<close>

definition utf16_count :: "ustring \<Rightarrow> nat" where
  "utf16_count s = sum_list (map len_utf16 s)"

lemma utf16_count_simps [simp]:
  "utf16_count [] = 0"
  "utf16_count (c # s) = len_utf16 c + utf16_count s"
  "utf16_count (s @ t) = utf16_count s + utf16_count t"
  by (simp_all add: utf16_count_def)

lemma str_split_at_append [simp]: "str_split_at (a @ b) (str_len a) = Some (a, b)"
  by (induction a) (cases b; simp)+

lemma str_split_atD: "str_split_at s n = Some (a, b) \<Longrightarrow> s = a @ b \<and> n = str_len a"
  by (induction s n arbitrary: a rule: str_split_at.induct) (auto split: if_splits)

lemma str_index_append:
  assumes "n = str_len a" and "m = str_len a + str_len b"
  shows "str_index (a @ b @ c) n m = Inr b"
  using assms by (simp add: str_index_def)

lemma str_index_0: "str_index (a @ b) 0 (str_len a) = Inr a"
  using str_index_append [of 0 "[]" _ a b] by simp

lemma str_from_append [simp]: "str_from (a @ b) (str_len a) = Inr b"
  by (simp add: str_from_def)

lemma floor_char_boundary_le: "floor_char_boundary s n \<le> n"
  by (induction s n rule: floor_char_boundary.induct) auto

lemma floor_char_boundary_append:
  "floor_char_boundary (a @ b) (str_len a + n) = str_len a + floor_char_boundary b n"
  by (induction a) simp_all

lemma floor_char_boundary_0 [simp]: "floor_char_boundary s 0 = 0"
  by (cases s) simp_all

lemma floor_char_boundary_prefix [simp]: "floor_char_boundary (a @ b) (str_len a) = str_len a"
  using floor_char_boundary_append [of a b 0] by simp

lemma floor_char_boundary_self [simp]: "floor_char_boundary a (str_len a) = str_len a"
  using floor_char_boundary_prefix [of a "[]"] by simp

lemma floor_char_boundary_split:
  obtains a b where "s = a @ b" and "str_len a = floor_char_boundary s n"
proof (induction s n arbitrary: thesis rule: floor_char_boundary.induct)
  case (2 c s n)
  show ?case
  proof (cases "n < len_utf8 c")
    case True
    show ?thesis
      by (rule 2(2) [of "[]" "c # s"]) (simp_all add: True)
  next
    case False
    obtain a b where "s = a @ b" and "str_len a = floor_char_boundary s (n - len_utf8 c)"
      using 2(1) [OF False] by blast
    then show ?thesis
      using 2(2) [of "c # a" b] False by simp
  qed
qed simp

end
