(* ===== verification/Line_Index.thy ===== *)
theory Line_Index
  imports Text_Ops
begin

text \<open>
  Line and column positions (\<open>line-index/src/lib.rs\<close>): the table of line starts of a
  text, the two-way conversion between byte offsets and line/column pairs, the columns
  in UTF-16 units and in code points, and the line splitter. Offsets and lines are
  \<open>u32\<close> values, kept as natural numbers with the casts and the overflow checks
  written out.
\<close>

section \<open>The table\<close>

record line_column =
  lc_line :: nat
  lc_col :: nat

record line_col_range =
  start_line :: nat
  start_character :: nat
  end_line :: nat
  end_character :: nat

record line_index =
  li_newlines :: "nat list"
  li_lone_cr_lines :: "nat list"
  li_len :: nat

definition LF :: nat where "LF = 10"
definition CR :: nat where "CR = 13"

text \<open>Whether the byte at an index ends a line: \<open>\r\n\<close> ends it at its \<open>\n\<close>.\<close>

definition byte_breaks_line :: "nat list \<Rightarrow> nat \<Rightarrow> nat \<Rightarrow> bool" where
  "byte_breaks_line bytes idx byte =
    (if byte = LF then True
     else if byte = CR then get bytes (idx + 1) \<noteq> Some LF
     else False)"

definition line_index_step ::
  "nat list \<Rightarrow> nat \<times> nat \<Rightarrow> nat list \<times> nat list \<Rightarrow> nat list \<times> nat list" where
  "line_index_step bytes = (\<lambda>(idx, byte) (newlines, lone_cr_lines).
    if byte_breaks_line bytes idx byte
    then (newlines @ [as_u32 (idx + 1)],
          if byte = CR then lone_cr_lines @ [as_u32 (length newlines)] else lone_cr_lines)
    else (newlines, lone_cr_lines))"

text \<open>\<open>TextSize::of\<close> panics on a text whose length is not a \<open>u32\<close>.\<close>

definition text_size_of :: "ustring \<Rightarrow> nat outcome" where
  "text_size_of text = (if str_len text < u32_limit then Inr (str_len text) else Inl Panic)"

definition line_index_new :: "ustring \<Rightarrow> line_index outcome" where
  "line_index_new text =
    (let bytes = as_bytes text;
         (newlines, lone_cr_lines) = fold (line_index_step bytes) (enumerate 0 bytes) ([], [])
     in and_then (text_size_of text) (\<lambda>len.
        Inr \<lparr>li_newlines = newlines, li_lone_cr_lines = lone_cr_lines, li_len = len\<rparr>))"


section \<open>Queries\<close>

definition len_lines :: "line_index \<Rightarrow> nat" where
  "len_lines li = as_u32 (length (li_newlines li) + 1)"

definition lf_line :: "line_index \<Rightarrow> nat \<Rightarrow> nat outcome" where
  "lf_line li line =
    u32_sub line (as_u32 (partition_point (\<lambda>lone_cr. lone_cr < line) (li_lone_cr_lines li)))"

definition try_line_start :: "line_index \<Rightarrow> nat \<Rightarrow> nat option" where
  "try_line_start li line = (if line = 0 then Some 0 else get (li_newlines li) (line - 1))"

definition line_start :: "line_index \<Rightarrow> nat \<Rightarrow> nat outcome" where
  "line_start li line = (case try_line_start li line of None \<Rightarrow> Inl Panic | Some s \<Rightarrow> Inr s)"

text \<open>The test of the byte before the line and of the text after its start.\<close>

definition is_cr_crlf_tail :: "line_index \<Rightarrow> ustring \<Rightarrow> nat \<Rightarrow> bool outcome" where
  "is_cr_crlf_tail li text line =
    (case try_line_start li line of
       None \<Rightarrow> Inr False
     | Some start \<Rightarrow>
         if start = 0 then Inr False
         else case get (as_bytes text) (start - 1) of
             None \<Rightarrow> Inl Panic
           | Some b \<Rightarrow>
               if b \<noteq> CR then Inr False
               else and_then (str_from text start) (\<lambda>rest. Inr (take 2 rest = [CR, LF])))"

definition estimated_heap :: "line_index \<Rightarrow> nat" where
  "estimated_heap li = length (li_newlines li) * 4 + length (li_lone_cr_lines li) * 4"

definition try_line_col :: "line_index \<Rightarrow> nat \<Rightarrow> line_column option outcome" where
  "try_line_col li offset =
    (if li_len li < offset then Inr None
     else let line = as_u32 (partition_point (\<lambda>nl. nl \<le> offset) (li_newlines li))
          in and_then (line_start li line) (\<lambda>s.
             and_then (u32_sub offset s) (\<lambda>col.
             Inr (Some \<lparr>lc_line = line, lc_col = col\<rparr>))))"

definition line_col :: "line_index \<Rightarrow> nat \<Rightarrow> line_column outcome" where
  "line_col li offset =
    and_then (try_line_col li offset) (\<lambda>r. case r of None \<Rightarrow> Inl Panic | Some lc \<Rightarrow> Inr lc)"

definition offset_of :: "line_index \<Rightarrow> line_column \<Rightarrow> nat option outcome" where
  "offset_of li lc =
    (case try_line_start li (lc_line lc) of
       None \<Rightarrow> Inr None
     | Some s \<Rightarrow> and_then (u32_add s (lc_col lc)) (\<lambda>pos. Inr (Some pos)))"

definition line_range :: "line_index \<Rightarrow> nat \<Rightarrow> text_range option outcome" where
  "line_range li line =
    (case try_line_start li line of
       None \<Rightarrow> Inr None
     | Some start \<Rightarrow>
         and_then
           (if line < length (li_newlines li) then u32_sub (li_newlines li ! line) 1
            else Inr (li_len li)) (\<lambda>e.
         and_then (text_range_new start e) (\<lambda>r. Inr (Some r))))"

definition line_len :: "line_index \<Rightarrow> nat \<Rightarrow> nat option outcome" where
  "line_len li line = and_then (line_range li line) (\<lambda>r. Inr (map_option (\<lambda>(a, b). b - a) r))"

definition text_len :: "line_index \<Rightarrow> nat" where
  "text_len li = li_len li"

text \<open>A \<open>let else\<close> on the range of a line.\<close>

definition with_line_range ::
  "line_index \<Rightarrow> nat \<Rightarrow> 'a \<Rightarrow> (nat \<Rightarrow> nat \<Rightarrow> 'a outcome) \<Rightarrow> 'a outcome" where
  "with_line_range li line absent f =
    and_then (line_range li line) (\<lambda>r. case r of None \<Rightarrow> Inr absent | Some (a, b) \<Rightarrow> f a b)"

definition safe_line_str :: "line_index \<Rightarrow> ustring \<Rightarrow> nat \<Rightarrow> ustring option outcome" where
  "safe_line_str li text line = with_line_range li line None (\<lambda>start e.
    let start = floor_char_boundary text (min start (str_len text));
        e = floor_char_boundary text (min e (str_len text))
    in and_then (str_index text start e) (\<lambda>s. Inr (Some s)))"

definition utf16_len :: "ustring \<Rightarrow> text_range \<Rightarrow> nat outcome" where
  "utf16_len text = (\<lambda>(start, e).
    let e = min e (str_len text);
        start = floor_char_boundary text start;
        e = floor_char_boundary text e
    in and_then (str_index text start e) (\<lambda>s. Inr (as_u32 (utf16_count s))))"

definition utf16_col :: "line_index \<Rightarrow> ustring \<Rightarrow> nat \<Rightarrow> nat \<Rightarrow> nat outcome" where
  "utf16_col li text line byte_col = with_line_range li line 0 (\<lambda>start e.
    let col_end = min (min (start + byte_col) (str_len text)) e;
        start = floor_char_boundary text start;
        col_end = floor_char_boundary text col_end
    in and_then (str_index text start col_end) (\<lambda>s. Inr (as_u32 (utf16_count s))))"

definition utf16_line_col_range ::
  "line_index \<Rightarrow> ustring \<Rightarrow> text_range \<Rightarrow> line_col_range option outcome" where
  "utf16_line_col_range li text = (\<lambda>(a, b).
    and_then (try_line_col li a) (\<lambda>s. case s of None \<Rightarrow> Inr None | Some s \<Rightarrow>
    and_then (try_line_col li b) (\<lambda>e. case e of None \<Rightarrow> Inr None | Some e \<Rightarrow>
    and_then (utf16_col li text (lc_line s) (lc_col s)) (\<lambda>sc.
    and_then (utf16_col li text (lc_line e) (lc_col e)) (\<lambda>ec.
      Inr (Some \<lparr>start_line = lc_line s, start_character = sc,
                 end_line = lc_line e, end_character = ec\<rparr>))))))"

text \<open>
  The loop over the characters of the line; the counters are \<open>u32\<close> and \<open>usize\<close> and stay
  below the length of the line.
\<close>

fun utf16_walk :: "nat \<Rightarrow> ustring \<Rightarrow> nat \<Rightarrow> nat \<Rightarrow> nat option" where
  "utf16_walk col [] u b = (if col \<le> u then Some (as_u32 b) else None)"
| "utf16_walk col (c # s) u b =
    (if col \<le> u then Some (as_u32 b) else utf16_walk col s (u + len_utf16 c) (b + len_utf8 c))"

definition utf16_col_to_byte_col ::
  "line_index \<Rightarrow> ustring \<Rightarrow> nat \<Rightarrow> nat \<Rightarrow> nat option outcome" where
  "utf16_col_to_byte_col li text line col =
    and_then (safe_line_str li text line) (\<lambda>s.
      case s of None \<Rightarrow> Inr None | Some line_text \<Rightarrow> Inr (utf16_walk col line_text 0 0))"

fun collect_lines :: "line_index \<Rightarrow> nat list \<Rightarrow> (nat \<times> text_range) list outcome" where
  "collect_lines li [] = Inr []"
| "collect_lines li (line # rest) =
    and_then (line_range li line) (\<lambda>r.
    and_then (collect_lines li rest) (\<lambda>rs.
      Inr (case r of None \<Rightarrow> rs | Some rg \<Rightarrow> (line, rg) # rs)))"

definition lines :: "line_index \<Rightarrow> (nat \<times> text_range) list outcome" where
  "lines li = collect_lines li [0..<len_lines li]"


section \<open>Splitting\<close>

definition is_break :: "uchar \<Rightarrow> bool" where
  "is_break c \<longleftrightarrow> c = LF \<or> c = CR"

text \<open>One call of the closure: the line and what is left; the terminator is one or two bytes.\<close>

definition next_line :: "ustring \<Rightarrow> ustring \<times> ustring" where
  "next_line rest =
    (let line = takeWhile (\<lambda>c. \<not> is_break c) rest;
         tail = dropWhile (\<lambda>c. \<not> is_break c) rest
     in if tail = [] then (rest, [])
        else if take 2 tail = [CR, LF] then (line, drop 2 tail) else (line, drop 1 tail))"




section \<open>Code points\<close>

definition byte_col_to_char_col :: "line_index \<Rightarrow> ustring \<Rightarrow> nat \<Rightarrow> nat \<Rightarrow> nat outcome" where
  "byte_col_to_char_col li text line byte_col = with_line_range li line 0 (\<lambda>start _.
    let col_end = min (start + byte_col) (str_len text);
        start = floor_char_boundary text start;
        col_end = floor_char_boundary text col_end
    in and_then (str_index text start col_end) (\<lambda>s. Inr (as_u32 (length s))))"

fun char_walk :: "nat \<Rightarrow> nat \<Rightarrow> ustring \<Rightarrow> nat \<Rightarrow> nat" where
  "char_walk col i [] b = b"
| "char_walk col i (c # s) b =
    (if as_u32 i = col then b else char_walk col (i + 1) s (b + len_utf8 c))"

definition char_col_to_byte_col ::
  "line_index \<Rightarrow> ustring \<Rightarrow> nat \<Rightarrow> nat \<Rightarrow> nat option outcome" where
  "char_col_to_byte_col li text line col =
    and_then (safe_line_str li text line) (\<lambda>s. Inr (map_option (\<lambda>t. char_walk col 0 t 0) s))"

definition line_char_len :: "line_index \<Rightarrow> ustring \<Rightarrow> nat \<Rightarrow> nat option outcome" where
  "line_char_len li text line =
    and_then (safe_line_str li text line) (\<lambda>s. Inr (map_option (\<lambda>t. as_u32 (length t)) s))"


section \<open>What the table holds\<close>

lemma CR_not_LF [simp]: "CR \<noteq> LF" "LF \<noteq> CR"
  by (simp_all add: CR_def LF_def)

definition break_positions :: "nat list \<Rightarrow> nat list" where
  "break_positions bytes = filter (\<lambda>i. byte_breaks_line bytes i (bytes ! i)) [0..<length bytes]"

text \<open>The ranks of the breaks that are a lone carriage return.\<close>

definition lone_ranks :: "nat list \<Rightarrow> nat list \<Rightarrow> nat list" where
  "lone_ranks bytes ps = filter (\<lambda>n. bytes ! (ps ! n) = CR) [0..<length ps]"

definition line_index_ok :: "line_index \<Rightarrow> bool" where
  "line_index_ok li \<longleftrightarrow>
     li_len li < u32_limit \<and>
     sorted_wrt (<) (li_newlines li) \<and>
     (\<forall>x \<in> set (li_newlines li). 0 < x \<and> x \<le> li_len li) \<and>
     sorted_wrt (<) (li_lone_cr_lines li) \<and>
     (\<forall>n \<in> set (li_lone_cr_lines li). n < length (li_newlines li))"

lemma enumerate_nth: "enumerate 0 xs = map (\<lambda>i. (i, xs ! i)) [0..<length xs]"
  by (rule nth_equalityI) (simp_all add: nth_enumerate_eq)

lemma lone_ranks_snoc:
  "lone_ranks bytes (ps @ [i]) =
     lone_ranks bytes ps @ (if bytes ! i = CR then [length ps] else [])"
proof -
  have "filter (\<lambda>n. bytes ! ((ps @ [i]) ! n) = CR) [0..<length ps] = lone_ranks bytes ps"
    unfolding lone_ranks_def by (rule filter_cong) (simp_all add: nth_append)
  then show ?thesis
    by (simp add: lone_ranks_def)
qed

lemma line_index_fold:
  assumes "k \<le> length bytes" and "length bytes < u32_limit"
  shows "fold (line_index_step bytes) (map (\<lambda>i. (i, bytes ! i)) [0..<k]) ([], []) =
    (let ps = filter (\<lambda>i. byte_breaks_line bytes i (bytes ! i)) [0..<k]
     in (map Suc ps, lone_ranks bytes ps))"
  using assms(1)
proof (induction k)
  case 0
  then show ?case by (simp add: lone_ranks_def)
next
  case (Suc k)
  define ps where "ps = filter (\<lambda>i. byte_breaks_line bytes i (bytes ! i)) [0..<k]"
  have "length ps \<le> k"
    unfolding ps_def by (metis diff_zero length_filter_le length_upt)
  then have "length ps < u32_limit" and "Suc k < u32_limit"
    using Suc.prems assms(2) by simp_all
  then show ?case
    using Suc by (simp add: line_index_step_def lone_ranks_snoc Let_def flip: ps_def)
qed

lemma line_index_new_eq:
  "line_index_new text =
    (if str_len text < u32_limit
     then Inr \<lparr>li_newlines = map Suc (break_positions (as_bytes text)),
               li_lone_cr_lines = lone_ranks (as_bytes text) (break_positions (as_bytes text)),
               li_len = str_len text\<rparr>
     else Inl Panic)"
  using line_index_fold [of "length (as_bytes text)" "as_bytes text"]
  by (auto simp: line_index_new_def enumerate_nth break_positions_def text_size_of_def Let_def
      split: prod.splits)

lemma break_positions_sorted: "sorted_wrt (<) (break_positions bytes)"
  unfolding break_positions_def by (rule sorted_wrt_filter) simp

lemma break_positions_distinct: "distinct (break_positions bytes)"
  by (simp add: break_positions_def)

lemma lone_ranks_sorted: "sorted_wrt (<) (lone_ranks bytes ps)"
  unfolding lone_ranks_def by (rule sorted_wrt_filter) simp

lemma set_break_positions:
  "set (break_positions bytes) = {i. i < length bytes \<and> byte_breaks_line bytes i (bytes ! i)}"
  by (auto simp: break_positions_def)

lemma line_index_new_ok:
  assumes "line_index_new text = Inr li"
  shows "line_index_ok li"
  using assms break_positions_sorted [of "as_bytes text"] lone_ranks_sorted
  by (auto simp: line_index_new_eq line_index_ok_def sorted_wrt_map set_break_positions
      lone_ranks_def split: if_splits)


section \<open>Offsets and positions\<close>

lemma line_index_okD:
  assumes "line_index_ok li"
  shows "li_len li < u32_limit"
    and "i < length (li_newlines li) \<Longrightarrow> 0 < li_newlines li ! i"
    and "i < length (li_newlines li) \<Longrightarrow> li_newlines li ! i \<le> li_len li"
    and "i < j \<Longrightarrow> j < length (li_newlines li) \<Longrightarrow> li_newlines li ! i < li_newlines li ! j"
  using assms by (auto simp: line_index_ok_def sorted_wrt_iff_nth_less)

lemma rank_below:
  assumes "sorted_wrt (<) xs" and "\<forall>x \<in> set xs. 0 < x" and "i < length xs"
  shows "i < (xs ! i :: nat)"
  using assms(3)
proof (induction i)
  case 0
  then show ?case
    using assms(2) by simp
next
  case (Suc i)
  then have "i < xs ! i" and "xs ! i < xs ! Suc i"
    using assms(1) by (auto simp: sorted_wrt_iff_nth_less)
  then show ?case
    by simp
qed

lemma newlines_short:
  assumes "line_index_ok li"
  shows "length (li_newlines li) < u32_limit"
proof (cases "length (li_newlines li)")
  case (Suc n)
  then have "n < li_newlines li ! n"
    using assms by (intro rank_below) (auto simp: line_index_ok_def)
  then show ?thesis
    using line_index_okD(1) [OF assms] line_index_okD(3) [OF assms, of n] Suc by simp
qed simp

lemma try_line_col_eq:
  assumes ok: "line_index_ok li" and "pos \<le> li_len li"
  defines "n \<equiv> partition_point (\<lambda>nl. nl \<le> pos) (li_newlines li)"
  defines "s \<equiv> (if n = 0 then 0 else li_newlines li ! (n - 1))"
  shows "try_line_col li pos = Inr (Some \<lparr>lc_line = n, lc_col = pos - s\<rparr>)"
    and "try_line_start li n = Some s" and "s \<le> pos"
    and "n \<le> length (li_newlines li)"
proof -
  show n: "n \<le> length (li_newlines li)"
    unfolding n_def by (rule partition_point_le)
  show s: "try_line_start li n = Some s"
    using n by (auto simp: try_line_start_def s_def get_def)
  show le: "s \<le> pos"
    using partition_point_before [of "n - 1" "\<lambda>nl. nl \<le> pos" "li_newlines li"]
    by (auto simp: s_def n_def)
  show "try_line_col li pos = Inr (Some \<lparr>lc_line = n, lc_col = pos - s\<rparr>)"
    using assms(2) n newlines_short [OF ok] s le
    by (simp add: try_line_col_def Let_def line_start_def flip: n_def)
qed

lemma offset_of_line_col:
  assumes "line_index_ok li" and "pos \<le> li_len li"
  shows "\<exists>lc. try_line_col li pos = Inr (Some lc) \<and> offset_of li lc = Inr (Some pos) \<and>
    lc_line lc \<le> length (li_newlines li)"
  using try_line_col_eq [OF assms] line_index_okD(1) [OF assms(1)] newlines_short [OF assms(1)] assms(2)
  by (auto simp: offset_of_def)


text \<open>The line of an offset is the number of breaks before it.\<close>

lemma partition_point_rank:
  assumes "sorted_wrt (<) ps"
  shows "partition_point (\<lambda>nl. nl \<le> pos) (map Suc ps) = card {i \<in> set ps. i < pos}"
  using partition_point_count [OF assms, of pos]
  by (simp add: partition_point_def takeWhile_map o_def Suc_le_eq)

lemma line_of_offset:
  assumes "line_index_new text = Inr li" and "pos \<le> str_len text"
  shows "\<exists>lc. try_line_col li pos = Inr (Some lc) \<and> offset_of li lc = Inr (Some pos) \<and>
    lc_line lc = card {i. i < pos \<and> byte_breaks_line (as_bytes text) i (as_bytes text ! i)}"
proof -
  have li: "li_len li = str_len text" "li_newlines li = map Suc (break_positions (as_bytes text))"
    using assms(1) by (auto simp: line_index_new_eq split: if_splits)
  have ok: "line_index_ok li"
    using assms(1) by (rule line_index_new_ok)
  have "{i \<in> set (break_positions (as_bytes text)). i < pos} =
      {i. i < pos \<and> byte_breaks_line (as_bytes text) i (as_bytes text ! i)}"
    using assms(2) by (auto simp: set_break_positions)
  then show ?thesis
    using try_line_col_eq [OF ok, of pos] line_index_okD(1) [OF ok] assms(2)
      partition_point_rank [OF break_positions_sorted, of pos "as_bytes text"]
    by (auto simp: li offset_of_def)
qed


section \<open>Lines as git counts them\<close>

lemma break_byte: "byte_breaks_line bytes i b \<Longrightarrow> b \<noteq> CR \<Longrightarrow> b = LF"
  by (auto simp: byte_breaks_line_def split: if_splits)

lemma lf_breaks [simp]: "byte_breaks_line bytes i LF"
  by (simp add: byte_breaks_line_def)

lemma lf_before:
  assumes "n \<le> length (break_positions bytes)"
  defines "s \<equiv> (if n = 0 then 0 else Suc (break_positions bytes ! (n - 1)))"
  shows "{i. i < s \<and> i < length bytes \<and> bytes ! i = LF} =
    (!) (break_positions bytes) ` {k. k < n \<and> bytes ! (break_positions bytes ! k) = LF}"
    (is "?L = ?R")
proof -
  let ?ps = "break_positions bytes"
  have less: "?ps ! k < ?ps ! m \<longleftrightarrow> k < m" if "k < length ?ps" "m < length ?ps" for k m
    using break_positions_sorted [of bytes] that
    by (metis linorder_neqE_nat order_less_asym sorted_wrt_nth_less)
  have "i \<in> ?R" if i: "i < s" "i < length bytes" "bytes ! i = LF" for i
  proof -
    have "i \<in> set ?ps"
      using i by (simp add: set_break_positions)
    then obtain k where k: "k < length ?ps" "?ps ! k = i"
      by (auto simp: in_set_conv_nth)
    then have "n \<noteq> 0" and "\<not> ?ps ! (n - 1) < ?ps ! k"
      using i(1) by (auto simp: s_def split: if_splits)
    then have "k < n"
      using assms(1) less [of "n - 1" k] k by linarith
    then show ?thesis
      using k i by auto
  qed
  moreover have "?ps ! k < s \<and> ?ps ! k < length bytes" if "k < n" for k
  proof -
    have "k < length ?ps" and "n - 1 < length ?ps" and "\<not> n - 1 < k" and "n \<noteq> 0"
      using that assms(1) by simp_all
    then show ?thesis
      using less [of "n - 1" k] nth_mem [of k ?ps]
      by (auto simp: s_def set_break_positions simp del: nth_mem)
  qed
  ultimately show ?thesis
    by auto
qed

lemma lf_line_eq:
  assumes new: "line_index_new text = Inr li" and start: "try_line_start li line = Some s"
  shows "lf_line li line = Inr (length (filter (\<lambda>b. b = LF) (take s (as_bytes text))))"
proof -
  let ?bytes = "as_bytes text"
  let ?ps = "break_positions ?bytes"
  let ?is = "\<lambda>c. {k. k < line \<and> ?bytes ! (?ps ! k) = c}"
  have li: "li_newlines li = map Suc ?ps" "li_lone_cr_lines li = lone_ranks ?bytes ?ps"
    and ok: "line_index_ok li"
    using new line_index_new_ok [OF new] by (auto simp: line_index_new_eq split: if_splits)
  have line: "line \<le> length ?ps" and s: "s = (if line = 0 then 0 else Suc (?ps ! (line - 1)))"
    using start by (auto simp: try_line_start_def li get_eq_Some split: if_splits)
  have fin: "finite (?is c)" for c
    by simp
  have lone: "partition_point (\<lambda>c. c < line) (li_lone_cr_lines li) = card (?is CR)"
    unfolding li partition_point_count [OF lone_ranks_sorted]
    using line by (intro arg_cong [where f = card]) (auto simp: lone_ranks_def)
  have "?is CR \<union> ?is LF = {..<line}"
    using line break_byte nth_mem [of _ ?ps] unfolding set_break_positions
    by (auto simp del: nth_mem) (metis (mono_tags, lifting) mem_Collect_eq order_less_le_trans)
  moreover have "?is CR \<inter> ?is LF = {}"
    by (auto simp: CR_def LF_def)
  ultimately have sum: "line = card (?is CR) + card (?is LF)"
    using card_Un_disjoint [OF fin fin, of CR LF] by simp
  have "inj_on ((!) ?ps) (?is LF)"
    using line by (intro inj_on_nth break_positions_distinct) auto
  moreover have "length (filter (\<lambda>b. b = LF) (take s ?bytes)) =
      card {i. i < s \<and> i < length ?bytes \<and> ?bytes ! i = LF}"
    by (auto simp: length_filter_conv_card intro!: arg_cong [where f = card])
  ultimately have "length (filter (\<lambda>b. b = LF) (take s ?bytes)) = card (?is LF)"
    using lf_before [OF line] by (simp add: card_image flip: s)
  moreover have "line < u32_limit"
    using line newlines_short [OF ok] by (simp add: li)
  ultimately show ?thesis
    using sum by (simp add: lf_line_def lone)
qed


section \<open>Lines of the splitter\<close>

text \<open>
  The reference: a text as a sequence of lines, each with the terminator that ends it;
  the last one has none.
\<close>

function pieces :: "ustring \<Rightarrow> (ustring \<times> ustring) list" where
  "pieces s =
    (let l = takeWhile (\<lambda>c. \<not> is_break c) s; r = dropWhile (\<lambda>c. \<not> is_break c) s
     in if r = [] then [(s, [])]
        else if take 2 r = [CR, LF] then (l, [CR, LF]) # pieces (drop 2 r)
        else (l, [hd r]) # pieces (drop 1 r))"
  by auto

termination
proof (relation "measure length")
  show "wf (measure (length :: ustring \<Rightarrow> nat))"
    by simp
  fix s l r :: ustring
  assume r: "r = dropWhile (\<lambda>c. \<not> is_break c) s" "r \<noteq> []"
  have "length r \<le> length s"
    unfolding r by (rule length_dropWhile_le)
  then show "(drop 2 r, s) \<in> measure length" and "(drop 1 r, s) \<in> measure length"
    using r(2) by (cases r; simp)+
qed

declare pieces.simps [simp del]

lemma pieces_cases:
  obtains (last_line) "pieces s = [(s, [])]" "\<forall>c \<in> set s. \<not> is_break c"
  | (crlf) l r where "s = l @ [CR, LF] @ r" "pieces s = (l, [CR, LF]) # pieces r"
      "\<forall>c \<in> set l. \<not> is_break c"
  | (single) l t r where "s = l @ [t] @ r" "pieces s = (l, [t]) # pieces r" "is_break t"
      "\<forall>c \<in> set l. \<not> is_break c" "t = CR \<Longrightarrow> take 1 r \<noteq> [LF]"
proof -
  let ?l = "takeWhile (\<lambda>c. \<not> is_break c) s" and ?r = "dropWhile (\<lambda>c. \<not> is_break c) s"
  have l: "\<forall>c \<in> set ?l. \<not> is_break c"
    by (auto dest: set_takeWhileD)
  have s: "s = ?l @ ?r"
    by simp
  show thesis
  proof (cases ?r)
    case Nil
    then have "pieces s = [(s, [])]"
      by (simp add: pieces.simps)
    then show thesis
      using last_line Nil by (auto simp: dropWhile_eq_Nil_conv)
  next
    case (Cons t r)
    have t: "is_break t"
      using Cons by (metis dropWhile_eq_Cons_conv)
    show thesis
    proof (cases "take 2 ?r = [CR, LF]")
      case True
      then have "?r = [CR, LF] @ drop 2 ?r"
        by (metis append_take_drop_id)
      moreover have "pieces s = (?l, [CR, LF]) # pieces (drop 2 ?r)"
        using True Cons by (subst pieces.simps) (simp add: Let_def)
      ultimately show thesis
        using crlf [of ?l "drop 2 ?r"] l s by simp
    next
      case False
      then have "pieces s = (?l, [t]) # pieces r"
        using Cons by (subst pieces.simps) (simp add: Let_def)
      moreover have "t = CR \<Longrightarrow> take 1 r \<noteq> [LF]"
        using False Cons by (cases r) auto
      ultimately show thesis
        using single [of ?l t r] s Cons t l by simp
    qed
  qed
qed



lemma breaks_shift:
  "byte_breaks_line (a @ b) (length a + i) x = byte_breaks_line b i x"
  by (simp add: byte_breaks_line_def get_append)

lemma upt_shift: "[n..<n + m] = map ((+) n) [0..<m]"
  by (induction m) simp_all

lemma break_positions_append:
  assumes "\<And>i. i < length a \<Longrightarrow>
    byte_breaks_line (a @ b) i (a ! i) \<longleftrightarrow> Suc i = length a" and "a \<noteq> []"
  shows "break_positions (a @ b) = (length a - 1) # map ((+) (length a)) (break_positions b)"
proof -
  obtain n where n: "length a = Suc n"
    using assms(2) by (cases "length a") auto
  have "filter (\<lambda>i. byte_breaks_line (a @ b) i ((a @ b) ! i)) [0..<length a] =
      filter (\<lambda>i. Suc i = length a) [0..<length a]"
    using assms(1) by (intro filter_cong) (simp_all add: nth_append)
  also have "\<dots> = [length a - 1]"
    by (simp add: n)
  finally have first: "filter (\<lambda>i. byte_breaks_line (a @ b) i ((a @ b) ! i)) [0..<length a] =
      [length a - 1]" .
  have "filter (\<lambda>i. byte_breaks_line (a @ b) i ((a @ b) ! i)) [length a..<length a + length b] =
      map ((+) (length a)) (break_positions b)"
    unfolding upt_shift [of "length a" "length b"]
    by (simp add: filter_map o_def break_positions_def breaks_shift)
  then show ?thesis
    using first upt_add_eq_append [of 0 "length a" "length b"]
    by (simp add: break_positions_def [of "a @ b"])
qed

lemma no_break_byte:
  assumes "\<forall>c \<in> set l. \<not> is_break c" and "i < str_len l"
  shows "as_bytes l ! i \<noteq> LF" and "as_bytes l ! i \<noteq> CR"
proof -
  have "as_bytes l ! i \<in> set (as_bytes l)"
    using assms(2) by simp
  then show "as_bytes l ! i \<noteq> LF" and "as_bytes l ! i \<noteq> CR"
    using assms(1) ascii_byte [of LF l] ascii_byte [of CR l]
    by (auto simp: is_break_def LF_def CR_def)
qed

lemma break_positions_none:
  assumes "\<forall>c \<in> set s. \<not> is_break c"
  shows "break_positions (as_bytes s) = []"
  using no_break_byte [OF assms]
  by (auto simp: break_positions_def filter_empty_conv byte_breaks_line_def)

lemma get_Cons_Suc [simp]: "get (x # xs) (Suc i) = get xs i"
  by (simp add: get_def)

lemma get_as_bytes_LF: "get (as_bytes r) 0 = Some LF \<longleftrightarrow> take 1 r = [LF]"
proof (cases r)
  case (Cons c r')
  then show ?thesis
    using utf8_bytes_high [of c LF] nth_mem [of 0 "utf8_bytes c"]
    by (cases "c < 0x80")
      (auto simp: get_append get_def nth_append LF_def utf8_bytes_ascii len_utf8_def simp del: nth_mem)
qed simp

lemma break_positions_single:
  assumes "\<forall>c \<in> set l. \<not> is_break c" and "is_break t" and "t = CR \<Longrightarrow> take 1 r \<noteq> [LF]"
  shows "break_positions (as_bytes (l @ [t] @ r)) =
    str_len l # map ((+) (str_len l + 1)) (break_positions (as_bytes r))"
proof -
  have t: "utf8_bytes t = [t]" "len_utf8 t = 1"
    using assms(2) by (auto simp: utf8_bytes_def len_utf8_def is_break_def LF_def CR_def)
  have "byte_breaks_line (as_bytes (l @ [t]) @ as_bytes r) i (as_bytes (l @ [t]) ! i) \<longleftrightarrow>
      Suc i = length (as_bytes (l @ [t]))" if "i < length (as_bytes (l @ [t]))" for i
    using that assms(2,3) no_break_byte [OF assms(1), of i] get_as_bytes_LF [of r]
    by (cases "i < str_len l")
      (auto simp: t nth_append byte_breaks_line_def get_append is_break_def less_Suc_eq)
  from break_positions_append [of "as_bytes (l @ [t])" "as_bytes r", OF this] show ?thesis
    by (simp add: t)
qed

lemma break_positions_crlf:
  assumes "\<forall>c \<in> set l. \<not> is_break c"
  shows "break_positions (as_bytes (l @ [CR, LF] @ r)) =
    (str_len l + 1) # map ((+) (str_len l + 2)) (break_positions (as_bytes r))"
proof -
  have t: "utf8_bytes CR = [CR]" "utf8_bytes LF = [LF]" "len_utf8 CR = 1" "len_utf8 LF = 1"
    by (simp_all add: utf8_bytes_def len_utf8_def LF_def CR_def)
  have "byte_breaks_line (as_bytes (l @ [CR, LF]) @ as_bytes r) i (as_bytes (l @ [CR, LF]) ! i) \<longleftrightarrow>
      Suc i = length (as_bytes (l @ [CR, LF]))" if i: "i < length (as_bytes (l @ [CR, LF]))" for i
  proof -
    consider "i < str_len l" | "i = str_len l" | "i = Suc (str_len l)"
      using i by (auto simp: t less_Suc_eq)
    then show ?thesis
      using no_break_byte [OF assms, of i]
      by cases (auto simp: t nth_append byte_breaks_line_def get_def)
  qed
  from break_positions_append [of "as_bytes (l @ [CR, LF])" "as_bytes r", OF this] show ?thesis
    by (simp add: t)
qed


text \<open>
  Where the lines of the table begin and end, as lists: the line at an index of the
  reference is the text between the two offsets, up to the last byte of its terminator.
\<close>

definition line_starts :: "ustring \<Rightarrow> nat list" where
  "line_starts s = 0 # map Suc (break_positions (as_bytes s))"

definition line_ends :: "ustring \<Rightarrow> nat list" where
  "line_ends s = break_positions (as_bytes s) @ [str_len s]"

lemma line_starts_ends_append:
  assumes "break_positions (as_bytes (p @ r)) =
    (str_len p - 1) # map ((+) (str_len p)) (break_positions (as_bytes r))" and "p \<noteq> []"
  shows "line_starts (p @ r) = 0 # map ((+) (str_len p)) (line_starts r)"
    and "line_ends (p @ r) = (str_len p - 1) # map ((+) (str_len p)) (line_ends r)"
proof -
  have "0 < str_len p"
    using assms(2) by (cases p) simp_all
  then show "line_starts (p @ r) = 0 # map ((+) (str_len p)) (line_starts r)"
    and "line_ends (p @ r) = (str_len p - 1) # map ((+) (str_len p)) (line_ends r)"
    using assms(1) by (simp_all add: line_starts_def line_ends_def o_def)
qed

lemma pieces_positions:
  obtains (last_line) "pieces s = [(s, [])]" "line_starts s = [0]" "line_ends s = [str_len s]"
      "\<forall>c \<in> set s. \<not> is_break c"
  | (more) l t r where "s = (l @ t) @ r" "t \<noteq> []" "pieces s = (l, t) # pieces r"
      "line_starts s = 0 # map ((+) (str_len (l @ t))) (line_starts r)"
      "line_ends s = str_len (l @ butlast t) # map ((+) (str_len (l @ t))) (line_ends r)"
      "next_line s = (l, r)" "\<forall>c \<in> set l. \<not> is_break c"
proof (cases rule: pieces_cases [of s, case_names last_line crlf single])
  case last_line
  then show thesis
    using that(1) by (simp add: line_starts_def line_ends_def break_positions_none)
next
  case (crlf l r)
  have "len_utf8 CR = 1" "len_utf8 LF = 1" "is_break CR"
    by (simp_all add: len_utf8_def LF_def CR_def is_break_def)
  moreover have "takeWhile (\<lambda>c. \<not> is_break c) s = l"
    and "dropWhile (\<lambda>c. \<not> is_break c) s = [CR, LF] @ r"
    using crlf(1,3) \<open>is_break CR\<close> by (simp_all add: takeWhile_append dropWhile_append)
  ultimately show thesis
    using that(2) [of l "[CR, LF]" r] crlf line_starts_ends_append [of "l @ [CR, LF]" r]
      break_positions_crlf [of l r] by (simp add: next_line_def)
next
  case (single l t r)
  have "len_utf8 t = 1"
    using single(3) by (auto simp: len_utf8_def LF_def CR_def is_break_def)
  moreover have "takeWhile (\<lambda>c. \<not> is_break c) s = l"
    and "dropWhile (\<lambda>c. \<not> is_break c) s = t # r"
    using single(1,3,4) by (simp_all add: takeWhile_append dropWhile_append)
  moreover have "take 2 (t # r) \<noteq> [CR, LF]"
    using single(5) by (cases r) auto
  ultimately show thesis
    using that(2) [of l "[t]" r] single line_starts_ends_append [of "l @ [t]" r]
      break_positions_single [of l t r] by (auto simp: next_line_def Let_def)
qed

lemma line_text:
  assumes "n < length (pieces s)"
  shows "n < length (line_starts s) \<and> n < length (line_ends s) \<and>
    (\<exists>a b. s = a @ (fst (pieces s ! n) @ butlast (snd (pieces s ! n))) @ b \<and>
      line_starts s ! n = str_len a \<and>
      line_ends s ! n = str_len a + str_len (fst (pieces s ! n) @ butlast (snd (pieces s ! n))))"
  using assms
proof (induction s arbitrary: n rule: length_induct)
  case (1 s)
  show ?case
  proof (cases rule: pieces_positions [of s, case_names last_line more])
    case last_line
    then show ?thesis
      using 1(2) by (intro conjI exI [of _ "[]"]) simp_all
  next
    case (more l t r)
    show ?thesis
    proof (cases n)
      case 0
      have "s = [] @ (l @ butlast t) @ (last t # r)"
        using more(1,2) by simp
      then show ?thesis
        using more 0 by (intro conjI exI [of _ "[]"] exI [of _ "last t # r"]) simp_all
    next
      case (Suc m)
      have "length r < length s"
        using more(1,2) by simp
      then have "m < length (line_starts r) \<and> m < length (line_ends r) \<and>
        (\<exists>a b. r = a @ (fst (pieces r ! m) @ butlast (snd (pieces r ! m))) @ b \<and>
          line_starts r ! m = str_len a \<and>
          line_ends r ! m = str_len a + str_len (fst (pieces r ! m) @ butlast (snd (pieces r ! m))))"
        using 1 more(3) Suc by simp
      then obtain a b where "m < length (line_starts r)" "m < length (line_ends r)"
        "r = a @ (fst (pieces r ! m) @ butlast (snd (pieces r ! m))) @ b"
        "line_starts r ! m = str_len a"
        "line_ends r ! m = str_len a + str_len (fst (pieces r ! m) @ butlast (snd (pieces r ! m)))"
        by blast
      then show ?thesis
        using more(1,3,4,5) Suc
        by (intro conjI exI [of _ "(l @ t) @ a"] exI [of _ b]) simp_all
    qed
  qed
qed


lemma length_pieces: "length (pieces s) = length (line_starts s)"
proof (induction s rule: length_induct)
  case (1 s)
  show ?case
    by (rule pieces_positions [of s]) (use 1 in auto)
qed

lemma pieces_not_Nil [simp]: "pieces s \<noteq> []"
  using length_pieces [of s] by (auto simp: line_starts_def)




text \<open>The queries on the table of the text itself.\<close>

lemma line_range_new:
  assumes "line_index_new s = Inr li"
  shows "line_range li n =
    Inr (if n < length (pieces s) then Some (line_starts s ! n, line_ends s ! n) else None)"
proof -
  let ?ps = "break_positions (as_bytes s)"
  have li: "li_newlines li = map Suc ?ps" "li_len li = str_len s"
    using assms by (auto simp: line_index_new_eq split: if_splits)
  show ?thesis
  proof (cases "n < length (pieces s)")
    case True
    then have n: "n < Suc (length ?ps)"
      by (simp add: length_pieces line_starts_def)
    have "try_line_start li n = Some (line_starts s ! n)"
      using n by (cases n) (auto simp: try_line_start_def li line_starts_def)
    moreover have "(if n < length (li_newlines li) then u32_sub (li_newlines li ! n) 1
        else Inr (li_len li)) = Inr (line_ends s ! n)"
      using n by (auto simp: li line_ends_def nth_append)
    moreover have "line_starts s ! n \<le> line_ends s ! n"
      using line_text [OF True] by auto
    ultimately show ?thesis
      using True by (simp add: line_range_def text_range_new_def)
  next
    case False
    then have "try_line_start li n = None"
      by (cases n) (auto simp: try_line_start_def li length_pieces line_starts_def)
    then show ?thesis
      using False by (simp add: line_range_def)
  qed
qed

definition line_string :: "ustring \<Rightarrow> nat \<Rightarrow> ustring" where
  "line_string s n = fst (pieces s ! n) @ butlast (snd (pieces s ! n))"

lemma line_string_at:
  assumes "n < length (pieces s)"
  obtains a b where "s = a @ line_string s n @ b" and "line_starts s ! n = str_len a"
    and "line_ends s ! n = str_len a + str_len (line_string s n)"
  using line_text [OF assms] unfolding line_string_def by blast

lemma safe_line_str_new:
  assumes "line_index_new s = Inr li"
  shows "safe_line_str li s n =
    Inr (if n < length (pieces s) then Some (line_string s n) else None)"
proof (cases "n < length (pieces s)")
  case True
  then obtain a b where ab: "s = a @ line_string s n @ b" "line_starts s ! n = str_len a"
    "line_ends s ! n = str_len a + str_len (line_string s n)"
    by (rule line_string_at)
  have "str_len s = str_len a + str_len (line_string s n) + str_len b"
    by (subst ab(1)) simp
  moreover have "floor_char_boundary s (str_len a) = str_len a"
    by (subst ab(1)) simp
  moreover have "floor_char_boundary s (str_len (a @ line_string s n)) = str_len (a @ line_string s n)"
    by (subst ab(1)) (metis append_assoc floor_char_boundary_prefix)
  moreover have "str_index s (str_len a) (str_len a + str_len (line_string s n)) =
      Inr (line_string s n)"
    by (subst ab(1)) (rule str_index_append; simp)
  ultimately show ?thesis
    using True by (simp add: safe_line_str_def with_line_range_def line_range_new [OF assms] ab(2,3))
qed (simp add: safe_line_str_def with_line_range_def line_range_new [OF assms])

lemma utf16_count_le: "utf16_count s \<le> str_len s"
proof (induction s)
  case (Cons c s)
  have "len_utf16 c \<le> len_utf8 c"
    by (simp add: len_utf16_def len_utf8_def)
  then show ?case
    using Cons by simp
qed simp

lemma utf16_col_new:
  assumes new: "line_index_new s = Inr li" and n: "n < length (pieces s)"
    and line: "line_string s n = p @ q"
  shows "utf16_col li s n (str_len p) = Inr (utf16_count p)"
proof -
  obtain a b where ab: "s = a @ line_string s n @ b" "line_starts s ! n = str_len a"
    "line_ends s ! n = str_len a + str_len (line_string s n)"
    using n by (rule line_string_at)
  have s: "s = a @ p @ q @ b"
    by (subst ab(1)) (simp add: line)
  have "str_len s = str_len a + str_len p + str_len q + str_len b"
    by (subst s) simp
  moreover have "floor_char_boundary s (str_len a) = str_len a"
    by (subst s) simp
  moreover have "floor_char_boundary s (str_len (a @ p)) = str_len (a @ p)"
    by (subst s) (metis append_assoc floor_char_boundary_prefix)
  moreover have "str_index s (str_len a) (str_len a + str_len p) = Inr p"
    by (subst s) (rule str_index_append; simp)
  moreover have "utf16_count p < u32_limit"
    using new calculation(1) utf16_count_le [of p]
    by (auto simp: line_index_new_eq split: if_splits)
  ultimately show ?thesis
    using n by (simp add: utf16_col_def with_line_range_def line_range_new [OF new] ab(2,3) line)
qed

lemma len_utf16_not_0 [simp]: "len_utf16 c \<noteq> 0"
  by (simp add: len_utf16_def)

lemma utf16_walk_prefix:
  "str_len p + b < u32_limit \<Longrightarrow> utf16_walk (u + utf16_count p) (p @ q) u b = Some (b + str_len p)"
proof (induction p arbitrary: u b)
  case Nil
  then show ?case
    by (cases q) simp_all
next
  case (Cons c p)
  then show ?case
    using Cons(1) [of "b + len_utf8 c" "u + len_utf16 c"] Cons(2) by (simp add: add.assoc)
qed

lemma utf16_col_to_byte_col_new:
  assumes new: "line_index_new s = Inr li" and n: "n < length (pieces s)"
    and line: "line_string s n = p @ q"
  shows "utf16_col_to_byte_col li s n (utf16_count p) = Inr (Some (str_len p))"
proof -
  obtain a b where "s = a @ line_string s n @ b"
    using line_string_at [OF n] by metis
  then have "str_len p \<le> str_len s"
    by (metis line str_len_append le_add1 le_add2 order_trans)
  then have "str_len p < u32_limit"
    using new by (auto simp: line_index_new_eq split: if_splits)
  then show ?thesis
    using n utf16_walk_prefix [of p 0 0 q]
    by (simp add: utf16_col_to_byte_col_def safe_line_str_new [OF new] line)
qed


section \<open>Properties\<close>

text \<open>
  C25. Offsets and positions are inverse: for a text whose length is a \<open>u32\<close> the table is
  built, every offset up to the length has a line and a column, that line is the number
  of line breaks before the offset (\<open>\r\n\<close> counting once), the way back gives the offset,
  and an offset behind the text has no position.
\<close>

theorem line_col_roundtrip:
  assumes "str_len text < 2 ^ 32"
  shows "\<exists>li. line_index_new text = Inr li \<and> line_index_ok li \<and>
    (\<forall>pos \<le> str_len text. \<exists>lc. line_col li pos = Inr lc \<and>
       offset_of li lc = Inr (Some pos) \<and>
       lc_line lc = card {i. i < pos \<and> byte_breaks_line (as_bytes text) i (as_bytes text ! i)}) \<and>
    (\<forall>pos > str_len text. try_line_col li pos = Inr None)"
proof -
  obtain li where li: "line_index_new text = Inr li" "li_len li = str_len text"
    using assms by (simp add: line_index_new_eq u32_limit_def)
  then show ?thesis
    using line_index_new_ok [OF li(1)] line_of_offset [OF li(1)]
    by (fastforce simp: line_col_def try_line_col_def)
qed

theorem line_col_roundtrip_witness:
  "\<exists>li. line_index_new (ascii ''a'' @ [CR, LF, 1076]) = Inr li \<and>
     (\<exists>lc. line_col li 5 = Inr lc \<and> offset_of li lc = Inr (Some 5))"
proof -
  have "str_len (ascii ''a'' @ [CR, LF, 1076]) = 5"
    by (simp add: ascii_def len_utf8_def CR_def LF_def)
  then show ?thesis
    using line_col_roundtrip [of "ascii ''a'' @ [CR, LF, 1076]"] by fastforce
qed

text \<open>
  C26. \<open>lf_line\<close> never underflows and is the number of \<open>\n\<close> bytes before the start of the
  line: the line as a counter of \<open>\n\<close> alone sees it.
\<close>

theorem lf_line_counts:
  assumes "line_index_new text = Inr li" and "try_line_start li line = Some s"
  shows "lf_line li line = Inr (length (filter (\<lambda>b. b = 10) (take s (as_bytes text))))"
  using lf_line_eq [OF assms] by (simp add: LF_def)

theorem lf_line_counts_witness:
  "\<exists>li. line_index_new [97, 13, 98, 10, 99] = Inr li \<and> lf_line li 2 = Inr 1"
proof -
  let ?li = "\<lparr>li_newlines = [2, 4], li_lone_cr_lines = [0], li_len = 5\<rparr>"
  have "line_index_new [97, 13, 98, 10, 99] = Inr ?li"
    by (simp add: line_index_new_def line_index_step_def byte_breaks_line_def text_size_of_def
        as_bytes_def utf8_bytes_def len_utf8_def CR_def LF_def u32_limit_def as_u32_def get_def
        str_len_def)
  moreover from lf_line_counts [OF this, of 2 4] have "lf_line ?li 2 = Inr 1"
    by (simp add: try_line_start_def get_def as_bytes_def utf8_bytes_def)
  ultimately show ?thesis
    by blast
qed


lemma sample_index:
  "line_index_new [97, 13, 10, 98] = Inr \<lparr>li_newlines = [3], li_lone_cr_lines = [], li_len = 4\<rparr>"
  by (simp add: line_index_new_def line_index_step_def byte_breaks_line_def text_size_of_def
      as_bytes_def utf8_bytes_def len_utf8_def CR_def LF_def u32_limit_def as_u32_def get_def
      str_len_def)

lemma sample_pieces: "pieces [97, 13, 10, 98] = [([97], [13, 10]), ([98], [])]"
  by (simp add: pieces.simps is_break_def CR_def LF_def Let_def)


text \<open>
  C28. The columns of the editor protocol are lossless: at every character boundary of a
  line (the text before it is \<open>p\<close>) the byte column converts to the number of UTF-16 units
  of \<open>p\<close>, and that column converts back to the byte column.
\<close>

theorem utf16_roundtrip:
  assumes "line_index_new text = Inr li" and "safe_line_str li text line = Inr (Some (p @ q))"
  shows "utf16_col li text line (str_len p) = Inr (utf16_count p) \<and>
    utf16_col_to_byte_col li text line (utf16_count p) = Inr (Some (str_len p))"
proof -
  have "line < length (pieces text)" and "line_string text line = p @ q"
    using assms(2) safe_line_str_new [OF assms(1), of line] by (auto split: if_splits)
  then show ?thesis
    using utf16_col_new [OF assms(1)] utf16_col_to_byte_col_new [OF assms(1)] by blast
qed

theorem utf16_roundtrip_witness:
  "utf16_col \<lparr>li_newlines = [3], li_lone_cr_lines = [], li_len = 4\<rparr> [97, 13, 10, 98] 0 1 = Inr 1 \<and>
   utf16_col_to_byte_col \<lparr>li_newlines = [3], li_lone_cr_lines = [], li_len = 4\<rparr>
     [97, 13, 10, 98] 0 1 = Inr (Some 1)"
  using utf16_roundtrip [OF sample_index, of 0 "[97]" "[13]"]
  by (simp add: safe_line_str_new [OF sample_index] sample_pieces line_string_def
      len_utf8_def len_utf16_def)

end
