(* ===== verification/Hir.thy ===== *)
theory Hir
  imports Prelude
begin

text \<open>
  The lowered body of a method (\<open>hir-def/src/hir.rs\<close>, \<open>body.rs\<close>) as far as control flow
  reads it: statements in an arena, referring to each other and to expressions and
  bindings by index. Reading the arena outside its bounds panics.
\<close>

type_synonym name = ustring
type_synonym expr_idx = nat
type_synonym stmt_idx = nat
type_synonym binding_idx = nat
type_synonym local_range = text_range

datatype env_symbol =
    PS_Client | PS_Server | PS_ThinClient | PS_WebClient | PS_MobileClient
  | PS_ThickClientOrdinaryApplication | PS_ThickClientManagedApplication
  | PS_ExternalConnection | PS_MobileAppRuntime | PS_Unrecognized

datatype preproc_condition =
    PC_Symbol env_symbol
  | PC_Not preproc_condition
  | PC_And preproc_condition preproc_condition
  | PC_Or preproc_condition preproc_condition
  | PC_Unknown

record hir_if_stmt =
  if_condition :: expr_idx
  if_then :: "stmt_idx list"
  if_elsifs :: "(expr_idx \<times> stmt_idx list) list"
  if_else :: "stmt_idx list option"

record preproc_if_stmt =
  pp_condition_range :: local_range
  pp_directive_range :: local_range
  pp_full_range :: local_range
  pp_condition :: preproc_condition
  pp_then :: "stmt_idx list"
  pp_elsifs :: "(local_range \<times> local_range \<times> stmt_idx list) list"
  pp_elsif_conditions :: "preproc_condition list"
  pp_else :: "stmt_idx list option"

datatype pre_branch_kind = PB_Then | PB_ElsIf nat | PB_Else

record pre_branch =
  br_kind :: pre_branch_kind
  br_condition_range :: "local_range option"
  br_directive_range :: "local_range option"
  br_stmts :: "stmt_idx list"

definition preproc_branches :: "preproc_if_stmt \<Rightarrow> pre_branch list" where
  "preproc_branches s =
    \<lparr>br_kind = PB_Then, br_condition_range = Some (pp_condition_range s),
     br_directive_range = Some (pp_directive_range s), br_stmts = pp_then s\<rparr>
    # map (\<lambda>(i, (c, d, stmts)).
        \<lparr>br_kind = PB_ElsIf i, br_condition_range = Some c,
         br_directive_range = Some d, br_stmts = stmts\<rparr>) (enumerate 0 (pp_elsifs s))
    @ (case pp_else s of None \<Rightarrow> []
       | Some stmts \<Rightarrow> [\<lparr>br_kind = PB_Else, br_condition_range = None,
           br_directive_range = None, br_stmts = stmts\<rparr>])"

datatype stmt =
    S_Expr expr_idx
  | S_Assign expr_idx expr_idx
  | S_VarDecl "binding_idx list"
  | S_If hir_if_stmt
  | S_PreprocIf preproc_if_stmt
  | S_While expr_idx "stmt_idx list"
  | S_For binding_idx expr_idx expr_idx "stmt_idx list"
  | S_ForEach binding_idx expr_idx "stmt_idx list"
  | S_Try "stmt_idx list" "stmt_idx list"
  | S_Return "expr_idx option"
  | S_Raise "expr_idx option"
  | S_Break
  | S_Continue
  | S_Goto name
  | S_Label name
  | S_Execute expr_idx
  | S_AddHandler expr_idx expr_idx
  | S_RemoveHandler expr_idx expr_idx

record hir_body =
  body_stmt_arena :: "stmt list"
  body_top :: "stmt_idx list"
  body_recovered_exprs :: "expr_idx set"

definition stmt_at :: "hir_body \<Rightarrow> stmt_idx \<Rightarrow> stmt outcome" where
  "stmt_at body i =
    (case get (body_stmt_arena body) i of None \<Rightarrow> Inl Panic | Some s \<Rightarrow> Inr s)"

definition is_recovered :: "hir_body \<Rightarrow> expr_idx \<Rightarrow> bool" where
  "is_recovered body e \<longleftrightarrow> e \<in> body_recovered_exprs body"

definition is_terminator :: "stmt \<Rightarrow> bool" where
  "is_terminator s = (case s of S_Return _ \<Rightarrow> True | S_Raise _ \<Rightarrow> True | _ \<Rightarrow> False)"


section \<open>Shape of a lowered body\<close>

text \<open>
  The statements nested in a statement, in the order of the text. Lowering allocates
  them before the statement that holds them, so their indices are smaller.
\<close>

definition child_lists :: "stmt \<Rightarrow> stmt_idx list list" where
  "child_lists s =
    (case s of
       S_If i \<Rightarrow> if_then i # map snd (if_elsifs i) @ (case if_else i of None \<Rightarrow> [] | Some e \<Rightarrow> [e])
     | S_PreprocIf p \<Rightarrow> map br_stmts (preproc_branches p)
     | S_While _ b \<Rightarrow> [b]
     | S_For _ _ _ b \<Rightarrow> [b]
     | S_ForEach _ _ b \<Rightarrow> [b]
     | S_Try b e \<Rightarrow> [b, e]
     | _ \<Rightarrow> [])"

definition body_ok :: "hir_body \<Rightarrow> bool" where
  "body_ok body \<longleftrightarrow>
     (\<forall>i < length (body_stmt_arena body).
        \<forall>c \<in> set (concat (child_lists (body_stmt_arena body ! i))). c < i) \<and>
     (\<forall>i \<in> set (body_top body). i < length (body_stmt_arena body))"

lemma stmt_at_ok: "i < length (body_stmt_arena body) \<Longrightarrow> stmt_at body i = Inr (body_stmt_arena body ! i)"
  by (simp add: stmt_at_def)

end
