(* ===== verification/Cfg_Graph.thy ===== *)
theory Cfg_Graph
  imports Hir "HOL-Library.Multiset"
begin

text \<open>
  The control-flow graph (\<open>cfg/src/edge.rs\<close>, \<open>vertex.rs\<close>, \<open>graph.rs\<close>). The graph library
  underneath (\<open>petgraph\<close>) is a parameter: a record of its operations on an unknown type
  of graphs. What the code relies on of it is the locale \<open>digraph_laws\<close>: a graph is a
  list of vertices and a bag of edges, and each operation does to them what its
  documentation says.
\<close>

section \<open>Edges and vertices\<close>

datatype cfg_edge_type = Unconditional | TrueBranch | FalseBranch | Exception | Unexecutable

definition is_executable :: "cfg_edge_type \<Rightarrow> bool" where
  "is_executable k \<longleftrightarrow> k \<noteq> Unexecutable"

record preproc_condition_vertex =
  pv_condition_range :: local_range
  pv_directive_range :: "local_range option"
  pv_full_range :: "local_range option"

datatype cfg_vertex =
    BasicBlock "stmt_idx list"
  | Conditional expr_idx
  | WhileHeader expr_idx
  | ForHeader binding_idx expr_idx expr_idx
  | ForEachHeader binding_idx expr_idx
  | TryVertex
  | PreprocCondition preproc_condition_vertex
  | ExitVertex

definition with_directive_range :: "local_range \<Rightarrow> local_range \<Rightarrow> preproc_condition_vertex" where
  "with_directive_range c d =
    \<lparr>pv_condition_range = c, pv_directive_range = Some d, pv_full_range = None\<rparr>"

definition with_ranges :: "local_range \<Rightarrow> local_range \<Rightarrow> local_range \<Rightarrow> preproc_condition_vertex" where
  "with_ranges c d f =
    \<lparr>pv_condition_range = c, pv_directive_range = Some d, pv_full_range = Some f\<rparr>"


section \<open>The graph library\<close>

type_synonym node = nat
type_synonym cfg_edge = "node \<times> cfg_edge_type \<times> node"

text \<open>
  \<open>add_edge\<close> panics when an end does not exist; \<open>set_weight\<close> is a write through
  \<open>node_weight_mut\<close>; the two depth-first orders are those of \<open>DfsPostOrder\<close> on the graph
  and on \<open>Reversed\<close>.
\<close>

record 'g digraph =
  dg_empty :: 'g
  dg_add_node :: "'g \<Rightarrow> cfg_vertex \<Rightarrow> node \<times> 'g"
  dg_add_edge :: "'g \<Rightarrow> node \<Rightarrow> node \<Rightarrow> cfg_edge_type \<Rightarrow> 'g outcome"
  dg_node_weight :: "'g \<Rightarrow> node \<Rightarrow> cfg_vertex option"
  dg_set_weight :: "'g \<Rightarrow> node \<Rightarrow> cfg_vertex \<Rightarrow> 'g"
  dg_remove_node :: "'g \<Rightarrow> node \<Rightarrow> cfg_vertex option \<times> 'g"
  dg_edges_out :: "'g \<Rightarrow> node \<Rightarrow> (node \<times> cfg_edge_type) list"
  dg_edges_in :: "'g \<Rightarrow> node \<Rightarrow> (node \<times> cfg_edge_type) list"
  dg_node_count :: "'g \<Rightarrow> nat"
  dg_edge_count :: "'g \<Rightarrow> nat"
  dg_postorder :: "'g \<Rightarrow> node \<Rightarrow> node list"
  dg_postorder_reversed :: "'g \<Rightarrow> node \<Rightarrow> node list"

definition edge_rel :: "cfg_edge set \<Rightarrow> (node \<times> node) set" where
  "edge_rel E = {(a, b). \<exists>k. (a, k, b) \<in> E}"

locale digraph_laws =
  fixes G :: "'g digraph"
    and nodes :: "'g \<Rightarrow> cfg_vertex list"
    and edges :: "'g \<Rightarrow> cfg_edge multiset"
  assumes empty: "nodes (dg_empty G) = []" "edges (dg_empty G) = {#}"
    and add_node: "dg_add_node G g v = (i, g') \<Longrightarrow>
      i = length (nodes g) \<and> nodes g' = nodes g @ [v] \<and> edges g' = edges g"
    and add_edge: "a < length (nodes g) \<Longrightarrow> b < length (nodes g) \<Longrightarrow>
      \<exists>g'. dg_add_edge G g a b k = Inr g' \<and> nodes g' = nodes g \<and>
        edges g' = add_mset (a, k, b) (edges g)"
    and node_weight: "dg_node_weight G g i = get (nodes g) i"
    and set_weight: "i < length (nodes g) \<Longrightarrow>
      nodes (dg_set_weight G g i v) = (nodes g)[i := v] \<and>
      edges (dg_set_weight G g i v) = edges g"
    and edges_out: "mset (dg_edges_out G g i) =
      image_mset (\<lambda>(a, k, b). (b, k)) (filter_mset (\<lambda>(a, k, b). a = i) (edges g))"
    and edges_in: "mset (dg_edges_in G g i) =
      image_mset (\<lambda>(a, k, b). (a, k)) (filter_mset (\<lambda>(a, k, b). b = i) (edges g))"
    and counts: "dg_node_count G g = length (nodes g)" "dg_edge_count G g = size (edges g)"
    and postorder: "i < length (nodes g) \<Longrightarrow> distinct (dg_postorder G g i) \<and>
      set (dg_postorder G g i) = {j. (i, j) \<in> (edge_rel (set_mset (edges g)))\<^sup>*}"
    and postorder_reversed: "i < length (nodes g) \<Longrightarrow> distinct (dg_postorder_reversed G g i) \<and>
      set (dg_postorder_reversed G g i) = {j. (j, i) \<in> (edge_rel (set_mset (edges g)))\<^sup>*}"
begin

lemma set_edges_out: "(b, k) \<in> set (dg_edges_out G g a) \<longleftrightarrow> (a, k, b) \<in># edges g"
proof -
  have "(b, k) \<in> set (dg_edges_out G g a) \<longleftrightarrow> (b, k) \<in># mset (dg_edges_out G g a)"
    by simp
  then show ?thesis
    unfolding edges_out by force
qed

lemma set_edges_in: "(a, k) \<in> set (dg_edges_in G g b) \<longleftrightarrow> (a, k, b) \<in># edges g"
proof -
  have "(a, k) \<in> set (dg_edges_in G g b) \<longleftrightarrow> (a, k) \<in># mset (dg_edges_in G g b)"
    by simp
  then show ?thesis
    unfolding edges_in by force
qed

lemma edges_agree: "(a, k) \<in> set (dg_edges_in G g b) \<longleftrightarrow> (b, k) \<in> set (dg_edges_out G g a)"
  by (simp add: set_edges_in set_edges_out)

end


section \<open>The control-flow graph\<close>

record 'g control_flow_graph =
  cfg_graph :: 'g
  cfg_statement_origins :: "node \<rightharpoonup> stmt_idx"
  cfg_start :: "node option"
  cfg_exit :: node

definition cfg_new :: "'g digraph \<Rightarrow> 'g control_flow_graph" where
  "cfg_new G =
    (let (exit, graph) = dg_add_node G (dg_empty G) ExitVertex
     in \<lparr>cfg_graph = graph, cfg_statement_origins = Map.empty, cfg_start = None, cfg_exit = exit\<rparr>)"

text \<open>Equality of graphs compares the ends and the two counts only.\<close>

definition cfg_eq :: "'g digraph \<Rightarrow> 'g control_flow_graph \<Rightarrow> 'g control_flow_graph \<Rightarrow> bool" where
  "cfg_eq G a b =
    (if cfg_start a \<noteq> cfg_start b \<or> cfg_exit a \<noteq> cfg_exit b then False
     else if dg_node_count G (cfg_graph a) \<noteq> dg_node_count G (cfg_graph b)
       \<or> dg_edge_count G (cfg_graph a) \<noteq> dg_edge_count G (cfg_graph b) then False
     else True)"

definition add_vertex ::
  "'g digraph \<Rightarrow> cfg_vertex \<Rightarrow> 'g control_flow_graph \<Rightarrow> node \<times> 'g control_flow_graph" where
  "add_vertex G v c =
    (let (i, graph) = dg_add_node G (cfg_graph c) v in (i, c\<lparr>cfg_graph := graph\<rparr>))"

definition add_vertex_with_origin ::
  "'g digraph \<Rightarrow> cfg_vertex \<Rightarrow> stmt_idx \<Rightarrow> 'g control_flow_graph \<Rightarrow> node \<times> 'g control_flow_graph" where
  "add_vertex_with_origin G v stmt c =
    (let (i, c) = add_vertex G v c
     in (i, c\<lparr>cfg_statement_origins := (cfg_statement_origins c)(i \<mapsto> stmt)\<rparr>))"

definition source_stmt_id :: "'g control_flow_graph \<Rightarrow> node \<Rightarrow> stmt_idx option" where
  "source_stmt_id c i = cfg_statement_origins c i"

definition cfg_add_edge ::
  "'g digraph \<Rightarrow> node \<Rightarrow> node \<Rightarrow> cfg_edge_type \<Rightarrow> 'g control_flow_graph \<Rightarrow> 'g control_flow_graph outcome" where
  "cfg_add_edge G a b k c =
    and_then (dg_add_edge G (cfg_graph c) a b k) (\<lambda>graph. Inr (c\<lparr>cfg_graph := graph\<rparr>))"

definition set_start :: "node \<Rightarrow> 'g control_flow_graph \<Rightarrow> 'g control_flow_graph" where
  "set_start i c = c\<lparr>cfg_start := Some i\<rparr>"

definition vertex :: "'g digraph \<Rightarrow> 'g control_flow_graph \<Rightarrow> node \<Rightarrow> cfg_vertex option" where
  "vertex G c i = dg_node_weight G (cfg_graph c) i"

definition vertex_exists :: "'g digraph \<Rightarrow> 'g control_flow_graph \<Rightarrow> node \<Rightarrow> bool" where
  "vertex_exists G c i \<longleftrightarrow> dg_node_weight G (cfg_graph c) i \<noteq> None"

definition outgoing_edges ::
  "'g digraph \<Rightarrow> 'g control_flow_graph \<Rightarrow> node \<Rightarrow> (node \<times> cfg_edge_type) list" where
  "outgoing_edges G c i = dg_edges_out G (cfg_graph c) i"

definition incoming_edges ::
  "'g digraph \<Rightarrow> 'g control_flow_graph \<Rightarrow> node \<Rightarrow> (node \<times> cfg_edge_type) list" where
  "incoming_edges G c i = dg_edges_in G (cfg_graph c) i"

text \<open>
  Removing a vertex moves the last one into its place, and its recorded origin with it.
\<close>

definition remove_vertex ::
  "'g digraph \<Rightarrow> node \<Rightarrow> 'g control_flow_graph \<Rightarrow> cfg_vertex option \<times> 'g control_flow_graph" where
  "remove_vertex G i c =
    (if \<not> vertex_exists G c i then (None, c)
     else
       let last_vertex = dg_node_count G (cfg_graph c) - 1;
           origins = (cfg_statement_origins c)(i := None);
           origins =
             (if i \<noteq> last_vertex
              then case origins last_vertex of
                  Some stmt \<Rightarrow> (origins(last_vertex := None))(i \<mapsto> stmt)
                | None \<Rightarrow> origins
              else origins);
           (v, graph) = dg_remove_node G (cfg_graph c) i
       in (v, c\<lparr>cfg_graph := graph, cfg_statement_origins := origins\<rparr>))"

definition vertex_count :: "'g digraph \<Rightarrow> 'g control_flow_graph \<Rightarrow> nat" where
  "vertex_count G c = dg_node_count G (cfg_graph c)"

definition edge_count :: "'g digraph \<Rightarrow> 'g control_flow_graph \<Rightarrow> nat" where
  "edge_count G c = dg_edge_count G (cfg_graph c)"

definition vertices :: "'g digraph \<Rightarrow> 'g control_flow_graph \<Rightarrow> node list" where
  "vertices G c = [0..<dg_node_count G (cfg_graph c)]"

definition in_degree :: "'g digraph \<Rightarrow> 'g control_flow_graph \<Rightarrow> node \<Rightarrow> nat" where
  "in_degree G c i = length (dg_edges_in G (cfg_graph c) i)"

definition reverse_postorder :: "'g digraph \<Rightarrow> 'g control_flow_graph \<Rightarrow> node list" where
  "reverse_postorder G c =
    (case cfg_start c of None \<Rightarrow> [] | Some s \<Rightarrow> rev (dg_postorder G (cfg_graph c) s))"

definition postorder_from_exit :: "'g digraph \<Rightarrow> 'g control_flow_graph \<Rightarrow> node list" where
  "postorder_from_exit G c = dg_postorder_reversed G (cfg_graph c) (cfg_exit c)"

end
