(* ===== verification/Dataflow.thy ===== *)
theory Dataflow
  imports Cfg_Graph
begin

text \<open>
  The worklist solver (\<open>dataflow/src/lib.rs\<close>). An analysis is a value of the record
  \<open>transfer\<close>: the join of its lattice and its transfer functions, the method's body
  already given to them; a transfer function may panic, as the one that reads the body
  does on a foreign index. The forward and the backward solver are the same loop with
  the ends of the edges and the two tables exchanged; the counters of visits are only
  logged and not modelled.
\<close>

section \<open>Analyses\<close>

record 'l transfer =
  lat_join :: "'l \<Rightarrow> 'l \<Rightarrow> 'l"
  transfer_stmt :: "stmt_idx \<Rightarrow> 'l \<Rightarrow> 'l outcome"
  transfer_expr :: "expr_idx \<Rightarrow> 'l \<Rightarrow> 'l"
  transfer_edge :: "cfg_edge_type \<Rightarrow> 'l \<Rightarrow> 'l"
  transfer_loop_var_bind :: "binding_idx \<Rightarrow> 'l \<Rightarrow> 'l"
  transfer_try_entry :: "stmt_idx \<Rightarrow> 'l \<Rightarrow> 'l"

datatype direction = Forward | Backward

definition DEFAULT_MAX_ITERATIONS :: nat where
  "DEFAULT_MAX_ITERATIONS = 10000"

record ('g, 'l) solver =
  sv_cfg :: "'g control_flow_graph"
  sv_transfer :: "'l transfer"
  sv_block_in :: "node \<rightharpoonup> 'l"
  sv_block_out :: "node \<rightharpoonup> 'l"
  sv_max_iterations :: nat
  sv_direction :: direction

definition solver_new :: "'g control_flow_graph \<Rightarrow> 'l transfer \<Rightarrow> ('g, 'l) solver" where
  "solver_new c T = \<lparr>sv_cfg = c, sv_transfer = T, sv_block_in = Map.empty, sv_block_out = Map.empty,
    sv_max_iterations = DEFAULT_MAX_ITERATIONS, sv_direction = Forward\<rparr>"

definition set_direction :: "direction \<Rightarrow> ('g, 'l) solver \<Rightarrow> ('g, 'l) solver" where
  "set_direction d s = s\<lparr>sv_direction := d\<rparr>"

definition set_max_iterations :: "nat \<Rightarrow> ('g, 'l) solver \<Rightarrow> ('g, 'l) solver" where
  "set_max_iterations n s = s\<lparr>sv_max_iterations := n\<rparr>"

definition set_initial_state :: "'l \<Rightarrow> ('g, 'l) solver \<Rightarrow> ('g, 'l) solver" where
  "set_initial_state initial s =
    (case cfg_start (sv_cfg s) of
       Some entry \<Rightarrow> s\<lparr>sv_block_in := (sv_block_in s)(entry \<mapsto> initial)\<rparr>
     | None \<Rightarrow> s)"

definition all_initialized :: "'g digraph \<Rightarrow> ('g, 'l) solver \<Rightarrow> bool" where
  "all_initialized G s \<longleftrightarrow>
     list_all (\<lambda>i. sv_block_in s i \<noteq> None \<and> sv_block_out s i \<noteq> None) (vertices G (sv_cfg s))"

text \<open>A debug assertion guards the order of the calls.\<close>

definition set_initial_state_at_exit ::
  "'g digraph \<Rightarrow> 'l \<Rightarrow> ('g, 'l) solver \<Rightarrow> ('g, 'l) solver outcome" where
  "set_initial_state_at_exit G initial s =
    (if all_initialized G s
     then Inr (s\<lparr>sv_block_out := (sv_block_out s)(cfg_exit (sv_cfg s) \<mapsto> initial)\<rparr>)
     else Inl Panic)"

definition set_bottom_factory :: "'g digraph \<Rightarrow> 'l \<Rightarrow> ('g, 'l) solver \<Rightarrow> ('g, 'l) solver" where
  "set_bottom_factory G bottom s =
    fold (\<lambda>i s. s\<lparr>sv_block_in := (sv_block_in s)(i \<mapsto> bottom), sv_block_out := (sv_block_out s)(i \<mapsto> bottom)\<rparr>)
      (vertices G (sv_cfg s)) s"


section \<open>Blocks\<close>

fun transfer_stmts :: "'l transfer \<Rightarrow> stmt_idx list \<Rightarrow> 'l \<Rightarrow> 'l outcome" where
  "transfer_stmts T [] l = Inr l"
| "transfer_stmts T (s # rest) l = and_then (transfer_stmt T s l) (transfer_stmts T rest)"

definition transfer_block :: "'g digraph \<Rightarrow> 'g control_flow_graph \<Rightarrow> 'l transfer \<Rightarrow> node \<Rightarrow> 'l \<Rightarrow> 'l outcome" where
  "transfer_block G c T block l =
    (case vertex G c block of
       None \<Rightarrow> Inr l
     | Some (BasicBlock ss) \<Rightarrow> transfer_stmts T ss l
     | Some (WhileHeader condition) \<Rightarrow> Inr (transfer_expr T condition l)
     | Some (Conditional condition) \<Rightarrow> Inr (transfer_expr T condition l)
     | Some (ForHeader loop_var from to) \<Rightarrow>
         Inr (transfer_loop_var_bind T loop_var (transfer_expr T to (transfer_expr T from l)))
     | Some (ForEachHeader loop_var coll) \<Rightarrow>
         Inr (transfer_loop_var_bind T loop_var (transfer_expr T coll l))
     | Some TryVertex \<Rightarrow>
         (case source_stmt_id c block of
            Some stmt \<Rightarrow> Inr (transfer_try_entry T stmt l) | None \<Rightarrow> Inr l)
     | Some _ \<Rightarrow> Inr l)"


section \<open>The loop\<close>

record 'l flow =
  fl_worklist :: "node list"
  fl_worklist_set :: "node set"
  fl_iterations :: nat
  fl_converged :: bool
  fl_in :: "node \<rightharpoonup> 'l"
  fl_out :: "node \<rightharpoonup> 'l"

text \<open>The join over the edges whose far end has a state, in the order of the edges.\<close>

fun gather :: "'l transfer \<Rightarrow> (node \<rightharpoonup> 'l) \<Rightarrow> (node \<times> cfg_edge_type) list \<Rightarrow> 'l option \<Rightarrow> 'l option" where
  "gather T outs [] state = state"
| "gather T outs ((p, k) # rest) state =
    gather T outs rest
      (case outs p of
         None \<Rightarrow> state
       | Some l \<Rightarrow>
           let e = transfer_edge T k l
           in Some (case state of None \<Rightarrow> e | Some s \<Rightarrow> lat_join T s e))"

definition expect_state :: "(node \<rightharpoonup> 'l) \<Rightarrow> node \<Rightarrow> 'l outcome" where
  "expect_state m i = (case m i of None \<Rightarrow> Inl Panic | Some l \<Rightarrow> Inr l)"

text \<open>
  The state a block starts from: what it has at the boundary without edges, the join of
  its neighbours otherwise, what it has when no neighbour has a state.
\<close>

definition start_state ::
  "'l transfer \<Rightarrow> (node \<Rightarrow> (node \<times> cfg_edge_type) list) \<Rightarrow> (node \<Rightarrow> bool) \<Rightarrow>
     (node \<rightharpoonup> 'l) \<Rightarrow> (node \<rightharpoonup> 'l) \<Rightarrow> node \<Rightarrow> 'l outcome" where
  "start_state T edges_in boundary ins outs block =
    (if boundary block \<and> edges_in block = [] then expect_state ins block
     else case gather T outs (edges_in block) None of
         Some l \<Rightarrow> Inr l
       | None \<Rightarrow> expect_state ins block)"

fun push_new :: "(node \<times> cfg_edge_type) list \<Rightarrow> node list \<times> node set \<Rightarrow> node list \<times> node set" where
  "push_new [] st = st"
| "push_new ((i, _) # rest) (worklist, members) =
    push_new rest (if i \<in> members then (worklist, members) else (worklist @ [i], insert i members))"

definition flow_step ::
  "'l transfer \<Rightarrow> (node \<Rightarrow> 'l \<Rightarrow> 'l outcome) \<Rightarrow> (node \<Rightarrow> (node \<times> cfg_edge_type) list) \<Rightarrow>
     (node \<Rightarrow> (node \<times> cfg_edge_type) list) \<Rightarrow> (node \<Rightarrow> bool) \<Rightarrow> nat \<Rightarrow>
     'l flow \<Rightarrow> ('l flow + 'l flow) outcome" where
  "flow_step T block_transfer edges_in edges_out boundary max_iterations f =
    (case fl_worklist f of
       [] \<Rightarrow> Inr (Inr f)
     | block # rest \<Rightarrow>
         let f = f\<lparr>fl_worklist := rest, fl_worklist_set := fl_worklist_set f - {block},
                   fl_iterations := fl_iterations f + 1\<rparr>
         in if max_iterations < fl_iterations f then Inr (Inr (f\<lparr>fl_converged := False\<rparr>))
            else
              and_then (start_state T edges_in boundary (fl_in f) (fl_out f) block) (\<lambda>in_state.
              let f = f\<lparr>fl_in := (fl_in f)(block \<mapsto> in_state)\<rparr> in
              and_then (block_transfer block in_state) (\<lambda>out_state.
              if fl_out f block = Some out_state then Inr (Inl f)
              else
                let (worklist, members) = push_new (edges_out block) (fl_worklist f, fl_worklist_set f)
                in Inr (Inl (f\<lparr>fl_out := (fl_out f)(block \<mapsto> out_state),
                              fl_worklist := worklist, fl_worklist_set := members\<rparr>)))))"

text \<open>Every pass but the last counts an iteration, so the fuel is two more than the budget.\<close>

definition run_flow ::
  "'l transfer \<Rightarrow> (node \<Rightarrow> 'l \<Rightarrow> 'l outcome) \<Rightarrow> (node \<Rightarrow> (node \<times> cfg_edge_type) list) \<Rightarrow>
     (node \<Rightarrow> (node \<times> cfg_edge_type) list) \<Rightarrow> (node \<Rightarrow> bool) \<Rightarrow> nat \<Rightarrow> node list \<Rightarrow>
     (node \<rightharpoonup> 'l) \<Rightarrow> (node \<rightharpoonup> 'l) \<Rightarrow> 'l flow outcome" where
  "run_flow T block_transfer edges_in edges_out boundary max_iterations order ins outs =
    loop (max_iterations + 2) (flow_step T block_transfer edges_in edges_out boundary max_iterations)
      \<lparr>fl_worklist = order, fl_worklist_set = set order, fl_iterations = 0, fl_converged = True,
       fl_in = ins, fl_out = outs\<rparr>"

record ('g, 'l) dataflow_result =
  dr_block_in :: "node \<rightharpoonup> 'l"
  dr_block_out :: "node \<rightharpoonup> 'l"
  dr_cfg :: "'g control_flow_graph"
  dr_converged :: bool

definition solve_forward :: "'g digraph \<Rightarrow> ('g, 'l) solver \<Rightarrow> ('g, 'l) dataflow_result outcome" where
  "solve_forward G s =
    (let c = sv_cfg s in
     if \<not> all_initialized G s then Inl Panic
     else
       and_then (run_flow (sv_transfer s) (transfer_block G c (sv_transfer s))
         (incoming_edges G c) (outgoing_edges G c) (\<lambda>i. cfg_start c = Some i)
         (sv_max_iterations s) (reverse_postorder G c) (sv_block_in s) (sv_block_out s)) (\<lambda>f.
       Inr \<lparr>dr_block_in = fl_in f, dr_block_out = fl_out f, dr_cfg = c, dr_converged = fl_converged f\<rparr>))"

definition solve_backward :: "'g digraph \<Rightarrow> ('g, 'l) solver \<Rightarrow> ('g, 'l) dataflow_result outcome" where
  "solve_backward G s =
    (let c = sv_cfg s in
     if \<not> all_initialized G s then Inl Panic
     else
       and_then (run_flow (sv_transfer s) (transfer_block G c (sv_transfer s))
         (outgoing_edges G c) (incoming_edges G c) (\<lambda>i. i = cfg_exit c)
         (sv_max_iterations s) (postorder_from_exit G c) (sv_block_out s) (sv_block_in s)) (\<lambda>f.
       Inr \<lparr>dr_block_in = fl_out f, dr_block_out = fl_in f, dr_cfg = c, dr_converged = fl_converged f\<rparr>))"

definition solve :: "'g digraph \<Rightarrow> ('g, 'l) solver \<Rightarrow> ('g, 'l) dataflow_result outcome" where
  "solve G s = (case sv_direction s of Forward \<Rightarrow> solve_forward G s | Backward \<Rightarrow> solve_backward G s)"

end
