(* ===== verification/Definite_Init.thy ===== *)
theory Definite_Init
  imports Dataflow
begin

text \<open>
  Definite initialization (\<open>dataflow/src/definite_init.rs\<close>): which of the tracked names have
  been assigned on every executable path to a point, and a path that shows the opposite. The
  bit sets (\<open>fixedbitset\<close>) are a record of operations; the locale \<open>bitset_laws\<close> is what the code
  relies on. Their \<open>insert\<close> panics on a bit outside, about which the laws say nothing.
\<close>

section \<open>Bit sets\<close>

record 'b bitset =
  bs_with_capacity :: "nat \<Rightarrow> 'b"
  bs_insert :: "nat \<Rightarrow> 'b \<Rightarrow> 'b"
  bs_contains :: "'b \<Rightarrow> nat \<Rightarrow> bool"
  bs_intersect :: "'b \<Rightarrow> 'b \<Rightarrow> 'b"

locale bitset_laws =
  fixes B :: "'b bitset" and ones :: "'b \<Rightarrow> nat set" and bits_len :: "'b \<Rightarrow> nat"
  assumes bits_below: "ones b \<subseteq> {..<bits_len b}"
    and bits_eq: "ones a = ones b \<Longrightarrow> bits_len a = bits_len b \<Longrightarrow> a = b"
    and with_capacity: "ones (bs_with_capacity B n) = {}" "bits_len (bs_with_capacity B n) = n"
    and insert_bit: "i < bits_len b \<Longrightarrow> ones (bs_insert B i b) = insert i (ones b)"
      "i < bits_len b \<Longrightarrow> bits_len (bs_insert B i b) = bits_len b"
    and contains_bit: "bs_contains B b i \<longleftrightarrow> i \<in> ones b"
    and intersect_bits: "ones (bs_intersect B a b) = ones a \<inter> ones b"
      "bits_len (bs_intersect B a b) = bits_len a"


section \<open>Events and states\<close>

datatype init_point = IP_Stmt stmt_idx | IP_Header expr_idx

datatype entering_header = NeverExits | EntersOnFirstArrival

record init_events =
  ie_width :: nat
  ie_stmt :: "stmt_idx \<rightharpoonup> nat list"
  ie_header :: "expr_idx \<rightharpoonup> nat list"
  ie_loop_var :: "binding_idx \<rightharpoonup> nat"
  ie_entering_headers :: "stmt_idx \<rightharpoonup> entering_header"

datatype 'b definite_init = Unreached | Reached 'b

definition is_initialized :: "'b bitset \<Rightarrow> 'b definite_init \<Rightarrow> nat \<Rightarrow> bool option" where
  "is_initialized B state var =
    (case state of Unreached \<Rightarrow> None | Reached bits \<Rightarrow> Some (bs_contains B bits var))"

definition lacks :: "'b bitset \<Rightarrow> 'b definite_init \<Rightarrow> nat \<Rightarrow> bool" where
  "lacks B state var \<longleftrightarrow> is_initialized B state var = Some False"

definition add_bits :: "'b bitset \<Rightarrow> nat list \<Rightarrow> 'b definite_init \<Rightarrow> 'b definite_init" where
  "add_bits B bits state =
    (case state of Unreached \<Rightarrow> Unreached | Reached b \<Rightarrow> Reached (fold (bs_insert B) bits b))"

definition join_init :: "'b bitset \<Rightarrow> 'b definite_init \<Rightarrow> 'b definite_init \<Rightarrow> 'b definite_init" where
  "join_init B x y =
    (case (x, y) of
       (Unreached, y) \<Rightarrow> y
     | (x, Unreached) \<Rightarrow> x
     | (Reached a, Reached b) \<Rightarrow> Reached (bs_intersect B a b))"

definition add_event :: "'b bitset \<Rightarrow> nat list option \<Rightarrow> 'b definite_init \<Rightarrow> 'b definite_init" where
  "add_event B e state = (case e of Some bits \<Rightarrow> add_bits B bits state | None \<Rightarrow> state)"

definition definite_init_transfer :: "'b bitset \<Rightarrow> init_events \<Rightarrow> 'b definite_init transfer" where
  "definite_init_transfer B events = \<lparr>
     lat_join = join_init B,
     transfer_stmt = (\<lambda>s state. Inr (add_event B (ie_stmt events s) state)),
     transfer_expr = (\<lambda>e state. add_event B (ie_header events e) state),
     transfer_edge = (\<lambda>k state. case k of Unexecutable \<Rightarrow> Unreached | _ \<Rightarrow> state),
     transfer_loop_var_bind = (\<lambda>x state.
       case ie_loop_var events x of Some var \<Rightarrow> add_bits B [var] state | None \<Rightarrow> state),
     transfer_try_entry = (\<lambda>_ state. state)\<rparr>"


section \<open>The analysis\<close>

record ('g, 'b) definite_init_result =
  di_inner :: "('g, 'b definite_init) dataflow_result"
  di_events :: init_events
  di_states :: "init_point \<rightharpoonup> 'b definite_init"
  di_vertices :: "init_point \<rightharpoonup> node"
  di_rpo :: "node \<rightharpoonup> nat"

type_synonym 'b point_tables = "(init_point \<rightharpoonup> 'b definite_init) \<times> (init_point \<rightharpoonup> node)"

definition record_point ::
  "init_point \<Rightarrow> node \<Rightarrow> 'b definite_init \<Rightarrow> 'b point_tables \<Rightarrow> 'b point_tables" where
  "record_point p v state = (\<lambda>(states, places). (states(p \<mapsto> state), places(p \<mapsto> v)))"

fun record_stmts ::
  "'b bitset \<Rightarrow> init_events \<Rightarrow> node \<Rightarrow> stmt_idx list \<Rightarrow> 'b definite_init \<Rightarrow> 'b point_tables \<Rightarrow> 'b point_tables" where
  "record_stmts B events v [] state tables = tables"
| "record_stmts B events v (s # ss) state tables =
    record_stmts B events v ss (add_event B (ie_stmt events s) state) (record_point (IP_Stmt s) v state tables)"

definition record_vertex ::
  "'b bitset \<Rightarrow> init_events \<Rightarrow> node \<Rightarrow> cfg_vertex \<Rightarrow> 'b definite_init \<Rightarrow> 'b point_tables \<Rightarrow> 'b point_tables" where
  "record_vertex B events v kind entry tables =
    (case kind of
       BasicBlock ss \<Rightarrow> record_stmts B events v ss entry tables
     | Conditional condition \<Rightarrow> record_point (IP_Header condition) v entry tables
     | WhileHeader condition \<Rightarrow> record_point (IP_Header condition) v entry tables
     | ForHeader _ from to \<Rightarrow>
         record_point (IP_Header to) v (add_event B (ie_header events from) entry)
           (record_point (IP_Header from) v entry tables)
     | ForEachHeader _ coll \<Rightarrow> record_point (IP_Header coll) v entry tables
     | _ \<Rightarrow> tables)"

definition record_points ::
  "'g digraph \<Rightarrow> 'b bitset \<Rightarrow> init_events \<Rightarrow> 'g control_flow_graph \<Rightarrow> (node \<rightharpoonup> 'b definite_init) \<Rightarrow> 'b point_tables" where
  "record_points G B events c block_in =
    fold (\<lambda>v tables.
        case block_in v of
          None \<Rightarrow> tables
        | Some entry \<Rightarrow>
            (case vertex G c v of None \<Rightarrow> tables | Some kind \<Rightarrow> record_vertex B events v kind entry tables))
      (vertices G c) (Map.empty, Map.empty)"

text \<open>No result when the budget of iterations ran out.\<close>

definition analyze_definite_init ::
  "'g digraph \<Rightarrow> 'b bitset \<Rightarrow> 'g control_flow_graph \<Rightarrow> init_events \<Rightarrow> nat \<Rightarrow>
     ('g, 'b) definite_init_result option outcome" where
  "analyze_definite_init G B c events max_iterations =
    (let s = solver_new c (definite_init_transfer B events);
         s = set_max_iterations max_iterations s;
         s = set_bottom_factory G Unreached s;
         s = set_initial_state (Reached (bs_with_capacity B (ie_width events))) s in
     and_then (solve G s) (\<lambda>inner.
     if \<not> dr_converged inner then Inr None
     else
       let (states, places) = record_points G B events (dr_cfg inner) (dr_block_in inner);
           rpo = fold (\<lambda>(pos, v) m. m(v \<mapsto> pos)) (enumerate 0 (reverse_postorder G (dr_cfg inner))) Map.empty
       in Inr (Some \<lparr>di_inner = inner, di_events = events, di_states = states, di_vertices = places,
            di_rpo = rpo\<rparr>)))"

definition state_before :: "('g, 'b) definite_init_result \<Rightarrow> init_point \<Rightarrow> 'b definite_init option" where
  "state_before r p = di_states r p"

definition vertex_of :: "('g, 'b) definite_init_result \<Rightarrow> init_point \<Rightarrow> node option" where
  "vertex_of r p = di_vertices r p"

definition is_back_edge :: "('g, 'b) definite_init_result \<Rightarrow> node \<Rightarrow> node \<Rightarrow> bool" where
  "is_back_edge r from to =
    (case (di_rpo r from, di_rpo r to) of (Some a, Some b) \<Rightarrow> b \<le> a | _ \<Rightarrow> False)"

definition back_edges :: "'g digraph \<Rightarrow> ('g, 'b) definite_init_result \<Rightarrow> node \<Rightarrow> node list" where
  "back_edges G r header =
    map fst (filter (\<lambda>(from, edge). is_executable edge \<and> is_back_edge r from header)
      (incoming_edges G (dr_cfg (di_inner r)) header))"

definition out_lookup :: "'b bitset \<Rightarrow> ('g, 'b) definite_init_result \<Rightarrow> nat \<Rightarrow> node \<Rightarrow> bool option" where
  "out_lookup B r var from =
    (case dr_block_out (di_inner r) from of None \<Rightarrow> None | Some state \<Rightarrow> is_initialized B state var)"

fun all_initialize :: "(node \<Rightarrow> bool option) \<Rightarrow> node list \<Rightarrow> bool \<Rightarrow> bool" where
  "all_initialize out [] any = any"
| "all_initialize out (from # rest) any =
    (case out from of
       Some True \<Rightarrow> all_initialize out rest True
     | Some False \<Rightarrow> False
     | None \<Rightarrow> all_initialize out rest any)"

definition back_edges_initialize ::
  "'g digraph \<Rightarrow> 'b bitset \<Rightarrow> ('g, 'b) definite_init_result \<Rightarrow> node \<Rightarrow> nat \<Rightarrow> bool" where
  "back_edges_initialize G B r header var = all_initialize (out_lookup B r var) (back_edges G r header) False"


section \<open>Witness paths\<close>

record witness_step =
  ws_vertex :: node
  ws_edge :: cfg_edge_type

type_synonym search_pair = "node \<times> bool"

record witness_search =
  wq_queue :: "search_pair list"
  wq_visited :: "search_pair set"
  wq_parent :: "search_pair \<rightharpoonup> search_pair \<times> cfg_edge_type"

text \<open>Where the search goes along an edge backwards; \<open>None\<close> is the \<open>continue\<close>.\<close>

definition witness_next ::
  "'b bitset \<Rightarrow> ('g, 'b) definite_init_result \<Rightarrow> nat \<Rightarrow> search_pair \<Rightarrow> node \<times> cfg_edge_type \<Rightarrow> search_pair option" where
  "witness_next B r var = (\<lambda>(v, back_only) (from, edge).
    if \<not> is_executable edge \<or> back_only \<and> \<not> is_back_edge r from v then None
    else if \<not> (case dr_block_out (di_inner r) from of None \<Rightarrow> False | Some state \<Rightarrow> lacks B state var) then None
    else
      let entering =
            (case source_stmt_id (dr_cfg (di_inner r)) from of
               None \<Rightarrow> None
             | Some stmt \<Rightarrow> if edge = FalseBranch then ie_entering_headers (di_events r) stmt else None)
      in case entering of
           Some NeverExits \<Rightarrow> None
         | Some EntersOnFirstArrival \<Rightarrow> Some (from, True)
         | None \<Rightarrow> Some (from, False))"

text \<open>The fuel is the number of steps a path without repeated pairs can have.\<close>

fun steps_to ::
  "nat \<Rightarrow> (search_pair \<rightharpoonup> search_pair \<times> cfg_edge_type) \<Rightarrow> search_pair \<Rightarrow> search_pair \<Rightarrow> witness_step list outcome" where
  "steps_to n parent pair origin =
    (if pair = origin then Inr []
     else case n of
         0 \<Rightarrow> Inl OutOfFuel
       | Suc n \<Rightarrow>
           (case parent pair of
              None \<Rightarrow> Inl Panic
            | Some (next, edge) \<Rightarrow>
                and_then (steps_to n parent next origin) (\<lambda>steps.
                Inr (\<lparr>ws_vertex = fst pair, ws_edge = edge\<rparr> # steps))))"

declare steps_to.simps [simp del]

text \<open>The edges into one vertex; \<open>Inr\<close> is the pair at which the search ends.\<close>

fun witness_edges ::
  "(node \<times> cfg_edge_type \<Rightarrow> search_pair option) \<Rightarrow> node \<Rightarrow> search_pair \<Rightarrow> (node \<times> cfg_edge_type) list \<Rightarrow>
     witness_search \<Rightarrow> witness_search + witness_search \<times> search_pair" where
  "witness_edges next start_v pair [] w = Inl w"
| "witness_edges next start_v pair ((from, edge) # rest) w =
    (case next (from, edge) of
       None \<Rightarrow> witness_edges next start_v pair rest w
     | Some q \<Rightarrow>
         if q \<in> wq_visited w then witness_edges next start_v pair rest w
         else
           let w = w\<lparr>wq_visited := insert q (wq_visited w), wq_parent := (wq_parent w)(q \<mapsto> (pair, edge))\<rparr>
           in if q = (start_v, False) then Inr (w, q)
              else witness_edges next start_v pair rest (w\<lparr>wq_queue := wq_queue w @ [q]\<rparr>))"

definition witness_pass ::
  "'g digraph \<Rightarrow> 'b bitset \<Rightarrow> ('g, 'b) definite_init_result \<Rightarrow> nat \<Rightarrow> node \<Rightarrow> search_pair \<Rightarrow>
     witness_search \<Rightarrow> (witness_search + witness_step list option) outcome" where
  "witness_pass G B r var start_v origin w =
    (case wq_queue w of
       [] \<Rightarrow> Inr (Inr None)
     | pair # queue \<Rightarrow>
         let c = dr_cfg (di_inner r) in
         case witness_edges (witness_next B r var pair) start_v pair (incoming_edges G c (fst pair))
             (w\<lparr>wq_queue := queue\<rparr>) of
           Inl w \<Rightarrow> Inr (Inl w)
         | Inr (w, q) \<Rightarrow>
             and_then (steps_to (2 * vertex_count G c) (wq_parent w) q origin) (\<lambda>steps.
             Inr (Inr (Some steps))))"

text \<open>Every pair is queued at most once; one pass more finds the queue empty.\<close>

definition witness ::
  "'g digraph \<Rightarrow> 'b bitset \<Rightarrow> ('g, 'b) definite_init_result \<Rightarrow> init_point \<Rightarrow> nat \<Rightarrow> witness_step list option outcome" where
  "witness G B r p var =
    (let c = dr_cfg (di_inner r) in
     case vertex_of r p of
       None \<Rightarrow> Inr None
     | Some target \<Rightarrow>
         (case cfg_start c of
            None \<Rightarrow> Inr None
          | Some start_v \<Rightarrow>
              if target = start_v then Inr (Some [])
              else
                let origin = (target, False) in
                loop (2 * vertex_count G c + 1) (witness_pass G B r var start_v origin)
                  \<lparr>wq_queue = [origin], wq_visited = {origin}, wq_parent = Map.empty\<rparr>))"

end
