(* ===== verification/Dataflow_Fixpoint.thy ===== *)
theory Dataflow_Fixpoint
  imports Dataflow
begin

text \<open>
  What the solver computes. The locale \<open>flow_system\<close> is the interface the loop needs of a
  graph and an analysis: the two views of the edges agree and transfer functions do not
  panic. A run that ends within its budget is a fixpoint on every vertex of its order.
\<close>

section \<open>Pushing successors\<close>

lemma push_new_spec:
  assumes "distinct wl"
  shows "\<exists>new. push_new es (wl, set wl) = (wl @ new, set (wl @ new)) \<and> distinct (wl @ new) \<and>
    set new = fst ` set es - set wl"
  using assms
proof (induction es arbitrary: wl)
  case (Cons e es)
  obtain i k where e: "e = (i, k)"
    by (cases e)
  show ?case
  proof (cases "i \<in> set wl")
    case True
    then show ?thesis
      using Cons.IH [OF Cons.prems] by (auto simp: e)
  next
    case False
    then obtain new where "push_new es (wl @ [i], set (wl @ [i])) = ((wl @ [i]) @ new, set ((wl @ [i]) @ new))"
      "distinct ((wl @ [i]) @ new)" "set new = fst ` set es - set (wl @ [i])"
      using Cons.IH [of "wl @ [i]"] Cons.prems by auto
    then show ?thesis
      using False by (intro exI [of _ "i # new"]) (auto simp: e insert_is_Un [symmetric])
  qed
qed simp

lemma gather_cong:
  "\<forall>e \<in> set es. outs (fst e) = outs' (fst e) \<Longrightarrow> gather T outs es st = gather T outs' es st"
  by (induction es arbitrary: st) (auto simp: Let_def)


section \<open>The loop\<close>

locale flow_system =
  fixes T :: "'l transfer"
    and tb :: "node \<Rightarrow> 'l \<Rightarrow> 'l outcome"
    and edges_in edges_out :: "node \<Rightarrow> (node \<times> cfg_edge_type) list"
    and boundary :: "node \<Rightarrow> bool"
    and R :: "node set"
  assumes edges_agree: "(p, k) \<in> set (edges_in v) \<Longrightarrow> \<exists>k'. (v, k') \<in> set (edges_out p)"
    and closed: "v \<in> R \<Longrightarrow> (w, k) \<in> set (edges_out v) \<Longrightarrow> w \<in> R"
    and total: "v \<in> R \<Longrightarrow> \<exists>l'. tb v l = Inr l'"
begin

definition stable :: "(node \<rightharpoonup> 'l) \<Rightarrow> (node \<rightharpoonup> 'l) \<Rightarrow> node \<Rightarrow> bool" where
  "stable ins outs v \<longleftrightarrow> (\<exists>i l. start_state T edges_in boundary ins outs v = Inr i \<and>
     ins v = Some i \<and> tb v i = Inr l \<and> outs v = Some l)"

definition flow_inv :: "(node \<rightharpoonup> 'l) \<Rightarrow> (node \<rightharpoonup> 'l) \<Rightarrow> 'l flow \<Rightarrow> bool" where
  "flow_inv ins0 outs0 f \<longleftrightarrow>
     distinct (fl_worklist f) \<and> fl_worklist_set f = set (fl_worklist f) \<and> set (fl_worklist f) \<subseteq> R \<and>
     (\<forall>v \<in> R. fl_in f v \<noteq> None \<and> fl_out f v \<noteq> None) \<and>
     (\<forall>v. v \<notin> R \<longrightarrow> fl_in f v = ins0 v \<and> fl_out f v = outs0 v) \<and>
     (\<forall>v \<in> R. v \<notin> set (fl_worklist f) \<longrightarrow> stable (fl_in f) (fl_out f) v) \<and>
     fl_converged f"

lemma start_state_returns:
  "ins v \<noteq> None \<Longrightarrow> \<exists>i. start_state T edges_in boundary ins outs v = Inr i"
  by (auto simp: start_state_def expect_state_def split: option.splits)

lemma start_state_cong:
  assumes "ins v = ins' v" and "\<And>p k. (p, k) \<in> set (edges_in v) \<Longrightarrow> outs p = outs' p"
  shows "start_state T edges_in boundary ins outs v = start_state T edges_in boundary ins' outs' v"
proof -
  have "gather T outs (edges_in v) None = gather T outs' (edges_in v) None"
    using assms(2) by (intro gather_cong) auto
  moreover have "expect_state ins v = expect_state ins' v"
    by (simp add: expect_state_def assms(1))
  ultimately show ?thesis
    by (simp only: start_state_def)
qed

lemma start_state_again:
  "start_state T edges_in boundary ins outs v = Inr i \<Longrightarrow>
     start_state T edges_in boundary (ins(v \<mapsto> i)) outs v = Inr i"
  by (auto simp: start_state_def expect_state_def split: option.splits if_splits)

text \<open>One pass: what the block at the front becomes, and which blocks are put back.\<close>

lemma flow_step_eq:
  assumes inv: "flow_inv ins0 outs0 f" and wl: "fl_worklist f = block # rest"
    and budget: "fl_iterations f < n"
  obtains i l new where "start_state T edges_in boundary (fl_in f) (fl_out f) block = Inr i"
    and "tb block i = Inr l"
    and "flow_step T tb edges_in edges_out boundary n f = Inr (Inl (f\<lparr>fl_worklist := rest @ new,
      fl_worklist_set := set (rest @ new), fl_iterations := fl_iterations f + 1,
      fl_in := (fl_in f)(block \<mapsto> i), fl_out := (fl_out f)(block \<mapsto> l)\<rparr>))"
    and "distinct (rest @ new)"
    and "set new = (if fl_out f block = Some l then {} else fst ` set (edges_out block) - set rest)"
proof -
  have f: "distinct (block # rest)" "fl_worklist_set f = set (block # rest)" "block \<in> R" "fl_in f block \<noteq> None"
    using inv wl by (auto simp: flow_inv_def)
  obtain i where i: "start_state T edges_in boundary (fl_in f) (fl_out f) block = Inr i"
    using start_state_returns [of "fl_in f" block] f(4) by blast
  obtain l where l: "tb block i = Inr l"
    using total [OF f(3)] by blast
  have set: "set (block # rest) - {block} = set rest"
    using f(1) by auto
  obtain new where new: "push_new (edges_out block) (rest, set rest) = (rest @ new, set (rest @ new))"
    "distinct (rest @ new)" "set new = fst ` set (edges_out block) - set rest"
    using push_new_spec [of rest "edges_out block"] f(1) by auto
  show thesis
  proof (cases "fl_out f block = Some l")
    case True
    then have "(fl_out f)(block \<mapsto> l) = fl_out f"
      by auto
    then show thesis
      using that [OF i l, of "[]"] True f(1) set i l budget
      by (simp add: flow_step_def wl f(2) Let_def)
  next
    case False
    then show thesis
      using that [OF i l, of new] new set i l budget
      by (simp add: flow_step_def wl f(2) Let_def)
  qed
qed

lemma flow_inv_step:
  assumes inv: "flow_inv ins0 outs0 f" and wl: "fl_worklist f = block # rest"
    and i: "start_state T edges_in boundary (fl_in f) (fl_out f) block = Inr i" and l: "tb block i = Inr l"
    and d: "distinct (rest @ new)"
    and new: "set new = (if fl_out f block = Some l then {} else fst ` set (edges_out block) - set rest)"
    and f': "f' = f\<lparr>fl_worklist := rest @ new, fl_worklist_set := set (rest @ new),
      fl_iterations := fl_iterations f + 1, fl_in := (fl_in f)(block \<mapsto> i), fl_out := (fl_out f)(block \<mapsto> l)\<rparr>"
  shows "flow_inv ins0 outs0 f'"
proof -
  have block: "block \<in> R" "set rest \<subseteq> R"
    using inv wl by (auto simp: flow_inv_def)
  have news: "set new \<subseteq> R"
    using new closed [OF block(1)] by (force split: if_splits)
  have outs: "fl_out f p = ((fl_out f)(block \<mapsto> l)) p"
    if "(p, k) \<in> set (edges_in v)" "v \<notin> set (rest @ new)" for p k v
  proof (cases "p = block \<and> fl_out f block \<noteq> Some l")
    case True
    then have "v \<in> fst ` set (edges_out block)"
      using edges_agree [OF that(1)] by force
    then show ?thesis
      using that(2) new True by auto
  qed auto
  have stable: "stable ((fl_in f)(block \<mapsto> i)) ((fl_out f)(block \<mapsto> l)) v"
    if v: "v \<in> R" "v \<notin> set (rest @ new)" for v
  proof (cases "v = block")
    case True
    have "start_state T edges_in boundary ((fl_in f)(block \<mapsto> i)) ((fl_out f)(block \<mapsto> l)) block =
        start_state T edges_in boundary ((fl_in f)(block \<mapsto> i)) (fl_out f) block"
      using outs v(2) True by (intro start_state_cong) auto
    then show ?thesis
      using start_state_again [OF i] l True by (simp add: stable_def)
  next
    case False
    then have "stable (fl_in f) (fl_out f) v"
      using inv v wl by (auto simp: flow_inv_def)
    moreover have "start_state T edges_in boundary ((fl_in f)(block \<mapsto> i)) ((fl_out f)(block \<mapsto> l)) v =
        start_state T edges_in boundary (fl_in f) (fl_out f) v"
      using outs v(2) False by (intro start_state_cong) auto
    ultimately show ?thesis
      using False by (simp add: stable_def)
  qed
  show ?thesis
    unfolding flow_inv_def f'
    using inv d news block stable by (auto simp: flow_inv_def)
qed

lemma run_flow_fixpoint:
  assumes order: "distinct order" "set order = R"
    and init: "\<And>v. v \<in> R \<Longrightarrow> ins v \<noteq> None \<and> outs v \<noteq> None"
  shows "returns False (run_flow T tb edges_in edges_out boundary n order ins outs) (\<lambda>f.
    (\<forall>v. v \<notin> R \<longrightarrow> fl_in f v = ins v \<and> fl_out f v = outs v) \<and>
    (\<forall>v \<in> R. fl_in f v \<noteq> None \<and> fl_out f v \<noteq> None) \<and>
    (fl_converged f \<longrightarrow> (\<forall>v \<in> R. stable (fl_in f) (fl_out f) v)))"
  unfolding run_flow_def
proof (rule returns_loop [where I = "\<lambda>f. flow_inv ins outs f \<and> fl_iterations f \<le> n"
      and \<mu> = "\<lambda>f. n + 1 - fl_iterations f"])
  fix f
  assume I: "flow_inv ins outs f \<and> fl_iterations f \<le> n"
  show "returns False (flow_step T tb edges_in edges_out boundary n f) (\<lambda>r. case r of
      Inl f' \<Rightarrow> (flow_inv ins outs f' \<and> fl_iterations f' \<le> n) \<and> n + 1 - fl_iterations f' < n + 1 - fl_iterations f
    | Inr f' \<Rightarrow> (\<forall>v. v \<notin> R \<longrightarrow> fl_in f' v = ins v \<and> fl_out f' v = outs v) \<and>
        (\<forall>v \<in> R. fl_in f' v \<noteq> None \<and> fl_out f' v \<noteq> None) \<and>
        (fl_converged f' \<longrightarrow> (\<forall>v \<in> R. stable (fl_in f') (fl_out f') v)))"
  proof (cases "fl_worklist f")
    case Nil
    then show ?thesis
      using I by (auto simp: flow_step_def flow_inv_def)
  next
    case (Cons block rest)
    show ?thesis
    proof (cases "fl_iterations f < n")
      case True
      obtain i l new where step: "start_state T edges_in boundary (fl_in f) (fl_out f) block = Inr i"
        "tb block i = Inr l"
        "flow_step T tb edges_in edges_out boundary n f = Inr (Inl (f\<lparr>fl_worklist := rest @ new,
          fl_worklist_set := set (rest @ new), fl_iterations := fl_iterations f + 1,
          fl_in := (fl_in f)(block \<mapsto> i), fl_out := (fl_out f)(block \<mapsto> l)\<rparr>))"
        "distinct (rest @ new)"
        "set new = (if fl_out f block = Some l then {} else fst ` set (edges_out block) - set rest)"
        using flow_step_eq [OF _ Cons True] I by metis
      then show ?thesis
        using flow_inv_step [OF _ Cons step(1,2,4,5) refl] I True by simp
    next
      case False
      then show ?thesis
        using I Cons by (auto simp: flow_step_def flow_inv_def)
    qed
  qed
qed (use order init in \<open>auto simp: flow_inv_def\<close>)

text \<open>An invariant of the two tables that every update keeps holds at the end.\<close>

lemma run_flow_invariant:
  assumes order: "distinct order" "set order = R"
    and init: "\<And>v. v \<in> R \<Longrightarrow> ins v \<noteq> None \<and> outs v \<noteq> None" and P: "P ins outs"
    and keep: "\<And>ins outs v i l. P ins outs \<Longrightarrow> v \<in> R \<Longrightarrow>
      start_state T edges_in boundary ins outs v = Inr i \<Longrightarrow> tb v i = Inr l \<Longrightarrow>
      P (ins(v \<mapsto> i)) (outs(v \<mapsto> l))"
  shows "returns False (run_flow T tb edges_in edges_out boundary n order ins outs) (\<lambda>f.
    P (fl_in f) (fl_out f))"
  unfolding run_flow_def
proof (rule returns_loop [where I = "\<lambda>f. flow_inv ins outs f \<and> fl_iterations f \<le> n \<and> P (fl_in f) (fl_out f)"
      and \<mu> = "\<lambda>f. n + 1 - fl_iterations f"])
  fix f
  assume I: "flow_inv ins outs f \<and> fl_iterations f \<le> n \<and> P (fl_in f) (fl_out f)"
  show "returns False (flow_step T tb edges_in edges_out boundary n f) (\<lambda>r. case r of
      Inl f' \<Rightarrow> (flow_inv ins outs f' \<and> fl_iterations f' \<le> n \<and> P (fl_in f') (fl_out f')) \<and>
        n + 1 - fl_iterations f' < n + 1 - fl_iterations f
    | Inr f' \<Rightarrow> P (fl_in f') (fl_out f'))"
  proof (cases "fl_worklist f")
    case Nil
    then show ?thesis
      using I by (simp add: flow_step_def)
  next
    case (Cons block rest)
    show ?thesis
    proof (cases "fl_iterations f < n")
      case True
      have "block \<in> R"
        using I Cons by (auto simp: flow_inv_def)
      obtain i l new where step: "start_state T edges_in boundary (fl_in f) (fl_out f) block = Inr i"
        "tb block i = Inr l"
        "flow_step T tb edges_in edges_out boundary n f = Inr (Inl (f\<lparr>fl_worklist := rest @ new,
          fl_worklist_set := set (rest @ new), fl_iterations := fl_iterations f + 1,
          fl_in := (fl_in f)(block \<mapsto> i), fl_out := (fl_out f)(block \<mapsto> l)\<rparr>))"
        "distinct (rest @ new)"
        "set new = (if fl_out f block = Some l then {} else fst ` set (edges_out block) - set rest)"
        using flow_step_eq [OF _ Cons True] I by metis
      then show ?thesis
        using flow_inv_step [OF _ Cons step(1,2,4,5) refl] I True keep [OF _ \<open>block \<in> R\<close> step(1,2)] by simp
    next
      case False
      then show ?thesis
        using I Cons by (simp add: flow_step_def)
    qed
  qed
qed (use order init P in \<open>auto simp: flow_inv_def\<close>)

end


section \<open>Monotone analyses\<close>

text \<open>
  The contract of a lattice of finite height with monotone transfer functions: the order,
  a monotone join, a rank that grows along the order up to a bound. The order may relate only
  the states that the analysis uses; those are the ones below themselves.
\<close>

locale monotone_flow = flow_system +
  fixes le :: "'a \<Rightarrow> 'a \<Rightarrow> bool" and rank :: "'a \<Rightarrow> nat" and height :: nat
  assumes le_trans: "le a b \<Longrightarrow> le b c \<Longrightarrow> le a c"
    and rank_mono: "le a b \<Longrightarrow> a \<noteq> b \<Longrightarrow> rank a < rank b"
    and rank_bound: "rank a \<le> height"
    and join_mono: "le a a' \<Longrightarrow> le b b' \<Longrightarrow> le (lat_join T a b) (lat_join T a' b')"
    and edge_mono: "le a b \<Longrightarrow> le (transfer_edge T k a) (transfer_edge T k b)"
    and block_mono: "v \<in> R \<Longrightarrow> le a b \<Longrightarrow> tb v a = Inr a' \<Longrightarrow> tb v b = Inr b' \<Longrightarrow> le a' b'"
begin

text \<open>One table below another, with the same vertices.\<close>

definition below :: "(node \<rightharpoonup> 'a) \<Rightarrow> (node \<rightharpoonup> 'a) \<Rightarrow> bool" where
  "below m m' \<longleftrightarrow> (\<forall>v. rel_option le (m v) (m' v))"

lemma gather_mono:
  "below outs outs' \<Longrightarrow> rel_option le st st' \<Longrightarrow> rel_option le (gather T outs es st) (gather T outs' es st')"
proof (induction es arbitrary: st st')
  case (Cons e es)
  obtain p k where e: "e = (p, k)"
    by (cases e)
  have "rel_option le (outs p) (outs' p)"
    using Cons.prems(1) by (simp add: below_def)
  then have "rel_option le
      (case outs p of None \<Rightarrow> st | Some l \<Rightarrow>
        Some (case st of None \<Rightarrow> transfer_edge T k l | Some s \<Rightarrow> lat_join T s (transfer_edge T k l)))
      (case outs' p of None \<Rightarrow> st' | Some l \<Rightarrow>
        Some (case st' of None \<Rightarrow> transfer_edge T k l | Some s \<Rightarrow> lat_join T s (transfer_edge T k l)))"
    using Cons.prems(2) by (cases "outs p"; cases "outs' p"; cases st; cases st')
      (auto intro: edge_mono join_mono)
  then show ?case
    unfolding e gather.simps Let_def by (rule Cons.IH [OF Cons.prems(1)])
qed simp

lemma start_state_mono:
  assumes "below outs outs'" and "rel_option le (ins v) (ins' v)"
    and "start_state T edges_in boundary ins outs v = Inr i"
    and "start_state T edges_in boundary ins' outs' v = Inr i'"
  shows "le i i'"
  using assms(2-4) gather_mono [OF assms(1), of None None "edges_in v"]
  by (auto simp: start_state_def expect_state_def split: if_splits option.splits)

text \<open>Every block's state is at most what its neighbours give it.\<close>

definition rising :: "(node \<rightharpoonup> 'a) \<Rightarrow> (node \<rightharpoonup> 'a) \<Rightarrow> bool" where
  "rising ins outs \<longleftrightarrow> below ins ins \<and> below outs outs \<and> (\<forall>v \<in> R. \<forall>i l o'. start_state T edges_in boundary ins outs v = Inr i \<longrightarrow>
     tb v i = Inr l \<longrightarrow> outs v = Some o' \<longrightarrow> le o' l)"

lemma below_upd: "below m m' \<Longrightarrow> le a b \<Longrightarrow> below (m(v \<mapsto> a)) (m'(v \<mapsto> b))"
  by (simp add: below_def)

lemma rising_step:
  assumes r: "rising ins outs" and v: "v \<in> R" "outs v \<noteq> None" and ins: "\<forall>w \<in> R. ins w \<noteq> None"
    and i: "start_state T edges_in boundary ins outs v = Inr i" and l: "tb v i = Inr l"
  shows "rising (ins(v \<mapsto> i)) (outs(v \<mapsto> l))" and "below outs (outs(v \<mapsto> l))"
proof -
  have tables: "below ins ins" "below outs outs"
    using r by (simp_all add: rising_def)
  have "le i i"
    using start_state_mono [OF tables(2) _ i i] tables(1) by (simp add: below_def)
  then have new: "le i i" "le l l"
    using block_mono [OF v(1) _ l l] by simp_all
  obtain o' where o': "outs v = Some o'" "le o' l"
    using r v i l unfolding rising_def by blast
  then show below: "below outs (outs(v \<mapsto> l))"
    using tables(2) by (simp add: below_def)
  show "rising (ins(v \<mapsto> i)) (outs(v \<mapsto> l))"
    unfolding rising_def
  proof (intro conjI ballI allI impI below_upd tables new)
    fix w j m q
    assume w: "w \<in> R" "start_state T edges_in boundary (ins(v \<mapsto> i)) (outs(v \<mapsto> l)) w = Inr j"
      "tb w j = Inr m" "(outs(v \<mapsto> l)) w = Some q"
    show "le q m"
    proof (cases "w = v")
      case True
      have "le i j"
        using start_state_mono [OF below, of "ins(v \<mapsto> i)" v "ins(v \<mapsto> i)" i j]
          start_state_again [OF i] w(2) True new(1) by simp
      then show ?thesis
        using block_mono [OF v(1) _ l] w(3,4) True by auto
    next
      case False
      obtain j0 where j0: "start_state T edges_in boundary ins outs w = Inr j0"
        using start_state_returns [of ins w] ins w(1) by auto
      then obtain m0 where m0: "tb w j0 = Inr m0"
        using total [OF w(1)] by blast
      have "le j0 j"
        using start_state_mono [OF below _ j0 w(2)] False tables(1) by (simp add: below_def)
      then show ?thesis
        using block_mono [OF w(1) _ m0 w(3)] r j0 m0 w(1,4) False le_trans
        unfolding rising_def by (metis fun_upd_other)
    qed
  qed
qed


text \<open>
  The potential of a run: the blocks waiting, and for every block how often its state may
  still grow, times the number of blocks it wakes each time.
\<close>

definition potential :: "node list \<Rightarrow> (node \<rightharpoonup> 'a) \<Rightarrow> nat" where
  "potential wl outs = length wl +
    (\<Sum>v \<in> R. length (edges_out v) * (case outs v of None \<Rightarrow> 0 | Some l \<Rightarrow> height - rank l))"

lemma potential_step:
  assumes fin: "finite R" and v: "v \<in> R" "outs v = Some o'" "le o' l"
    and d: "distinct new" and new: "set new = (if o' = l then {} else fst ` set (edges_out v) - set rest)"
  shows "potential (rest @ new) (outs(v \<mapsto> l)) + 1 \<le> potential (v # rest) outs"
proof -
  let ?f = "\<lambda>outs w. length (edges_out w) * (case outs w of None \<Rightarrow> 0 | Some l \<Rightarrow> height - rank l)"
  have rest: "(\<Sum>w \<in> R - {v}. ?f (outs(v \<mapsto> l)) w) = (\<Sum>w \<in> R - {v}. ?f outs w)"
    by (rule sum.cong) auto
  have "length new \<le> length (edges_out v) * (if o' = l then 0 else 1)"
  proof -
    have "card (set new) \<le> card (fst ` set (edges_out v))" if "o' \<noteq> l"
      using that new by (intro card_mono) auto
    also have "card (fst ` set (edges_out v)) \<le> length (edges_out v)"
      by (metis card_length length_map set_map)
    finally show ?thesis
      using distinct_card [OF d] new by (cases "o' = l") auto
  qed
  moreover have "?f (outs(v \<mapsto> l)) v + length (edges_out v) * (if o' = l then 0 else 1) \<le> ?f outs v"
  proof (cases "o' = l")
    case False
    then have "height - rank l + 1 \<le> height - rank o'"
      using rank_mono [OF v(3)] rank_bound [of l] by linarith
    then have "length (edges_out v) * (height - rank l + 1) \<le> length (edges_out v) * (height - rank o')"
      by (rule mult_le_mono2)
    then show ?thesis
      using False v(2) by (simp add: algebra_simps)
  qed (use v(2) in simp)
  ultimately have "?f (outs(v \<mapsto> l)) v + length new \<le> ?f outs v"
    by linarith
  then show ?thesis
    unfolding potential_def sum.remove [OF fin v(1)] rest by simp
qed

lemma run_flow_converges:
  assumes fin: "finite R" and order: "distinct order" "set order = R"
    and init: "\<And>v. v \<in> R \<Longrightarrow> ins v \<noteq> None \<and> outs v \<noteq> None" and r: "rising ins outs"
    and budget: "length order + height * (\<Sum>v \<in> R. length (edges_out v)) \<le> n"
  shows "returns False (run_flow T tb edges_in edges_out boundary n order ins outs) fl_converged"
  unfolding run_flow_def
proof (rule returns_loop [where I = "\<lambda>f. flow_inv ins outs f \<and> rising (fl_in f) (fl_out f) \<and>
        fl_iterations f + potential (fl_worklist f) (fl_out f) \<le> n"
      and \<mu> = "\<lambda>f. n + 1 - fl_iterations f"])
  fix f
  assume I: "flow_inv ins outs f \<and> rising (fl_in f) (fl_out f) \<and>
    fl_iterations f + potential (fl_worklist f) (fl_out f) \<le> n"
  show "returns False (flow_step T tb edges_in edges_out boundary n f) (\<lambda>r. case r of
      Inl f' \<Rightarrow> (flow_inv ins outs f' \<and> rising (fl_in f') (fl_out f') \<and>
          fl_iterations f' + potential (fl_worklist f') (fl_out f') \<le> n) \<and>
        n + 1 - fl_iterations f' < n + 1 - fl_iterations f
    | Inr f' \<Rightarrow> fl_converged f')"
  proof (cases "fl_worklist f")
    case Nil
    then show ?thesis
      using I by (simp add: flow_step_def flow_inv_def)
  next
    case (Cons block rest)
    have it: "fl_iterations f < n"
      using I Cons by (auto simp: potential_def)
    then obtain i l new where step: "start_state T edges_in boundary (fl_in f) (fl_out f) block = Inr i"
      "tb block i = Inr l"
      "flow_step T tb edges_in edges_out boundary n f = Inr (Inl (f\<lparr>fl_worklist := rest @ new,
        fl_worklist_set := set (rest @ new), fl_iterations := fl_iterations f + 1,
        fl_in := (fl_in f)(block \<mapsto> i), fl_out := (fl_out f)(block \<mapsto> l)\<rparr>))"
      "distinct (rest @ new)"
      "set new = (if fl_out f block = Some l then {} else fst ` set (edges_out block) - set rest)"
      using flow_step_eq [OF _ Cons] I by metis
    have block: "block \<in> R" "fl_out f block \<noteq> None" "\<forall>w \<in> R. fl_in f w \<noteq> None"
      using I Cons by (auto simp: flow_inv_def)
    then obtain o' where o': "fl_out f block = Some o'" "le o' l"
      using I step(1,2) unfolding rising_def by blast
    have "potential (rest @ new) ((fl_out f)(block \<mapsto> l)) + 1 \<le> potential (block # rest) (fl_out f)"
      using step(4,5) o' by (intro potential_step [OF fin block(1), where o' = o']) auto
    moreover have "n - fl_iterations f < Suc n - fl_iterations f"
      using it by simp
    ultimately show ?thesis
      using flow_inv_step [OF _ Cons step(1,2,4,5) refl] rising_step(1) [OF _ block step(1,2)] I Cons
        step(3) by simp
  qed
next
  have "(\<Sum>v \<in> R. length (edges_out v) * (case outs v of None \<Rightarrow> 0 | Some l \<Rightarrow> height - rank l)) \<le>
      (\<Sum>v \<in> R. height * length (edges_out v))"
    by (rule sum_mono) (simp add: mult.commute split: option.split)
  then have "potential order outs \<le> n"
    using budget by (simp add: potential_def sum_distrib_left)
  then show "flow_inv ins outs \<lparr>fl_worklist = order, fl_worklist_set = set order, fl_iterations = 0,
        fl_converged = True, fl_in = ins, fl_out = outs\<rparr> \<and>
      rising (fl_in \<lparr>fl_worklist = order, fl_worklist_set = set order, fl_iterations = 0,
        fl_converged = True, fl_in = ins, fl_out = outs\<rparr>) (fl_out \<lparr>fl_worklist = order,
        fl_worklist_set = set order, fl_iterations = 0, fl_converged = True, fl_in = ins, fl_out = outs\<rparr>) \<and>
      fl_iterations \<lparr>fl_worklist = order, fl_worklist_set = set order, fl_iterations = 0,
        fl_converged = True, fl_in = ins, fl_out = outs\<rparr> + potential (fl_worklist \<lparr>fl_worklist = order,
        fl_worklist_set = set order, fl_iterations = 0, fl_converged = True, fl_in = ins, fl_out = outs\<rparr>)
        (fl_out \<lparr>fl_worklist = order, fl_worklist_set = set order, fl_iterations = 0,
        fl_converged = True, fl_in = ins, fl_out = outs\<rparr>) \<le> n"
    using order init r by (auto simp: flow_inv_def)
qed simp

end

end
