(* ===== verification/Cfg_Builder.thy ===== *)
theory Cfg_Builder
  imports Cfg_Graph
begin

text \<open>
  Building the control-flow graph of a method from its lowered body
  (\<open>cfg/src/builder.rs\<close>). The builder keeps the block under construction, the stacks of
  active handlers and loops, the labels seen and the jumps waiting for theirs. The
  recursion over nested statements carries fuel; statements nest towards smaller arena
  indices, so the size of the arena is enough.
\<close>

section \<open>State\<close>

record 'g cfg_builder =
  b_cfg :: "'g control_flow_graph"
  b_current_block :: "node option"
  b_except_stack :: "node list"
  b_loop_stack :: "(node \<times> node) list"
  b_label_table :: "name \<rightharpoonup> node"
  b_pending_gotos :: "(node \<times> name) list"

definition builder_new :: "'g digraph \<Rightarrow> 'g cfg_builder" where
  "builder_new G = \<lparr>b_cfg = cfg_new G, b_current_block = None, b_except_stack = [],
    b_loop_stack = [], b_label_table = Map.empty, b_pending_gotos = []\<rparr>"

definition add_node :: "'g digraph \<Rightarrow> cfg_vertex \<Rightarrow> 'g cfg_builder \<Rightarrow> node \<times> 'g cfg_builder" where
  "add_node G v b = (let (i, c) = add_vertex G v (b_cfg b) in (i, b\<lparr>b_cfg := c\<rparr>))"

definition add_node_of ::
  "'g digraph \<Rightarrow> cfg_vertex \<Rightarrow> stmt_idx \<Rightarrow> 'g cfg_builder \<Rightarrow> node \<times> 'g cfg_builder" where
  "add_node_of G v stmt b =
    (let (i, c) = add_vertex_with_origin G v stmt (b_cfg b) in (i, b\<lparr>b_cfg := c\<rparr>))"

definition new_block :: "'g digraph \<Rightarrow> 'g cfg_builder \<Rightarrow> node \<times> 'g cfg_builder" where
  "new_block G b = add_node G (BasicBlock []) b"

definition add_edge ::
  "'g digraph \<Rightarrow> node \<Rightarrow> node \<Rightarrow> cfg_edge_type \<Rightarrow> 'g cfg_builder \<Rightarrow> 'g cfg_builder outcome" where
  "add_edge G a t k b = and_then (cfg_add_edge G a t k (b_cfg b)) (\<lambda>c. Inr (b\<lparr>b_cfg := c\<rparr>))"

text \<open>\<open>if let Some(block) = self.current_block\<close>.\<close>

definition with_current ::
  "(node \<Rightarrow> 'g cfg_builder \<Rightarrow> 'g cfg_builder outcome) \<Rightarrow> 'g cfg_builder \<Rightarrow> 'g cfg_builder outcome" where
  "with_current f b = (case b_current_block b of None \<Rightarrow> Inr b | Some i \<Rightarrow> f i b)"

definition set_current :: "node \<Rightarrow> 'g cfg_builder \<Rightarrow> 'g cfg_builder" where
  "set_current i b = b\<lparr>b_current_block := Some i\<rparr>"

definition add_to_current_block_hir :: "'g digraph \<Rightarrow> stmt_idx \<Rightarrow> 'g cfg_builder \<Rightarrow> 'g cfg_builder" where
  "add_to_current_block_hir G stmt b =
    (case b_current_block b of
       None \<Rightarrow> b
     | Some i \<Rightarrow>
         (case vertex G (b_cfg b) i of
            Some (BasicBlock ss) \<Rightarrow>
              b\<lparr>b_cfg := (b_cfg b)\<lparr>cfg_graph :=
                dg_set_weight G (cfg_graph (b_cfg b)) i (BasicBlock (ss @ [stmt]))\<rparr>\<rparr>
          | _ \<Rightarrow> b))"

definition seal_jump :: "'g digraph \<Rightarrow> 'g cfg_builder \<Rightarrow> 'g cfg_builder outcome" where
  "seal_jump G b =
    (let (dead_block, b) = new_block G b
     in and_then (with_current (\<lambda>i. add_edge G i dead_block Unexecutable) b) (\<lambda>b.
        Inr (set_current dead_block b)))"

definition is_block_reachable :: "'g digraph \<Rightarrow> 'g cfg_builder \<Rightarrow> node \<Rightarrow> bool" where
  "is_block_reachable G b block \<longleftrightarrow>
     incoming_edges G (b_cfg b) block \<noteq> [] \<or> cfg_start (b_cfg b) = Some block"

definition block_has_live_incoming :: "'g digraph \<Rightarrow> 'g cfg_builder \<Rightarrow> node \<Rightarrow> bool" where
  "block_has_live_incoming G b block =
    (if cfg_start (b_cfg b) = Some block then True
     else list_ex (\<lambda>(_, k). is_executable k) (incoming_edges G (b_cfg b) block))"

definition link_to :: "'g digraph \<Rightarrow> node \<Rightarrow> node \<Rightarrow> 'g cfg_builder \<Rightarrow> 'g cfg_builder outcome" where
  "link_to G from to b =
    (let k = (if block_has_live_incoming G b from then Unconditional else Unexecutable)
     in add_edge G from to k b)"


section \<open>Jumps\<close>

definition walk_return_statement_hir :: "'g digraph \<Rightarrow> stmt_idx \<Rightarrow> 'g cfg_builder \<Rightarrow> 'g cfg_builder outcome" where
  "walk_return_statement_hir G stmt b =
    (let b = add_to_current_block_hir G stmt b
     in with_current (\<lambda>i b.
          and_then (add_edge G i (cfg_exit (b_cfg b)) Unconditional b) (seal_jump G)) b)"

definition walk_raise_statement_hir :: "'g digraph \<Rightarrow> stmt_idx \<Rightarrow> 'g cfg_builder \<Rightarrow> 'g cfg_builder outcome" where
  "walk_raise_statement_hir G stmt b =
    (let b = add_to_current_block_hir G stmt b
     in with_current (\<lambda>i b.
          let target = (case last_opt (b_except_stack b) of Some t \<Rightarrow> t | None \<Rightarrow> cfg_exit (b_cfg b))
          in and_then (add_edge G i target Exception b) (seal_jump G)) b)"

text \<open>\<open>if let (Some(block), Some(frame)) = (self.current_block, self.loop_stack.last())\<close>.\<close>

definition loop_jump ::
  "'g digraph \<Rightarrow> (node \<times> node \<Rightarrow> node) \<Rightarrow> stmt_idx \<Rightarrow> 'g cfg_builder \<Rightarrow> 'g cfg_builder outcome" where
  "loop_jump G target stmt b =
    (let b = add_to_current_block_hir G stmt b
     in and_then
       (case (b_current_block b, last_opt (b_loop_stack b)) of
          (Some i, Some frame) \<Rightarrow> add_edge G i (target frame) Unconditional b
        | _ \<Rightarrow> Inr b) (seal_jump G))"

definition walk_break_statement_hir :: "'g digraph \<Rightarrow> stmt_idx \<Rightarrow> 'g cfg_builder \<Rightarrow> 'g cfg_builder outcome" where
  "walk_break_statement_hir G = loop_jump G snd"

definition walk_continue_statement_hir :: "'g digraph \<Rightarrow> stmt_idx \<Rightarrow> 'g cfg_builder \<Rightarrow> 'g cfg_builder outcome" where
  "walk_continue_statement_hir G = loop_jump G fst"

definition walk_goto_statement_hir ::
  "'g digraph \<Rightarrow> stmt_idx \<Rightarrow> name \<Rightarrow> 'g cfg_builder \<Rightarrow> 'g cfg_builder outcome" where
  "walk_goto_statement_hir G stmt label b =
    (let b = add_to_current_block_hir G stmt b
     in and_then
       (with_current (\<lambda>i b.
          case b_label_table b label of
            Some target \<Rightarrow> add_edge G i target Unconditional b
          | None \<Rightarrow> Inr (b\<lparr>b_pending_gotos := b_pending_gotos b @ [(i, label)]\<rparr>)) b) (seal_jump G))"

fun add_edges_from ::
  "'g digraph \<Rightarrow> (node \<times> name) list \<Rightarrow> node \<Rightarrow> 'g cfg_builder \<Rightarrow> 'g cfg_builder outcome" where
  "add_edges_from G [] t b = Inr b"
| "add_edges_from G ((source, _) # rest) t b =
    and_then (add_edge G source t Unconditional b) (add_edges_from G rest t)"

definition walk_label_statement_hir ::
  "'g digraph \<Rightarrow> stmt_idx \<Rightarrow> name \<Rightarrow> 'g cfg_builder \<Rightarrow> 'g cfg_builder outcome" where
  "walk_label_statement_hir G stmt label b =
    (let (label_block, b) = new_block G b
     in and_then (with_current (\<lambda>i. add_edge G i label_block Unconditional) b) (\<lambda>b.
        let (matched, leftover) = partition (\<lambda>(_, n). n = label) (b_pending_gotos b)
        in and_then (add_edges_from G matched label_block (b\<lparr>b_pending_gotos := []\<rparr>)) (\<lambda>b.
        let b = b\<lparr>b_pending_gotos := leftover,
                 b_label_table := (b_label_table b)(label \<mapsto> label_block)\<rparr>;
            b = add_to_current_block_hir G stmt (set_current label_block b);
            (after_label, b) = new_block G b
        in and_then (add_edge G label_block after_label Unconditional b) (\<lambda>b.
           Inr (set_current after_label b)))))"


section \<open>Structured statements\<close>

text \<open>
  The walk over nested statements is the argument \<open>walk\<close>; \<open>walk_all\<close> is the loop over a
  block.
\<close>

type_synonym 'g walker = "stmt_idx \<Rightarrow> 'g cfg_builder \<Rightarrow> 'g cfg_builder outcome"

fun walk_all :: "'g walker \<Rightarrow> stmt_idx list \<Rightarrow> 'g cfg_builder \<Rightarrow> 'g cfg_builder outcome" where
  "walk_all walk [] b = Inr b"
| "walk_all walk (s # rest) b = and_then (walk s b) (walk_all walk rest)"

text \<open>Walk a branch from its block and link its end to the merge block.\<close>

definition walk_branch ::
  "'g digraph \<Rightarrow> 'g walker \<Rightarrow> node \<Rightarrow> node \<Rightarrow> stmt_idx list \<Rightarrow> 'g cfg_builder \<Rightarrow> 'g cfg_builder outcome" where
  "walk_branch G walk block merge_block stmts b =
    and_then (walk_all walk stmts (set_current block b))
      (with_current (\<lambda>exit. link_to G exit merge_block))"

fun walk_elsifs ::
  "'g digraph \<Rightarrow> 'g walker \<Rightarrow> stmt_idx \<Rightarrow> node \<Rightarrow> (expr_idx \<times> stmt_idx list) list \<Rightarrow> node \<Rightarrow>
     'g cfg_builder \<Rightarrow> (node \<times> 'g cfg_builder) outcome" where
  "walk_elsifs G walk stmt merge_block [] current_cond b = Inr (current_cond, b)"
| "walk_elsifs G walk stmt merge_block ((condition, stmts) # rest) current_cond b =
    (let (elsif_cond, b) = add_node_of G (Conditional condition) stmt b
     in and_then (add_edge G current_cond elsif_cond FalseBranch b) (\<lambda>b.
        let (elsif_block, b) = new_block G b
        in and_then (add_edge G elsif_cond elsif_block TrueBranch b) (\<lambda>b.
           and_then (walk_branch G walk elsif_block merge_block stmts b) (\<lambda>b.
           walk_elsifs G walk stmt merge_block rest elsif_cond b))))"

definition walk_if_statement_hir ::
  "'g digraph \<Rightarrow> 'g walker \<Rightarrow> stmt_idx \<Rightarrow> hir_if_stmt \<Rightarrow> 'g cfg_builder \<Rightarrow> 'g cfg_builder outcome" where
  "walk_if_statement_hir G walk stmt s b =
    (let (cond_vertex, b) = add_node_of G (Conditional (if_condition s)) stmt b
     in and_then (with_current (\<lambda>i. add_edge G i cond_vertex Unconditional) b) (\<lambda>b.
        let (merge_block, b) = new_block G b;
            (then_block, b) = new_block G b
        in and_then (add_edge G cond_vertex then_block TrueBranch b) (\<lambda>b.
           and_then (walk_branch G walk then_block merge_block (if_then s) b) (\<lambda>b.
           and_then (walk_elsifs G walk stmt merge_block (if_elsifs s) cond_vertex b) (\<lambda>(current_cond, b).
           and_then
             (case if_else s of
                Some stmts \<Rightarrow>
                  let (else_block, b) = new_block G b
                  in and_then (add_edge G current_cond else_block FalseBranch b)
                       (walk_branch G walk else_block merge_block stmts)
              | None \<Rightarrow> add_edge G current_cond merge_block FalseBranch b) (\<lambda>b.
           Inr (set_current merge_block b)))))))"

definition expect_some :: "'a option \<Rightarrow> 'a outcome" where
  "expect_some x = (case x of None \<Rightarrow> Inl Panic | Some v \<Rightarrow> Inr v)"

text \<open>The block a branch starts in, the condition later branches hang from, and whether
  an \<open>#Else\<close> was seen.\<close>

definition open_pre_branch ::
  "'g digraph \<Rightarrow> node \<Rightarrow> pre_branch \<Rightarrow> node \<times> bool \<Rightarrow> 'g cfg_builder \<Rightarrow>
     (node \<times> (node \<times> bool) \<times> 'g cfg_builder) outcome" where
  "open_pre_branch G cond_vertex br = (\<lambda>(current_cond, saw_else) b.
    case br_kind br of
      PB_Then \<Rightarrow>
        let (then_block, b) = new_block G b
        in and_then (add_edge G cond_vertex then_block TrueBranch b) (\<lambda>b.
           Inr (then_block, (current_cond, saw_else), b))
    | PB_ElsIf _ \<Rightarrow>
        and_then (expect_some (br_condition_range br)) (\<lambda>c.
        and_then (expect_some (br_directive_range br)) (\<lambda>d.
        let (elsif_cond, b) = add_node G (PreprocCondition (with_directive_range c d)) b
        in and_then (add_edge G current_cond elsif_cond FalseBranch b) (\<lambda>b.
           let (elsif_block, b) = new_block G b
           in and_then (add_edge G elsif_cond elsif_block TrueBranch b) (\<lambda>b.
              Inr (elsif_block, (elsif_cond, saw_else), b)))))
    | PB_Else \<Rightarrow>
        let (else_block, b) = new_block G b
        in and_then (add_edge G current_cond else_block FalseBranch b) (\<lambda>b.
           Inr (else_block, (current_cond, True), b)))"

fun walk_pre_branches ::
  "'g digraph \<Rightarrow> 'g walker \<Rightarrow> node \<Rightarrow> node \<Rightarrow> pre_branch list \<Rightarrow> node \<times> bool \<Rightarrow>
     'g cfg_builder \<Rightarrow> ((node \<times> bool) \<times> 'g cfg_builder) outcome" where
  "walk_pre_branches G walk cond_vertex merge_block [] st b = Inr (st, b)"
| "walk_pre_branches G walk cond_vertex merge_block (br # rest) st b =
    and_then (open_pre_branch G cond_vertex br st b) (\<lambda>(block, st, b).
    and_then (walk_branch G walk block merge_block (br_stmts br) b) (\<lambda>b.
    walk_pre_branches G walk cond_vertex merge_block rest st b))"

definition walk_preproc_if_statement_hir ::
  "'g digraph \<Rightarrow> 'g walker \<Rightarrow> preproc_if_stmt \<Rightarrow> 'g cfg_builder \<Rightarrow> 'g cfg_builder outcome" where
  "walk_preproc_if_statement_hir G walk s b =
    (let (cond_vertex, b) = add_node G (PreprocCondition
           (with_ranges (pp_condition_range s) (pp_directive_range s) (pp_full_range s))) b
     in and_then (with_current (\<lambda>i. add_edge G i cond_vertex Unconditional) b) (\<lambda>b.
        let (merge_block, b) = new_block G b
        in and_then (walk_pre_branches G walk cond_vertex merge_block (preproc_branches s)
             (cond_vertex, False) b) (\<lambda>((current_cond, saw_else), b).
           and_then (if saw_else then Inr b else add_edge G current_cond merge_block FalseBranch b) (\<lambda>b.
           Inr (set_current merge_block b)))))"

definition walk_loop ::
  "'g digraph \<Rightarrow> 'g walker \<Rightarrow> stmt_idx \<Rightarrow> cfg_vertex \<Rightarrow> stmt_idx list \<Rightarrow> 'g cfg_builder \<Rightarrow> 'g cfg_builder outcome" where
  "walk_loop G walk stmt header loop_body b =
    (let (header, b) = add_node_of G header stmt b
     in and_then (with_current (\<lambda>i. link_to G i header) b) (\<lambda>b.
        let (body_block, b) = new_block G b
        in and_then (add_edge G header body_block TrueBranch b) (\<lambda>b.
           let (after_loop, b) = new_block G b;
               b = b\<lparr>b_loop_stack := b_loop_stack b @ [(header, after_loop)]\<rparr>
           in and_then (walk_all walk loop_body (set_current body_block b)) (\<lambda>b.
              let b = b\<lparr>b_loop_stack := butlast (b_loop_stack b)\<rparr>
              in and_then (with_current (\<lambda>exit b.
                   if is_block_reachable G b exit then add_edge G exit header Unconditional b
                   else Inr b) b) (\<lambda>b.
                 and_then (add_edge G header after_loop FalseBranch b) (\<lambda>b.
                 Inr (set_current after_loop b)))))))"

definition walk_try_statement_hir ::
  "'g digraph \<Rightarrow> 'g walker \<Rightarrow> stmt_idx \<Rightarrow> stmt_idx list \<Rightarrow> stmt_idx list \<Rightarrow> 'g cfg_builder \<Rightarrow> 'g cfg_builder outcome" where
  "walk_try_statement_hir G walk stmt try_body except b =
    (let (try_vertex, b) = add_node_of G TryVertex stmt b
     in and_then (with_current (\<lambda>i. add_edge G i try_vertex Unconditional) b) (\<lambda>b.
        let (try_block, b) = new_block G b
        in and_then (add_edge G try_vertex try_block Unconditional b) (\<lambda>b.
           let (except_block, b) = new_block G b
           in and_then (add_edge G try_vertex except_block Exception b) (\<lambda>b.
              let b = b\<lparr>b_except_stack := b_except_stack b @ [except_block]\<rparr>
              in and_then (walk_all walk try_body (set_current try_block b)) (\<lambda>b.
                 let try_exit = b_current_block b;
                     b = b\<lparr>b_except_stack := butlast (b_except_stack b)\<rparr>
                 in and_then (walk_all walk except (set_current except_block b)) (\<lambda>b.
                    let except_exit = b_current_block b;
                        (merge_block, b) = new_block G b
                    in and_then (case try_exit of None \<Rightarrow> Inr b | Some exit \<Rightarrow> link_to G exit merge_block b) (\<lambda>b.
                       and_then (case except_exit of None \<Rightarrow> Inr b | Some exit \<Rightarrow> link_to G exit merge_block b) (\<lambda>b.
                       Inr (set_current merge_block b)))))))))"


section \<open>The walk\<close>

definition walk_stmt :: "'g digraph \<Rightarrow> hir_body \<Rightarrow> 'g walker \<Rightarrow> 'g walker" where
  "walk_stmt G body walk i b =
    and_then (stmt_at body i) (\<lambda>s.
    case s of
      S_Expr e \<Rightarrow>
        if is_recovered body e then Inr b else Inr (add_to_current_block_hir G i b)
    | S_Return _ \<Rightarrow> walk_return_statement_hir G i b
    | S_Raise _ \<Rightarrow> walk_raise_statement_hir G i b
    | S_If x \<Rightarrow> walk_if_statement_hir G walk i x b
    | S_PreprocIf x \<Rightarrow> walk_preproc_if_statement_hir G walk x b
    | S_While condition loop_body \<Rightarrow> walk_loop G walk i (WhileHeader condition) loop_body b
    | S_For var from to loop_body \<Rightarrow> walk_loop G walk i (ForHeader var from to) loop_body b
    | S_ForEach var coll loop_body \<Rightarrow> walk_loop G walk i (ForEachHeader var coll) loop_body b
    | S_Try try_body except \<Rightarrow> walk_try_statement_hir G walk i try_body except b
    | S_Break \<Rightarrow> walk_break_statement_hir G i b
    | S_Continue \<Rightarrow> walk_continue_statement_hir G i b
    | S_Goto label \<Rightarrow> walk_goto_statement_hir G i label b
    | S_Label label \<Rightarrow> walk_label_statement_hir G i label b
    | _ \<Rightarrow> Inr (add_to_current_block_hir G i b))"

primrec walk_statement_hir :: "'g digraph \<Rightarrow> hir_body \<Rightarrow> nat \<Rightarrow> 'g walker" where
  "walk_statement_hir G body 0 = (\<lambda>i b. Inl OutOfFuel)"
| "walk_statement_hir G body (Suc n) = walk_stmt G body (walk_statement_hir G body n)"

definition ends_with_terminator :: "'g digraph \<Rightarrow> hir_body \<Rightarrow> 'g cfg_builder \<Rightarrow> node \<Rightarrow> bool outcome" where
  "ends_with_terminator G body b block =
    (case vertex G (b_cfg b) block of
       Some (BasicBlock ss) \<Rightarrow>
         (case last_opt ss of
            None \<Rightarrow> Inr False
          | Some s \<Rightarrow> and_then (stmt_at body s) (\<lambda>st. Inr (is_terminator st)))
     | _ \<Rightarrow> Inr False)"

definition build_graph_from_hir ::
  "'g digraph \<Rightarrow> stmt_idx list \<Rightarrow> hir_body \<Rightarrow> 'g control_flow_graph outcome" where
  "build_graph_from_hir G body_stmts body =
    (let (start, b) = new_block G (builder_new G);
         b = set_current start (b\<lparr>b_cfg := set_start start (b_cfg b)\<rparr>)
     in and_then (walk_all (walk_statement_hir G body (length (body_stmt_arena body))) body_stmts b) (\<lambda>b.
        and_then (with_current (\<lambda>block b.
          and_then (ends_with_terminator G body b block) (\<lambda>t.
          if t then Inr b else link_to G block (cfg_exit (b_cfg b)) b)) b) (\<lambda>b.
        Inr (b_cfg b))))"

end
