(* ===== verification/Cfg_Shape.thy ===== *)
theory Cfg_Shape
  imports Cfg_Builder
begin

text \<open>
  What the builder guarantees of the graph. An invariant over the builder's state (every
  index it holds names a vertex, nothing enters the start, nothing leaves the exit) and
  a relation between the states before and after a statement: every vertex the statement
  adds lies on a path from the block before it to the block after it.
\<close>

lemma and_then_assoc: "and_then (and_then m f) g = and_then m (\<lambda>x. and_then (f x) g)"
  by (cases m) simp_all

section \<open>Paths\<close>

definition path :: "cfg_edge set \<Rightarrow> node \<Rightarrow> node \<Rightarrow> bool" where
  "path E a b \<longleftrightarrow> (a, b) \<in> (edge_rel E)\<^sup>*"

text \<open>Every vertex of a set lies on a path between two.\<close>

definition between :: "cfg_edge set \<Rightarrow> node \<Rightarrow> node \<Rightarrow> node set \<Rightarrow> bool" where
  "between E a z A \<longleftrightarrow> path E a z \<and> (\<forall>v \<in> A. path E a v \<and> path E v z)"

lemma path_refl [simp, intro]: "path E a a"
  by (simp add: path_def)

lemma path_edge: "(a, k, b) \<in> E \<Longrightarrow> path E a b"
  by (auto simp: path_def edge_rel_def)

lemma path_trans: "path E a b \<Longrightarrow> path E b c \<Longrightarrow> path E a c"
  by (auto simp: path_def)

lemma path_mono: "path E a b \<Longrightarrow> E \<subseteq> E' \<Longrightarrow> path E' a b"
  using rtrancl_mono [of "edge_rel E" "edge_rel E'"] by (auto simp: path_def edge_rel_def)

lemma path_last: "path E a b \<Longrightarrow> a \<noteq> b \<Longrightarrow> \<exists>p k. (p, k, b) \<in> E"
  unfolding path_def by (erule rtranclE) (auto simp: edge_rel_def)

lemma between_path: "between E a z A \<Longrightarrow> path E a z"
  by (simp add: between_def)

lemma between_mono: "between E a z A \<Longrightarrow> E \<subseteq> E' \<Longrightarrow> A' \<subseteq> A \<Longrightarrow> between E' a z A'"
  unfolding between_def by (blast intro: path_mono)

lemma between_refl: "between E a a {a}"
  by (simp add: between_def)

lemma between_edge: "(a, k, b) \<in> E \<Longrightarrow> between E a b {a, b}"
  by (auto simp: between_def intro: path_edge)

lemma between_trans: "between E a b A \<Longrightarrow> between E b c B \<Longrightarrow> between E a c (A \<union> B)"
  by (auto simp: between_def intro: path_trans)

lemma between_union: "between E a z A \<Longrightarrow> between E a z B \<Longrightarrow> between E a z (A \<union> B)"
  by (auto simp: between_def)

text \<open>
  A chain of conditions from \<open>a\<close> to \<open>z\<close> with branches that all end in \<open>m\<close>.
\<close>

definition fan :: "cfg_edge set \<Rightarrow> node \<Rightarrow> node \<Rightarrow> node \<Rightarrow> node set \<Rightarrow> bool" where
  "fan E a z m A \<longleftrightarrow> path E a z \<and> (\<forall>v \<in> A. path E a v \<and> (path E v z \<or> path E v m))"

lemma fan_refl: "fan E a a m {}"
  by (simp add: fan_def)

lemma fan_mono: "fan E a z m A \<Longrightarrow> E \<subseteq> E' \<Longrightarrow> A' \<subseteq> A \<Longrightarrow> fan E' a z m A'"
  unfolding fan_def by (blast intro: path_mono)

lemma fan_trans: "fan E a z m A \<Longrightarrow> fan E z y m B \<Longrightarrow> fan E a y m (A \<union> B)"
  unfolding fan_def by (blast intro: path_trans)

lemma fan_branch: "path E a z \<Longrightarrow> path E a b \<Longrightarrow> between E b m B \<Longrightarrow> fan E a z m B"
  unfolding fan_def between_def by (blast intro: path_trans)

lemma fan_union: "fan E a z m A \<Longrightarrow> fan E a z m B \<Longrightarrow> fan E a z m (A \<union> B)"
  unfolding fan_def by blast

lemma fan_edge: "(a, k, z) \<in> E \<Longrightarrow> fan E a z m {z}"
  unfolding fan_def by (auto intro: path_edge)

lemma fan_close: "fan E a z m A \<Longrightarrow> path E z m \<Longrightarrow> between E a m (insert z A)"
  unfolding fan_def between_def by (blast intro: path_trans)

lemma between_cycle:
  "between E a b A \<Longrightarrow> path E b a \<Longrightarrow> between E a a A"
  by (auto simp: between_def intro: path_trans)


text \<open>
  The shape of a finished graph with \<open>n\<close> vertices and edges \<open>A\<close>: it begins at vertex 1 and
  ends at vertex 0, no edge enters the start or leaves the exit, and every vertex lies
  on a path from the start to the exit.
\<close>

definition cfg_shape :: "nat \<Rightarrow> cfg_edge set \<Rightarrow> 'g control_flow_graph \<Rightarrow> bool" where
  "cfg_shape n A c \<longleftrightarrow>
     cfg_start c = Some 1 \<and> cfg_exit c = 0 \<and> 1 < n \<and>
     (\<forall>a k t. (a, k, t) \<in> A \<longrightarrow> a < n \<and> t < n \<and> t \<noteq> 1 \<and> a \<noteq> 0) \<and>
     (\<forall>v < n. path A 1 v \<and> path A v 0)"

text \<open>
  What the vertices hold: the exit vertex at index 0 and nothing else there, and blocks of
  statements of the body.
\<close>

definition cfg_contents :: "hir_body \<Rightarrow> cfg_vertex list \<Rightarrow> bool" where
  "cfg_contents body ns \<longleftrightarrow> ns \<noteq> [] \<and> ns ! 0 = ExitVertex \<and>
     (\<forall>v ss. v < length ns \<longrightarrow> ns ! v = BasicBlock ss \<longrightarrow>
        (\<forall>s \<in> set ss. s < length (body_stmt_arena body)))"


section \<open>The view of a builder\<close>

text \<open>The fields a primitive operation on the graph leaves alone.\<close>

definition same_tables :: "'g cfg_builder \<Rightarrow> 'g cfg_builder \<Rightarrow> bool" where
  "same_tables b b' \<longleftrightarrow>
     b_current_block b' = b_current_block b \<and> b_except_stack b' = b_except_stack b \<and>
     b_loop_stack b' = b_loop_stack b \<and> b_label_table b' = b_label_table b \<and>
     b_pending_gotos b' = b_pending_gotos b \<and>
     cfg_start (b_cfg b') = cfg_start (b_cfg b) \<and> cfg_exit (b_cfg b') = cfg_exit (b_cfg b)"

lemma same_tablesD:
  assumes "same_tables b b'"
  shows "b_current_block b' = b_current_block b" "b_except_stack b' = b_except_stack b"
    "b_loop_stack b' = b_loop_stack b" "b_label_table b' = b_label_table b"
    "b_pending_gotos b' = b_pending_gotos b" "cfg_start (b_cfg b') = cfg_start (b_cfg b)"
    "cfg_exit (b_cfg b') = cfg_exit (b_cfg b)"
  using assms by (simp_all add: same_tables_def)

definition stacks :: "'g cfg_builder \<Rightarrow> node list \<times> (node \<times> node) list" where
  "stacks b = (b_except_stack b, b_loop_stack b)"

text \<open>Vertices a jump may go to.\<close>

definition jump_targets :: "'g cfg_builder \<Rightarrow> node set" where
  "jump_targets b =
    set (b_except_stack b) \<union> fst ` set (b_loop_stack b) \<union> snd ` set (b_loop_stack b) \<union>
    ran (b_label_table b)"

definition restack :: "node list \<times> (node \<times> node) list \<Rightarrow> 'g cfg_builder \<Rightarrow> 'g cfg_builder" where
  "restack st b = b\<lparr>b_except_stack := fst st, b_loop_stack := snd st\<rparr>"

lemma restack_loop: "b\<lparr>b_loop_stack := l\<rparr> = restack (b_except_stack b, l) b"
  by (simp add: restack_def)

lemma restack_except: "b\<lparr>b_except_stack := e\<rparr> = restack (e, b_loop_stack b) b"
  by (simp add: restack_def)

lemma restack_same: "restack (stacks b) b = b"
  by (simp add: restack_def stacks_def)

text \<open>A vertex that holds no statement when it is added.\<close>

definition hollow :: "cfg_vertex \<Rightarrow> bool" where
  "hollow v \<longleftrightarrow> (case v of BasicBlock ss \<Rightarrow> ss = [] | _ \<Rightarrow> True)"

lemma hollow_simps [simp]:
  "hollow (BasicBlock ss) \<longleftrightarrow> ss = []" "hollow (Conditional e)" "hollow (WhileHeader e)"
  "hollow (ForHeader x e e')" "hollow (ForEachHeader x e)" "hollow TryVertex"
  "hollow (PreprocCondition p)" "hollow ExitVertex"
  by (simp_all add: hollow_def)

context digraph_laws
begin

definition W :: "'g cfg_builder \<Rightarrow> cfg_vertex list" where
  "W b = nodes (cfg_graph (b_cfg b))"

definition E :: "'g cfg_builder \<Rightarrow> cfg_edge set" where
  "E b = set_mset (edges (cfg_graph (b_cfg b)))"

text \<open>A block that may take more statements: its last one is not a return or a raise.\<close>

definition open_block :: "hir_body \<Rightarrow> 'g cfg_builder \<Rightarrow> node \<Rightarrow> bool" where
  "open_block body b v \<longleftrightarrow> v < length (W b) \<and> v \<noteq> cfg_exit (b_cfg b) \<and>
     (\<exists>ss. W b ! v = BasicBlock ss \<and>
        (ss \<noteq> [] \<longrightarrow> last ss < length (body_stmt_arena body) \<and>
           \<not> is_terminator (body_stmt_arena body ! last ss)))"

definition wfb :: "hir_body \<Rightarrow> 'g cfg_builder \<Rightarrow> bool" where
  "wfb body b \<longleftrightarrow>
     (\<exists>s. cfg_start (b_cfg b) = Some s) \<and>
     (\<forall>s. cfg_start (b_cfg b) = Some s \<longrightarrow>
        s < length (W b) \<and> s \<noteq> cfg_exit (b_cfg b) \<and> s \<notin> jump_targets b) \<and>
     cfg_exit (b_cfg b) < length (W b) \<and>
     (\<forall>t. t \<in> jump_targets b \<longrightarrow> t < length (W b)) \<and>
     (\<forall>p n. (p, n) \<in> set (b_pending_gotos b) \<longrightarrow>
        p < length (W b) \<and> p \<noteq> cfg_exit (b_cfg b)) \<and>
     (\<forall>a k t. (a, k, t) \<in> E b \<longrightarrow>
        a < length (W b) \<and> t < length (W b) \<and> a \<noteq> cfg_exit (b_cfg b) \<and>
        cfg_start (b_cfg b) \<noteq> Some t) \<and>
     (\<forall>v ss. v < length (W b) \<longrightarrow> W b ! v = BasicBlock ss \<longrightarrow>
        (\<forall>s \<in> set ss. s < length (body_stmt_arena body)))"

text \<open>What stays when the builder goes on, all blocks but those of \<open>M\<close> unchanged.\<close>

definition ext :: "node set \<Rightarrow> 'g cfg_builder \<Rightarrow> 'g cfg_builder \<Rightarrow> bool" where
  "ext M b b' \<longleftrightarrow>
     length (W b) \<le> length (W b') \<and> E b \<subseteq> E b' \<and>
     cfg_start (b_cfg b') = cfg_start (b_cfg b) \<and> cfg_exit (b_cfg b') = cfg_exit (b_cfg b) \<and>
     (\<forall>v < length (W b). v \<notin> M \<longrightarrow> W b' ! v = W b ! v)"

definition new_nodes :: "'g cfg_builder \<Rightarrow> 'g cfg_builder \<Rightarrow> node set" where
  "new_nodes b b' = {length (W b)..<length (W b')}"

text \<open>A statement: from one open block to another, with everything added in between.\<close>

definition walked :: "hir_body \<Rightarrow> 'g cfg_builder \<Rightarrow> 'g cfg_builder \<Rightarrow> bool" where
  "walked body b b' \<longleftrightarrow> wfb body b' \<and>
     (\<exists>c c'. b_current_block b = Some c \<and> b_current_block b' = Some c' \<and>
        ext {c} b b' \<and> stacks b' = stacks b \<and> open_block body b' c' \<and> (c' = c \<or> c' \<in> new_nodes b b') \<and>
        between (E b') c c' (insert c (new_nodes b b')))"


subsection \<open>Primitive operations\<close>

lemma add_node_view:
  assumes "add_node G v b = (i, b')"
  shows "i = length (W b)" "W b' = W b @ [v]" "E b' = E b" "same_tables b b'"
  using assms add_node [of "cfg_graph (b_cfg b)" v]
  by (auto simp: Cfg_Builder.add_node_def add_vertex_def W_def E_def same_tables_def split: prod.splits)

lemma add_node_of_view:
  assumes "add_node_of G v stmt b = (i, b')"
  shows "i = length (W b)" "W b' = W b @ [v]" "E b' = E b" "same_tables b b'"
  using assms add_node [of "cfg_graph (b_cfg b)" v]
  by (auto simp: add_node_of_def add_vertex_with_origin_def add_vertex_def W_def E_def
      same_tables_def split: prod.splits)

lemma new_block_view:
  assumes "new_block G b = (i, b')"
  shows "i = length (W b)" "W b' = W b @ [BasicBlock []]" "E b' = E b" "same_tables b b'"
  using add_node_view assms unfolding new_block_def by blast+

lemma add_edge_view:
  assumes "a < length (W b)" and "t < length (W b)"
  obtains b' where "Cfg_Builder.add_edge G a t k b = Inr b'" and "W b' = W b"
    and "E b' = insert (a, k, t) (E b)" and "same_tables b b'"
proof -
  obtain g where g: "dg_add_edge G (cfg_graph (b_cfg b)) a t k = Inr g"
    "nodes g = nodes (cfg_graph (b_cfg b))"
    "edges g = add_mset (a, k, t) (edges (cfg_graph (b_cfg b)))"
    using add_edge assms unfolding W_def by blast
  show thesis
    by (rule that [of "b\<lparr>b_cfg := (b_cfg b)\<lparr>cfg_graph := g\<rparr>\<rparr>"])
      (simp_all add: g Cfg_Builder.add_edge_def cfg_add_edge_def W_def E_def same_tables_def)
qed

lemma link_to_view:
  assumes "a < length (W b)" and "t < length (W b)"
  obtains b' k where "link_to G a t b = Inr b'" and "W b' = W b"
    and "E b' = insert (a, k, t) (E b)" and "same_tables b b'"
  using add_edge_view [OF assms] unfolding link_to_def Let_def by metis


text \<open>A vertex that is neither the start nor the exit.\<close>

definition inner :: "'g cfg_builder \<Rightarrow> node \<Rightarrow> bool" where
  "inner b t \<longleftrightarrow> t < length (W b) \<and> cfg_start (b_cfg b) \<noteq> Some t \<and> t \<noteq> cfg_exit (b_cfg b)"

text \<open>A vertex that edges may leave.\<close>

definition source :: "'g cfg_builder \<Rightarrow> node \<Rightarrow> bool" where
  "source b a \<longleftrightarrow> a < length (W b) \<and> a \<noteq> cfg_exit (b_cfg b)"

lemma inner_source: "inner b t \<Longrightarrow> source b t"
  by (simp add: inner_def source_def)

lemma open_block_source: "open_block body b v \<Longrightarrow> source b v"
  by (simp add: open_block_def source_def)

lemma ext_refl: "ext M b b"
  by (simp add: ext_def)

lemma ext_trans:
  "ext M b b' \<Longrightarrow> ext M' b' b'' \<Longrightarrow> M \<union> (M' \<inter> {..<length (W b)}) \<subseteq> M'' \<Longrightarrow> ext M'' b b''"
  unfolding ext_def by (auto simp: subset_iff) (metis order_less_le_trans)

lemma ext_mono: "ext M b b' \<Longrightarrow> M \<inter> {..<length (W b)} \<subseteq> M' \<Longrightarrow> ext M' b b'"
  unfolding ext_def by (auto simp: subset_iff)

lemma inner_ext: "inner b t \<Longrightarrow> ext M b b' \<Longrightarrow> inner b' t"
  by (auto simp: inner_def ext_def)

lemma source_ext: "source b t \<Longrightarrow> ext M b b' \<Longrightarrow> source b' t"
  by (auto simp: source_def ext_def)

lemma open_block_ext: "open_block body b v \<Longrightarrow> ext M b b' \<Longrightarrow> v \<notin> M \<Longrightarrow> open_block body b' v"
  by (auto simp: open_block_def ext_def)

lemma new_nodes_trans:
  "ext M b b' \<Longrightarrow> ext M' b' b'' \<Longrightarrow> new_nodes b b'' = new_nodes b b' \<union> new_nodes b' b''"
  by (auto simp: new_nodes_def ext_def)

lemma set_current_view [simp]:
  "W (set_current i b) = W b" "E (set_current i b) = E b" "wfb body (set_current i b) = wfb body b"
  "ext M (set_current i b) b' = ext M b b'" "ext M b' (set_current i b) = ext M b' b"
  "stacks (set_current i b) = stacks b" "open_block body (set_current i b) v = open_block body b v"
  "b_current_block (set_current i b) = Some i" "inner (set_current i b) v = inner b v"
  "source (set_current i b) v = source b v"
  "new_nodes (set_current i b) b' = new_nodes b b'" "new_nodes b' (set_current i b) = new_nodes b' b"
  by (simp_all add: set_current_def W_def E_def wfb_def ext_def stacks_def open_block_def inner_def
      source_def new_nodes_def jump_targets_def)

lemma jump_targets_same: "same_tables b b' \<Longrightarrow> jump_targets b' = jump_targets b"
  by (simp add: same_tables_def jump_targets_def)

lemma wfb_grown:
  assumes "wfb body b" and "W b' = W b @ [v]" and "E b' = E b" and "same_tables b b'"
    and "hollow v"
  shows "wfb body b'"
  unfolding wfb_def jump_targets_same [OF assms(4)] same_tablesD [OF assms(4)] assms(2,3)
  using assms(1,5) unfolding wfb_def
  by (auto intro: less_SucI simp: nth_append less_Suc_eq hollow_def split: if_splits cfg_vertex.splits)

lemma grown:
  assumes "wfb body b" and "W b' = W b @ [v]" and "E b' = E b" and "same_tables b b'"
  shows "ext {} b b'" "stacks b' = stacks b" "new_nodes b b' = {length (W b)}"
    "inner b' (length (W b))" "v = BasicBlock [] \<Longrightarrow> open_block body b' (length (W b))"
  using assms(1-3) same_tablesD [OF assms(4)]
  by (auto simp: wfb_def ext_def stacks_def new_nodes_def inner_def open_block_def nth_append)

lemma wfb_linked:
  assumes "wfb body b" and "W b' = W b" and "E b' = insert (a, k, t) (E b)" and "same_tables b b'"
    and "source b a" and "t = cfg_exit (b_cfg b) \<or> inner b t"
  shows "wfb body b'"
  unfolding wfb_def jump_targets_same [OF assms(4)] same_tablesD [OF assms(4)] assms(2,3)
  using assms(1,5,6) unfolding wfb_def inner_def source_def by auto

lemma linked:
  assumes "W b' = W b" and "E b' = insert (a, k, t) (E b)" and "same_tables b b'"
  shows "ext {} b b'" "stacks b' = stacks b" "new_nodes b b' = {}"
  using assms(1,2) same_tablesD [OF assms(3)]
  by (auto simp: ext_def stacks_def new_nodes_def)

lemma target_inner: "wfb body b \<Longrightarrow> t \<in> jump_targets b \<Longrightarrow> t = cfg_exit (b_cfg b) \<or> inner b t"
  by (auto simp: wfb_def inner_def)


subsection \<open>Composition\<close>

definition follows :: "hir_body \<Rightarrow> node set \<Rightarrow> 'g cfg_builder \<Rightarrow> 'g cfg_builder \<Rightarrow> bool" where
  "follows body M b b' \<longleftrightarrow> wfb body b' \<and> ext M b b' \<and> stacks b' = stacks b"

lemma followsD:
  assumes "follows body M b b'"
  shows "wfb body b'" "ext M b b'" "stacks b' = stacks b" "E b \<subseteq> E b'"
  using assms by (auto simp: follows_def ext_def)

lemma follows_refl: "wfb body b \<Longrightarrow> follows body M b b"
  by (simp add: follows_def ext_refl)

lemma follows_trans:
  "follows body M b b' \<Longrightarrow> follows body M' b' b'' \<Longrightarrow> M \<union> (M' \<inter> {..<length (W b)}) \<subseteq> M'' \<Longrightarrow> follows body M'' b b''"
  by (auto simp: follows_def intro: ext_trans)

lemma follows_set_current [simp]:
  "follows body M (set_current i b) b' = follows body M b b'" "follows body M b' (set_current i b) = follows body M b' b"
  by (simp_all add: follows_def)

lemma new_nodes_refl [simp]: "new_nodes b b = {}"
  by (simp add: new_nodes_def)

lemma add_node_ok:
  assumes "wfb body b" and "hollow v"
  obtains i b' where "add_node G v b = (i, b')" and "follows body {} b b'" and "new_nodes b b' = {i}"
    and "inner b' i" and "v = BasicBlock [] \<Longrightarrow> open_block body b' i" and "E b' = E b" and "b_current_block b' = b_current_block b"
    and "i = length (W b)"
proof -
  obtain i b' where eq: "add_node G v b = (i, b')"
    by fastforce
  note view = add_node_view [OF eq]
  show thesis
    by (rule that [OF eq])
      (use wfb_grown [OF assms(1) view(2-4) assms(2)] grown [OF assms(1) view(2-4)] view in
        \<open>auto simp: follows_def same_tables_def\<close>)
qed

lemma add_node_of_ok:
  assumes "wfb body b" and "hollow v"
  obtains i b' where "add_node_of G v stmt b = (i, b')" and "follows body {} b b'" and "new_nodes b b' = {i}"
    and "inner b' i" and "E b' = E b" and "b_current_block b' = b_current_block b"
    and "i = length (W b)"
proof -
  obtain i b' where eq: "add_node_of G v stmt b = (i, b')"
    by fastforce
  note view = add_node_of_view [OF eq]
  show thesis
    by (rule that [OF eq])
      (use wfb_grown [OF assms(1) view(2-4) assms(2)] grown [OF assms(1) view(2-4)] view in
        \<open>auto simp: follows_def same_tables_def\<close>)
qed

lemma new_block_ok:
  assumes "wfb body b"
  obtains i b' where "new_block G b = (i, b')" and "follows body {} b b'" and "new_nodes b b' = {i}"
    and "inner b' i" and "open_block body b' i" and "E b' = E b" and "b_current_block b' = b_current_block b"
    and "i = length (W b)"
  using add_node_ok [OF assms, of "BasicBlock []"] unfolding new_block_def by (auto simp: hollow_def)

lemma add_edge_ok:
  assumes "wfb body b" and "source b a" and "t = cfg_exit (b_cfg b) \<or> inner b t"
  obtains b' where "Cfg_Builder.add_edge G a t k b = Inr b'" and "follows body {} b b'"
    and "new_nodes b b' = {}" and "(a, k, t) \<in> E b'" and "same_tables b b'"
    and "W b' = W b"
proof -
  have "a < length (W b)" and "t < length (W b)"
    using assms by (auto simp: source_def inner_def wfb_def)
  then obtain b' where eq: "Cfg_Builder.add_edge G a t k b = Inr b'"
    and view: "W b' = W b" "E b' = insert (a, k, t) (E b)" "same_tables b b'"
    by (rule add_edge_view)
  show thesis
    by (rule that [OF eq])
      (use wfb_linked [OF assms(1) view assms(2,3)] linked [OF view] view in
        \<open>auto simp: follows_def\<close>)
qed

lemma link_to_ok:
  assumes "wfb body b" and "source b a" and "t = cfg_exit (b_cfg b) \<or> inner b t"
  obtains b' k where "link_to G a t b = Inr b'" and "follows body {} b b'"
    and "new_nodes b b' = {}" and "(a, k, t) \<in> E b'" and "same_tables b b'" and "W b' = W b"
  using add_edge_ok [OF assms] unfolding link_to_def Let_def by metis

lemma walkedI:
  assumes "follows body {c} b b'" and "b_current_block b = Some c" and "b_current_block b' = Some c'"
    and "open_block body b' c'" and "c' = c \<or> c' \<in> new_nodes b b'"
    and "between (E b') c c' (insert c (new_nodes b b'))"
  shows "walked body b b'"
  using assms by (auto simp: walked_def follows_def)

lemma walkedE:
  assumes "walked body b b'"
  obtains c c' where "follows body {c} b b'" and "b_current_block b = Some c"
    and "b_current_block b' = Some c'" and "open_block body b' c'"
    and "c' = c \<or> c' \<in> new_nodes b b'" and "between (E b') c c' (insert c (new_nodes b b'))"
  using assms by (auto simp: walked_def follows_def)

lemma walked_refl:
  "wfb body b \<Longrightarrow> b_current_block b = Some c \<Longrightarrow> open_block body b c \<Longrightarrow> walked body b b"
  by (rule walkedI) (auto simp: follows_refl between_refl)

lemma walked_trans:
  assumes "walked body b b'" and "walked body b' b''"
  shows "walked body b b''"
proof -
  obtain c c' where 1: "follows body {c} b b'" "b_current_block b = Some c" "b_current_block b' = Some c'"
    "open_block body b' c'" "c' = c \<or> c' \<in> new_nodes b b'"
    "between (E b') c c' (insert c (new_nodes b b'))"
    using assms(1) by (rule walkedE)
  obtain c'' where 2: "follows body {c'} b' b''" "b_current_block b'' = Some c''"
    "open_block body b'' c''" "c'' = c' \<or> c'' \<in> new_nodes b' b''"
    "between (E b'') c' c'' (insert c' (new_nodes b' b''))"
    using assms(2) 1(3) by (auto elim!: walkedE)
  have new: "new_nodes b b'' = new_nodes b b' \<union> new_nodes b' b''"
    using followsD(2) [OF 1(1)] followsD(2) [OF 2(1)] by (rule new_nodes_trans)
  show ?thesis
  proof (rule walkedI [OF _ 1(2) 2(2,3)])
    show "follows body {c} b b''"
      using 1(5) by (intro follows_trans [OF 1(1) 2(1)]) (auto simp: new_nodes_def)
    show "c'' = c \<or> c'' \<in> new_nodes b b''"
      using 1(5) 2(4) unfolding new by blast
    have "between (E b'') c c' (insert c (new_nodes b b'))"
      using 1(6) followsD(4) [OF 2(1)] by (rule between_mono) simp
    from between_trans [OF this 2(5)] show "between (E b'') c c'' (insert c (new_nodes b b''))"
      unfolding new by (rule between_mono) auto
  qed
qed

text \<open>A walker that does its work on every statement of a set.\<close>

definition walks :: "hir_body \<Rightarrow> 'g walker \<Rightarrow> stmt_idx set \<Rightarrow> bool" where
  "walks body walk S \<longleftrightarrow> (\<forall>s \<in> S. \<forall>b c. wfb body b \<and> b_current_block b = Some c \<and> open_block body b c \<longrightarrow>
     returns False (walk s b) (walked body b))"

lemma walk_all_ok:
  assumes "walks body walk (set stmts)" and "wfb body b" and "b_current_block b = Some c"
    and "open_block body b c"
  shows "returns False (walk_all walk stmts b) (walked body b)"
  using assms
proof (induction stmts arbitrary: b c)
  case Nil
  then show ?case
    by (simp add: walked_refl)
next
  case (Cons s stmts)
  have "returns False (walk s b) (walked body b)"
    using Cons.prems by (auto simp: walks_def)
  then have "returns False (and_then (walk s b) (walk_all walk stmts)) (walked body b)"
  proof (rule returns_bind)
    fix b'
    assume step: "walked body b b'"
    then obtain c' where "wfb body b'" "b_current_block b' = Some c'" "open_block body b' c'"
      by (auto simp: walked_def)
    then have "returns False (walk_all walk stmts b') (walked body b')"
      using Cons by (intro Cons.IH) (auto simp: walks_def)
    then show "returns False (walk_all walk stmts b') (walked body b)"
      by (rule returns_mono) (rule walked_trans [OF step])
  qed
  then show ?case
    by simp
qed

lemma walk_branch_ok:
  assumes "walks body walk (set stmts)" and "wfb body b" and "open_block body b block"
    and "inner b merge" and "merge \<noteq> block"
  shows "returns False (walk_branch G walk block merge stmts b) (\<lambda>b'.
    follows body {block} b b' \<and> between (E b') block merge ({block, merge} \<union> new_nodes b b'))"
proof -
  have "returns False (walk_all walk stmts (set_current block b)) (walked body (set_current block b))"
    using assms by (intro walk_all_ok) auto
  then show ?thesis
    unfolding walk_branch_def
  proof (rule returns_bind)
    fix b1
    assume "walked body (set_current block b) b1"
    then obtain c where w: "follows body {block} b b1" "b_current_block b1 = Some c" "open_block body b1 c"
      "between (E b1) block c (insert block (new_nodes b b1))"
      by (auto elim!: walkedE)
    have "inner b1 merge"
      using assms(4) followsD(2) [OF w(1)] by (rule inner_ext)
    then obtain b2 k where l: "link_to G c merge b1 = Inr b2" "follows body {} b1 b2" "new_nodes b1 b2 = {}"
      "(c, k, merge) \<in> E b2"
      using link_to_ok [OF followsD(1) [OF w(1)] open_block_source [OF w(3)]] by metis
    have "follows body {block} b b2"
      using w(1) l(2) by (rule follows_trans) auto
    moreover have "between (E b2) block c (insert block (new_nodes b b1))"
      using w(4) followsD(4) [OF l(2)] by (rule between_mono) simp
    from between_trans [OF this between_edge [OF l(4)]]
    have "between (E b2) block merge ({block, merge} \<union> new_nodes b b2)"
      by (rule between_mono)
        (use new_nodes_trans [OF followsD(2) [OF w(1)] followsD(2) [OF l(2)]] l(3) in auto)
    ultimately show "returns False (with_current (\<lambda>exit. link_to G exit merge) b1) (\<lambda>b'.
        follows body {block} b b' \<and> between (E b') block merge ({block, merge} \<union> new_nodes b b'))"
      by (simp add: with_current_def w(2) l(1))
  qed
qed


subsection \<open>Jumps\<close>

lemma add_to_current_ok:
  assumes "wfb body b" and "b_current_block b = Some c" and "open_block body b c"
    and "stmt < length (body_stmt_arena body)"
  obtains b' ss where "add_to_current_block_hir G stmt b = b'" and "follows body {c} b b'"
    and "new_nodes b b' = {}" and "E b' = E b" and "same_tables b b'" and "source b' c"
    and "c < length (W b')" and "W b' ! c = BasicBlock (ss @ [stmt])"
proof -
  obtain ss where ss: "c < length (W b)" "c \<noteq> cfg_exit (b_cfg b)" "W b ! c = BasicBlock ss"
    using assms(3) by (auto simp: open_block_def)
  define b' where "b' = add_to_current_block_hir G stmt b"
  have "vertex G (b_cfg b) c = Some (BasicBlock ss)"
    using ss by (simp add: vertex_def node_weight W_def)
  then have b': "b' = b\<lparr>b_cfg := (b_cfg b)\<lparr>cfg_graph :=
      dg_set_weight G (cfg_graph (b_cfg b)) c (BasicBlock (ss @ [stmt]))\<rparr>\<rparr>"
    by (simp add: b'_def add_to_current_block_hir_def assms(2))
  have W: "W b' = (W b)[c := BasicBlock (ss @ [stmt])]" and E: "E b' = E b"
    and same: "same_tables b b'"
    using set_weight [of c "cfg_graph (b_cfg b)" "BasicBlock (ss @ [stmt])"] ss(1)
    by (simp_all add: b' W_def E_def same_tables_def)
  have "\<forall>s \<in> set tt. s < length (body_stmt_arena body)"
    if "v < length (W b)" "(W b)[c := BasicBlock (ss @ [stmt])] ! v = BasicBlock tt" for v tt
    using that assms(1,4) ss by (cases "v = c") (auto simp: wfb_def nth_list_update)
  then have wf: "wfb body b'"
    using assms(1) unfolding wfb_def jump_targets_same [OF same] same_tablesD [OF same] E W by simp
  have "ext {c} b b'" and "stacks b' = stacks b" and "new_nodes b b' = {}" and "source b' c"
    using ss same_tablesD [OF same] by (auto simp: ext_def stacks_def new_nodes_def source_def W E)
  moreover have "c < length (W b')" and "W b' ! c = BasicBlock (ss @ [stmt])"
    using ss(1) by (simp_all add: W)
  moreover have "add_to_current_block_hir G stmt b = b'"
    by (simp add: b'_def)
  ultimately show thesis
    using that E same wf by (simp add: follows_def)
qed

lemma add_to_current_walked:
  assumes "wfb body b" and "b_current_block b = Some c" and "open_block body b c"
    and "stmt < length (body_stmt_arena body)" and "\<not> is_terminator (body_stmt_arena body ! stmt)"
  shows "walked body b (add_to_current_block_hir G stmt b)"
proof -
  obtain b' ss where "add_to_current_block_hir G stmt b = b'" "follows body {c} b b'"
    "new_nodes b b' = {}" "E b' = E b" "same_tables b b'" "source b' c"
    "W b' ! c = BasicBlock (ss @ [stmt])"
    using add_to_current_ok [OF assms(1-4)] by metis
  then show ?thesis
    using assms(2,4,5)
    by (intro walkedI [of body c b _ c])
      (auto simp: between_refl open_block_def source_def same_tables_def)
qed

lemma seal_jump_ok:
  assumes "wfb body b" and "b_current_block b = Some c" and "source b c"
  obtains b' d where "seal_jump G b = Inr b'" and "follows body {} b b'"
    and "b_current_block b' = Some d" and "new_nodes b b' = {d}" and "open_block body b' d"
    and "between (E b') c d {c, d}"
proof -
  obtain d b1 where n: "new_block G b = (d, b1)" "follows body {} b b1" "new_nodes b b1 = {d}"
    "inner b1 d" "open_block body b1 d" "b_current_block b1 = b_current_block b"
    using new_block_ok [OF assms(1)] by metis
  have "source b1 c"
    using assms(3) followsD(2) [OF n(2)] by (rule source_ext)
  then obtain b2 where e: "Cfg_Builder.add_edge G c d Unexecutable b1 = Inr b2" "follows body {} b1 b2"
    "new_nodes b1 b2 = {}" "(c, Unexecutable, d) \<in> E b2"
    using add_edge_ok [OF followsD(1) [OF n(2)]] n(4) by metis
  show thesis
  proof (rule that [of "set_current d b2" d])
    show "seal_jump G b = Inr (set_current d b2)"
      by (simp add: seal_jump_def n(1,6) with_current_def assms(2) e(1))
    show "follows body {} b (set_current d b2)"
      using follows_trans [OF n(2) e(2)] by simp
    show "new_nodes b (set_current d b2) = {d}"
      using new_nodes_trans [OF followsD(2) [OF n(2)] followsD(2) [OF e(2)]] n(3) e(3) by simp
    show "open_block body (set_current d b2) d"
      using open_block_ext [OF n(5) followsD(2) [OF e(2)]] by simp
    show "between (E (set_current d b2)) c d {c, d}"
      using between_edge [OF e(4)] by simp
  qed simp
qed

text \<open>Every jump: the statement, then at most one edge, then the seal.\<close>

lemma jump_walked:
  assumes "wfb body b" and "b_current_block b = Some c" and "open_block body b c"
    and "stmt < length (body_stmt_arena body)"
    and b1: "b1 = add_to_current_block_hir G stmt b"
    and edge: "m = Inr b2" "follows body {} b1 b2" "new_nodes b1 b2 = {}"
      "b_current_block b2 = b_current_block b1"
  shows "returns False (and_then m (seal_jump G)) (walked body b)"
proof -
  have a: "follows body {c} b b1" "new_nodes b b1 = {}" "source b1 c" "b_current_block b1 = Some c"
    using add_to_current_ok [OF assms(1-4)] assms(2) unfolding b1
    by (metis (no_types, lifting) same_tablesD(1))+
  have "source b2 c"
    using a(3) followsD(2) [OF edge(2)] by (rule source_ext)
  then obtain b3 d where s: "seal_jump G b2 = Inr b3" "follows body {} b2 b3" "b_current_block b3 = Some d"
    "new_nodes b2 b3 = {d}" "open_block body b3 d" "between (E b3) c d {c, d}"
    using seal_jump_ok [OF followsD(1) [OF edge(2)]] edge(4) a(4) by metis
  have f: "follows body {c} b b2"
    using follows_trans [OF a(1) edge(2)] by auto
  have "new_nodes b b3 = {d}"
    using new_nodes_trans [OF followsD(2) [OF f] followsD(2) [OF s(2)]]
      new_nodes_trans [OF followsD(2) [OF a(1)] followsD(2) [OF edge(2)]] a(2) edge(3) s(4) by simp
  then have "walked body b b3"
    using follows_trans [OF f s(2)] assms(2) s
    by (intro walkedI [of body c b b3 d]) (auto simp: insert_commute)
  then show ?thesis
    by (simp add: edge(1) s(1))
qed


lemma jump_edge_walked:
  assumes "wfb body b" and "b_current_block b = Some c" and "open_block body b c"
    and "stmt < length (body_stmt_arena body)"
    and b1: "b1 = add_to_current_block_hir G stmt b"
    and t: "t = cfg_exit (b_cfg b1) \<or> t \<in> jump_targets b1"
  shows "returns False (and_then (Cfg_Builder.add_edge G c t k b1) (seal_jump G)) (walked body b)"
proof -
  obtain ss where a: "follows body {c} b b1" "source b1 c"
    using add_to_current_ok [OF assms(1-4)] unfolding b1 by metis
  obtain b2 where "Cfg_Builder.add_edge G c t k b1 = Inr b2" "follows body {} b1 b2"
    "new_nodes b1 b2 = {}" "same_tables b1 b2"
    using add_edge_ok [OF followsD(1) [OF a(1)] a(2), of t k] t target_inner [OF followsD(1) [OF a(1)]]
    by metis
  then show ?thesis
    using jump_walked [OF assms(1-4) b1] by (simp add: same_tables_def)
qed

lemma current_after_add:
  "b_current_block (add_to_current_block_hir G stmt b) = b_current_block b"
  by (auto simp: add_to_current_block_hir_def split: option.splits cfg_vertex.splits)

lemma jump_unlinked_walked:
  assumes "wfb body b" and "b_current_block b = Some c" and "open_block body b c"
    and "stmt < length (body_stmt_arena body)"
  shows "returns False (seal_jump G (add_to_current_block_hir G stmt b)) (walked body b)"
proof -
  have "wfb body (add_to_current_block_hir G stmt b)"
    using add_to_current_ok [OF assms] followsD(1) by metis
  then show ?thesis
    using jump_walked [OF assms refl refl, of "add_to_current_block_hir G stmt b"]
    by (simp add: follows_refl)
qed

lemma last_opt_set: "last_opt xs = Some x \<Longrightarrow> x \<in> set xs"
  by (auto simp: last_opt_def split: if_splits)

lemma walk_return_ok:
  assumes "wfb body b" and "b_current_block b = Some c" and "open_block body b c"
    and "stmt < length (body_stmt_arena body)"
  shows "returns False (walk_return_statement_hir G stmt b) (walked body b)"
  using jump_edge_walked [OF assms refl]
  by (simp add: walk_return_statement_hir_def with_current_def current_after_add assms(2) Let_def)

lemma walk_raise_ok:
  assumes "wfb body b" and "b_current_block b = Some c" and "open_block body b c"
    and "stmt < length (body_stmt_arena body)"
  shows "returns False (walk_raise_statement_hir G stmt b) (walked body b)"
proof -
  let ?b1 = "add_to_current_block_hir G stmt b"
  let ?t = "case last_opt (b_except_stack ?b1) of Some t \<Rightarrow> t | None \<Rightarrow> cfg_exit (b_cfg ?b1)"
  have "?t = cfg_exit (b_cfg ?b1) \<or> ?t \<in> jump_targets ?b1"
    by (auto simp: jump_targets_def dest: last_opt_set split: option.splits)
  then show ?thesis
    using jump_edge_walked [OF assms refl]
    by (simp add: walk_raise_statement_hir_def with_current_def current_after_add assms(2) Let_def)
qed

lemma loop_jump_ok:
  assumes "wfb body b" and "b_current_block b = Some c" and "open_block body b c"
    and "stmt < length (body_stmt_arena body)"
    and target: "target = fst \<or> target = snd"
  shows "returns False (loop_jump G target stmt b) (walked body b)"
proof -
  let ?b1 = "add_to_current_block_hir G stmt b"
  show ?thesis
  proof (cases "last_opt (b_loop_stack ?b1)")
    case None
    then show ?thesis
      using jump_unlinked_walked [OF assms(1-4)]
      by (simp add: loop_jump_def current_after_add assms(2))
  next
    case (Some frame)
    then have "target frame \<in> jump_targets ?b1"
      using target by (auto simp: jump_targets_def dest: last_opt_set)
    then show ?thesis
      using jump_edge_walked [OF assms(1-4) refl, of "target frame"]
      by (simp add: loop_jump_def current_after_add assms(2) Some)
  qed
qed

lemma set_pending_ok:
  assumes "wfb body b" and "\<And>p n. (p, n) \<in> set ps \<Longrightarrow> source b p"
  shows "follows body {} b (b\<lparr>b_pending_gotos := ps\<rparr>)" "new_nodes b (b\<lparr>b_pending_gotos := ps\<rparr>) = {}"
    "W (b\<lparr>b_pending_gotos := ps\<rparr>) = W b" "E (b\<lparr>b_pending_gotos := ps\<rparr>) = E b"
  using assms
  by (auto simp: follows_def wfb_def ext_def stacks_def new_nodes_def W_def E_def jump_targets_def source_def)

lemma set_label_ok:
  assumes "wfb body b" and "inner b t"
  shows "follows body {} b (b\<lparr>b_label_table := (b_label_table b)(l \<mapsto> t)\<rparr>)"
    "new_nodes b (b\<lparr>b_label_table := (b_label_table b)(l \<mapsto> t)\<rparr>) = {}"
proof -
  let ?b = "b\<lparr>b_label_table := (b_label_table b)(l \<mapsto> t)\<rparr>"
  have view: "W ?b = W b" "E ?b = E b" "cfg_start (b_cfg ?b) = cfg_start (b_cfg b)"
    "cfg_exit (b_cfg ?b) = cfg_exit (b_cfg b)"
    by (simp_all add: W_def E_def)
  have "jump_targets ?b \<subseteq> insert t (jump_targets b)"
    by (auto simp: jump_targets_def ran_def)
  then have "wfb body ?b"
    using assms unfolding wfb_def inner_def view by auto
  then show "follows body {} b ?b" "new_nodes b ?b = {}"
    by (auto simp: follows_def ext_def stacks_def new_nodes_def view)
qed

lemma walk_goto_ok:
  assumes "wfb body b" and "b_current_block b = Some c" and "open_block body b c"
    and "stmt < length (body_stmt_arena body)"
  shows "returns False (walk_goto_statement_hir G stmt label b) (walked body b)"
proof -
  let ?b1 = "add_to_current_block_hir G stmt b"
  show ?thesis
  proof (cases "b_label_table ?b1 label")
    case None
    let ?b2 = "?b1\<lparr>b_pending_gotos := b_pending_gotos ?b1 @ [(c, label)]\<rparr>"
    have a: "wfb body ?b1" "source ?b1 c"
      using add_to_current_ok [OF assms] followsD(1) by metis+
    then have "source ?b1 p" if "(p, n) \<in> set (b_pending_gotos ?b1 @ [(c, label)])" for p n
      using that by (auto simp: wfb_def source_def)
    then have "follows body {} ?b1 ?b2" "new_nodes ?b1 ?b2 = {}"
      using set_pending_ok [OF a(1)] by blast+
    then show ?thesis
      using jump_walked [OF assms refl refl, of ?b2]
      by (simp add: walk_goto_statement_hir_def with_current_def current_after_add assms(2) None Let_def)
  next
    case (Some t)
    then have "t \<in> jump_targets ?b1"
      by (auto simp: jump_targets_def intro: ranI)
    then show ?thesis
      using jump_edge_walked [OF assms refl, of t]
      by (simp add: walk_goto_statement_hir_def with_current_def current_after_add assms(2) Some)
  qed
qed

lemma add_edges_from_ok:
  assumes "wfb body b" and "\<And>p n. (p, n) \<in> set ps \<Longrightarrow> source b p" and "inner b t"
  shows "\<exists>b'. add_edges_from G ps t b = Inr b' \<and> follows body {} b b' \<and> new_nodes b b' = {} \<and> same_tables b b'"
  using assms
proof (induction ps arbitrary: b)
  case Nil
  then show ?case
    by (simp add: follows_refl same_tables_def)
next
  case (Cons pn ps)
  obtain p n where pn: "pn = (p, n)"
    by (cases pn)
  obtain b1 where e: "Cfg_Builder.add_edge G p t Unconditional b = Inr b1" "follows body {} b b1"
    "new_nodes b b1 = {}" "same_tables b b1"
    using add_edge_ok [OF Cons.prems(1), of p t] Cons.prems(2,3) pn by (metis list.set_intros(1))
  have "source b1 q" if "(q, m) \<in> set ps" for q m
    using that Cons.prems(2) followsD(2) [OF e(2)] by (metis list.set_intros(2) source_ext)
  then obtain b2 where r: "add_edges_from G ps t b1 = Inr b2" "follows body {} b1 b2"
    "new_nodes b1 b2 = {}" "same_tables b1 b2"
    using Cons.IH [OF followsD(1) [OF e(2)]] inner_ext [OF Cons.prems(3) followsD(2) [OF e(2)]] by metis
  show ?case
    using follows_trans [OF e(2) r(2)] e r
      new_nodes_trans [OF followsD(2) [OF e(2)] followsD(2) [OF r(2)]]
    by (auto simp: pn same_tables_def)
qed


text \<open>A fresh vertex with an edge from the block before it.\<close>

lemma entered_ok:
  assumes "wfb body b" and "b_current_block b = Some c" and "source b c"
    and "follows body {} b b1" "new_nodes b b1 = {i}" "inner b1 i" "b_current_block b1 = b_current_block b"
    and op: "op = Cfg_Builder.add_edge G c i k \<or> op = link_to G c i"
  obtains b2 k' where "op b1 = Inr b2" and "follows body {} b b2" and "new_nodes b b2 = {i}"
    and "(c, k', i) \<in> E b2" and "inner b2 i" and "same_tables b1 b2" and "W b2 = W b1"
proof -
  have "source b1 c"
    using assms(3) followsD(2) [OF assms(4)] by (rule source_ext)
  then obtain b2 k' where e: "op b1 = Inr b2" "follows body {} b1 b2" "new_nodes b1 b2 = {}"
    "(c, k', i) \<in> E b2" "same_tables b1 b2" "W b2 = W b1"
    using add_edge_ok [OF followsD(1) [OF assms(4)]] link_to_ok [OF followsD(1) [OF assms(4)]]
      assms(6) op by metis
  show thesis
    using that [OF e(1) _ _ e(4) _ e(5,6)] follows_trans [OF assms(4) e(2)] inner_ext [OF assms(6) followsD(2) [OF e(2)]]
      new_nodes_trans [OF followsD(2) [OF assms(4)] followsD(2) [OF e(2)]] assms(5) e(3) by auto
qed

text \<open>A fresh block with an edge from a vertex.\<close>

lemma opened_ok:
  assumes "wfb body b" and "source b a"
  obtains i b1 b2 where "new_block G b = (i, b1)" and "Cfg_Builder.add_edge G a i k b1 = Inr b2"
    and "follows body {} b b2" and "new_nodes b b2 = {i}" and "(a, k, i) \<in> E b2"
    and "inner b2 i" and "open_block body b2 i" and "b_current_block b2 = b_current_block b"
    and "i = length (W b)"
proof -
  obtain i b1 where n: "new_block G b = (i, b1)" "follows body {} b b1" "new_nodes b b1 = {i}"
    "inner b1 i" "open_block body b1 i" "b_current_block b1 = b_current_block b" "i = length (W b)"
    using new_block_ok [OF assms(1)] by metis
  have "source b1 a"
    using assms(2) followsD(2) [OF n(2)] by (rule source_ext)
  then obtain b2 where e: "Cfg_Builder.add_edge G a i k b1 = Inr b2" "follows body {} b1 b2"
    "new_nodes b1 b2 = {}" "(a, k, i) \<in> E b2" "same_tables b1 b2"
    using add_edge_ok [OF followsD(1) [OF n(2)]] n(4) by metis
  show thesis
    using that [OF n(1) e(1) _ _ e(4) _ _ _ n(7)] follows_trans [OF n(2) e(2)]
      inner_ext [OF n(4) followsD(2) [OF e(2)]] open_block_ext [OF n(5) followsD(2) [OF e(2)]]
      new_nodes_trans [OF followsD(2) [OF n(2)] followsD(2) [OF e(2)]] n(3,6) e(3) same_tablesD(1) [OF e(5)]
    by auto
qed

lemma new_nodes_follows:
  "follows body M b b' \<Longrightarrow> follows body M' b' b'' \<Longrightarrow> new_nodes b b'' = new_nodes b b' \<union> new_nodes b' b''"
  using new_nodes_trans unfolding follows_def by blast

text \<open>The jumps that waited for a label are linked to it and the label is recorded.\<close>

lemma bind_label_ok:
  assumes "wfb body b" and "inner b l"
    and part: "partition (\<lambda>(_, n). n = label) (b_pending_gotos b) = (matched, leftover)"
  obtains b' where "add_edges_from G matched l (b\<lparr>b_pending_gotos := []\<rparr>) = Inr b'"
    and "follows body {} b (b'\<lparr>b_pending_gotos := leftover, b_label_table := (b_label_table b')(label \<mapsto> l)\<rparr>)"
    and "new_nodes b (b'\<lparr>b_pending_gotos := leftover, b_label_table := (b_label_table b')(label \<mapsto> l)\<rparr>) = {}"
proof -
  have sub: "set matched \<subseteq> set (b_pending_gotos b)" "set leftover \<subseteq> set (b_pending_gotos b)"
    using part by (auto simp: partition_filter_conv)
  have pend: "source b p" if "(p, m) \<in> set (b_pending_gotos b)" for p m
    using that assms(1) by (auto simp: wfb_def source_def)
  let ?b3 = "b\<lparr>b_pending_gotos := []\<rparr>"
  have b3: "follows body {} b ?b3" "new_nodes b ?b3 = {}"
    using set_pending_ok [OF assms(1), of "[]"] by simp_all
  obtain b4 where b4: "add_edges_from G matched l ?b3 = Inr b4" "follows body {} ?b3 b4" "new_nodes ?b3 b4 = {}"
    using add_edges_from_ok [OF followsD(1) [OF b3(1)], of matched l] sub(1) pend
      source_ext [OF _ followsD(2) [OF b3(1)]] inner_ext [OF assms(2) followsD(2) [OF b3(1)]] by blast
  have f4: "follows body {} b b4"
    using follows_trans [OF b3(1) b4(2)] by simp
  let ?b5 = "b4\<lparr>b_pending_gotos := leftover\<rparr>"
  have b5: "follows body {} b4 ?b5" "new_nodes b4 ?b5 = {}"
    using set_pending_ok [OF followsD(1) [OF f4], of leftover] sub(2) pend
      source_ext [OF _ followsD(2) [OF f4]] by blast+
  let ?b6 = "?b5\<lparr>b_label_table := (b_label_table ?b5)(label \<mapsto> l)\<rparr>"
  have f5: "follows body {} b ?b5"
    using follows_trans [OF f4 b5(1)] by simp
  have b6: "follows body {} ?b5 ?b6" "new_nodes ?b5 ?b6 = {}"
    using set_label_ok [OF followsD(1) [OF b5(1)] inner_ext [OF assms(2) followsD(2) [OF f5]]] by blast+
  have "new_nodes b ?b6 = {}"
    using new_nodes_follows [OF b3(1) b4(2)] new_nodes_follows [OF f4 b5(1)]
      new_nodes_follows [OF f5 b6(1)] b3(2) b4(3) b5(2) b6(2) by simp
  then show thesis
    using that [OF b4(1)] follows_trans [OF f5 b6(1)] by simp
qed

lemma follows_fresh:
  "follows body M b b' \<Longrightarrow> i \<in> new_nodes b b' \<Longrightarrow> follows body {i} b' b'' \<Longrightarrow> follows body M b b''"
  by (erule follows_trans) (auto simp: new_nodes_def)

lemma follows_mono: "follows body M b b' \<Longrightarrow> M \<subseteq> M' \<Longrightarrow> follows body M' b b'"
  unfolding follows_def by (blast intro: ext_mono)

lemma walk_label_ok:
  assumes "wfb body b" and "b_current_block b = Some c" and "open_block body b c"
    and "stmt < length (body_stmt_arena body)"
  shows "returns False (walk_label_statement_hir G stmt label b) (walked body b)"
proof -
  obtain l b1 where n: "new_block G b = (l, b1)" "follows body {} b b1" "new_nodes b b1 = {l}"
    "inner b1 l" "open_block body b1 l" "b_current_block b1 = b_current_block b"
    using new_block_ok [OF assms(1)] by metis
  obtain b2 k where e: "Cfg_Builder.add_edge G c l Unconditional b1 = Inr b2" "follows body {} b b2"
    "new_nodes b b2 = {l}" "(c, k, l) \<in> E b2" "inner b2 l" "W b2 = W b1" "same_tables b1 b2"
    using entered_ok [OF assms(1,2) open_block_source [OF assms(3)] n(2-4,6)] by metis
  have open2: "open_block body b2 l"
    using n(5) e(6) same_tablesD(7) [OF e(7)] by (simp add: open_block_def)
  obtain matched leftover where part: "partition (\<lambda>(_, n). n = label) (b_pending_gotos b2) = (matched, leftover)"
    by fastforce
  obtain b4 b6 where b6: "add_edges_from G matched l (b2\<lparr>b_pending_gotos := []\<rparr>) = Inr b4"
    "b6 = b4\<lparr>b_pending_gotos := leftover, b_label_table := (b_label_table b4)(label \<mapsto> l)\<rparr>"
    "follows body {} b2 b6" "new_nodes b2 b6 = {}"
    using bind_label_ok [OF followsD(1) [OF e(2)] e(5) part] by metis
  have open6: "open_block body (set_current l b6) l" "wfb body (set_current l b6)"
    using open_block_ext [OF open2 followsD(2) [OF b6(3)]] followsD(1) [OF b6(3)] by simp_all
  obtain b7 where b7: "add_to_current_block_hir G stmt (set_current l b6) = b7" "follows body {l} b6 b7"
    "new_nodes b6 b7 = {}" "source b7 l"
    using add_to_current_ok [OF open6(2) _ open6(1) assms(4)]
    by (metis follows_set_current(1) set_current_view(8,11))
  obtain a b8 b9 where b9: "new_block G b7 = (a, b8)"
    "Cfg_Builder.add_edge G l a Unconditional b8 = Inr b9" "follows body {} b7 b9" "new_nodes b7 b9 = {a}"
    "(l, Unconditional, a) \<in> E b9" "open_block body b9 a"
    using opened_ok [OF followsD(1) [OF b7(2)] b7(4)] by metis
  have f69: "follows body {l} b6 b9"
    using follows_trans [OF b7(2) b9(3)] by simp
  have f29: "follows body {l} b2 b9"
    using follows_trans [OF b6(3) f69] by simp
  have f: "follows body {c} b b9"
    using follows_mono [OF follows_fresh [OF e(2) _ f29]] e(3) by simp
  have "new_nodes b2 b9 = {a}"
    using new_nodes_follows [OF b6(3) f69] new_nodes_follows [OF b7(2) b9(3)] b6(4) b7(3) b9(4) by simp
  then have new: "new_nodes b b9 = {l, a}"
    using new_nodes_follows [OF e(2) f29] e(3) by auto
  have "between (E b9) c l {c, l}"
    using between_edge [OF e(4)] followsD(4) [OF f29] by (rule between_mono) simp
  from between_trans [OF this between_edge [OF b9(5)]]
  have "between (E b9) c a (insert c (new_nodes b b9))"
    by (rule between_mono) (auto simp: new)
  then have "walked body b (set_current a b9)"
    using f b9(6) assms(2) new by (intro walkedI [of body c b _ a]) auto
  then show ?thesis
    by (simp add: walk_label_statement_hir_def n(1,6) with_current_def assms(2) e(1) part b6(1)
        b6(2) [symmetric] b7(1) b9(1,2) Let_def del: partition_filter_conv)
qed


subsection \<open>Structured statements\<close>

text \<open>
  A branch whose first block hangs from a vertex: everything it adds lies between that
  vertex and the merge block.
\<close>

lemma hung_branch_ok:
  assumes walk: "walks body walk (set stmts)" and "wfb body b" and "source b a" and "inner b merge"
  shows "returns False
    (let (block, b) = new_block G b
     in and_then (Cfg_Builder.add_edge G a block k b) (walk_branch G walk block merge stmts)) (\<lambda>b'.
    follows body {} b b' \<and> between (E b') a merge (new_nodes b b'))"
proof -
  obtain i b1 b2 where o: "new_block G b = (i, b1)" "Cfg_Builder.add_edge G a i k b1 = Inr b2"
    "follows body {} b b2" "new_nodes b b2 = {i}" "(a, k, i) \<in> E b2" "open_block body b2 i" "i = length (W b)"
    using opened_ok [OF assms(2,3)] by metis
  have "merge \<noteq> i" and "inner b2 merge"
    using assms(4) o(7) inner_ext [OF assms(4) followsD(2) [OF o(3)]] by (auto simp: inner_def)
  then have "returns False (walk_branch G walk i merge stmts b2) (\<lambda>b'.
      follows body {i} b2 b' \<and> between (E b') i merge ({i, merge} \<union> new_nodes b2 b'))"
    using walk_branch_ok [OF walk followsD(1) [OF o(3)] o(6)] by blast
  then have "returns False (walk_branch G walk i merge stmts b2) (\<lambda>b'.
      follows body {} b b' \<and> between (E b') a merge (new_nodes b b'))"
  proof (rule returns_mono, elim conjE)
    fix b'
    assume w: "follows body {i} b2 b'" "between (E b') i merge ({i, merge} \<union> new_nodes b2 b')"
    have "path (E b') a i"
      using path_edge [OF o(5)] followsD(4) [OF w(1)] by (rule path_mono)
    then have "between (E b') a i {i}"
      by (simp add: between_def)
    from between_trans [OF this w(2)] have "between (E b') a merge (new_nodes b b')"
      by (rule between_mono) (use new_nodes_follows [OF o(3) w(1)] o(4) in auto)
    then show "follows body {} b b' \<and> between (E b') a merge (new_nodes b b')"
      using follows_fresh [OF o(3) _ w(1)] o(4) by simp
  qed
  then show ?thesis
    by (simp add: o(1,2))
qed

text \<open>A further condition of a chain and its branch.\<close>

lemma hung_condition_ok:
  assumes walk: "walks body walk (set stmts)" and "wfb body b" and "source b a" and "inner b merge"
    and n: "follows body {} b b0" "new_nodes b b0 = {j}" "inner b0 j"
  shows "returns False
    (and_then (Cfg_Builder.add_edge G a j FalseBranch b0) (\<lambda>b.
     let (block, b) = new_block G b
     in and_then (Cfg_Builder.add_edge G j block TrueBranch b) (walk_branch G walk block merge stmts))) (\<lambda>b'.
    follows body {} b b' \<and> source b' j \<and> path (E b') j merge \<and> fan (E b') a j merge (new_nodes b b'))"
proof -
  obtain b1 where e: "Cfg_Builder.add_edge G a j FalseBranch b0 = Inr b1" "follows body {} b0 b1"
    "new_nodes b0 b1 = {}" "(a, FalseBranch, j) \<in> E b1"
    using add_edge_ok [OF followsD(1) [OF n(1)] source_ext [OF assms(3) followsD(2) [OF n(1)]]] n(3) by metis
  have f1: "follows body {} b b1"
    using follows_trans [OF n(1) e(2)] by simp
  have new1: "new_nodes b b1 = {j}"
    using new_nodes_follows [OF n(1) e(2)] n(2) e(3) by simp
  have j: "source b1 j"
    using inner_source [OF inner_ext [OF n(3) followsD(2) [OF e(2)]]] .
  have "returns False
      (let (block, b) = new_block G b1
       in and_then (Cfg_Builder.add_edge G j block TrueBranch b) (walk_branch G walk block merge stmts)) (\<lambda>b'.
      follows body {} b1 b' \<and> between (E b') j merge (new_nodes b1 b'))"
    using walk followsD(1) [OF f1] j inner_ext [OF assms(4) followsD(2) [OF f1]] by (rule hung_branch_ok)
  then have "returns False
      (let (block, b) = new_block G b1
       in and_then (Cfg_Builder.add_edge G j block TrueBranch b) (walk_branch G walk block merge stmts)) (\<lambda>b'.
      follows body {} b b' \<and> source b' j \<and> path (E b') j merge \<and> fan (E b') a j merge (new_nodes b b'))"
  proof (rule returns_mono, elim conjE)
    fix b'
    assume w: "follows body {} b1 b'" "between (E b') j merge (new_nodes b1 b')"
    have "(a, FalseBranch, j) \<in> E b'"
      using e(4) followsD(4) [OF w(1)] by blast
    then have "fan (E b') a j merge ({j} \<union> new_nodes b1 b')"
      using fan_union [OF fan_edge fan_branch [OF path_edge path_edge w(2)]] by blast
    then show "follows body {} b b' \<and> source b' j \<and> path (E b') j merge \<and> fan (E b') a j merge (new_nodes b b')"
      using follows_trans [OF f1 w(1)] source_ext [OF j followsD(2) [OF w(1)]] between_path [OF w(2)]
        new_nodes_follows [OF f1 w(1)] new1 by simp
  qed
  then show ?thesis
    by (simp add: e(1))
qed

lemma walk_elsifs_ok:
  assumes "walks body walk (set (concat (map snd branches)))" and "wfb body b" and "source b cond" and "inner b merge"
  shows "returns False (walk_elsifs G walk stmt merge branches cond b) (\<lambda>(cond', b').
    follows body {} b b' \<and> source b' cond' \<and> fan (E b') cond cond' merge (new_nodes b b'))"
  using assms
proof (induction branches arbitrary: cond b)
  case Nil
  then show ?case
    by (simp add: follows_refl fan_refl)
next
  case (Cons br branches)
  obtain condition stmts where br: "br = (condition, stmts)"
    by (cases br)
  have walk: "walks body walk (set stmts)" "walks body walk (set (concat (map snd branches)))"
    using Cons.prems(1) by (auto simp: walks_def br)
  obtain j b0 where n: "add_node_of G (Conditional condition) stmt b = (j, b0)" "follows body {} b b0"
    "new_nodes b b0 = {j}" "inner b0 j"
    using add_node_of_ok [OF Cons.prems(2)] by (metis hollow_simps)
  note hung = hung_condition_ok [OF walk(1) Cons.prems(2-4) n(2-4)]
  have "returns False (and_then (and_then (Cfg_Builder.add_edge G cond j FalseBranch b0) (\<lambda>b.
     let (block, b) = new_block G b
     in and_then (Cfg_Builder.add_edge G j block TrueBranch b) (walk_branch G walk block merge stmts)))
     (walk_elsifs G walk stmt merge branches j)) (\<lambda>(cond', b').
    follows body {} b b' \<and> source b' cond' \<and> fan (E b') cond cond' merge (new_nodes b b'))"
  proof (rule returns_bind [OF hung], elim conjE)
    fix b1
    assume b1: "follows body {} b b1" "source b1 j" "fan (E b1) cond j merge (new_nodes b b1)"
    have "inner b1 merge"
      using Cons.prems(4) followsD(2) [OF b1(1)] by (rule inner_ext)
    from Cons.IH [OF walk(2) followsD(1) [OF b1(1)] b1(2) this]
    show "returns False (walk_elsifs G walk stmt merge branches j b1) (\<lambda>(cond', b').
        follows body {} b b' \<and> source b' cond' \<and> fan (E b') cond cond' merge (new_nodes b b'))"
    proof (rule returns_mono, clarify)
      fix cond' b'
      assume b': "follows body {} b1 b'" "source b' cond'" "fan (E b') j cond' merge (new_nodes b1 b')"
      have "fan (E b') cond j merge (new_nodes b b1)"
        using b1(3) followsD(4) [OF b'(1)] by (rule fan_mono) simp
      from fan_trans [OF this b'(3)]
      show "follows body {} b b' \<and> source b' cond' \<and> fan (E b') cond cond' merge (new_nodes b b')"
        using follows_trans [OF b1(1) b'(1)] b'(2) new_nodes_follows [OF b1(1) b'(1)] by simp
    qed
  qed
  then show ?case
    by (simp add: br n(1) and_then_assoc case_prod_unfold Let_def)
qed


text \<open>The end of a statement with a merge block.\<close>

lemma merged_walked:
  assumes "b_current_block b = Some c" and cond: "follows body {} b b1" "new_nodes b b1 = {v}" "(c, k, v) \<in> E b1"
    and merge: "follows body {} b1 b2" "new_nodes b1 b2 = {merge}" "open_block body b2 merge"
    and rest: "follows body {} b2 b3" "between (E b3) v merge (new_nodes b2 b3)"
  shows "walked body b (set_current merge b3)"
proof (rule walkedI [of body c b _ merge])
  have f: "follows body {} b1 b3" and f': "follows body {} b b3"
    using follows_trans [OF merge(1) rest(1)] follows_trans [OF cond(1)] by auto
  have new: "new_nodes b b3 = {v, merge} \<union> new_nodes b2 b3"
    using new_nodes_follows [OF cond(1) f] new_nodes_follows [OF merge(1) rest(1)] cond(2) merge(2) by auto
  show "follows body {c} b (set_current merge b3)"
    using follows_mono [OF f'] by simp
  show "open_block body (set_current merge b3) merge"
    using open_block_ext [OF merge(3) followsD(2) [OF rest(1)]] by simp
  show "merge = c \<or> merge \<in> new_nodes b (set_current merge b3)"
    by (simp add: new)
  have "(c, k, v) \<in> E b3"
    using cond(3) followsD(4) [OF f] by blast
  moreover have "between (E b3) v merge ({v, merge} \<union> new_nodes b2 b3)"
    using rest(2) by (auto simp: between_def)
  ultimately have "between (E b3) c merge ({c, v} \<union> ({v, merge} \<union> new_nodes b2 b3))"
    using between_trans [OF between_edge] by blast
  then show "between (E (set_current merge b3)) c merge (insert c (new_nodes b (set_current merge b3)))"
    by (simp add: new insert_commute)
qed (use assms(1) in simp_all)

text \<open>Two parts of a statement with a merge block in a row.\<close>

lemma between_follows:
  assumes "follows body {} b b1" and "between (E b1) v m (new_nodes b b1)"
    and "follows body {} b1 b2" and "between (E b2) v m (new_nodes b1 b2)"
  shows "follows body {} b b2 \<and> between (E b2) v m (new_nodes b b2)"
  using follows_trans [OF assms(1,3)] assms(4) new_nodes_follows [OF assms(1,3)]
    between_union [OF between_mono [OF assms(2) followsD(4) [OF assms(3)] order_refl]]
  by simp

lemma fan_follows:
  assumes "follows body {} b b1" and "fan (E b1) v cond m (new_nodes b b1)"
    and "follows body {} b1 b2" and "between (E b2) cond m (new_nodes b1 b2)"
  shows "follows body {} b b2 \<and> between (E b2) v m (new_nodes b b2)"
proof -
  have fan: "fan (E b2) v cond m (new_nodes b b1)"
    using assms(2) followsD(4) [OF assms(3)] by (rule fan_mono) simp
  have "between (E b2) v m (insert cond (new_nodes b b1))"
    using fan between_path [OF assms(4)] by (rule fan_close)
  moreover have "path (E b2) v cond"
    using fan by (simp add: fan_def)
  ultimately have "between (E b2) v m (new_nodes b b1 \<union> new_nodes b1 b2)"
    using assms(4) unfolding between_def by (blast intro: path_trans)
  then show ?thesis
    using follows_trans [OF assms(1,3)] new_nodes_follows [OF assms(1,3)] by simp
qed

definition walk_else :: "'g walker \<Rightarrow> node \<Rightarrow> stmt_idx list option \<Rightarrow> node \<times> 'g cfg_builder \<Rightarrow> 'g cfg_builder outcome" where
  "walk_else walk m els = (\<lambda>(cond, b). case els of
      Some stmts \<Rightarrow> let (block, b) = new_block G b
        in and_then (Cfg_Builder.add_edge G cond block FalseBranch b) (walk_branch G walk block m stmts)
    | None \<Rightarrow> Cfg_Builder.add_edge G cond m FalseBranch b)"

lemma walk_else_ok:
  assumes "\<And>e. els = Some e \<Longrightarrow> walks body walk (set e)" and "wfb body b" and "source b cond" and "inner b m"
  shows "returns False (walk_else walk m els (cond, b)) (\<lambda>b'.
    follows body {} b b' \<and> between (E b') cond m (new_nodes b b'))"
proof (cases els)
  case None
  obtain b' where "Cfg_Builder.add_edge G cond m FalseBranch b = Inr b'" "follows body {} b b'"
    "new_nodes b b' = {}" "(cond, FalseBranch, m) \<in> E b'"
    using add_edge_ok [OF assms(2,3)] assms(4) by metis
  then show ?thesis
    by (simp add: walk_else_def None between_def path_edge)
next
  case (Some e)
  then show ?thesis
    using hung_branch_ok [OF assms(1) [OF Some] assms(2-4)] by (simp add: walk_else_def)
qed

lemma walk_if_branches_ok:
  assumes walks: "walks body walk (set (if_then s))" "walks body walk (set (concat (map snd (if_elsifs s))))"
    "\<And>e. if_else s = Some e \<Longrightarrow> walks body walk (set e)"
    and b: "wfb body b" "source b v" "inner b m"
  shows "returns False
    (and_then (let (block, b) = new_block G b
       in and_then (Cfg_Builder.add_edge G v block TrueBranch b) (walk_branch G walk block m (if_then s)))
     (\<lambda>b. and_then (walk_elsifs G walk stmt m (if_elsifs s) v b) (walk_else walk m (if_else s))))
    (\<lambda>b'. follows body {} b b' \<and> between (E b') v m (new_nodes b b'))"
proof (rule returns_bind [OF hung_branch_ok [OF walks(1) b]], elim conjE)
  fix b3
  assume b3: "follows body {} b b3" "between (E b3) v m (new_nodes b b3)"
  note v3 = source_ext [OF b(2) followsD(2) [OF b3(1)]] and m3 = inner_ext [OF b(3) followsD(2) [OF b3(1)]]
  have "returns False (and_then (walk_elsifs G walk stmt m (if_elsifs s) v b3) (walk_else walk m (if_else s)))
      (\<lambda>b'. follows body {} b3 b' \<and> between (E b') v m (new_nodes b3 b'))"
  proof (rule returns_bind [OF walk_elsifs_ok [OF walks(2) followsD(1) [OF b3(1)] v3 m3]], clarify)
    fix cond b4
    assume b4: "follows body {} b3 b4" "source b4 cond" "fan (E b4) v cond m (new_nodes b3 b4)"
    show "returns False (walk_else walk m (if_else s) (cond, b4))
        (\<lambda>b'. follows body {} b3 b' \<and> between (E b') v m (new_nodes b3 b'))"
      by (rule returns_mono [OF walk_else_ok [OF walks(3) followsD(1) [OF b4(1)] b4(2)
              inner_ext [OF m3 followsD(2) [OF b4(1)]]]])
        (use fan_follows [OF b4(1,3)] in auto)
  qed
  then show "returns False (and_then (walk_elsifs G walk stmt m (if_elsifs s) v b3) (walk_else walk m (if_else s)))
      (\<lambda>b'. follows body {} b b' \<and> between (E b') v m (new_nodes b b'))"
    by (rule returns_mono) (use between_follows [OF b3] in auto)
qed

lemma walk_if_ok:
  assumes walk: "walks body walk (set (concat (child_lists (S_If s))))"
    and "wfb body b" and c: "b_current_block b = Some c" and "open_block body b c"
  shows "returns False (walk_if_statement_hir G walk stmt s b) (walked body b)"
proof -
  have walks: "walks body walk (set (if_then s))" "walks body walk (set (concat (map snd (if_elsifs s))))"
    "\<And>e. if_else s = Some e \<Longrightarrow> walks body walk (set e)"
    using walk by (auto simp: walks_def child_lists_def)
  obtain v b0 where n: "add_node_of G (Conditional (if_condition s)) stmt b = (v, b0)" "follows body {} b b0"
    "new_nodes b b0 = {v}" "inner b0 v" "b_current_block b0 = b_current_block b"
    using add_node_of_ok [OF assms(2)] by (metis hollow_simps)
  obtain b1 k where e: "Cfg_Builder.add_edge G c v Unconditional b0 = Inr b1" "follows body {} b b1"
    "new_nodes b b1 = {v}" "(c, k, v) \<in> E b1" "inner b1 v"
    using entered_ok [OF assms(2) c open_block_source [OF assms(4)] n(2-5)] by metis
  obtain m b2 where m: "new_block G b1 = (m, b2)" "follows body {} b1 b2" "new_nodes b1 b2 = {m}"
    "inner b2 m" "open_block body b2 m"
    using new_block_ok [OF followsD(1) [OF e(2)]] by metis
  have v: "source b2 v"
    using inner_source [OF inner_ext [OF e(5) followsD(2) [OF m(2)]]] .
  have "returns False (and_then (and_then (let (block, b) = new_block G b2
       in and_then (Cfg_Builder.add_edge G v block TrueBranch b) (walk_branch G walk block m (if_then s)))
     (\<lambda>b. and_then (walk_elsifs G walk stmt m (if_elsifs s) v b) (walk_else walk m (if_else s))))
     (\<lambda>b. Inr (set_current m b))) (walked body b)"
    by (rule returns_bind [OF walk_if_branches_ok [OF walks followsD(1) [OF m(2)] v m(4)]])
      (use merged_walked [OF c e(2-4) m(2,3,5)] in auto)
  then show ?thesis
    by (cases "if_else s") (simp_all add: walk_if_statement_hir_def n(1,5) with_current_def c e(1) m(1)
        and_then_assoc case_prod_unfold Let_def walk_else_def)
qed


subsubsection \<open>Preprocessor conditionals\<close>

text \<open>
  The chain so far: the condition later branches hang from is reached from the first
  one, and once an \<open>#Else\<close> was seen it leads to the merge block.
\<close>

definition chained :: "node \<Rightarrow> node \<Rightarrow> 'g cfg_builder \<Rightarrow> node \<times> bool \<Rightarrow> bool" where
  "chained cv m b = (\<lambda>(cond, saw). source b cond \<and> path (E b) cv cond \<and> (saw \<longrightarrow> path (E b) cond m))"

definition pre_step :: "hir_body \<Rightarrow> node \<Rightarrow> node \<Rightarrow> 'g cfg_builder \<Rightarrow> node \<times> bool \<Rightarrow> (node \<times> bool) \<times> 'g cfg_builder \<Rightarrow> bool" where
  "pre_step body cv m b st = (\<lambda>(st', b'). follows body {} b b' \<and> chained cv m b' st' \<and>
     path (E b') (fst st) (fst st') \<and> fan (E b') cv (fst st') m (new_nodes b b'))"

lemma pre_step_refl: "wfb body b \<Longrightarrow> chained cv m b st \<Longrightarrow> pre_step body cv m b st (st, b)"
  by (auto simp: pre_step_def follows_refl chained_def fan_def)

lemma pre_step_trans:
  assumes "pre_step body cv m b st (st1, b1)" and "pre_step body cv m b1 st1 (st2, b2)"
  shows "pre_step body cv m b st (st2, b2)"
proof -
  have f: "follows body {} b b1" "follows body {} b1 b2"
    using assms by (auto simp: pre_step_def)
  have E: "E b1 \<subseteq> E b2"
    using followsD(4) [OF f(2)] .
  have "fan (E b2) cv (fst st1) m (new_nodes b b1)"
    using assms(1) E unfolding pre_step_def by (auto intro: fan_mono)
  then have "fan (E b2) cv (fst st2) m (new_nodes b b1)"
    using assms(2) unfolding pre_step_def fan_def by (blast intro: path_trans)
  moreover have "path (E b2) (fst st) (fst st2)"
    using assms E unfolding pre_step_def by (auto intro: path_trans path_mono)
  ultimately show ?thesis
    using assms(2) follows_trans [OF f] new_nodes_follows [OF f]
    unfolding pre_step_def by (auto intro: fan_union)
qed

lemma walk_pre_branch_ok:
  assumes walk: "walks body walk (set (br_stmts br))"
    and ranges: "\<And>i. br_kind br = PB_ElsIf i \<Longrightarrow>
      br_condition_range br \<noteq> None \<and> br_directive_range br \<noteq> None"
    and b: "wfb body b" "source b cv" "inner b m" and chain: "chained cv m b (cond, saw)"
  shows "returns False (and_then (open_pre_branch G cv br (cond, saw) b) (\<lambda>(block, st, b).
    and_then (walk_branch G walk block m (br_stmts br) b) (\<lambda>b. Inr (st, b)))) (pre_step body cv m b (cond, saw))"
proof (cases "br_kind br")
  case PB_Then
  have step: "pre_step body cv m b (cond, saw) ((cond, saw), b')"
    if "follows body {} b b'" "between (E b') cv m (new_nodes b b')" for b'
    using that chain followsD(2,4) [OF that(1)]
    by (auto simp: pre_step_def chained_def intro: path_mono source_ext fan_branch [OF _ path_refl])
  have "returns False (and_then (let (block, b) = new_block G b
      in and_then (Cfg_Builder.add_edge G cv block TrueBranch b) (walk_branch G walk block m (br_stmts br)))
      (\<lambda>b. Inr ((cond, saw), b))) (pre_step body cv m b (cond, saw))"
    by (rule returns_bind [OF hung_branch_ok [OF walk b]]) (use step in auto)
  then show ?thesis
    by (simp add: open_pre_branch_def PB_Then and_then_assoc case_prod_unfold Let_def)
next
  case (PB_ElsIf i)
  obtain c d where cd: "br_condition_range br = Some c" "br_directive_range br = Some d"
    using ranges [OF PB_ElsIf] by auto
  obtain j b0 where n: "add_node G (PreprocCondition (with_directive_range c d)) b = (j, b0)"
    "follows body {} b b0" "new_nodes b b0 = {j}" "inner b0 j"
    using add_node_ok [OF b(1)] by (metis hollow_simps)
  have cond: "source b cond"
    using chain by (simp add: chained_def)
  have step: "pre_step body cv m b (cond, saw) ((j, saw), b')"
    if "follows body {} b b'" "source b' j" "path (E b') j m" "fan (E b') cond j m (new_nodes b b')" for b'
  proof -
    have "path (E b') cv cond"
      using chain followsD(4) [OF that(1)] by (auto simp: chained_def intro: path_mono)
    then show ?thesis
      using that by (auto simp: pre_step_def chained_def fan_def intro: path_trans)
  qed
  have "returns False (and_then (and_then (Cfg_Builder.add_edge G cond j FalseBranch b0) (\<lambda>b.
     let (block, b) = new_block G b
     in and_then (Cfg_Builder.add_edge G j block TrueBranch b) (walk_branch G walk block m (br_stmts br))))
     (\<lambda>b. Inr ((j, saw), b))) (pre_step body cv m b (cond, saw))"
    by (rule returns_bind [OF hung_condition_ok [OF walk b(1) cond b(3) n(2-4)]]) (use step in auto)
  then show ?thesis
    by (simp add: open_pre_branch_def PB_ElsIf expect_some_def cd n(1) and_then_assoc case_prod_unfold Let_def)
next
  case PB_Else
  have cond: "source b cond"
    using chain by (simp add: chained_def)
  have step: "pre_step body cv m b (cond, saw) ((cond, True), b')"
    if "follows body {} b b'" "between (E b') cond m (new_nodes b b')" for b'
    using that chain followsD(2,4) [OF that(1)]
    by (auto simp: pre_step_def chained_def intro: path_mono source_ext between_path fan_branch)
  have "returns False (and_then (let (block, b) = new_block G b
      in and_then (Cfg_Builder.add_edge G cond block FalseBranch b) (walk_branch G walk block m (br_stmts br)))
      (\<lambda>b. Inr ((cond, True), b))) (pre_step body cv m b (cond, saw))"
    by (rule returns_bind [OF hung_branch_ok [OF walk b(1) cond b(3)]]) (use step in auto)
  then show ?thesis
    by (simp add: open_pre_branch_def PB_Else and_then_assoc case_prod_unfold Let_def)
qed


lemma walk_pre_branches_ok:
  assumes "walks body walk (set (concat (map br_stmts brs)))"
    and "\<And>br i. br \<in> set brs \<Longrightarrow> br_kind br = PB_ElsIf i \<Longrightarrow>
      br_condition_range br \<noteq> None \<and> br_directive_range br \<noteq> None"
    and "wfb body b" "source b cv" "inner b m" "chained cv m b st"
  shows "returns False (walk_pre_branches G walk cv m brs st b) (pre_step body cv m b st)"
  using assms
proof (induction brs arbitrary: b st)
  case Nil
  then show ?case
    by (simp add: pre_step_refl)
next
  case (Cons br brs)
  have walk: "walks body walk (set (br_stmts br))" "walks body walk (set (concat (map br_stmts brs)))"
    using Cons.prems(1) by (auto simp: walks_def)
  have "returns False (and_then (and_then (open_pre_branch G cv br st b) (\<lambda>(block, st, b).
      and_then (walk_branch G walk block m (br_stmts br) b) (\<lambda>b. Inr (st, b))))
      (\<lambda>(st, b). walk_pre_branches G walk cv m brs st b)) (pre_step body cv m b st)"
  proof (rule returns_bind)
    show "returns False (and_then (open_pre_branch G cv br st b) (\<lambda>(block, st, b).
        and_then (walk_branch G walk block m (br_stmts br) b) (\<lambda>b. Inr (st, b)))) (pre_step body cv m b st)"
      using walk_pre_branch_ok [OF walk(1) _ Cons.prems(3-5)] Cons.prems(2,6)
      by (cases st) (metis list.set_intros(1))
    fix r
    assume step: "pre_step body cv m b st r"
    obtain st1 b1 where r: "r = (st1, b1)"
      by (cases r)
    have b1: "follows body {} b b1" "chained cv m b1 st1"
      using step by (auto simp: pre_step_def r)
    have "returns False (walk_pre_branches G walk cv m brs st1 b1) (pre_step body cv m b1 st1)"
      using Cons.prems(2) b1 followsD(1,2) [OF b1(1)]
      by (intro Cons.IH [OF walk(2)])
        (auto intro: source_ext [OF Cons.prems(4)] inner_ext [OF Cons.prems(5)])
    then show "returns False (case r of (st, b) \<Rightarrow> walk_pre_branches G walk cv m brs st b) (pre_step body cv m b st)"
      unfolding r prod.case by (rule returns_mono) (use pre_step_trans step r in fastforce)
  qed
  then show ?case
    by (simp add: and_then_assoc case_prod_unfold Let_def)
qed

lemma preproc_branches_ranges:
  "br \<in> set (preproc_branches s) \<Longrightarrow> br_kind br = PB_ElsIf i \<Longrightarrow>
     br_condition_range br \<noteq> None \<and> br_directive_range br \<noteq> None"
  by (auto simp: preproc_branches_def split: option.splits)

lemma walk_preproc_if_ok:
  assumes walk: "walks body walk (set (concat (child_lists (S_PreprocIf s))))"
    and "wfb body b" and c: "b_current_block b = Some c" and "open_block body b c"
  shows "returns False (walk_preproc_if_statement_hir G walk s b) (walked body b)"
proof -
  let ?ranges = "with_ranges (pp_condition_range s) (pp_directive_range s) (pp_full_range s)"
  obtain v b0 where n: "add_node G (PreprocCondition ?ranges) b = (v, b0)" "follows body {} b b0"
    "new_nodes b b0 = {v}" "inner b0 v" "b_current_block b0 = b_current_block b"
    using add_node_ok [OF assms(2)] by (metis hollow_simps)
  obtain b1 k where e: "Cfg_Builder.add_edge G c v Unconditional b0 = Inr b1" "follows body {} b b1"
    "new_nodes b b1 = {v}" "(c, k, v) \<in> E b1" "inner b1 v"
    using entered_ok [OF assms(2) c open_block_source [OF assms(4)] n(2-5)] by metis
  obtain m b2 where m: "new_block G b1 = (m, b2)" "follows body {} b1 b2" "new_nodes b1 b2 = {m}"
    "inner b2 m" "open_block body b2 m"
    using new_block_ok [OF followsD(1) [OF e(2)]] by metis
  have v: "source b2 v"
    using inner_source [OF inner_ext [OF e(5) followsD(2) [OF m(2)]]] .
  have chained0: "chained v m b2 (v, False)"
    using v by (simp add: chained_def)
  let ?close = "\<lambda>((cond, saw), b). if saw then Inr b else Cfg_Builder.add_edge G cond m FalseBranch b"
  have "returns False (and_then (walk_pre_branches G walk v m (preproc_branches s) (v, False) b2) ?close)
      (\<lambda>b'. follows body {} b2 b' \<and> between (E b') v m (new_nodes b2 b'))"
  proof (rule returns_bind [OF walk_pre_branches_ok])
    fix r
    assume r: "pre_step body v m b2 (v, False) r"
    obtain cond saw b3 where r3: "r = ((cond, saw), b3)"
      by (cases r) auto
    have b3: "follows body {} b2 b3" "source b3 cond" "saw \<Longrightarrow> path (E b3) cond m"
      "fan (E b3) v cond m (new_nodes b2 b3)"
      using r by (auto simp: pre_step_def chained_def r3)
    show "returns False (?close r) (\<lambda>b'. follows body {} b2 b' \<and> between (E b') v m (new_nodes b2 b'))"
    proof (cases saw)
      case True
      then show ?thesis
        using fan_follows [OF b3(1,4) follows_refl [OF followsD(1) [OF b3(1)]]] b3(3)
        by (simp add: r3 between_def)
    next
      case False
      obtain b4 where "Cfg_Builder.add_edge G cond m FalseBranch b3 = Inr b4" "follows body {} b3 b4"
        "new_nodes b3 b4 = {}" "(cond, FalseBranch, m) \<in> E b4"
        using add_edge_ok [OF followsD(1) [OF b3(1)] b3(2)] inner_ext [OF m(4) followsD(2) [OF b3(1)]] by metis
      then show ?thesis
        using fan_follows [OF b3(1,4), of b4] False by (simp add: r3 between_def path_edge)
    qed
  qed (use walk v m followsD(1) [OF m(2)] preproc_branches_ranges chained0 in \<open>auto simp: child_lists_def\<close>)
  then have "returns False (and_then (and_then (walk_pre_branches G walk v m (preproc_branches s) (v, False) b2) ?close)
      (\<lambda>b. Inr (set_current m b))) (walked body b)"
    by (rule returns_bind) (use merged_walked [OF c e(2-4) m(2,3,5)] in auto)
  then show ?thesis
    by (simp add: walk_preproc_if_statement_hir_def n(1,5) with_current_def c e(1) m(1) and_then_assoc
        case_prod_unfold Let_def cong: if_cong)
qed


subsubsection \<open>Loops and handlers\<close>

lemma restack_view [simp]:
  "W (restack st b) = W b" "E (restack st b) = E b" "b_current_block (restack st b) = b_current_block b"
  "stacks (restack st b) = st" "open_block body (restack st b) v = open_block body b v"
  "ext M (restack st b) b' = ext M b b'" "ext M b' (restack st b) = ext M b' b"
  "new_nodes (restack st b) b' = new_nodes b b'" "new_nodes b' (restack st b) = new_nodes b' b"
  "b_pending_gotos (restack st b) = b_pending_gotos b" "b_cfg (restack st b) = b_cfg b"
  by (simp_all add: restack_def W_def E_def stacks_def open_block_def ext_def new_nodes_def)

definition stack_targets :: "node list \<times> (node \<times> node) list \<Rightarrow> node set" where
  "stack_targets st = set (fst st) \<union> fst ` set (snd st) \<union> snd ` set (snd st)"

lemma jump_targets_restack: "jump_targets (restack st b) = stack_targets st \<union> ran (b_label_table b)"
  by (simp add: jump_targets_def restack_def stack_targets_def Un_assoc)

lemma jump_targets_stacks: "jump_targets b = stack_targets (stacks b) \<union> ran (b_label_table b)"
  by (simp add: jump_targets_def stacks_def stack_targets_def Un_assoc)

lemma wfb_restack:
  assumes "wfb body b" and "\<And>t. t \<in> stack_targets st \<Longrightarrow> t \<in> stack_targets (stacks b) \<or> inner b t"
  shows "wfb body (restack st b)"
proof -
  have targets: "t < length (W b) \<and> cfg_start (b_cfg b) \<noteq> Some t" if "t \<in> jump_targets (restack st b)" for t
    using that assms unfolding jump_targets_restack wfb_def inner_def jump_targets_stacks [of b] by auto
  show ?thesis
    using assms(1) targets unfolding wfb_def restack_view by blast
qed

text \<open>Statements walked from a block with a longer stack, which is then cut back.\<close>

lemma nested_ok:
  assumes walk: "walks body walk (set stmts)" and b: "wfb body b" "open_block body b i"
    and st: "stack_targets st \<subseteq> stack_targets (stacks b) \<union> Collect (inner b)"
      "stack_targets (stacks b) \<subseteq> stack_targets st"
  shows "returns False (walk_all walk stmts (set_current i (restack st b))) (\<lambda>b1.
    stacks b1 = st \<and>
    follows body {i} b (restack (stacks b) b1) \<and>
    (\<exists>c. b_current_block b1 = Some c \<and> open_block body b1 c \<and> (c = i \<or> c \<in> new_nodes b b1) \<and>
       between (E b1) i c (insert i (new_nodes b b1))))"
proof -
  have "returns False (walk_all walk stmts (set_current i (restack st b)))
      (walked body (set_current i (restack st b)))"
    using walk_all_ok [OF walk, of "set_current i (restack st b)" i] wfb_restack [OF b(1), of st] b(2) st(1) by auto
  then show ?thesis
  proof (rule returns_mono)
    fix b1
    assume "walked body (set_current i (restack st b)) b1"
    then obtain c where w: "follows body {i} (restack st b) b1" "b_current_block b1 = Some c"
      "open_block body b1 c" "c = i \<or> c \<in> new_nodes b b1" "between (E b1) i c (insert i (new_nodes b b1))"
      by (auto elim!: walkedE)
    have "stacks b1 = st"
      using followsD(3) [OF w(1)] by simp
    moreover from this have "wfb body (restack (stacks b) b1)"
      using st(2) by (intro wfb_restack [OF followsD(1) [OF w(1)]]) auto
    ultimately show "stacks b1 = st \<and> follows body {i} b (restack (stacks b) b1) \<and>
      (\<exists>c. b_current_block b1 = Some c \<and> open_block body b1 c \<and> (c = i \<or> c \<in> new_nodes b b1) \<and>
       between (E b1) i c (insert i (new_nodes b b1)))"
      using w followsD(2) [OF w(1)] by (auto simp: follows_def)
  qed
qed

lemma reachable_edge: "(p, k, x) \<in> E b \<Longrightarrow> is_block_reachable G b x"
  using set_edges_in [of p k "cfg_graph (b_cfg b)" x]
  by (auto simp: is_block_reachable_def incoming_edges_def E_def)

text \<open>The end of a loop: the edge back to the header and the one to the block behind.\<close>

lemma loop_end_ok:
  assumes "wfb body b" and "b_current_block b = Some x" and "source b x" and "inner b v" and "inner b a"
    and "\<exists>p k. (p, k, x) \<in> E b"
  obtains b' where "and_then (with_current (\<lambda>exit b. if is_block_reachable G b exit
      then Cfg_Builder.add_edge G exit v Unconditional b else Inr b) b) (\<lambda>b.
      and_then (Cfg_Builder.add_edge G v a FalseBranch b) (\<lambda>b. Inr (set_current a b))) =
      Inr (set_current a b')"
    and "follows body {} b b'" and "new_nodes b b' = {}" and "(x, Unconditional, v) \<in> E b'" and "(v, FalseBranch, a) \<in> E b'"
proof -
  have reach: "is_block_reachable G b x"
    using assms(6) reachable_edge by blast
  obtain b1 where e1: "Cfg_Builder.add_edge G x v Unconditional b = Inr b1" "follows body {} b b1"
    "new_nodes b b1 = {}" "(x, Unconditional, v) \<in> E b1"
    using add_edge_ok [OF assms(1,3)] assms(4) by metis
  have "source b1 v" and "inner b1 a"
    using inner_source inner_ext [OF _ followsD(2) [OF e1(2)]] assms(4,5) by blast+
  then obtain b2 where e2: "Cfg_Builder.add_edge G v a FalseBranch b1 = Inr b2" "follows body {} b1 b2"
    "new_nodes b1 b2 = {}" "(v, FalseBranch, a) \<in> E b2"
    using add_edge_ok [OF followsD(1) [OF e1(2)]] by metis
  show thesis
  proof (rule that [of b2])
    show "new_nodes b b2 = {}"
      using new_nodes_follows [OF e1(2) e2(2)] e1(3) e2(3) by simp
    show "(x, Unconditional, v) \<in> E b2"
      using e1(4) followsD(4) [OF e2(2)] by blast
  qed (use follows_trans [OF e1(2) e2(2)] e1(1) e2(1,4) assms(2) reach in \<open>simp_all add: with_current_def\<close>)
qed

lemma loop_between:
  assumes "(c, k1, v) \<in> A" "(v, k2, i) \<in> A" "(x, k3, v) \<in> A" "(v, k4, a) \<in> A" "between A i x B" "i \<in> B"
  shows "between A c a ({c, v, i, a} \<union> B)"
proof -
  have vi: "path A v i" and xv: "path A x v" and va: "path A v a" and cv: "path A c v"
    using assms(1-4) path_edge by blast+
  have "path A i u \<and> path A u x" if "u \<in> B" for u
    using assms(5) that by (simp add: between_def)
  then have B: "path A c u \<and> path A u a" if "u \<in> B" for u
    using that vi xv va cv by (meson path_trans)
  then show ?thesis
    using assms(6) cv va by (auto simp: between_def intro: path_trans)
qed

lemma walk_loop_ok:
  assumes walk: "walks body walk (set stmts)"
    and "wfb body b" and c: "b_current_block b = Some c" and "open_block body b c"
    and hollow: "hollow header"
  shows "returns False (walk_loop G walk stmt header stmts b) (walked body b)"
proof -
  obtain v b0 where n: "add_node_of G header stmt b = (v, b0)" "follows body {} b b0"
    "new_nodes b b0 = {v}" "inner b0 v" "b_current_block b0 = b_current_block b"
    using add_node_of_ok [OF assms(2)] by (metis hollow)
  obtain b1 k where e: "link_to G c v b0 = Inr b1" "follows body {} b b1"
    "new_nodes b b1 = {v}" "(c, k, v) \<in> E b1" "inner b1 v"
    using entered_ok [OF assms(2) c open_block_source [OF assms(4)] n(2-5)] by metis
  obtain i b2 b3 where o: "new_block G b1 = (i, b2)" "Cfg_Builder.add_edge G v i TrueBranch b2 = Inr b3"
    "follows body {} b1 b3" "new_nodes b1 b3 = {i}" "(v, TrueBranch, i) \<in> E b3" "open_block body b3 i"
    using opened_ok [OF followsD(1) [OF e(2)] inner_source [OF e(5)]] by metis
  obtain a b4 where a: "new_block G b3 = (a, b4)" "follows body {} b3 b4" "new_nodes b3 b4 = {a}"
    "inner b4 a" "open_block body b4 a"
    using new_block_ok [OF followsD(1) [OF o(3)]] by metis
  have f14: "follows body {} b1 b4"
    using follows_trans [OF o(3) a(2)] by simp
  have f04: "follows body {} b b4"
    using follows_trans [OF e(2) f14] by simp
  have new4: "new_nodes b b4 = {v, i, a}"
    using new_nodes_follows [OF e(2) f14] new_nodes_follows [OF o(3) a(2)] e(3) o(4) a(3) by auto
  have v4: "inner b4 v" and i4: "open_block body b4 i"
    using inner_ext [OF e(5) followsD(2) [OF f14]] open_block_ext [OF o(6) followsD(2) [OF a(2)]] by simp_all
  have "i \<in> new_nodes b1 b3" and "a \<in> new_nodes b3 b4"
    using o(4) a(3) by simp_all
  then have ia: "i \<noteq> a"
    by (auto simp: new_nodes_def)
  let ?st = "(b_except_stack b4, b_loop_stack b4 @ [(v, a)])"
  let ?rest = "\<lambda>b. let b = b\<lparr>b_loop_stack := butlast (b_loop_stack b)\<rparr>
    in and_then (with_current (\<lambda>exit b. if is_block_reachable G b exit
      then Cfg_Builder.add_edge G exit v Unconditional b else Inr b) b) (\<lambda>b.
      and_then (Cfg_Builder.add_edge G v a FalseBranch b) (\<lambda>b. Inr (set_current a b)))"
  have st: "stack_targets ?st \<subseteq> stack_targets (stacks b4) \<union> Collect (inner b4)"
    "stack_targets (stacks b4) \<subseteq> stack_targets ?st"
    using v4 a(4) by (auto simp: stack_targets_def stacks_def)
  have "returns False (and_then (walk_all walk stmts (set_current i (restack ?st b4))) ?rest) (walked body b)"
  proof (rule returns_bind [OF nested_ok [OF walk followsD(1) [OF f04] i4 st]], elim conjE exE)
    fix b5 :: "'g cfg_builder" and x :: node
    let ?b6 = "restack (stacks b4) b5"
    assume b5: "stacks b5 = ?st" and f: "follows body {i} b4 ?b6" and x: "b_current_block b5 = Some x"
      "open_block body b5 x" "x = i \<or> x \<in> new_nodes b4 b5" and bt: "between (E b5) i x (insert i (new_nodes b4 b5))"
    have pop: "b5\<lparr>b_loop_stack := butlast (b_loop_stack b5)\<rparr> = ?b6"
      using b5 by (simp add: restack_def stacks_def)
    have E45: "E b4 \<subseteq> E b5" "E b3 \<subseteq> E b5" "E b1 \<subseteq> E b5"
      using followsD(4) [OF f] followsD(4) [OF a(2)] followsD(4) [OF f14] by auto
    have edge: "\<exists>p k. (p, k, x) \<in> E ?b6"
      using path_last [OF between_path [OF bt]] o(5) E45(2) by (cases "x = i") auto
    have src: "source ?b6 x" and cur: "b_current_block ?b6 = Some x"
      using open_block_source [of body ?b6 x] x(1,2) by simp_all
    obtain b7 where b7: "?rest b5 = Inr (set_current a b7)" "follows body {} ?b6 b7" "new_nodes ?b6 b7 = {}"
      "(x, Unconditional, v) \<in> E b7" "(v, FalseBranch, a) \<in> E b7"
      unfolding pop Let_def
      by (rule loop_end_ok [OF followsD(1) [OF f] cur src inner_ext [OF v4 followsD(2) [OF f]]
            inner_ext [OF a(4) followsD(2) [OF f]] edge])
    have f7: "follows body {i} b4 b7"
      using follows_trans [OF f b7(2)] by simp
    have E7: "E b5 \<subseteq> E b7"
      using followsD(4) [OF b7(2)] by simp
    have new: "new_nodes b b7 = {v, i, a} \<union> new_nodes b4 b5"
      using new_nodes_follows [OF f04 f7] new_nodes_follows [OF f b7(2)] b7(3) new4 by simp
    have "between (E b7) c a ({c, v, i, a} \<union> insert i (new_nodes b4 b5))"
    proof (rule loop_between)
      show "between (E b7) i x (insert i (new_nodes b4 b5))"
        using bt E7 by (rule between_mono) simp
    qed (use b7(4,5) e(4) o(5) E45 E7 in auto)
    then have "walked body b (set_current a b7)"
      using follows_mono [OF follows_fresh [OF f04 _ f7]] new4 c new open_block_ext [OF a(5) followsD(2) [OF f7]] ia
      by (intro walkedI [of body c b _ a]) (auto simp: insert_commute)
    then show "returns False (?rest b5) (walked body b)"
      by (simp only: b7(1) returns_Inr)
  qed
  then show ?thesis
    by (simp add: walk_loop_def n(1,5) with_current_def c e(1) o(1,2) a(1) restack_loop Let_def)
qed

lemma try_between:
  assumes "(c, k1, t) \<in> A" "(t, k2, i) \<in> A" "(t, k3, x) \<in> A" "between A i y B" "between A x m C"
    "(y, k4, m) \<in> A"
  shows "between A c m ({c, t, m} \<union> B \<union> C)"
proof -
  have ct: "path A c t" and ti: "path A t i" and tx: "path A t x" and ym: "path A y m"
    using assms path_edge by blast+
  have "path A c u \<and> path A u m" if "u \<in> B" for u
    using that assms(4) ct ti ym by (meson between_def path_trans)
  moreover have "path A c u \<and> path A u m" if "u \<in> C" for u
    using that assms(5) ct tx by (meson between_def path_trans)
  moreover have "path A t m"
    using ti ym between_path [OF assms(4)] by (meson path_trans)
  ultimately show ?thesis
    using ct by (auto simp: between_def intro: path_trans)
qed

text \<open>The merge block behind the two parts of a \<open>Try\<close>.\<close>

lemma try_end_ok:
  assumes "wfb body b" and "source b y" and "source b z"
  obtains b' m where "(let (m, b) = new_block G b in and_then (link_to G y m b) (\<lambda>b.
      and_then (link_to G z m b) (\<lambda>b. Inr (set_current m b)))) = Inr (set_current m b')"
    and "follows body {} b b'" and "new_nodes b b' = {m}" and "open_block body b' m"
    and "\<exists>k. (y, k, m) \<in> E b'" and "\<exists>k. (z, k, m) \<in> E b'"
proof -
  obtain m b1 where n: "new_block G b = (m, b1)" "follows body {} b b1" "new_nodes b b1 = {m}"
    "inner b1 m" "open_block body b1 m"
    using new_block_ok [OF assms(1)] by metis
  obtain b2 k where e1: "link_to G y m b1 = Inr b2" "follows body {} b1 b2" "new_nodes b1 b2 = {}" "(y, k, m) \<in> E b2"
    using link_to_ok [OF followsD(1) [OF n(2)] source_ext [OF assms(2) followsD(2) [OF n(2)]]] n(4) by metis
  have f2: "follows body {} b b2"
    using follows_trans [OF n(2) e1(2)] by simp
  obtain b3 k' where e2: "link_to G z m b2 = Inr b3" "follows body {} b2 b3" "new_nodes b2 b3 = {}" "(z, k', m) \<in> E b3"
    using link_to_ok [OF followsD(1) [OF e1(2)] source_ext [OF assms(3) followsD(2) [OF f2]]]
      inner_ext [OF n(4) followsD(2) [OF e1(2)]] by metis
  have f13: "follows body {} b1 b3"
    using follows_trans [OF e1(2) e2(2)] by simp
  show thesis
  proof (rule that [of m b3])
    show "new_nodes b b3 = {m}"
      using new_nodes_follows [OF n(2) f13] new_nodes_follows [OF e1(2) e2(2)] n(3) e1(3) e2(3) by simp
    show "open_block body b3 m"
      using open_block_ext [OF n(5) followsD(2) [OF f13]] by simp
    show "\<exists>k. (y, k, m) \<in> E b3"
      using e1(4) followsD(4) [OF e2(2)] by blast
  qed (use follows_trans [OF n(2) f13] n(1) e1(1) e2(1,4) in auto)
qed

text \<open>The entry of a \<open>Try\<close> and the blocks of its two parts.\<close>

lemma try_start_ok:
  assumes "wfb body b" and c: "b_current_block b = Some c" and "open_block body b c"
  obtains t b0 b1 i b2 b3 x b4 b5 where "add_node_of G TryVertex stmt b = (t, b0)"
    and "Cfg_Builder.add_edge G c t Unconditional b0 = Inr b1"
    and "new_block G b1 = (i, b2)" and "Cfg_Builder.add_edge G t i Unconditional b2 = Inr b3"
    and "new_block G b3 = (x, b4)" and "Cfg_Builder.add_edge G t x Exception b4 = Inr b5"
    and "follows body {} b b5" and "new_nodes b b5 = {t, i, x}" and "b_current_block b0 = b_current_block b"
    and "\<exists>k. (c, k, t) \<in> E b5" and "(t, Unconditional, i) \<in> E b5" and "(t, Exception, x) \<in> E b5"
    and "open_block body b5 i" and "open_block body b5 x" and "inner b5 x" and "i \<noteq> x"
proof -
  obtain t b0 where n: "add_node_of G TryVertex stmt b = (t, b0)" "follows body {} b b0"
    "new_nodes b b0 = {t}" "inner b0 t" "b_current_block b0 = b_current_block b"
    using add_node_of_ok [OF assms(1)] by (metis hollow_simps)
  obtain b1 k where e: "Cfg_Builder.add_edge G c t Unconditional b0 = Inr b1" "follows body {} b b1"
    "new_nodes b b1 = {t}" "(c, k, t) \<in> E b1" "inner b1 t"
    using entered_ok [OF assms(1) c open_block_source [OF assms(3)] n(2-5)] by metis
  obtain i b2 b3 where o: "new_block G b1 = (i, b2)" "Cfg_Builder.add_edge G t i Unconditional b2 = Inr b3"
    "follows body {} b1 b3" "new_nodes b1 b3 = {i}" "(t, Unconditional, i) \<in> E b3" "open_block body b3 i"
    using opened_ok [OF followsD(1) [OF e(2)] inner_source [OF e(5)]] by metis
  obtain x b4 b5 where o': "new_block G b3 = (x, b4)" "Cfg_Builder.add_edge G t x Exception b4 = Inr b5"
    "follows body {} b3 b5" "new_nodes b3 b5 = {x}" "(t, Exception, x) \<in> E b5" "open_block body b5 x" "inner b5 x"
    using opened_ok [OF followsD(1) [OF o(3)] inner_source [OF inner_ext [OF e(5) followsD(2) [OF o(3)]]]] by metis
  have f15: "follows body {} b1 b5"
    using follows_trans [OF o(3) o'(3)] by simp
  have new: "new_nodes b b5 = {t, i, x}"
    using new_nodes_follows [OF e(2) f15] new_nodes_follows [OF o(3) o'(3)] e(3) o(4) o'(4) by auto
  have "i \<in> new_nodes b1 b3" and "x \<in> new_nodes b3 b5"
    using o(4) o'(4) by simp_all
  then have "i \<noteq> x"
    by (auto simp: new_nodes_def)
  moreover have "\<exists>k. (c, k, t) \<in> E b5" and "(t, Unconditional, i) \<in> E b5"
    using e(4) o(5) followsD(4) [OF f15] followsD(4) [OF o'(3)] by blast+
  moreover have "open_block body b5 i"
    using open_block_ext [OF o(6) followsD(2) [OF o'(3)]] by simp
  moreover have "follows body {} b b5"
    using follows_trans [OF e(2) f15] by simp
  ultimately show thesis
    using that [OF n(1) e(1) o(1,2) o'(1,2) _ new n(5)] o'(5-7) by blast
qed

text \<open>The handler of a \<open>Try\<close> and the merge block, which the end of the protected part joins.\<close>

lemma walk_handler_ok:
  assumes walk: "walks body walk (set handler)" and b: "wfb body b" "open_block body b x" "source b y"
  shows "returns False (and_then (walk_all walk handler (set_current x b)) (\<lambda>b.
       let except_exit = b_current_block b; (m, b) = new_block G b
       in and_then (link_to G y m b) (\<lambda>b.
          and_then (case except_exit of None \<Rightarrow> Inr b | Some exit \<Rightarrow> link_to G exit m b) (\<lambda>b.
          Inr (set_current m b))))) (\<lambda>b'. follows body {x} b b' \<and> (\<exists>m. b_current_block b' = Some m \<and>
     m \<in> new_nodes b b' \<and> open_block body b' m \<and> (\<exists>k. (y, k, m) \<in> E b') \<and>
     between (E b') x m (insert x (new_nodes b b'))))"
proof (rule returns_bind)
  show "returns False (walk_all walk handler (set_current x b)) (walked body (set_current x b))"
    using walk_all_ok [OF walk, of "set_current x b"] b by simp
  fix b8
  assume "walked body (set_current x b) b8"
  then obtain z where w: "follows body {x} b b8" "b_current_block b8 = Some z" "open_block body b8 z"
    "between (E b8) x z (insert x (new_nodes b b8))"
    by (auto elim!: walkedE)
  obtain b9 m where b9: "(let (m, b) = new_block G b8 in and_then (link_to G y m b) (\<lambda>b.
      and_then (link_to G z m b) (\<lambda>b. Inr (set_current m b)))) = Inr (set_current m b9)"
    "follows body {} b8 b9" "new_nodes b8 b9 = {m}" "open_block body b9 m"
    "\<exists>k. (y, k, m) \<in> E b9" "\<exists>k. (z, k, m) \<in> E b9"
    by (rule try_end_ok [OF followsD(1) [OF w(1)] source_ext [OF b(3) followsD(2) [OF w(1)]]
          open_block_source [OF w(3)]])
  have f: "follows body {x} b b9"
    using follows_trans [OF w(1) b9(2)] by simp
  have new: "new_nodes b b9 = insert m (new_nodes b b8)"
    using new_nodes_follows [OF w(1) b9(2)] b9(3) by simp
  obtain k where k: "(z, k, m) \<in> E b9"
    using b9(6) by blast
  have "between (E b9) x z (insert x (new_nodes b b8))"
    using w(4) followsD(4) [OF b9(2)] by (rule between_mono) simp
  from between_trans [OF this between_edge [OF k]]
  have "between (E b9) x m (insert x (new_nodes b b9))"
    by (rule between_mono) (auto simp: new)
  then have "follows body {x} b (set_current m b9) \<and> (\<exists>m'. b_current_block (set_current m b9) = Some m' \<and>
      m' \<in> new_nodes b (set_current m b9) \<and> open_block body (set_current m b9) m' \<and>
      (\<exists>k. (y, k, m') \<in> E (set_current m b9)) \<and>
      between (E (set_current m b9)) x m' (insert x (new_nodes b (set_current m b9))))"
    using f new b9(4,5) by simp
  then show "returns False (let except_exit = b_current_block b8; (m, b) = new_block G b8
     in and_then (link_to G y m b) (\<lambda>b.
        and_then (case except_exit of None \<Rightarrow> Inr b | Some exit \<Rightarrow> link_to G exit m b) (\<lambda>b.
        Inr (set_current m b)))) (\<lambda>b'. follows body {x} b b' \<and> (\<exists>m. b_current_block b' = Some m \<and>
     m \<in> new_nodes b b' \<and> open_block body b' m \<and> (\<exists>k. (y, k, m) \<in> E b') \<and>
     between (E b') x m (insert x (new_nodes b b'))))"
    using b9(1) by (simp add: w(2) Let_def)
qed

lemma walk_try_ok:
  assumes walk: "walks body walk (set (concat (child_lists (S_Try stmts handler))))"
    and b: "wfb body b" and c: "b_current_block b = Some c" and "open_block body b c"
  shows "returns False (walk_try_statement_hir G walk stmt stmts handler b) (walked body b)"
proof -
  have walks: "walks body walk (set stmts)" "walks body walk (set handler)"
    using walk by (auto simp: walks_def child_lists_def)
  obtain t b0 b1 i b2 b3 x b4 b5 where s: "add_node_of G TryVertex stmt b = (t, b0)"
    "Cfg_Builder.add_edge G c t Unconditional b0 = Inr b1"
    "new_block G b1 = (i, b2)" "Cfg_Builder.add_edge G t i Unconditional b2 = Inr b3"
    "new_block G b3 = (x, b4)" "Cfg_Builder.add_edge G t x Exception b4 = Inr b5"
    "follows body {} b b5" "new_nodes b b5 = {t, i, x}" "b_current_block b0 = b_current_block b"
    "\<exists>k. (c, k, t) \<in> E b5" "(t, Unconditional, i) \<in> E b5" "(t, Exception, x) \<in> E b5"
    "open_block body b5 i" "open_block body b5 x" "inner b5 x" "i \<noteq> x"
    by (rule try_start_ok [OF assms(2-4)])
  let ?st = "(b_except_stack b5 @ [x], b_loop_stack b5)"
  let ?rest = "\<lambda>b. let try_exit = b_current_block b; b = b\<lparr>b_except_stack := butlast (b_except_stack b)\<rparr>
    in and_then (walk_all walk handler (set_current x b)) (\<lambda>b.
       let except_exit = b_current_block b; (m, b) = new_block G b
       in and_then (case try_exit of None \<Rightarrow> Inr b | Some exit \<Rightarrow> link_to G exit m b) (\<lambda>b.
          and_then (case except_exit of None \<Rightarrow> Inr b | Some exit \<Rightarrow> link_to G exit m b) (\<lambda>b.
          Inr (set_current m b))))"
  have st: "stack_targets ?st \<subseteq> stack_targets (stacks b5) \<union> Collect (inner b5)"
    "stack_targets (stacks b5) \<subseteq> stack_targets ?st"
    using s(15) by (auto simp: stack_targets_def stacks_def)
  have "returns False (and_then (walk_all walk stmts (set_current i (restack ?st b5))) ?rest) (walked body b)"
  proof (rule returns_bind [OF nested_ok [OF walks(1) followsD(1) [OF s(7)] s(13) st]], elim conjE exE)
    fix b6 :: "'g cfg_builder" and y :: node
    let ?b7 = "restack (stacks b5) b6"
    assume b6: "stacks b6 = ?st" and f: "follows body {i} b5 ?b7" and y: "b_current_block b6 = Some y"
      "open_block body b6 y" and bt: "between (E b6) i y (insert i (new_nodes b5 b6))"
    have pop: "b6\<lparr>b_except_stack := butlast (b_except_stack b6)\<rparr> = ?b7"
      using b6 by (simp add: restack_def stacks_def)
    have x: "open_block body ?b7 x" and src: "source ?b7 y"
      using open_block_ext [OF s(14) followsD(2) [OF f]] s(16) open_block_source [of body ?b7 y] y(2) by auto
    note handler = walk_handler_ok [OF walks(2) followsD(1) [OF f] x src]
    have "walked body b b9" if f79: "follows body {x} ?b7 b9" and m: "b_current_block b9 = Some m"
      "m \<in> new_nodes ?b7 b9" "open_block body b9 m" "(y, k, m) \<in> E b9"
      "between (E b9) x m (insert x (new_nodes ?b7 b9))" for b9 m k
    proof (rule walkedI [OF _ c m(1,3)])
      have f59: "follows body {i, x} b5 b9"
        using f f79 by (rule follows_trans) auto
      have "i \<in> new_nodes b b5" "x \<in> new_nodes b b5"
        using s(8) by auto
      then show "follows body {c} b b9"
        by (intro follows_trans [OF s(7) f59]) (auto simp: new_nodes_def)
      have new: "new_nodes b b9 = {t, i, x} \<union> new_nodes b5 b6 \<union> new_nodes ?b7 b9"
        using new_nodes_follows [OF s(7) f59] new_nodes_follows [OF f f79] s(8) by auto
      show "m = c \<or> m \<in> new_nodes b b9"
        using m(2) new by simp
      have E: "E b5 \<subseteq> E b9" "E b6 \<subseteq> E b9"
        using followsD(4) [OF f59] followsD(4) [OF f79] by auto
      have "between (E b9) i y (insert i (new_nodes b5 b6))"
        using bt E(2) by (rule between_mono) simp
      from try_between [OF _ _ _ this m(5) m(4)] s(10-12) E(1)
      have "between (E b9) c m ({c, t, m} \<union> insert i (new_nodes b5 b6) \<union> insert x (new_nodes ?b7 b9))"
        by blast
      then show "between (E b9) c m (insert c (new_nodes b b9))"
        by (rule between_mono) (auto simp: new)
    qed
    then show "returns False (?rest b6) (walked body b)"
      using returns_mono [OF handler] by (simp add: y(1) pop Let_def) blast
  qed
  then show ?thesis
    by (simp add: walk_try_statement_hir_def s(1-6,9) with_current_def c restack_except Let_def)
qed

subsection \<open>All statements\<close>

lemma walk_stmt_ok:
  assumes walk: "walks body walk (set (concat (child_lists (body_stmt_arena body ! i))))"
    and i: "i < length (body_stmt_arena body)"
    and b: "wfb body b" "b_current_block b = Some c" "open_block body b c"
  shows "returns False (walk_stmt G body walk i b) (walked body b)"
proof -
  let ?s = "body_stmt_arena body ! i"
  have plain: "walked body b (add_to_current_block_hir G i b)" if "\<not> is_terminator ?s"
    using add_to_current_walked [OF b i that] .
  note jumps = walk_return_ok [OF b i] walk_raise_ok [OF b i] loop_jump_ok [OF b i] walk_goto_ok [OF b i]
    walk_label_ok [OF b i]
  have body_of: "walks body walk (set l)" if "set l \<subseteq> set (concat (child_lists ?s))" for l
    using walk that by (auto simp: walks_def)
  show ?thesis
  proof (cases ?s)
    case (S_Expr e)
    then show ?thesis
      using plain walked_refl [OF b] by (simp add: walk_stmt_def stmt_at_ok i is_terminator_def)
  next
    case (S_If x)
    then show ?thesis
      using walk_if_ok [OF _ b] walk by (simp add: walk_stmt_def stmt_at_ok i)
  next
    case (S_PreprocIf x)
    then show ?thesis
      using walk_preproc_if_ok [OF _ b] walk by (simp add: walk_stmt_def stmt_at_ok i)
  next
    case (S_Try x y)
    then show ?thesis
      using walk_try_ok [OF _ b] walk by (simp add: walk_stmt_def stmt_at_ok i)
  next
    case (S_While x l)
    then show ?thesis
      using walk_loop_ok [OF body_of b] by (simp add: walk_stmt_def stmt_at_ok i child_lists_def)
  next
    case (S_For v x y l)
    then show ?thesis
      using walk_loop_ok [OF body_of b] by (simp add: walk_stmt_def stmt_at_ok i child_lists_def)
  next
    case (S_ForEach v x l)
    then show ?thesis
      using walk_loop_ok [OF body_of b] by (simp add: walk_stmt_def stmt_at_ok i child_lists_def)
  qed (use plain jumps in \<open>simp_all add: walk_stmt_def stmt_at_ok i is_terminator_def
      walk_break_statement_hir_def walk_continue_statement_hir_def\<close>)
qed

lemma walk_statement_ok:
  assumes "body_ok body"
  shows "walks body (walk_statement_hir G body n) {i. i < n \<and> i < length (body_stmt_arena body)}"
proof (induction n)
  case 0
  then show ?case
    by (simp add: walks_def)
next
  case (Suc n)
  have "returns False (walk_statement_hir G body (Suc n) i b) (walked body b)"
    if i: "i < Suc n" "i < length (body_stmt_arena body)"
      and b: "wfb body b" "b_current_block b = Some c" "open_block body b c" for i b c
  proof -
    have "set (concat (child_lists (body_stmt_arena body ! i))) \<subseteq> {j. j < n \<and> j < length (body_stmt_arena body)}"
      using assms i unfolding body_ok_def by fastforce
    then have "walks body (walk_statement_hir G body n) (set (concat (child_lists (body_stmt_arena body ! i))))"
      using Suc by (auto simp: walks_def)
    then show ?thesis
      using walk_stmt_ok [OF _ i(2) b] by simp
  qed
  then show ?case
    by (auto simp: walks_def)
qed

subsection \<open>The whole graph\<close>

lemma initial_view:
  obtains s b where "new_block G (builder_new G) = (s, b)"
    and "wfb body (set_current s (b\<lparr>b_cfg := set_start s (b_cfg b)\<rparr>))"
    and "open_block body (set_current s (b\<lparr>b_cfg := set_start s (b_cfg b)\<rparr>)) s"
    and "W (set_current s (b\<lparr>b_cfg := set_start s (b_cfg b)\<rparr>)) = [ExitVertex, BasicBlock []]"
    and "s = 1" and "cfg_exit (b_cfg b) = 0"
proof -
  obtain x g where add: "dg_add_node G (dg_empty G) ExitVertex = (x, g)"
    by fastforce
  note g = add_node [OF add]
  obtain s b where nb: "new_block G (builder_new G) = (s, b)"
    by fastforce
  have start: "W (builder_new G) = [ExitVertex]" "E (builder_new G) = {}" "cfg_exit (b_cfg (builder_new G)) = 0"
    using g empty by (simp_all add: builder_new_def cfg_new_def add W_def E_def)
  note view = new_block_view [OF nb]
  have tabs: "b_except_stack b = []" "b_loop_stack b = []" "b_label_table b = Map.empty"
    "b_pending_gotos b = []" "cfg_exit (b_cfg b) = 0"
    using same_tablesD [OF view(4)] start(3) by (simp_all add: builder_new_def)
  let ?b = "b\<lparr>b_cfg := set_start s (b_cfg b)\<rparr>"
  have W: "W ?b = [ExitVertex, BasicBlock []]" and E: "E ?b = {}" and s: "s = 1"
    using view(1-3) start by (simp_all add: W_def E_def set_start_def)
  have "wfb body ?b" "open_block body ?b s"
    unfolding wfb_def open_block_def W E using tabs
    by (simp_all add: s set_start_def jump_targets_def less_Suc_eq)
  then show thesis
    using that [OF nb] W s tabs(5) by simp
qed

lemma ends_with_terminator_open:
  assumes "open_block body b v"
  shows "ends_with_terminator G body b v = Inr False"
proof -
  obtain ss where ss: "v < length (W b)" "W b ! v = BasicBlock ss"
    "ss \<noteq> [] \<Longrightarrow> last ss < length (body_stmt_arena body) \<and> \<not> is_terminator (body_stmt_arena body ! last ss)"
    using assms by (auto simp: open_block_def)
  then show ?thesis
    by (auto simp: ends_with_terminator_def vertex_def node_weight W_def [symmetric] last_opt_def stmt_at_ok)
qed

lemma build_graph_ok:
  assumes ok: "body_ok body" and top: "set stmts \<subseteq> {i. i < length (body_stmt_arena body)}"
  shows "returns False (build_graph_from_hir G stmts body)
    (\<lambda>c. cfg_shape (length (nodes (cfg_graph c))) (set_mset (edges (cfg_graph c))) c \<and>
      cfg_contents body (nodes (cfg_graph c)))"
proof -
  obtain s b0 b1 where init: "new_block G (builder_new G) = (s, b0)"
    "b1 = set_current s (b0\<lparr>b_cfg := set_start s (b_cfg b0)\<rparr>)"
    "wfb body b1" "open_block body b1 s" "W b1 = [ExitVertex, BasicBlock []]" "s = 1" "cfg_exit (b_cfg b0) = 0"
    using initial_view by metis
  have cur: "b_current_block b1 = Some 1" and ends: "cfg_start (b_cfg b1) = Some 1" "cfg_exit (b_cfg b1) = 0"
    using init(2,6,7) by (simp_all add: set_current_def set_start_def)
  have walk: "walks body (walk_statement_hir G body (length (body_stmt_arena body))) (set stmts)"
    using walk_statement_ok [OF ok, of "length (body_stmt_arena body)"] top by (auto simp: walks_def)
  have "returns False (and_then (walk_all (walk_statement_hir G body (length (body_stmt_arena body))) stmts b1) (\<lambda>b.
        and_then (with_current (\<lambda>block b.
          and_then (ends_with_terminator G body b block) (\<lambda>t.
          if t then Inr b else link_to G block (cfg_exit (b_cfg b)) b)) b) (\<lambda>b.
        Inr (b_cfg b))))
    (\<lambda>c. cfg_shape (length (nodes (cfg_graph c))) (set_mset (edges (cfg_graph c))) c \<and>
      cfg_contents body (nodes (cfg_graph c)))"
  proof (rule returns_bind [OF walk_all_ok [OF walk init(3)]])
    show "b_current_block b1 = Some s" "open_block body b1 s"
      using cur init(4,6) by simp_all
    fix b2
    assume "walked body b1 b2"
    then obtain c where w: "follows body {1} b1 b2" "b_current_block b2 = Some c" "open_block body b2 c"
      "between (E b2) 1 c (insert 1 (new_nodes b1 b2))"
      using cur by (auto elim!: walkedE)
    have ends2: "cfg_start (b_cfg b2) = Some 1" "cfg_exit (b_cfg b2) = 0"
      using followsD(2) [OF w(1)] ends by (simp_all add: ext_def)
    obtain b3 k where l: "link_to G c 0 b2 = Inr b3" "follows body {} b2 b3" "(c, k, 0) \<in> E b3" "W b3 = W b2"
      using link_to_ok [OF followsD(1) [OF w(1)] open_block_source [OF w(3)], of 0] ends2(2) by metis
    have ends3: "cfg_start (b_cfg b3) = Some 1" "cfg_exit (b_cfg b3) = 0"
      using followsD(2) [OF l(2)] ends2 by (simp_all add: ext_def)
    have N: "1 < length (W b3)"
      using followsD(2) [OF w(1)] init(5) l(4) by (simp add: ext_def)
    have "between (E b3) 1 c (insert 1 (new_nodes b1 b2))"
      using w(4) followsD(4) [OF l(2)] by (rule between_mono) simp
    from between_trans [OF this between_edge [OF l(3)]]
    have "path (E b3) 1 v \<and> path (E b3) v 0" if "v < length (W b3)" for v
      using that l(4) init(5) by (cases "v = 0"; cases "v = 1") (auto simp: between_def new_nodes_def)
    moreover have "a < length (W b3) \<and> t < length (W b3) \<and> t \<noteq> 1 \<and> a \<noteq> 0" if "(a, k, t) \<in> E b3" for a k t
      using followsD(1) [OF l(2)] ends3 that unfolding wfb_def by metis
    ultimately have "cfg_shape (length (W b3)) (E b3) (b_cfg b3)"
      using ends3 N unfolding cfg_shape_def by blast
    moreover have "cfg_contents body (W b3)"
    proof -
      have "W b2 ! 0 = ExitVertex"
        using followsD(2) [OF w(1)] init(5) by (auto simp: ext_def)
      then show ?thesis
        using followsD(1) [OF l(2)] N l(4) unfolding cfg_contents_def wfb_def by auto
    qed
    ultimately have "cfg_shape (length (nodes (cfg_graph (b_cfg b3)))) (set_mset (edges (cfg_graph (b_cfg b3)))) (b_cfg b3) \<and>
        cfg_contents body (nodes (cfg_graph (b_cfg b3)))"
      by (simp only: W_def E_def simp_thms)
    then show "returns False (and_then (with_current (\<lambda>block b.
          and_then (ends_with_terminator G body b block) (\<lambda>t.
          if t then Inr b else link_to G block (cfg_exit (b_cfg b)) b)) b2) (\<lambda>b.
        Inr (b_cfg b)))
        (\<lambda>c. cfg_shape (length (nodes (cfg_graph c))) (set_mset (edges (cfg_graph c))) c \<and>
      cfg_contents body (nodes (cfg_graph c)))"
      by (simp add: with_current_def w(2) ends_with_terminator_open [OF w(3)] ends2(2) l(1))
  qed
  then show ?thesis
    by (simp add: build_graph_from_hir_def init(1) Let_def flip: init(2))
qed

end

end
