(* ===== verification/Cyclomatic.thy ===== *)
theory Cyclomatic
  imports Cfg_Graph
begin

text \<open>
  The cyclomatic complexity of a method (\<open>cfg/src/cyclomatic.rs\<close>): a depth-first search
  over executable edges with an explicit stack, then edges minus vertices plus two on
  what it found. The hash set of reached vertices is a list without duplicates.
\<close>

section \<open>The search\<close>

definition reach_edge ::
  "node \<times> cfg_edge_type \<Rightarrow> node list \<times> node list \<Rightarrow> node list \<times> node list" where
  "reach_edge = (\<lambda>(target, k) (reachable, stack).
    if \<not> is_executable k then (reachable, stack)
    else if target \<in> set reachable then (reachable, stack)
    else (reachable @ [target], stack @ [target]))"

text \<open>One pass of the loop: the last vertex of the stack is taken off and its edges walked.\<close>

definition reach_step :: "(node \<Rightarrow> (node \<times> cfg_edge_type) list) \<Rightarrow>
    node list \<times> node list \<Rightarrow> node list \<times> node list" where
  "reach_step edges = (\<lambda>(reachable, stack).
    fold reach_edge (edges (last stack)) (reachable, butlast stack))"

definition reach_from ::
  "nat \<Rightarrow> (node \<Rightarrow> (node \<times> cfg_edge_type) list) \<Rightarrow> node \<Rightarrow> node list outcome" where
  "reach_from fuel edges start =
    and_then (while_do fuel (\<lambda>(reachable, stack). stack \<noteq> [])
      (\<lambda>s. Inr (reach_step edges s)) ([start], [start])) (\<lambda>(reachable, _). Inr reachable)"

text \<open>The fuel is one more than the number of vertices: each is put on the stack once.\<close>

definition cyclomatic_complexity :: "'g digraph \<Rightarrow> 'g control_flow_graph \<Rightarrow> nat outcome" where
  "cyclomatic_complexity G c =
    (case cfg_start c of
       None \<Rightarrow> Inr 1
     | Some start \<Rightarrow>
         let edges = dg_edges_out G (cfg_graph c) in
         and_then (reach_from (dg_node_count G (cfg_graph c) + 1) edges start) (\<lambda>reachable.
         let node_count = int (length reachable);
             edge_count = int (sum_list (map (\<lambda>node.
               length (filter (\<lambda>(target, k). is_executable k \<and> target \<in> set reachable) (edges node)))
               reachable));
             v = edge_count - node_count + 2
         in Inr (nat (max v 1) mod 2 ^ 32)))"


section \<open>What the search finds\<close>

definition exec_rel :: "(node \<Rightarrow> (node \<times> cfg_edge_type) list) \<Rightarrow> (node \<times> node) set" where
  "exec_rel edges = {(a, b). \<exists>k. (b, k) \<in> set (edges a) \<and> is_executable k}"

lemma fold_reach_edge:
  "\<exists>new. fold reach_edge es (r, st) = (r @ new, st @ new) \<and> distinct new \<and>
     set new = {t. \<exists>k. (t, k) \<in> set es \<and> is_executable k} - set r"
proof (induction es arbitrary: r st)
  case (Cons e es)
  obtain t k where e: "e = (t, k)"
    by (cases e)
  show ?case
  proof (cases "is_executable k \<and> t \<notin> set r")
    case True
    obtain new where "fold reach_edge es (r @ [t], st @ [t]) = ((r @ [t]) @ new, (st @ [t]) @ new)"
      "distinct new" "set new = {t. \<exists>k. (t, k) \<in> set es \<and> is_executable k} - set (r @ [t])"
      using Cons.IH by blast
    then show ?thesis
      using True e by (intro exI [of _ "t # new"]) (auto simp: reach_edge_def)
  next
    case False
    then have "reach_edge e (r, st) = (r, st)"
      by (auto simp: e reach_edge_def)
    then show ?thesis
      using Cons.IH [of r st] False by (auto simp: e)
  qed
qed simp

definition search_inv ::
  "(node \<Rightarrow> (node \<times> cfg_edge_type) list) \<Rightarrow> node \<Rightarrow> node list \<times> node list \<Rightarrow> bool" where
  "search_inv edges start = (\<lambda>(r, st).
     distinct r \<and> start \<in> set r \<and> set st \<subseteq> set r \<and>
     set r \<subseteq> {v. (start, v) \<in> (exec_rel edges)\<^sup>*} \<and>
     (\<forall>a \<in> set r. a \<notin> set st \<longrightarrow> (\<forall>b. (a, b) \<in> exec_rel edges \<longrightarrow> b \<in> set r)))"

lemma search_inv_step:
  assumes inv: "search_inv edges start (r, st)" and "st \<noteq> []"
  obtains new where "reach_step edges (r, st) = (r @ new, butlast st @ new)"
    and "search_inv edges start (r @ new, butlast st @ new)"
proof -
  let ?a = "last st"
  obtain new where new: "fold reach_edge (edges ?a) (r, butlast st) = (r @ new, butlast st @ new)"
    "distinct new" "set new = {t. \<exists>k. (t, k) \<in> set (edges ?a) \<and> is_executable k} - set r"
    using fold_reach_edge by blast
  have targets: "{t. \<exists>k. (t, k) \<in> set (edges ?a) \<and> is_executable k} = {b. (?a, b) \<in> exec_rel edges}"
    by (auto simp: exec_rel_def)
  have a: "?a \<in> set r"
    using inv last_in_set [OF \<open>st \<noteq> []\<close>] by (auto simp: search_inv_def)
  then have "(start, ?a) \<in> (exec_rel edges)\<^sup>*"
    using inv by (auto simp: search_inv_def)
  note a = a this
  have st: "set st = insert ?a (set (butlast st))"
    using \<open>st \<noteq> []\<close> by (metis append_butlast_last_id list.simps(15) rotate1.simps(2) set_rotate1)
  have "search_inv edges start (r @ new, butlast st @ new)"
    using inv new(2,3) a st unfolding targets search_inv_def
    by (auto intro: rtrancl_into_rtrancl)
  then show thesis
    using that new(1) by (simp add: reach_step_def)
qed

lemma search_inv_final:
  assumes "search_inv edges start (r, [])"
  shows "set r = {v. (start, v) \<in> (exec_rel edges)\<^sup>*}"
proof
  show "{v. (start, v) \<in> (exec_rel edges)\<^sup>*} \<subseteq> set r"
  proof
    fix v
    assume "v \<in> {v. (start, v) \<in> (exec_rel edges)\<^sup>*}"
    then have "(start, v) \<in> (exec_rel edges)\<^sup>*"
      by simp
    then show "v \<in> set r"
      by (induction rule: rtrancl_induct) (use assms in \<open>auto simp: search_inv_def\<close>)
  qed
qed (use assms in \<open>auto simp: search_inv_def\<close>)

lemma reach_from_returns:
  assumes closed: "\<And>a b. (a, b) \<in> exec_rel edges \<Longrightarrow> b < n" and start: "start < n"
    and fuel: "n < fuel"
  shows "\<exists>r. reach_from fuel edges start = Inr r \<and> distinct r \<and>
    set r = {v. (start, v) \<in> (exec_rel edges)\<^sup>*}"
proof -
  have bound: "v < n" if "(start, v) \<in> (exec_rel edges)\<^sup>*" for v
    using that start closed by (induction rule: rtrancl_induct) auto
  have card: "length r \<le> n" if "search_inv edges start (r, st)" for r st
  proof -
    have "set r \<subseteq> {..<n}"
      using that bound by (auto simp: search_inv_def)
    then have "card (set r) \<le> n"
      using card_mono [of "{..<n}" "set r"] by simp
    then show ?thesis
      using that by (simp add: search_inv_def distinct_card)
  qed
  have "returns False (while_do fuel (\<lambda>(r, st). st \<noteq> []) (\<lambda>s. Inr (reach_step edges s)) ([start], [start]))
      (\<lambda>(r, st). search_inv edges start (r, []))"
  proof (rule returns_while [where I = "search_inv edges start" and \<mu> = "\<lambda>(r, st). length st + (n - length r)"])
    show "search_inv edges start ([start], [start])"
      by (auto simp: search_inv_def)
    show "(case ([start], [start]) of (r, st) \<Rightarrow> length st + (n - length r)) < fuel"
      using start fuel by simp
    fix s
    assume inv: "search_inv edges start s"
    obtain r st where s: "s = (r, st)"
      by (cases s)
    {
      assume "case s of (r, st) \<Rightarrow> st \<noteq> []"
      then have "st \<noteq> []"
        by (simp add: s)
      moreover from this obtain new where "reach_step edges s = (r @ new, butlast st @ new)"
        "search_inv edges start (r @ new, butlast st @ new)"
        using search_inv_step [of edges start r st] inv unfolding s by blast
      ultimately show "returns False (Inr (reach_step edges s)) (\<lambda>s'. search_inv edges start s' \<and>
          (case s' of (r, st) \<Rightarrow> length st + (n - length r)) <
          (case s of (r, st) \<Rightarrow> length st + (n - length r)))"
        using card [of "r @ new" "butlast st @ new"] by (cases st) (auto simp: s)
    next
      assume "\<not> (case s of (r, st) \<Rightarrow> st \<noteq> [])"
      then show "case s of (r, st) \<Rightarrow> search_inv edges start (r, [])"
        using inv by (auto simp: s)
    }
  qed
  from returns_total [OF this] obtain r st where
    "while_do fuel (\<lambda>(r, st). st \<noteq> []) (\<lambda>s. Inr (reach_step edges s)) ([start], [start]) = Inr (r, st)"
    "search_inv edges start (r, [])"
    by auto
  moreover from this(2) have "distinct r" "set r = {v. (start, v) \<in> (exec_rel edges)\<^sup>*}"
    by (simp add: search_inv_def, rule search_inv_final)
  ultimately show ?thesis
    by (simp add: reach_from_def)
qed


section \<open>The value\<close>

lemma sum_filter_sources:
  assumes "distinct r"
  shows "sum_list (map (\<lambda>a. size (filter_mset (\<lambda>(x, k, b). x = a \<and> P k b) M)) r) =
    size (filter_mset (\<lambda>(x, k, b). x \<in> set r \<and> P k b) M)"
  using assms
proof (induction r)
  case (Cons a r)
  have "filter_mset (\<lambda>(x, k, b). x \<in> set (a # r) \<and> P k b) M =
      filter_mset (\<lambda>(x, k, b). x = a \<and> P k b) M + filter_mset (\<lambda>(x, k, b). x \<in> set r \<and> P k b) M"
    using Cons.prems by (induction M) auto
  then show ?case
    using Cons by simp
qed simp

lemma size_filter_sources:
  "size (filter_mset (\<lambda>(t, k). P t k)
      (image_mset (\<lambda>(x, k, b). (b, k)) (filter_mset (\<lambda>(x, k, b). x = a) M))) =
    size (filter_mset (\<lambda>(x, k, b). x = a \<and> P b k) M)"
  by (induction M) auto

text \<open>
  A set of vertices all reached from one of them has an edge into each of the others.
\<close>

lemma edges_into_reached:
  assumes "finite R" and "\<And>v. v \<in> R \<Longrightarrow> v \<noteq> s \<Longrightarrow> \<exists>a k. (a, k, v) \<in># M"
  shows "card R \<le> size M + 1"
proof -
  have "R - {s} \<subseteq> (\<lambda>(a, k, b). b) ` set_mset M"
    using assms(2) by force
  then have "card (R - {s}) \<le> card ((\<lambda>(a, k, b). b) ` set_mset M)"
    by (intro card_mono) auto
  also have "\<dots> \<le> card (set_mset M)"
    by (intro card_image_le) simp
  also have "\<dots> \<le> size M"
    by (induction M) (auto simp: card_insert_if)
  finally show ?thesis
    using card_Diff_singleton_if [of R s] by (auto split: if_splits)
qed

definition reached_vertices :: "cfg_edge multiset \<Rightarrow> node \<Rightarrow> node set" where
  "reached_vertices M start = {v. (start, v) \<in> (edge_rel {e \<in> set_mset M. is_executable (fst (snd e))})\<^sup>*}"

definition reached_edges :: "cfg_edge multiset \<Rightarrow> node \<Rightarrow> cfg_edge multiset" where
  "reached_edges M start =
    filter_mset (\<lambda>(a, k, b). a \<in> reached_vertices M start \<and> is_executable k) M"

context digraph_laws
begin

lemma exec_rel_edges:
  "exec_rel (dg_edges_out G g) = edge_rel {e \<in> set_mset (edges g). is_executable (fst (snd e))}"
  by (auto simp: exec_rel_def edge_rel_def set_edges_out)

lemma length_filter_out:
  "length (filter (\<lambda>(t, k). P t k) (dg_edges_out G g a)) =
    size (filter_mset (\<lambda>(x, k, b). x = a \<and> P b k) (edges g))"
proof -
  have "length (filter (\<lambda>(t, k). P t k) (dg_edges_out G g a)) =
      size (filter_mset (\<lambda>(t, k). P t k) (mset (dg_edges_out G g a)))"
    by (metis mset_filter size_mset)
  also have "\<dots> = size (filter_mset (\<lambda>(x, k, b). x = a \<and> P b k) (edges g))"
    unfolding edges_out by (rule size_filter_sources)
  finally show ?thesis .
qed

lemma cyclomatic_complexity_value:
  assumes start: "cfg_start c = Some s" "s < length (nodes (cfg_graph c))"
    and ends: "\<And>a k b. (a, k, b) \<in># edges (cfg_graph c) \<Longrightarrow> b < length (nodes (cfg_graph c))"
    and small: "size (edges (cfg_graph c)) + 1 < 2 ^ 32"
  defines "E \<equiv> reached_edges (edges (cfg_graph c)) s" and "V \<equiv> reached_vertices (edges (cfg_graph c)) s"
  shows "cyclomatic_complexity G c = Inr (size E + 2 - card V) \<and> card V \<le> size E + 1"
proof -
  let ?out = "dg_edges_out G (cfg_graph c)"
  obtain r where r: "reach_from (dg_node_count G (cfg_graph c) + 1) ?out s = Inr r" "distinct r"
    "set r = V"
    using reach_from_returns [of ?out "length (nodes (cfg_graph c))" s] start(2) ends
    by (fastforce simp: counts V_def reached_vertices_def exec_rel_edges edge_rel_def)
  have "(a, k, b) \<in># edges (cfg_graph c) \<Longrightarrow> is_executable k \<Longrightarrow> a \<in> V \<Longrightarrow> b \<in> V" for a k b
    unfolding V_def reached_vertices_def mem_Collect_eq
    by (erule rtrancl_into_rtrancl) (auto simp: edge_rel_def)
  then have "filter_mset (\<lambda>(a, k, b). a \<in> set r \<and> is_executable k \<and> b \<in> set r) (edges (cfg_graph c)) = E"
    unfolding E_def reached_edges_def r(3) [symmetric] V_def [symmetric]
    using r(3) by (intro filter_mset_cong) (auto simp: V_def)
  then have edges: "sum_list (map (\<lambda>node. length (filter (\<lambda>(t, k). is_executable k \<and> t \<in> set r) (?out node))) r) =
      size E"
    unfolding length_filter_out
    using sum_filter_sources [OF r(2), of "\<lambda>k b. is_executable k \<and> b \<in> set r"] by simp
  have fin: "finite V"
    using r(3) by (metis List.finite_set)
  have into: "\<exists>a k. (a, k, v) \<in># E" if "v \<in> V" "v \<noteq> s" for v
  proof -
    have "(s, v) \<in> (edge_rel {e \<in> set_mset (edges (cfg_graph c)). is_executable (fst (snd e))})\<^sup>*"
      using that(1) by (simp add: V_def reached_vertices_def)
    then show ?thesis
      using that(2) by (cases rule: rtranclE) (auto simp: E_def reached_edges_def reached_vertices_def edge_rel_def)
  qed
  then have "card V \<le> size E + 1"
    using edges_into_reached [OF fin] by blast
  moreover have "size E + 1 < 2 ^ 32"
    using small size_mset_mono [OF multiset_filter_subset, of _ "edges (cfg_graph c)"]
    unfolding E_def reached_edges_def by (meson add_le_mono1 order_le_less_trans)
  moreover have "s \<in> V"
    by (simp add: V_def reached_vertices_def)
  then have "0 < card V"
    using fin card_gt_0_iff by blast
  moreover have "length r = card V"
    using r(2,3) distinct_card by metis
  ultimately have bounds: "card V \<le> size E + 1" "size E + 1 < 2 ^ 32" "0 < card V" "length r = card V"
    by blast+
  have "cyclomatic_complexity G c = Inr (nat (max (int (size E) - int (card V) + 2) 1) mod 2 ^ 32)"
    by (simp add: cyclomatic_complexity_def start(1) r(1) [simplified] edges bounds(4))
  moreover have "max (int (size E) - int (card V) + 2) 1 = int (size E + 2 - card V)"
    using bounds(1) by auto
  moreover have "(size E + 2 - card V) mod 2 ^ 32 = size E + 2 - card V"
    using bounds(2,3) by simp
  ultimately show ?thesis
    using bounds(1) by (simp only: nat_int)
qed

end

end
