(* ===== verification/List_Graph.thy ===== *)
theory List_Graph
  imports Cyclomatic
begin

text \<open>
  A graph of two lists that satisfies the laws the code relies on: it shows that they
  can hold together and lets the examples of the development be evaluated.
\<close>

record list_graph =
  lg_nodes :: "cfg_vertex list"
  lg_edges :: "cfg_edge list"

text \<open>Vertices reached along a list of edges; the fuel is above every index involved.\<close>

definition closure :: "(node \<times> node) list \<Rightarrow> node \<Rightarrow> node list" where
  "closure es i =
    (case reach_from (i + sum_list (map snd es) + 2)
       (\<lambda>a. map (\<lambda>(_, b). (b, Unconditional)) (filter (\<lambda>(x, _). x = a) es)) i of
       Inr r \<Rightarrow> r | Inl _ \<Rightarrow> [])"

definition list_digraph :: "list_graph digraph" where
  "list_digraph = \<lparr>
    dg_empty = \<lparr>lg_nodes = [], lg_edges = []\<rparr>,
    dg_add_node = (\<lambda>g v. (length (lg_nodes g), g\<lparr>lg_nodes := lg_nodes g @ [v]\<rparr>)),
    dg_add_edge = (\<lambda>g a b k.
      if a < length (lg_nodes g) \<and> b < length (lg_nodes g)
      then Inr (g\<lparr>lg_edges := lg_edges g @ [(a, k, b)]\<rparr>) else Inl Panic),
    dg_node_weight = (\<lambda>g i. get (lg_nodes g) i),
    dg_set_weight = (\<lambda>g i v. g\<lparr>lg_nodes := (lg_nodes g)[i := v]\<rparr>),
    dg_remove_node = (\<lambda>g i.
      let n = length (lg_nodes g) - 1;
          move = (\<lambda>a. if a = n then i else a)
      in if i < length (lg_nodes g)
         then (Some (lg_nodes g ! i),
           \<lparr>lg_nodes = butlast ((lg_nodes g)[i := last (lg_nodes g)]),
            lg_edges = map (\<lambda>(a, k, b). (move a, k, move b))
              (filter (\<lambda>(a, k, b). a \<noteq> i \<and> b \<noteq> i) (lg_edges g))\<rparr>)
         else (None, g)),
    dg_edges_out = (\<lambda>g i. map (\<lambda>(a, k, b). (b, k)) (filter (\<lambda>(a, k, b). a = i) (lg_edges g))),
    dg_edges_in = (\<lambda>g i. map (\<lambda>(a, k, b). (a, k)) (filter (\<lambda>(a, k, b). b = i) (lg_edges g))),
    dg_node_count = (\<lambda>g. length (lg_nodes g)),
    dg_edge_count = (\<lambda>g. length (lg_edges g)),
    dg_postorder = (\<lambda>g. closure (map (\<lambda>(a, k, b). (a, b)) (lg_edges g))),
    dg_postorder_reversed = (\<lambda>g. closure (map (\<lambda>(a, k, b). (b, a)) (lg_edges g)))\<rparr>"

lemma closure_reaches: "distinct (closure es i) \<and> set (closure es i) = {j. (i, j) \<in> (set es)\<^sup>*}"
proof -
  let ?out = "\<lambda>a. map (\<lambda>(_, b). (b, Unconditional)) (filter (\<lambda>(x, _). x = a) es)"
  have rel: "exec_rel ?out = set es"
    by (force simp: exec_rel_def is_executable_def)
  have "b < i + sum_list (map snd es) + 1" if "(a, b) \<in> set es" for a b
    using member_le_sum_list [of b "map snd es"] that by force
  then show ?thesis
    using reach_from_returns [of ?out "i + sum_list (map snd es) + 1" i "i + sum_list (map snd es) + 2"]
    unfolding rel closure_def by auto
qed

lemma edge_rel_list:
  "edge_rel (set es) = set (map (\<lambda>(a, k, b). (a, b)) es)"
  "(edge_rel (set es))\<inverse> = set (map (\<lambda>(a, k, b). (b, a)) es)"
  by (force simp: edge_rel_def)+

interpretation lists: digraph_laws list_digraph lg_nodes "\<lambda>g. mset (lg_edges g)"
proof
  fix g :: list_graph and i :: node
  show "distinct (dg_postorder list_digraph g i) \<and>
      set (dg_postorder list_digraph g i) = {j. (i, j) \<in> (edge_rel (set_mset (mset (lg_edges g))))\<^sup>*}"
    using closure_reaches [of "map (\<lambda>(a, k, b). (a, b)) (lg_edges g)" i]
    by (simp add: list_digraph_def edge_rel_list)
  show "distinct (dg_postorder_reversed list_digraph g i) \<and>
      set (dg_postorder_reversed list_digraph g i) =
      {j. (j, i) \<in> (edge_rel (set_mset (mset (lg_edges g))))\<^sup>*}"
  proof -
    have "(i, j) \<in> ((edge_rel (set (lg_edges g)))\<inverse>)\<^sup>* \<longleftrightarrow> (j, i) \<in> (edge_rel (set (lg_edges g)))\<^sup>*" for j
      by (simp add: rtrancl_converse)
    then show ?thesis
      using closure_reaches [of "map (\<lambda>(a, k, b). (b, a)) (lg_edges g)" i]
      unfolding edge_rel_list(2) by (simp add: list_digraph_def)
  qed
qed (auto simp: list_digraph_def)

end
