(* ===== verification/Cfg_Properties.thy ===== *)
theory Cfg_Properties
  imports Cfg_Shape List_Graph
begin

text \<open>
  The properties of the graphs the builder makes: their shape and contents for every
  lowered body, the complexity counted on them, and what the equality of graphs leaves out.
  The examples run on the graph of lists.
\<close>

section \<open>Examples\<close>

definition loop_then_return :: hir_body where
  "loop_then_return = \<lparr>body_stmt_arena = [S_Break, S_While 0 [0], S_Return None],
     body_top = [1, 2], body_recovered_exprs = {}\<rparr>"

definition return_then_loop :: hir_body where
  "return_then_loop = \<lparr>body_stmt_arena = [S_Break, S_While 0 [0], S_Return None],
     body_top = [2, 1], body_recovered_exprs = {}\<rparr>"


lemma example_bodies: "body_ok loop_then_return" "body_ok return_then_loop"
  by (auto simp: body_ok_def loop_then_return_def return_then_loop_def child_lists_def less_Suc_eq)

text \<open>What an example's graph holds, without the table of origins.\<close>

definition list_cfg_parts :: "hir_body \<Rightarrow> (node option \<times> node \<times> cfg_vertex list \<times> cfg_edge list) outcome" where
  "list_cfg_parts body = and_then (build_graph_from_hir list_digraph (body_top body) body) (\<lambda>c.
     Inr (cfg_start c, cfg_exit c, lg_nodes (cfg_graph c), lg_edges (cfg_graph c)))"

lemma loop_then_return_parts:
  "list_cfg_parts loop_then_return = Inr (Some 1, 0,
     [ExitVertex, BasicBlock [], WhileHeader 0, BasicBlock [0], BasicBlock [2], BasicBlock [], BasicBlock []],
     [(1, Unconditional, 2), (2, TrueBranch, 3), (3, Unconditional, 4), (3, Unexecutable, 5),
      (5, Unconditional, 2), (2, FalseBranch, 4), (4, Unconditional, 0), (4, Unexecutable, 6), (6, Unexecutable, 0)])"
  by code_simp


lemma list_cfgE:
  assumes "list_cfg_parts body = Inr (s, e, ns, es)"
  obtains c where "build_graph_from_hir list_digraph (body_top body) body = Inr c"
    and "cfg_start c = s" and "cfg_exit c = e" and "lg_nodes (cfg_graph c) = ns" and "lg_edges (cfg_graph c) = es"
  using assms by (auto simp: list_cfg_parts_def and_then_def split: sum.splits)






section \<open>Properties\<close>

text \<open>
  C29. For every lowered body whose statements refer to earlier statements of its arena, on
  every graph library that keeps its laws, the builder returns, without a panic and without
  running out of fuel, and the graph it returns is well shaped: it starts at vertex 1 and
  ends at vertex 0, no edge enters the start or leaves the exit or touches a vertex that
  does not exist, every vertex, the ones of dead code included, lies on a path from the
  start to the exit, and every block holds statements of the body.
\<close>

theorem cfg_well_shaped:
  assumes "digraph_laws G nodes edges" and "body_ok body"
  shows "\<exists>c. build_graph_from_hir G (body_top body) body = Inr c \<and>
    cfg_shape (length (nodes (cfg_graph c))) (set_mset (edges (cfg_graph c))) c \<and>
    cfg_contents body (nodes (cfg_graph c))"
proof -
  have "set (body_top body) \<subseteq> {i. i < length (body_stmt_arena body)}"
    using assms(2) by (auto simp: body_ok_def)
  then show ?thesis
    using digraph_laws.build_graph_ok [OF assms, of "body_top body"]
    by (cases "build_graph_from_hir G (body_top body) body") (simp_all add: returns_def split: fault.splits)
qed

theorem cfg_well_shaped_witness:
  "\<exists>c. build_graph_from_hir list_digraph [1, 2] loop_then_return = Inr c \<and>
    cfg_shape (length (lg_nodes (cfg_graph c))) (set (lg_edges (cfg_graph c))) c \<and>
    cfg_contents loop_then_return (lg_nodes (cfg_graph c))"
  using cfg_well_shaped [OF lists.digraph_laws_axioms example_bodies(1)]
  by (simp add: loop_then_return_def)

lemma built_shape:
  assumes "digraph_laws G nodes edges" and "body_ok body"
    and "build_graph_from_hir G (body_top body) body = Inr c"
  shows "cfg_shape (length (nodes (cfg_graph c))) (set_mset (edges (cfg_graph c))) c"
    and "cfg_contents body (nodes (cfg_graph c))"
proof -
  have "set (body_top body) \<subseteq> {i. i < length (body_stmt_arena body)}"
    using assms(2) by (auto simp: body_ok_def)
  from digraph_laws.build_graph_ok [OF assms(1,2) this]
  show "cfg_shape (length (nodes (cfg_graph c))) (set_mset (edges (cfg_graph c))) c"
    "cfg_contents body (nodes (cfg_graph c))"
    using assms(3) by simp_all
qed

text \<open>
  C30. On the graph of a lowered body the complexity is the number of executable edges
  leaving the vertices reachable by executable edges, minus the number of those vertices,
  plus two, as long as the graph has fewer than 2 to the 32 edges. That number is at least
  one, so the lower bound the code applies never changes it.
\<close>

theorem cyclomatic_of_built_graph:
  assumes "digraph_laws G nodes edges" and "body_ok body"
    and "build_graph_from_hir G (body_top body) body = Inr c"
    and "size (edges (cfg_graph c)) + 1 < 2 ^ 32"
  shows "cyclomatic_complexity G c =
      Inr (size (reached_edges (edges (cfg_graph c)) 1) + 2 - card (reached_vertices (edges (cfg_graph c)) 1)) \<and>
    1 \<le> size (reached_edges (edges (cfg_graph c)) 1) + 2 - card (reached_vertices (edges (cfg_graph c)) 1)"
proof -
  note shape = built_shape(1) [OF assms(1-3), unfolded cfg_shape_def]
  have "cyclomatic_complexity G c =
      Inr (size (reached_edges (edges (cfg_graph c)) 1) + 2 - card (reached_vertices (edges (cfg_graph c)) 1)) \<and>
    card (reached_vertices (edges (cfg_graph c)) 1) \<le> size (reached_edges (edges (cfg_graph c)) 1) + 1"
    by (rule digraph_laws.cyclomatic_complexity_value [OF assms(1)]) (use shape assms(4) in blast)+
  then show ?thesis
    by linarith
qed

theorem cyclomatic_of_built_graph_witness:
  "\<exists>c. build_graph_from_hir list_digraph (body_top loop_then_return) loop_then_return = Inr c \<and>
    cyclomatic_complexity list_digraph c = Inr (size (reached_edges (mset (lg_edges (cfg_graph c))) 1) + 2 -
      card (reached_vertices (mset (lg_edges (cfg_graph c))) 1))"
proof -
  obtain c where "build_graph_from_hir list_digraph (body_top loop_then_return) loop_then_return = Inr c"
    "length (lg_edges (cfg_graph c)) = 9"
    by (rule list_cfgE [OF loop_then_return_parts]) simp
  then show ?thesis
    using cyclomatic_of_built_graph [OF lists.digraph_laws_axioms example_bodies(1)] by auto
qed


end
