(* ===== verification/Dataflow_Built.thy ===== *)
theory Dataflow_Built
  imports Dataflow_Fixpoint Cfg_Properties
begin

text \<open>
  The solver on the graph of a lowered body. On such a graph both depth-first orders list
  every vertex, so both directions of the solver are instances of the loop of
  \<open>Dataflow_Fixpoint\<close> over all vertices.
\<close>

section \<open>Degrees\<close>

lemma sum_size_filter:
  fixes n :: nat
  assumes "\<And>e. e \<in># M \<Longrightarrow> f e < n"
  shows "(\<Sum>i < n. size (filter_mset (\<lambda>e. f e = i) M)) = size M"
  using assms
proof (induction M)
  case (add x M)
  have "(\<Sum>i < n. size (filter_mset (\<lambda>e. f e = i) (add_mset x M))) =
      (\<Sum>i < n. size (filter_mset (\<lambda>e. f e = i) M) + (if i = f x then 1 else 0))"
    by (rule sum.cong) auto
  also have "\<dots> = size M + (\<Sum>i < n. if i = f x then 1 else 0)"
    using add by (simp add: sum.distrib)
  also have "(\<Sum>i < n. if i = f x then 1 else 0 :: nat) = 1"
    using add.prems [of x] by simp
  finally show ?case
    by simp
qed simp

context digraph_laws
begin

lemma length_edges_out: "length (dg_edges_out G g i) = size (filter_mset (\<lambda>e. fst e = i) (edges g))"
proof -
  have "length (dg_edges_out G g i) = size (mset (dg_edges_out G g i))"
    by simp
  then show ?thesis
    unfolding edges_out by (simp add: case_prod_unfold)
qed

lemma length_edges_in: "length (dg_edges_in G g i) = size (filter_mset (\<lambda>e. snd (snd e) = i) (edges g))"
proof -
  have "length (dg_edges_in G g i) = size (mset (dg_edges_in G g i))"
    by simp
  then show ?thesis
    unfolding edges_in by (simp add: case_prod_unfold)
qed

end


section \<open>Both directions\<close>

text \<open>A graph of the shape and contents the builder gives.\<close>

locale built_graph = digraph_laws G nodes edges
  for G :: "'g digraph" and nodes edges +
  fixes c :: "'g control_flow_graph" and body :: hir_body
  assumes shape: "cfg_shape (length (nodes (cfg_graph c))) (set_mset (edges (cfg_graph c))) c"
    and contents: "cfg_contents body (nodes (cfg_graph c))"
begin

abbreviation N :: nat where
  "N \<equiv> length (nodes (cfg_graph c))"

lemma ends: "(a, k, b) \<in># edges (cfg_graph c) \<Longrightarrow> a < N \<and> b < N"
  using shape by (simp add: cfg_shape_def)

lemma orders:
  "distinct (reverse_postorder G c)" "set (reverse_postorder G c) = {..<N}"
  "distinct (postorder_from_exit G c)" "set (postorder_from_exit G c) = {..<N}"
proof -
  have s: "cfg_start c = Some 1" "cfg_exit c = 0" "1 < N" "0 < N"
    using shape by (auto simp: cfg_shape_def)
  have to: "(1, v) \<in> (edge_rel (set_mset (edges (cfg_graph c))))\<^sup>*"
    "(v, 0) \<in> (edge_rel (set_mset (edges (cfg_graph c))))\<^sup>*" if "v < N" for v
    using shape that by (simp_all add: cfg_shape_def path_def)
  have within: "(a, b) \<in> (edge_rel (set_mset (edges (cfg_graph c))))\<^sup>* \<Longrightarrow> a < N \<longleftrightarrow> b < N" for a b
    by (induction rule: rtrancl_induct) (auto simp: edge_rel_def dest: ends)
  show "distinct (reverse_postorder G c)" "set (reverse_postorder G c) = {..<N}"
    using postorder [OF s(3)] to(1) within s by (auto simp: reverse_postorder_def)
  show "distinct (postorder_from_exit G c)" "set (postorder_from_exit G c) = {..<N}"
    using postorder_reversed [OF s(4)] to(2) within s by (auto simp: postorder_from_exit_def)
qed

lemma degrees:
  "(\<Sum>v < N. length (outgoing_edges G c v)) = size (edges (cfg_graph c))"
  "(\<Sum>v < N. length (incoming_edges G c v)) = size (edges (cfg_graph c))"
  unfolding outgoing_edges_def incoming_edges_def length_edges_out length_edges_in
  using ends by (auto intro!: sum_size_filter)

lemma leaves: "v < N \<Longrightarrow> v \<noteq> cfg_exit c \<Longrightarrow> outgoing_edges G c v \<noteq> []"
proof -
  assume v: "v < N" "v \<noteq> cfg_exit c"
  then have "(v, cfg_exit c) \<in> (edge_rel (set_mset (edges (cfg_graph c))))\<^sup>*"
    using shape by (simp add: cfg_shape_def path_def)
  then obtain k w where "(v, k, w) \<in># edges (cfg_graph c)"
    using v(2) by (cases rule: converse_rtranclE) (auto simp: edge_rel_def)
  then have "(w, k) \<in> set (outgoing_edges G c v)"
    by (simp add: outgoing_edges_def set_edges_out)
  then show ?thesis
    by auto
qed

lemma exit_leaves_not: "outgoing_edges G c (cfg_exit c) = []"
proof -
  have "(w, k) \<notin> set (outgoing_edges G c (cfg_exit c))" for w k
    using shape by (auto simp: cfg_shape_def outgoing_edges_def set_edges_out)
  then show ?thesis
    by (metis list.set_intros(1) neq_Nil_conv surj_pair)
qed

end

text \<open>An analysis whose transfer functions do not panic on the statements of the body.\<close>

locale built_flow = built_graph +
  fixes T :: "'l transfer"
  assumes statements: "s < length (body_stmt_arena body) \<Longrightarrow> \<exists>l'. transfer_stmt T s l = Inr l'"
begin

lemma transfer_stmts_total:
  "\<forall>s \<in> set ss. s < length (body_stmt_arena body) \<Longrightarrow> \<exists>l'. transfer_stmts T ss l = Inr l'"
proof (induction ss arbitrary: l)
  case (Cons s ss)
  then obtain l1 where "transfer_stmt T s l = Inr l1"
    using statements by fastforce
  then show ?case
    using Cons by simp
qed simp

lemma block_total: "\<exists>l'. transfer_block G c T v l = Inr l'"
proof (cases "get (nodes (cfg_graph c)) v")
  case (Some w)
  then show ?thesis
    using contents transfer_stmts_total
    by (cases w) (auto simp: transfer_block_def vertex_def node_weight cfg_contents_def get_def
        split: option.splits if_splits)
qed (simp add: transfer_block_def vertex_def node_weight)

end

sublocale built_flow \<subseteq> forward: flow_system T "transfer_block G c T" "incoming_edges G c"
  "outgoing_edges G c" "\<lambda>i. cfg_start c = Some i" "{..<N}"
proof
  fix p k v
  assume "(p, k) \<in> set (incoming_edges G c v)"
  then show "\<exists>k'. (v, k') \<in> set (outgoing_edges G c p)"
    by (auto simp: incoming_edges_def outgoing_edges_def edges_agree)
next
  fix v w k
  assume "(w, k) \<in> set (outgoing_edges G c v)"
  then show "w \<in> {..<N}"
    using ends by (auto simp: outgoing_edges_def set_edges_out)
qed (rule block_total)

sublocale built_flow \<subseteq> backward: flow_system T "transfer_block G c T" "outgoing_edges G c"
  "incoming_edges G c" "\<lambda>i. i = cfg_exit c" "{..<N}"
proof
  fix p k v
  assume "(p, k) \<in> set (outgoing_edges G c v)"
  then show "\<exists>k'. (v, k') \<in> set (incoming_edges G c p)"
    by (auto simp: incoming_edges_def outgoing_edges_def edges_agree)
next
  fix v w k
  assume "(w, k) \<in> set (incoming_edges G c v)"
  then show "w \<in> {..<N}"
    using ends by (auto simp: incoming_edges_def set_edges_in)
qed (rule block_total)


text \<open>
  What a solution is: at every vertex the state before it in the direction of the analysis
  is the join over its edges, and the state after it is the transfer of that one.
\<close>

definition block_equation ::
  "'l transfer \<Rightarrow> (node \<Rightarrow> 'l \<Rightarrow> 'l outcome) \<Rightarrow> (node \<Rightarrow> (node \<times> cfg_edge_type) list) \<Rightarrow>
     (node \<Rightarrow> bool) \<Rightarrow> (node \<rightharpoonup> 'l) \<Rightarrow> (node \<rightharpoonup> 'l) \<Rightarrow> node \<Rightarrow> bool" where
  "block_equation T tb edges_in boundary ins outs v \<longleftrightarrow>
     (\<exists>i l. start_state T edges_in boundary ins outs v = Inr i \<and> ins v = Some i \<and>
        tb v i = Inr l \<and> outs v = Some l)"

definition flow_equation ::
  "'g digraph \<Rightarrow> 'g control_flow_graph \<Rightarrow> 'l transfer \<Rightarrow> direction \<Rightarrow> ('g, 'l) dataflow_result \<Rightarrow> node \<Rightarrow> bool" where
  "flow_equation G c T d r v \<longleftrightarrow>
     (case d of
        Forward \<Rightarrow> block_equation T (transfer_block G c T) (incoming_edges G c)
          (\<lambda>i. cfg_start c = Some i) (dr_block_in r) (dr_block_out r) v
      | Backward \<Rightarrow> block_equation T (transfer_block G c T) (outgoing_edges G c)
          (\<lambda>i. i = cfg_exit c) (dr_block_out r) (dr_block_in r) v)"

context built_flow
begin

lemma initialized:
  assumes "all_initialized G s" and "sv_cfg s = c"
  shows "v \<in> {..<N} \<Longrightarrow> sv_block_in s v \<noteq> None \<and> sv_block_out s v \<noteq> None"
  using assms by (simp add: all_initialized_def vertices_def counts list_all_iff)

lemma solve_fixpoint:
  assumes s: "sv_cfg s = c" "sv_transfer s = T" "all_initialized G s"
  shows "returns False (solve G s) (\<lambda>r. dr_cfg r = c \<and>
    (\<forall>v < N. dr_block_in r v \<noteq> None \<and> dr_block_out r v \<noteq> None) \<and>
    (dr_converged r \<longrightarrow> (\<forall>v < N. flow_equation G c T (sv_direction s) r v)))"
proof (cases "sv_direction s")
  case Forward
  then show ?thesis
    using forward.run_flow_fixpoint [OF orders(1,2), of "sv_block_in s" "sv_block_out s" "sv_max_iterations s"]
      initialized [OF s(3,1)] s
    by (auto simp: solve_def solve_forward_def Let_def returns_and_then flow_equation_def
        block_equation_def forward.stable_def elim!: returns_mono)
next
  case Backward
  then show ?thesis
    using backward.run_flow_fixpoint [OF orders(3,4), of "sv_block_out s" "sv_block_in s" "sv_max_iterations s"]
      initialized [OF s(3,1)] s
    by (auto simp: solve_def solve_backward_def Let_def returns_and_then flow_equation_def
        block_equation_def backward.stable_def elim!: returns_mono)
qed

end


section \<open>Starting states\<close>

lemma set_bottom_factory_tables:
  "sv_block_in (set_bottom_factory G l s) =
    (\<lambda>i. if i \<in> set (vertices G (sv_cfg s)) then Some l else sv_block_in s i)"
  "sv_block_out (set_bottom_factory G l s) =
    (\<lambda>i. if i \<in> set (vertices G (sv_cfg s)) then Some l else sv_block_out s i)"
  "sv_cfg (set_bottom_factory G l s) = sv_cfg s" "sv_transfer (set_bottom_factory G l s) = sv_transfer s"
  "sv_direction (set_bottom_factory G l s) = sv_direction s"
  "sv_max_iterations (set_bottom_factory G l s) = sv_max_iterations s"
proof -
  let ?f = "\<lambda>i s. s\<lparr>sv_block_in := (sv_block_in s)(i \<mapsto> l), sv_block_out := (sv_block_out s)(i \<mapsto> l)\<rparr>"
  have "sv_block_in (fold ?f is s) = (\<lambda>i. if i \<in> set is then Some l else sv_block_in s i) \<and>
      sv_block_out (fold ?f is s) = (\<lambda>i. if i \<in> set is then Some l else sv_block_out s i) \<and>
      sv_cfg (fold ?f is s) = sv_cfg s \<and> sv_transfer (fold ?f is s) = sv_transfer s \<and>
      sv_direction (fold ?f is s) = sv_direction s \<and>
      sv_max_iterations (fold ?f is s) = sv_max_iterations s" for "is"
    by (induction "is" arbitrary: s) auto
  then show "sv_block_in (set_bottom_factory G l s) =
      (\<lambda>i. if i \<in> set (vertices G (sv_cfg s)) then Some l else sv_block_in s i)"
    "sv_block_out (set_bottom_factory G l s) =
      (\<lambda>i. if i \<in> set (vertices G (sv_cfg s)) then Some l else sv_block_out s i)"
    "sv_cfg (set_bottom_factory G l s) = sv_cfg s" "sv_transfer (set_bottom_factory G l s) = sv_transfer s"
    "sv_direction (set_bottom_factory G l s) = sv_direction s"
    "sv_max_iterations (set_bottom_factory G l s) = sv_max_iterations s"
    unfolding set_bottom_factory_def by blast+
qed

lemma returns_conj: "returns False m P \<Longrightarrow> returns False m Q \<Longrightarrow> returns False m (\<lambda>x. P x \<and> Q x)"
  by (auto simp: returns_def split: sum.splits fault.splits)


section \<open>Monotone analyses\<close>

text \<open>
  An analysis over an order of finite height, with a monotone join and monotone transfer
  functions.
\<close>

locale built_monotone = built_flow +
  fixes le :: "'b \<Rightarrow> 'b \<Rightarrow> bool" and rank :: "'b \<Rightarrow> nat" and height :: nat
  assumes le_trans: "le a b \<Longrightarrow> le b d \<Longrightarrow> le a d"
    and rank_mono: "le a b \<Longrightarrow> a \<noteq> b \<Longrightarrow> rank a < rank b"
    and rank_bound: "rank a \<le> height"
    and join_mono: "le a a' \<Longrightarrow> le b b' \<Longrightarrow> le (lat_join T a b) (lat_join T a' b')"
    and edge_mono: "le a b \<Longrightarrow> le (transfer_edge T k a) (transfer_edge T k b)"
    and stmt_mono: "le a b \<Longrightarrow> transfer_stmt T s a = Inr a' \<Longrightarrow> transfer_stmt T s b = Inr b' \<Longrightarrow> le a' b'"
    and expr_mono: "le a b \<Longrightarrow> le (transfer_expr T e a) (transfer_expr T e b)"
    and bind_mono: "le a b \<Longrightarrow> le (transfer_loop_var_bind T x a) (transfer_loop_var_bind T x b)"
    and try_mono: "le a b \<Longrightarrow> le (transfer_try_entry T t a) (transfer_try_entry T t b)"
begin

lemma stmts_mono:
  "le a b \<Longrightarrow> transfer_stmts T ss a = Inr a' \<Longrightarrow> transfer_stmts T ss b = Inr b' \<Longrightarrow> le a' b'"
proof (induction ss arbitrary: a b)
  case (Cons s ss)
  obtain a1 b1 where "transfer_stmt T s a = Inr a1" "transfer_stmt T s b = Inr b1"
    using Cons.prems(2,3) by (auto simp: and_then_def split: sum.splits)
  then show ?case
    using Cons.IH [of a1 b1] Cons.prems stmt_mono by auto
qed simp

lemma blocks_mono:
  assumes "le a b" and "transfer_block G c T v a = Inr a'" and "transfer_block G c T v b = Inr b'"
  shows "le a' b'"
  using assms stmts_mono
  by (auto simp: transfer_block_def intro: expr_mono bind_mono try_mono
      split: option.splits cfg_vertex.splits)

end

sublocale built_monotone \<subseteq> forward: monotone_flow T "transfer_block G c T" "incoming_edges G c"
  "outgoing_edges G c" "\<lambda>i. cfg_start c = Some i" "{..<N}" le rank height
  by unfold_locales (auto intro: le_trans rank_mono rank_bound join_mono edge_mono blocks_mono)

sublocale built_monotone \<subseteq> backward: monotone_flow T "transfer_block G c T" "outgoing_edges G c"
  "incoming_edges G c" "\<lambda>i. i = cfg_exit c" "{..<N}" le rank height
  by unfold_locales (auto intro: le_trans rank_mono rank_bound join_mono edge_mono blocks_mono)

context built_monotone
begin

lemma budget:
  assumes "N + height * size (edges (cfg_graph c)) \<le> n"
  shows "length (reverse_postorder G c) + height * (\<Sum>v < N. length (outgoing_edges G c v)) \<le> n"
    and "length (postorder_from_exit G c) + height * (\<Sum>v < N. length (incoming_edges G c v)) \<le> n"
  using assms distinct_card [OF orders(1)] distinct_card [OF orders(3)] unfolding orders degrees by simp_all

lemma solve_forward_converges:
  assumes s: "sv_cfg s = c" "sv_transfer s = T" "sv_direction s = Forward" "all_initialized G s"
    and "forward.rising (sv_block_in s) (sv_block_out s)"
    and "N + height * size (edges (cfg_graph c)) \<le> sv_max_iterations s"
  shows "returns False (solve G s) dr_converged"
  using forward.run_flow_converges [OF _ orders(1,2) initialized [OF s(4,1)] assms(5) budget(1) [OF assms(6)]] s
  by (auto simp: solve_def solve_forward_def Let_def returns_and_then elim!: returns_mono)

lemma solve_backward_converges:
  assumes s: "sv_cfg s = c" "sv_transfer s = T" "sv_direction s = Backward" "all_initialized G s"
    and "backward.rising (sv_block_out s) (sv_block_in s)"
    and "N + height * size (edges (cfg_graph c)) \<le> sv_max_iterations s"
  shows "returns False (solve G s) dr_converged"
proof -
  have "returns False (run_flow T (transfer_block G c T) (outgoing_edges G c) (incoming_edges G c)
     (\<lambda>i. i = cfg_exit c) (sv_max_iterations s) (postorder_from_exit G c) (sv_block_out s) (sv_block_in s)) fl_converged"
    using initialized [OF s(4,1)]
    by (intro backward.run_flow_converges [OF _ orders(3,4) _ assms(5) budget(2) [OF assms(6)]]) auto
  then show ?thesis
    using s by (auto simp: solve_def solve_backward_def Let_def returns_and_then elim!: returns_mono)
qed

end

end
