(* ===== verification/Definite_Init_Correct.thy ===== *)
theory Definite_Init_Correct
  imports Definite_Init Dataflow_Built
begin

text \<open>
  Definite initialization on the graph of a lowered body: the states are exactly the meet over
  all executable paths, and the witness search finds a path exactly when there is one.
\<close>

section \<open>Paths\<close>

text \<open>The vertices to which executable edges lead from the start through vertices that satisfy a test.\<close>

inductive arrives :: "cfg_edge set \<Rightarrow> node \<Rightarrow> (node \<Rightarrow> bool) \<Rightarrow> node \<Rightarrow> bool" for A s ok where
  arrives_start: "arrives A s ok s"
| arrives_step: "arrives A s ok v \<Longrightarrow> ok v \<Longrightarrow> (v, k, w) \<in> A \<Longrightarrow> is_executable k \<Longrightarrow> arrives A s ok w"

definition event_bits :: "nat list option \<Rightarrow> nat set" where
  "event_bits e = (case e of None \<Rightarrow> {} | Some bits \<Rightarrow> set bits)"

definition stmt_bits :: "init_events \<Rightarrow> stmt_idx list \<Rightarrow> nat set" where
  "stmt_bits ev ss = (\<Union>s \<in> set ss. event_bits (ie_stmt ev s))"

definition vertex_bits :: "init_events \<Rightarrow> cfg_vertex \<Rightarrow> nat set" where
  "vertex_bits ev kind =
    (case kind of
       BasicBlock ss \<Rightarrow> stmt_bits ev ss
     | Conditional e \<Rightarrow> event_bits (ie_header ev e)
     | WhileHeader e \<Rightarrow> event_bits (ie_header ev e)
     | ForHeader x a b \<Rightarrow> event_bits (ie_header ev a) \<union> event_bits (ie_header ev b) \<union> set_option (ie_loop_var ev x)
     | ForEachHeader x e \<Rightarrow> event_bits (ie_header ev e) \<union> set_option (ie_loop_var ev x)
     | _ \<Rightarrow> {})"

definition events_ok :: "init_events \<Rightarrow> bool" where
  "events_ok ev \<longleftrightarrow>
     (\<forall>s. \<forall>i \<in> event_bits (ie_stmt ev s). i < ie_width ev) \<and>
     (\<forall>e. \<forall>i \<in> event_bits (ie_header ev e). i < ie_width ev) \<and>
     (\<forall>x. \<forall>i \<in> set_option (ie_loop_var ev x). i < ie_width ev)"

text \<open>A point at a vertex, with the bits set between the entry of the vertex and the point.\<close>

inductive point_at :: "init_events \<Rightarrow> cfg_vertex \<Rightarrow> init_point \<Rightarrow> nat set \<Rightarrow> bool" for ev where
  at_stmt: "point_at ev (BasicBlock (pre @ s # post)) (IP_Stmt s) (stmt_bits ev pre)"
| at_condition: "point_at ev (Conditional e) (IP_Header e) {}"
| at_while: "point_at ev (WhileHeader e) (IP_Header e) {}"
| at_from: "point_at ev (ForHeader x a b) (IP_Header a) {}"
| at_to: "point_at ev (ForHeader x a b) (IP_Header b) (event_bits (ie_header ev a))"
| at_collection: "point_at ev (ForEachHeader x e) (IP_Header e) {}"


section \<open>States\<close>

locale init_flow = built_graph G nodes edges c body + bitset_laws B ones bits_len
  for G :: "'g digraph" and nodes edges c body and B :: "'b bitset" and ones bits_len +
  fixes ev :: init_events
  assumes events: "events_ok ev"
begin

abbreviation T :: "'b definite_init transfer" where
  "T \<equiv> definite_init_transfer B ev"

abbreviation A :: "cfg_edge set" where
  "A \<equiv> set_mset (edges (cfg_graph c))"

definition wide :: "'b definite_init \<Rightarrow> bool" where
  "wide st \<longleftrightarrow> (case st of Unreached \<Rightarrow> True | Reached b \<Rightarrow> bits_len b = ie_width ev)"

definition misses :: "nat \<Rightarrow> 'b definite_init \<Rightarrow> bool" where
  "misses i st \<longleftrightarrow> (case st of Unreached \<Rightarrow> False | Reached b \<Rightarrow> i \<notin> ones b)"

definition adds :: "nat set \<Rightarrow> 'b definite_init \<Rightarrow> 'b definite_init \<Rightarrow> bool" where
  "adds S st st' \<longleftrightarrow> wide st' \<and> (st' = Unreached \<longleftrightarrow> st = Unreached) \<and> (\<forall>i. misses i st' \<longleftrightarrow> misses i st \<and> i \<notin> S)"

lemma adds_refl: "wide st \<Longrightarrow> adds {} st st"
  by (simp add: adds_def)

lemma adds_trans: "adds S st st' \<Longrightarrow> adds S' st' st'' \<Longrightarrow> adds (S \<union> S') st st''"
  by (auto simp: adds_def)

lemma adds_wide: "adds S st st' \<Longrightarrow> wide st'"
  by (simp add: adds_def)

lemma lacks_misses: "lacks B st i \<longleftrightarrow> misses i st"
  by (cases st) (auto simp: lacks_def is_initialized_def misses_def contains_bit)

lemma add_bits_adds:
  assumes "\<forall>i \<in> set bits. i < ie_width ev" and "wide st"
  shows "adds (set bits) st (add_bits B bits st)"
proof (cases st)
  case (Reached b)
  have "ones (fold (bs_insert B) bits b) = ones b \<union> set bits \<and> bits_len (fold (bs_insert B) bits b) = bits_len b"
    if "\<forall>i \<in> set bits. i < bits_len b" for b
    using that by (induction bits arbitrary: b) (auto simp: insert_bit)
  then show ?thesis
    using assms Reached by (auto simp: adds_def add_bits_def wide_def misses_def)
qed (simp add: adds_def add_bits_def wide_def misses_def)

lemma add_event_adds:
  assumes "\<forall>i \<in> event_bits e. i < ie_width ev" and "wide st"
  shows "adds (event_bits e) st (add_event B e st)"
  using assms add_bits_adds adds_refl by (cases e) (auto simp: add_event_def event_bits_def)

lemma event_widths:
  "\<forall>i \<in> event_bits (ie_stmt ev s). i < ie_width ev" "\<forall>i \<in> event_bits (ie_header ev e). i < ie_width ev"
  "ie_loop_var ev x = Some i \<Longrightarrow> i < ie_width ev"
  using events by (simp_all add: events_ok_def)

lemma transfer_expr_adds: "wide st \<Longrightarrow> adds (event_bits (ie_header ev e)) st (transfer_expr T e st)"
  by (simp add: definite_init_transfer_def add_event_adds event_widths)

lemma transfer_bind_adds: "wide st \<Longrightarrow> adds (set_option (ie_loop_var ev x)) st (transfer_loop_var_bind T x st)"
  using add_bits_adds [of "[the (ie_loop_var ev x)]" st] event_widths(3) [of x]
  by (cases "ie_loop_var ev x") (auto simp: definite_init_transfer_def adds_refl)

lemma transfer_stmts_adds:
  "wide st \<Longrightarrow> \<exists>st'. transfer_stmts T ss st = Inr st' \<and> adds (stmt_bits ev ss) st st'"
proof (induction ss arbitrary: st)
  case (Cons s ss)
  have s: "adds (event_bits (ie_stmt ev s)) st (add_event B (ie_stmt ev s) st)"
    by (intro add_event_adds event_widths Cons.prems)
  obtain st' where "transfer_stmts T ss (add_event B (ie_stmt ev s) st) = Inr st'"
    "adds (stmt_bits ev ss) (add_event B (ie_stmt ev s) st) st'"
    using Cons.IH [OF adds_wide [OF s]] by blast
  then show ?case
    using adds_trans [OF s] by (simp add: definite_init_transfer_def stmt_bits_def)
qed (simp add: adds_refl stmt_bits_def)

lemma block_adds:
  assumes "v < N" and "wide st" and "transfer_block G c T v st = Inr st'"
  shows "adds (vertex_bits ev (nodes (cfg_graph c) ! v)) st st'"
proof -
  have v: "vertex G c v = Some (nodes (cfg_graph c) ! v)"
    using assms(1) by (simp add: vertex_def node_weight)
  have try_id: "transfer_try_entry T s st = st" for s
    by (simp add: definite_init_transfer_def)
  show ?thesis
  proof (cases "nodes (cfg_graph c) ! v")
    case (BasicBlock ss)
    then show ?thesis
      using assms(3) transfer_stmts_adds [OF assms(2), of ss] v by (auto simp: transfer_block_def vertex_bits_def)
  next
    case (ForHeader x a b)
    note 1 = transfer_expr_adds [OF assms(2), of a]
    note 2 = transfer_expr_adds [OF adds_wide [OF 1], of b]
    note 3 = transfer_bind_adds [OF adds_wide [OF 2], of x]
    show ?thesis
      using assms(3) adds_trans [OF adds_trans [OF 1 2] 3] v ForHeader by (simp add: transfer_block_def vertex_bits_def)
  next
    case (ForEachHeader x e)
    note 1 = transfer_expr_adds [OF assms(2), of e]
    note 2 = transfer_bind_adds [OF adds_wide [OF 1], of x]
    show ?thesis
      using assms(3) adds_trans [OF 1 2] v ForEachHeader by (simp add: transfer_block_def vertex_bits_def)
  qed (use assms v try_id in \<open>auto simp: transfer_block_def vertex_bits_def adds_refl transfer_expr_adds split: option.splits\<close>)
qed

text \<open>The join, seen through a test that no path satisfies before anything is reached.\<close>

lemma edge_transfer: "transfer_edge T k st = (if is_executable k then st else Unreached)"
  by (cases k) (simp_all add: definite_init_transfer_def is_executable_def)

lemma transfer_join: "lat_join T = join_init B"
  by (simp add: definite_init_transfer_def)

lemma gather_iff:
  assumes join: "\<And>a b. Q (join_init B a b) \<longleftrightarrow> Q a \<or> Q b" and bottom: "\<not> Q Unreached"
    and "\<forall>(p, k) \<in> set es. outs p \<noteq> None" and "st \<noteq> None \<or> es \<noteq> []"
  shows "\<exists>g. gather T outs es st = Some g \<and>
    (Q g \<longleftrightarrow> (\<exists>a. st = Some a \<and> Q a) \<or> (\<exists>p k l. (p, k) \<in> set es \<and> is_executable k \<and> outs p = Some l \<and> Q l))"
  using assms(3,4)
proof (induction es arbitrary: st)
  case (Cons e es)
  obtain p k l where e: "e = (p, k)" "outs p = Some l"
    using Cons.prems(1) by (cases e) auto
  let ?st = "case st of None \<Rightarrow> transfer_edge T k l | Some s \<Rightarrow> lat_join T s (transfer_edge T k l)"
  have g: "gather T outs (e # es) st = gather T outs es (Some ?st)"
    by (simp add: e Let_def)
  have st: "Q ?st \<longleftrightarrow> (\<exists>a. st = Some a \<and> Q a) \<or> is_executable k \<and> Q l"
    by (cases st) (auto simp: edge_transfer join bottom transfer_join)
  have es: "(\<exists>p k l. (p, k) \<in> set (e # es) \<and> is_executable k \<and> outs p = Some l \<and> Q l) \<longleftrightarrow>
      is_executable k \<and> Q l \<or> (\<exists>p k l. (p, k) \<in> set es \<and> is_executable k \<and> outs p = Some l \<and> Q l)"
    using e by auto
  have "\<forall>(p, k) \<in> set es. outs p \<noteq> None"
    using Cons.prems(1) by simp
  then obtain g' where g': "gather T outs es (Some ?st) = Some g'"
    "Q g' \<longleftrightarrow> Q ?st \<or> (\<exists>p k l. (p, k) \<in> set es \<and> is_executable k \<and> outs p = Some l \<and> Q l)"
    using Cons.IH [of "Some ?st"] by blast
  show ?case
    unfolding g es g'(1) using g'(2) unfolding st by blast
qed auto

lemma join_tests:
  "join_init B a b \<noteq> Unreached \<longleftrightarrow> a \<noteq> Unreached \<or> b \<noteq> Unreached"
  "misses i (join_init B a b) \<longleftrightarrow> misses i a \<or> misses i b"
  by (auto simp: join_init_def misses_def intersect_bits split: definite_init.split)

lemma join_wide: "wide a \<Longrightarrow> wide b \<Longrightarrow> wide (join_init B a b)"
  by (auto simp: join_init_def wide_def intersect_bits split: definite_init.splits)

lemma gather_wide:
  "pred_option wide st \<Longrightarrow> \<forall>p. pred_option wide (outs p) \<Longrightarrow> pred_option wide (gather T outs es st)"
proof (induction es arbitrary: st)
  case (Cons e es)
  obtain p k where e: "e = (p, k)"
    by (cases e)
  have "pred_option wide (case outs p of None \<Rightarrow> st
      | Some l \<Rightarrow> Some (case st of None \<Rightarrow> transfer_edge T k l | Some s \<Rightarrow> lat_join T s (transfer_edge T k l)))"
    using Cons.prems(1) spec [OF Cons.prems(2), of p]
    by (cases "outs p"; cases st) (auto simp: edge_transfer join_wide transfer_join wide_def [of Unreached])
  then show ?case
    unfolding e gather.simps Let_def by (rule Cons.IH [OF _ Cons.prems(2)])
qed simp

text \<open>The order of the lattice on states of the right width; every step up loses a bit.\<close>

definition init_le :: "'b definite_init \<Rightarrow> 'b definite_init \<Rightarrow> bool" where
  "init_le a b \<longleftrightarrow> wide a \<and> wide b \<and> (b = Unreached \<longrightarrow> a = Unreached) \<and> (\<forall>i. misses i a \<longrightarrow> misses i b)"

definition init_rank :: "'b definite_init \<Rightarrow> nat" where
  "init_rank st = (case st of Unreached \<Rightarrow> 0 | Reached b \<Rightarrow> 1 + (ie_width ev - card (ones b)))"

lemma adds_mono: "init_le a b \<Longrightarrow> adds S a a' \<Longrightarrow> adds S b b' \<Longrightarrow> init_le a' b'"
  by (auto simp: init_le_def adds_def)

lemma init_rank_mono:
  assumes "init_le a b" and "a \<noteq> b"
  shows "init_rank a < init_rank b"
proof (cases a)
  case Unreached
  then show ?thesis
    using assms by (cases b) (simp_all add: init_rank_def)
next
  case (Reached x)
  then obtain y where b: "b = Reached y"
    using assms(1) by (cases b) (auto simp: init_le_def)
  have len: "bits_len x = ie_width ev" "bits_len y = ie_width ev" and sub: "ones y \<subseteq> ones x"
    using assms(1) Reached b by (auto simp: init_le_def wide_def misses_def)
  then have "ones y \<subset> ones x"
    using assms(2) Reached b bits_eq [of x y] by auto
  moreover have x: "ones x \<subseteq> {..<ie_width ev}"
    using bits_below [of x] len by simp
  ultimately have "card (ones y) < card (ones x)"
    by (intro psubset_card_mono finite_subset [OF x]) simp_all
  moreover have "card (ones x) \<le> ie_width ev"
    using card_mono [OF _ x] by simp
  ultimately have "card (ones y) < card (ones x)" "card (ones x) \<le> ie_width ev"
    by simp_all
  then show ?thesis
    using Reached b by (simp add: init_rank_def)
qed

end

sublocale init_flow \<subseteq> init: built_monotone G nodes edges c body "definite_init_transfer B ev"
  init_le init_rank "ie_width ev + 1"
proof
  show "init_rank a \<le> ie_width ev + 1" for a
    by (cases a) (simp_all add: init_rank_def)
  show "init_le (lat_join T a b) (lat_join T a' b')" if "init_le a a'" "init_le b b'" for a a' b b'
    using that join_tests join_wide unfolding transfer_join init_le_def by metis
  show "init_le (transfer_edge T k a) (transfer_edge T k b)" if "init_le a b" for a b k
    using that by (auto simp: edge_transfer init_le_def wide_def misses_def)
  show "init_le a' b'" if "init_le a b" "transfer_stmt T s a = Inr a'" "transfer_stmt T s b = Inr b'" for a b a' b' s
    using that adds_mono [OF that(1) add_event_adds add_event_adds] event_widths
    by (auto simp: definite_init_transfer_def init_le_def)
  show "init_le (transfer_expr T e a) (transfer_expr T e b)" if "init_le a b" for a b e
    using that adds_mono [OF that transfer_expr_adds transfer_expr_adds] by (simp add: init_le_def)
  show "init_le (transfer_loop_var_bind T x a) (transfer_loop_var_bind T x b)" if "init_le a b" for a b x
    using that adds_mono [OF that transfer_bind_adds transfer_bind_adds] by (simp add: init_le_def)
qed (auto simp: init_le_def init_rank_mono [unfolded init_le_def] definite_init_transfer_def)



section \<open>The solution\<close>

context init_flow
begin

abbreviation bits_at :: "node \<Rightarrow> nat set" where
  "bits_at v \<equiv> vertex_bits ev (nodes (cfg_graph c) ! v)"

abbreviation all_unset :: "'b definite_init" where
  "all_unset \<equiv> Reached (bs_with_capacity B (ie_width ev))"

lemma all_unset: "wide all_unset" "misses i all_unset"
  by (simp_all add: wide_def misses_def with_capacity)

lemma entry: "cfg_start c = Some 1" "1 < N" "incoming_edges G c 1 = []"
proof -
  show "cfg_start c = Some 1" "1 < N"
    using shape by (simp_all add: cfg_shape_def)
  have "(p, k) \<notin> set (incoming_edges G c 1)" for p k
    using shape by (auto simp: cfg_shape_def incoming_edges_def set_edges_in)
  then show "incoming_edges G c 1 = []"
    by (metis list.set_intros(1) neq_Nil_conv surj_pair)
qed

lemma entered:
  assumes "v < N" and "v \<noteq> 1"
  shows "incoming_edges G c v \<noteq> []"
proof -
  have "(1, v) \<in> (edge_rel A)\<^sup>*"
    using shape assms(1) by (simp add: cfg_shape_def path_def)
  then obtain w k where "(w, k, v) \<in># edges (cfg_graph c)"
    using assms(2) by (cases rule: rtranclE) (auto simp: edge_rel_def)
  then show ?thesis
    by (metis empty_iff incoming_edges_def list.set(1) set_edges_in)
qed

lemma incoming: "(p, k) \<in> set (incoming_edges G c v) \<longleftrightarrow> (p, k, v) \<in> A"
  by (simp add: incoming_edges_def set_edges_in)

lemma start_test:
  assumes "v < N" and "v \<noteq> 1" and "\<forall>w < N. outs w \<noteq> None"
    and i: "start_state T (incoming_edges G c) (\<lambda>i. cfg_start c = Some i) ins outs v = Inr st"
    and "\<And>a b. Q (join_init B a b) \<longleftrightarrow> Q a \<or> Q b" and "\<not> Q Unreached"
  shows "Q st \<longleftrightarrow> (\<exists>p k l. (p, k, v) \<in> A \<and> is_executable k \<and> outs p = Some l \<and> Q l)"
proof -
  have "\<forall>(p, k) \<in> set (incoming_edges G c v). outs p \<noteq> None"
    using assms(3) ends by (fastforce simp: incoming)
  from gather_iff [OF assms(5,6) this, of None] entered [OF assms(1,2)]
  show ?thesis
    using i entry(1) assms(2) by (auto simp: start_state_def incoming)
qed

lemma start_at_entry:
  "start_state T (incoming_edges G c) (\<lambda>i. cfg_start c = Some i) ins outs 1 = expect_state ins 1"
  by (simp add: start_state_def entry del: One_nat_def)

text \<open>While the loop runs, what the states claim has a path behind it.\<close>

definition tracks :: "(node \<rightharpoonup> 'b definite_init) \<Rightarrow> (node \<rightharpoonup> 'b definite_init) \<Rightarrow> bool" where
  "tracks ins outs \<longleftrightarrow> ins 1 = Some all_unset \<and> (\<forall>v. pred_option wide (ins v)) \<and> (\<forall>v. pred_option wide (outs v)) \<and>
     (\<forall>v < N. outs v \<noteq> None) \<and>
     (\<forall>v < N. \<forall>st. ins v = Some st \<longrightarrow> (st \<noteq> Unreached \<longrightarrow> arrives A 1 (\<lambda>_. True) v) \<and>
       (\<forall>i. misses i st \<longrightarrow> arrives A 1 (\<lambda>u. i \<notin> bits_at u) v)) \<and>
     (\<forall>v < N. \<forall>st. outs v = Some st \<longrightarrow> (st \<noteq> Unreached \<longrightarrow> arrives A 1 (\<lambda>_. True) v) \<and>
       (\<forall>i. misses i st \<longrightarrow> arrives A 1 (\<lambda>u. i \<notin> bits_at u) v \<and> i \<notin> bits_at v))"

lemma tracks_in:
  assumes t: "tracks ins outs" and v: "v < N"
    and i: "start_state T (incoming_edges G c) (\<lambda>i. cfg_start c = Some i) ins outs v = Inr st"
  shows "wide st" and "st \<noteq> Unreached \<Longrightarrow> arrives A 1 (\<lambda>_. True) v"
    and "misses j st \<Longrightarrow> arrives A 1 (\<lambda>u. j \<notin> bits_at u) v"
proof -
  have outs: "\<forall>w < N. outs w \<noteq> None" "\<forall>w. pred_option wide (outs w)" "ins 1 = Some all_unset"
    using t by (simp_all add: tracks_def)
  show "wide st"
  proof (cases "v = 1")
    case True
    then show ?thesis
      using i outs(3) all_unset by (simp add: start_at_entry expect_state_def del: One_nat_def)
  next
    case False
    then show ?thesis
      using i gather_wide [of None outs "incoming_edges G c v"] outs(2) t entry(1)
      by (auto simp: start_state_def expect_state_def tracks_def split: option.splits)
        (metis option.pred_inject(2))+
  qed
  show "arrives A 1 (\<lambda>_. True) v" if r: "st \<noteq> Unreached"
  proof (cases "v = 1")
    case False
    obtain p k l where p: "(p, k, v) \<in> A" "is_executable k" "outs p = Some l" "l \<noteq> Unreached"
      using start_test [OF v False outs(1) i, of "\<lambda>s. s \<noteq> Unreached", OF join_tests(1)] r by auto
    then have "arrives A 1 (\<lambda>_. True) p"
      using t ends [OF p(1)] by (simp add: tracks_def)
    then show ?thesis
      using p by (intro arrives_step [of A 1 _ p k v]) simp_all
  qed (simp add: arrives_start)
  show "arrives A 1 (\<lambda>u. j \<notin> bits_at u) v" if r: "misses j st"
  proof (cases "v = 1")
    case False
    obtain p k l where p: "(p, k, v) \<in> A" "is_executable k" "outs p = Some l" "misses j l"
      using start_test [OF v False outs(1) i, of "misses j", OF join_tests(2)] r by (auto simp: misses_def [of j Unreached])
    then have "arrives A 1 (\<lambda>u. j \<notin> bits_at u) p \<and> j \<notin> bits_at p"
      using t ends [OF p(1)] by (simp add: tracks_def)
    then show ?thesis
      using p by (intro arrives_step [of A 1 _ p k v]) simp_all
  qed (simp add: arrives_start)
qed

lemma tracks_step:
  assumes t: "tracks ins outs" and v: "v \<in> {..<N}"
    and i: "start_state T (incoming_edges G c) (\<lambda>i. cfg_start c = Some i) ins outs v = Inr st"
    and l: "transfer_block G c T v st = Inr st'"
  shows "tracks (ins(v \<mapsto> st)) (outs(v \<mapsto> st'))"
proof -
  have v': "v < N"
    using v by simp
  note st = tracks_in [OF t v' i]
  have st': "adds (bits_at v) st st'"
    by (rule block_adds [OF v' st(1) l])
  have "st = all_unset" if "v = 1"
    using i t that by (simp add: start_at_entry expect_state_def tracks_def del: One_nat_def)
  then show ?thesis
    using t st st' by (auto simp: tracks_def adds_def)
qed

text \<open>At a solution no path is forgotten.\<close>

lemma solution_covers:
  assumes t: "tracks ins outs"
    and eq: "\<forall>v < N. block_equation T (transfer_block G c T) (incoming_edges G c) (\<lambda>i. cfg_start c = Some i) ins outs v"
    and Q: "\<And>a b. Q (join_init B a b) \<longleftrightarrow> Q a \<or> Q b" "\<not> Q Unreached" "Q all_unset"
    and block: "\<And>v st st'. adds (bits_at v) st st' \<Longrightarrow> Q st \<Longrightarrow> ok v \<Longrightarrow> Q st'"
    and "arrives A 1 ok v"
  shows "v < N \<and> (\<exists>st. ins v = Some st \<and> Q st)"
  using assms(7)
proof (induction rule: arrives.induct)
  case arrives_start
  then show ?case
    using t entry(2) Q(3) by (simp add: tracks_def)
next
  case (arrives_step v k w)
  then obtain st where v: "v < N" "ins v = Some st" "Q st"
    by blast
  have w: "w < N" "w \<noteq> 1"
    using arrives_step.hyps(3) ends shape by (auto simp: cfg_shape_def)
  obtain l where l: "transfer_block G c T v st = Inr l" "outs v = Some l"
    using eq v(1,2) by (auto simp: block_equation_def)
  have "wide st"
    using t v(2) unfolding tracks_def by (metis option.pred_inject(2))
  then have "Q l"
    using block [OF block_adds [OF v(1) _ l(1)] v(3) arrives_step.hyps(2)] by blast
  moreover obtain st' where "start_state T (incoming_edges G c) (\<lambda>i. cfg_start c = Some i) ins outs w = Inr st'" "ins w = Some st'"
    using eq w(1) by (auto simp: block_equation_def)
  ultimately show ?case
    using start_test [OF w, of outs ins st' Q] t w(1) l(2) arrives_step.hyps(3,4) Q(1,2)
    unfolding tracks_def by blast
qed

lemma solution_exact:
  assumes "tracks ins outs"
    and "\<forall>v < N. block_equation T (transfer_block G c T) (incoming_edges G c) (\<lambda>i. cfg_start c = Some i) ins outs v"
    and "v < N"
  shows "\<exists>st. ins v = Some st \<and> wide st \<and> (st \<noteq> Unreached \<longleftrightarrow> arrives A 1 (\<lambda>_. True) v) \<and>
    (\<forall>i. misses i st \<longleftrightarrow> arrives A 1 (\<lambda>u. i \<notin> bits_at u) v)"
proof -
  obtain st where st: "ins v = Some st"
    using assms(2,3) by (auto simp: block_equation_def)
  have "st \<noteq> Unreached" if "arrives A 1 (\<lambda>_. True) v"
    using solution_covers [OF assms(1,2), of "\<lambda>s. s \<noteq> Unreached", OF join_tests(1) _ _ _ that] st by (auto simp: adds_def)
  moreover have "misses i st" if "arrives A 1 (\<lambda>u. i \<notin> bits_at u) v" for i
    using solution_covers [OF assms(1,2), of "misses i", OF join_tests(2) _ all_unset(2) _ that] st
    by (auto simp: adds_def misses_def [of i Unreached])
  moreover have "wide st"
    using assms(1) st unfolding tracks_def by (metis option.pred_inject(2))
  ultimately show ?thesis
    using assms(1,3) st unfolding tracks_def by blast
qed


text \<open>What the tables of points hold.\<close>

definition recorded :: "(node \<rightharpoonup> 'b definite_init) \<Rightarrow> 'b point_tables \<Rightarrow> bool" where
  "recorded ins tables \<longleftrightarrow> dom (snd tables) = dom (fst tables) \<and> (\<forall>p st. fst tables p = Some st \<longrightarrow> (\<exists>v done entry. v < N \<and> snd tables p = Some v \<and>
     point_at ev (nodes (cfg_graph c) ! v) p done \<and> ins v = Some entry \<and> adds done entry st))"

lemma record_point_ok:
  assumes "recorded ins tables" and "v < N" and "point_at ev (nodes (cfg_graph c) ! v) p done"
    and "ins v = Some entry" and "adds done entry st"
  shows "recorded ins (record_point p v st tables)" and "dom (fst (record_point p v st tables)) = insert p (dom (fst tables))"
  using assms by (auto simp: recorded_def record_point_def split_def)

lemma record_stmts_ok:
  assumes "recorded ins tables" and "v < N" and "ins v = Some entry"
    and "nodes (cfg_graph c) ! v = BasicBlock (pre @ ss)" and "adds (stmt_bits ev pre) entry st"
  shows "recorded ins (record_stmts B ev v ss st tables) \<and>
    dom (fst (record_stmts B ev v ss st tables)) = IP_Stmt ` set ss \<union> dom (fst tables)"
  using assms
proof (induction ss arbitrary: pre st tables)
  case (Cons s ss)
  have "point_at ev (nodes (cfg_graph c) ! v) (IP_Stmt s) (stmt_bits ev pre)"
    unfolding Cons.prems(4) by (rule at_stmt)
  note now = record_point_ok [OF Cons.prems(1,2) this Cons.prems(3,5)]
  have "adds (stmt_bits ev (pre @ [s])) entry (add_event B (ie_stmt ev s) st)"
    using adds_trans [OF Cons.prems(5) add_event_adds [OF event_widths(1) adds_wide [OF Cons.prems(5)], of s]]
    by (simp add: stmt_bits_def Un_commute)
  from Cons.IH [OF now(1) Cons.prems(2,3) _ this] show ?case
    using Cons.prems(4) now(2) by auto
qed simp

lemma record_vertex_ok:
  assumes "recorded ins tables" and "v < N" and "ins v = Some entry" and "wide entry"
  shows "recorded ins (record_vertex B ev v (nodes (cfg_graph c) ! v) entry tables) \<and>
    dom (fst (record_vertex B ev v (nodes (cfg_graph c) ! v) entry tables)) =
      {p. \<exists>done. point_at ev (nodes (cfg_graph c) ! v) p done} \<union> dom (fst tables)"
proof -
  note here = record_point_ok [OF assms(1,2) _ assms(3) adds_refl [OF assms(4)]]
  show ?thesis
  proof (cases "nodes (cfg_graph c) ! v")
    case (BasicBlock ss)
    have "{p. \<exists>done. point_at ev (BasicBlock ss) p done} = IP_Stmt ` set ss"
      by (auto simp: point_at.simps in_set_conv_decomp)
    then show ?thesis
      using record_stmts_ok [OF assms(1-3), of "[]" ss entry] adds_refl [OF assms(4)] BasicBlock
      by (simp add: record_vertex_def stmt_bits_def)
  next
    case (ForHeader x a b)
    have bounds: "point_at ev (nodes (cfg_graph c) ! v) (IP_Header a) {}"
      "point_at ev (nodes (cfg_graph c) ! v) (IP_Header b) (event_bits (ie_header ev a))"
      unfolding ForHeader by (rule point_at.intros)+
    note first = here [OF bounds(1)]
    note second = record_point_ok [OF first(1) assms(2) bounds(2) assms(3) add_event_adds [OF event_widths(2) assms(4)]]
    have "{p. \<exists>done. point_at ev (ForHeader x a b) p done} = {IP_Header a, IP_Header b}"
      by (auto simp: point_at.simps)
    then show ?thesis
      using first second ForHeader by (auto simp: record_vertex_def)
  next
    case (Conditional e)
    have "point_at ev (nodes (cfg_graph c) ! v) (IP_Header e) {}"
      unfolding Conditional by (rule point_at.intros)
    then show ?thesis
      using here [of "IP_Header e"] Conditional by (auto simp: record_vertex_def point_at.simps)
  next
    case (WhileHeader e)
    have "point_at ev (nodes (cfg_graph c) ! v) (IP_Header e) {}"
      unfolding WhileHeader by (rule point_at.intros)
    then show ?thesis
      using here [of "IP_Header e"] WhileHeader by (auto simp: record_vertex_def point_at.simps)
  next
    case (ForEachHeader x e)
    have "point_at ev (nodes (cfg_graph c) ! v) (IP_Header e) {}"
      unfolding ForEachHeader by (rule point_at.intros)
    then show ?thesis
      using here [of "IP_Header e"] ForEachHeader by (auto simp: record_vertex_def point_at.simps)
  qed (use assms(1) in \<open>auto simp: record_vertex_def point_at.simps\<close>)
qed

lemma record_points_ok:
  assumes "\<forall>v < N. \<exists>entry. ins v = Some entry \<and> wide entry"
  shows "recorded ins (record_points G B ev c ins) \<and>
    (\<forall>v < N. \<forall>p done. point_at ev (nodes (cfg_graph c) ! v) p done \<longrightarrow> fst (record_points G B ev c ins) p \<noteq> None)"
proof -
  let ?step = "\<lambda>v tables. case ins v of None \<Rightarrow> tables
    | Some entry \<Rightarrow> (case vertex G c v of None \<Rightarrow> tables | Some kind \<Rightarrow> record_vertex B ev v kind entry tables)"
  have "recorded ins (fold ?step vs tables) \<and> dom (fst (fold ?step vs tables)) =
      {p. \<exists>v \<in> set vs. \<exists>done. point_at ev (nodes (cfg_graph c) ! v) p done} \<union> dom (fst tables)"
    if "recorded ins tables" and "\<forall>v \<in> set vs. v < N" for vs tables
    using that
  proof (induction vs arbitrary: tables)
    case (Cons v vs)
    obtain entry where entry: "ins v = Some entry" "wide entry" "v < N"
      using assms Cons.prems(2) by auto
    have step: "?step v tables = record_vertex B ev v (nodes (cfg_graph c) ! v) entry tables"
      using entry by (simp add: vertex_def node_weight)
    note now = record_vertex_ok [OF Cons.prems(1) entry(3,1,2)]
    show ?case
      using Cons.IH [of "?step v tables"] now Cons.prems(2) unfolding fold_simps step by auto
  qed simp
  from this [of "(Map.empty, Map.empty)" "[0..<N]"]
  have all: "recorded ins (record_points G B ev c ins) \<and> dom (fst (record_points G B ev c ins)) =
      {p. \<exists>v < N. \<exists>done. point_at ev (nodes (cfg_graph c) ! v) p done}"
    unfolding record_points_def vertices_def counts by (auto simp: recorded_def)
  then show ?thesis
    by blast
qed


text \<open>The solver as the analysis sets it up, and its result.\<close>

definition init_solver :: "nat \<Rightarrow> ('g, 'b definite_init) solver" where
  "init_solver n = set_initial_state all_unset (set_bottom_factory G Unreached (set_max_iterations n (solver_new c T)))"

lemma init_solver_start:
  "sv_cfg (init_solver n) = c" "sv_transfer (init_solver n) = T" "sv_direction (init_solver n) = Forward"
  "sv_max_iterations (init_solver n) = n" "all_initialized G (init_solver n)"
  "sv_block_in (init_solver n) v = (if v = 1 then Some all_unset else if v < N then Some Unreached else None)"
  "sv_block_out (init_solver n) v = (if v < N then Some Unreached else None)"
  using entry by (auto simp: init_solver_def set_initial_state_def set_bottom_factory_tables all_initialized_def
      list_all_iff set_max_iterations_def solver_new_def vertices_def counts)

lemma init_solver_tracks: "tracks (sv_block_in (init_solver n)) (sv_block_out (init_solver n))"
  using all_unset by (auto simp: tracks_def init_solver_start wide_def [of Unreached] misses_def [of _ Unreached]
      intro: arrives_start)

definition solved :: "('g, 'b) definite_init_result \<Rightarrow> bool" where
  "solved r \<longleftrightarrow> di_events r = ev \<and> dr_cfg (di_inner r) = c \<and>
     tracks (dr_block_in (di_inner r)) (dr_block_out (di_inner r)) \<and>
     (\<forall>v < N. block_equation T (transfer_block G c T) (incoming_edges G c) (\<lambda>i. cfg_start c = Some i)
        (dr_block_in (di_inner r)) (dr_block_out (di_inner r)) v) \<and>
     (di_states r, di_vertices r) = record_points G B ev c (dr_block_in (di_inner r))"

lemma solve_tracks: "returns False (solve G (init_solver n)) (\<lambda>r. tracks (dr_block_in r) (dr_block_out r))"
proof -
  have "returns False (run_flow T (transfer_block G c T) (incoming_edges G c) (outgoing_edges G c)
      (\<lambda>i. cfg_start c = Some i) n (reverse_postorder G c) (sv_block_in (init_solver n)) (sv_block_out (init_solver n)))
      (\<lambda>f. tracks (fl_in f) (fl_out f))"
    by (rule init.forward.run_flow_invariant [OF orders(1,2), where P = tracks])
      (use init_solver_start(6,7) in \<open>auto intro: init_solver_tracks tracks_step\<close>)
  then show ?thesis
    by (simp add: solve_def solve_forward_def init_solver_start returns_and_then)
qed

lemma solve_converges:
  assumes "N + (ie_width ev + 1) * size (edges (cfg_graph c)) \<le> n"
  shows "returns False (solve G (init_solver n)) dr_converged"
proof (rule init.solve_forward_converges [OF init_solver_start(1-3,5)])
  have "init_le Unreached Unreached" "init_le all_unset all_unset"
    using all_unset by (simp_all add: init_le_def wide_def)
  then have "init.forward.below (sv_block_in (init_solver n)) (sv_block_in (init_solver n))"
    "init.forward.below (sv_block_out (init_solver n)) (sv_block_out (init_solver n))"
    by (simp_all add: init.forward.below_def init_solver_start)
  moreover have "init_le Unreached l" if "transfer_block G c T v st = Inr l" "v < N"
    "start_state T (incoming_edges G c) (\<lambda>i. cfg_start c = Some i) (sv_block_in (init_solver n))
      (sv_block_out (init_solver n)) v = Inr st" for v st l
    using block_adds [OF that(2) tracks_in(1) [OF init_solver_tracks that(2,3)] that(1)]
    by (simp add: init_le_def adds_def wide_def [of Unreached] misses_def [of _ Unreached])
  ultimately show "init.forward.rising (sv_block_in (init_solver n)) (sv_block_out (init_solver n))"
    by (auto simp: init.forward.rising_def init_solver_start(7))
qed (use assms init_solver_start(4) in simp)

lemma analyze_ok:
  "returns False (analyze_definite_init G B c ev n) (\<lambda>res.
    (N + (ie_width ev + 1) * size (edges (cfg_graph c)) \<le> n \<longrightarrow> res \<noteq> None) \<and> pred_option solved res)"
proof -
  have "returns False (solve G (init_solver n)) (\<lambda>r. N + (ie_width ev + 1) * size (edges (cfg_graph c)) \<le> n \<longrightarrow> dr_converged r)"
    using solve_converges [of n] solve_tracks [of n]
    by (cases "N + (ie_width ev + 1) * size (edges (cfg_graph c)) \<le> n") (auto elim: returns_mono)
  from returns_conj [OF this returns_conj [OF solve_tracks init.solve_fixpoint [OF init_solver_start(1,2,5)]]]
  have "returns False (solve G (init_solver n)) (\<lambda>r. (N + (ie_width ev + 1) * size (edges (cfg_graph c)) \<le> n \<longrightarrow> dr_converged r) \<and>
      dr_cfg r = c \<and> tracks (dr_block_in r) (dr_block_out r) \<and>
      (dr_converged r \<longrightarrow> (\<forall>v < N. block_equation T (transfer_block G c T) (incoming_edges G c)
        (\<lambda>i. cfg_start c = Some i) (dr_block_in r) (dr_block_out r) v)))"
    by (rule returns_mono) (auto simp: flow_equation_def init_solver_start(3))
  then show ?thesis
    unfolding analyze_definite_init_def Let_def init_solver_def [symmetric]
    by (rule returns_bind) (auto simp: solved_def split_def)
qed

lemma point_exact:
  assumes "solved r" and "state_before r p = Some st"
  shows "\<exists>v done. v < N \<and> vertex_of r p = Some v \<and> point_at ev (nodes (cfg_graph c) ! v) p done \<and>
    (\<forall>i. is_initialized B st i = (if arrives A 1 (\<lambda>_. True) v
      then Some (\<not> (arrives A 1 (\<lambda>u. i \<notin> bits_at u) v \<and> i \<notin> done)) else None))"
proof -
  note exact = solution_exact [of "dr_block_in (di_inner r)" "dr_block_out (di_inner r)"]
  have in_ok: "\<forall>v < N. \<exists>entry. dr_block_in (di_inner r) v = Some entry \<and> wide entry"
    using exact assms(1) unfolding solved_def by blast
  have "recorded (dr_block_in (di_inner r)) (di_states r, di_vertices r)"
    using record_points_ok [OF in_ok] assms(1) by (simp add: solved_def)
  then obtain v "done" entry where v: "v < N" "vertex_of r p = Some v" "point_at ev (nodes (cfg_graph c) ! v) p done"
    "dr_block_in (di_inner r) v = Some entry" "adds done entry st"
    using assms(2) unfolding recorded_def state_before_def vertex_of_def fst_conv snd_conv by blast
  have entry: "entry \<noteq> Unreached \<longleftrightarrow> arrives A 1 (\<lambda>_. True) v" "\<forall>i. misses i entry \<longleftrightarrow> arrives A 1 (\<lambda>u. i \<notin> bits_at u) v"
    using exact [of v] assms(1) v(1,4) unfolding solved_def by auto
  have "is_initialized B st i = (if st = Unreached then None else Some (\<not> misses i st))" for i
    by (cases st) (auto simp: is_initialized_def misses_def contains_bit)
  then show ?thesis
    using v entry by (intro exI [of _ v] exI [of _ "done"]) (auto simp: adds_def)
qed

lemma vertex_recorded:
  assumes "solved r" and "vertex_of r p = Some v"
  shows "v < N"
proof -
  have "\<forall>v < N. \<exists>entry. dr_block_in (di_inner r) v = Some entry \<and> wide entry"
    using solution_exact [of "dr_block_in (di_inner r)" "dr_block_out (di_inner r)"] assms(1)
    unfolding solved_def by blast
  from record_points_ok [OF this] have "dom (di_vertices r) = dom (di_states r)"
    using assms(1) by (simp add: solved_def recorded_def) (metis fst_conv snd_conv)
  then obtain st where "state_before r p = Some st"
    using assms(2) unfolding state_before_def vertex_of_def by blast
  from point_exact [OF assms(1) this] show ?thesis
    using assms(2) by auto
qed

lemma point_recorded:
  assumes "solved r" and "v < N" and "point_at ev (nodes (cfg_graph c) ! v) p done"
  shows "state_before r p \<noteq> None"
proof -
  have "\<forall>v < N. \<exists>entry. dr_block_in (di_inner r) v = Some entry \<and> wide entry"
    using solution_exact [of "dr_block_in (di_inner r)" "dr_block_out (di_inner r)"] assms(1)
    unfolding solved_def by blast
  from record_points_ok [OF this] show ?thesis
    using assms by (simp add: solved_def state_before_def) (metis fst_conv not_None_eq)
qed

end

end
