(* ===== verification/Path_Terminates.thy ===== *)
theory Path_Terminates
  imports Dataflow_Built
begin

text \<open>
  Whether control may fall off the end of a method (\<open>dataflow/src/path_terminates.rs\<close>): a
  backward analysis over the two-valued lattice. The state \<open>True\<close> at a block is
  \<open>MayFallthrough::TOP\<close>. The solver never returns \<open>None\<close>, so the option around the result
  is left out.
\<close>

section \<open>The analysis\<close>

record path_terminates_config =
  loops_executed_at_least_once :: bool

definition path_terminates_config_default :: path_terminates_config where
  "path_terminates_config_default = \<lparr>loops_executed_at_least_once = False\<rparr>"

definition path_terminates_transfer :: "hir_body \<Rightarrow> bool transfer" where
  "path_terminates_transfer body = \<lparr>
     lat_join = (\<lambda>a b. a \<or> b),
     transfer_stmt = (\<lambda>s l. and_then (stmt_at body s) (\<lambda>st.
       Inr (case st of S_Return _ \<Rightarrow> False | S_Raise _ \<Rightarrow> False | _ \<Rightarrow> l))),
     transfer_expr = (\<lambda>_ l. l),
     transfer_edge = (\<lambda>k l. case k of Unexecutable \<Rightarrow> False | _ \<Rightarrow> l),
     transfer_loop_var_bind = (\<lambda>_ l. l),
     transfer_try_entry = (\<lambda>_ l. l)\<rparr>"

definition analyze_path_terminates ::
  "'g digraph \<Rightarrow> hir_body \<Rightarrow> 'g control_flow_graph \<Rightarrow> path_terminates_config \<Rightarrow> nat \<Rightarrow>
     ('g, bool) dataflow_result outcome" where
  "analyze_path_terminates G body c config max_iterations =
    (if loops_executed_at_least_once config then Inl Panic
     else
       let s = solver_new c (path_terminates_transfer body);
           s = set_direction Backward s;
           s = set_max_iterations max_iterations s;
           s = set_bottom_factory G False s
       in and_then (set_initial_state_at_exit G True s) (solve G))"

definition analyze_path_terminates_default ::
  "'g digraph \<Rightarrow> hir_body \<Rightarrow> 'g control_flow_graph \<Rightarrow> ('g, bool) dataflow_result outcome" where
  "analyze_path_terminates_default G body c =
    analyze_path_terminates G body c path_terminates_config_default DEFAULT_MAX_ITERATIONS"

definition may_fallthrough_at_block :: "('g, bool) dataflow_result \<Rightarrow> node \<Rightarrow> bool" where
  "may_fallthrough_at_block r block = (case dr_block_in r block of None \<Rightarrow> False | Some l \<Rightarrow> l)"


section \<open>What it decides\<close>

text \<open>
  A block control passes through holds no return and no raise. Control falls off from a
  vertex when executable edges lead from it to the exit through such blocks only.
\<close>

definition passes :: "hir_body \<Rightarrow> cfg_vertex list \<Rightarrow> node \<Rightarrow> bool" where
  "passes body ns v \<longleftrightarrow>
     (case ns ! v of
        BasicBlock ss \<Rightarrow> list_all (\<lambda>s. \<not> is_terminator (body_stmt_arena body ! s)) ss
      | _ \<Rightarrow> True)"

inductive falls_off :: "hir_body \<Rightarrow> cfg_vertex list \<Rightarrow> cfg_edge set \<Rightarrow> node \<Rightarrow> node \<Rightarrow> bool"
  for body ns A exit where
  at_exit: "falls_off body ns A exit exit"
| through: "passes body ns v \<Longrightarrow> (v, k, w) \<in> A \<Longrightarrow> is_executable k \<Longrightarrow> falls_off body ns A exit w \<Longrightarrow>
    falls_off body ns A exit v"

lemma path_terminates_edge: "transfer_edge (path_terminates_transfer body) k l \<longleftrightarrow> l \<and> is_executable k"
  by (cases k) (simp_all add: path_terminates_transfer_def is_executable_def)

lemma path_terminates_stmt:
  "s < length (body_stmt_arena body) \<Longrightarrow> transfer_stmt (path_terminates_transfer body) s l =
    Inr (l \<and> \<not> is_terminator (body_stmt_arena body ! s))"
  by (cases "body_stmt_arena body ! s")
    (simp_all add: path_terminates_transfer_def stmt_at_ok is_terminator_def)

lemma path_terminates_stmts:
  "\<forall>s \<in> set ss. s < length (body_stmt_arena body) \<Longrightarrow>
    transfer_stmts (path_terminates_transfer body) ss l =
      Inr (l \<and> list_all (\<lambda>s. \<not> is_terminator (body_stmt_arena body ! s)) ss)"
  by (induction ss arbitrary: l) (auto simp: path_terminates_stmt)

text \<open>The join over edges whose far ends have a state: whether one of them lets control pass.\<close>

lemma gather_passes:
  assumes "\<forall>(p, k) \<in> set es. outs p \<noteq> None"
  shows "gather (path_terminates_transfer body) outs es (Some b) =
    Some (b \<or> (\<exists>(p, k) \<in> set es. outs p = Some True \<and> is_executable k))"
  using assms
proof (induction es arbitrary: b)
  case (Cons e es)
  obtain p k l where e: "e = (p, k)" "outs p = Some l"
    using Cons.prems by (cases e) auto
  have "gather (path_terminates_transfer body) outs (e # es) (Some b) =
      gather (path_terminates_transfer body) outs es (Some (b \<or> l \<and> is_executable k))"
    using e by (simp add: path_terminates_edge) (simp add: path_terminates_transfer_def)
  then show ?case
    using Cons e by auto
qed simp

lemma gather_passes_nonempty:
  assumes "es \<noteq> []" and "\<forall>(p, k) \<in> set es. outs p \<noteq> None"
  shows "gather (path_terminates_transfer body) outs es None =
    Some (\<exists>(p, k) \<in> set es. outs p = Some True \<and> is_executable k)"
proof -
  obtain p k rest where es: "es = (p, k) # rest"
    using assms(1) by (cases es) auto
  obtain l where l: "outs p = Some l"
    using assms(2) es by auto
  show ?thesis
    using gather_passes [of rest outs body "l \<and> is_executable k"] assms(2)
    by (auto simp: es l path_terminates_edge)
qed


section \<open>On a built graph\<close>

sublocale built_graph \<subseteq> terminates: built_monotone G nodes edges c body "path_terminates_transfer body"
  "\<lambda>a b. a \<longrightarrow> b" "\<lambda>b. if b then 1 else 0" 1
proof
  fix s l
  assume "s < length (body_stmt_arena body)"
  then show "\<exists>l'. transfer_stmt (path_terminates_transfer body) s l = Inr l'"
    by (simp add: path_terminates_stmt)
next
  fix a b a' b' :: bool and s
  assume "a \<longrightarrow> b" "transfer_stmt (path_terminates_transfer body) s a = Inr a'"
    "transfer_stmt (path_terminates_transfer body) s b = Inr b'"
  then show "a' \<longrightarrow> b'"
    by (auto simp: path_terminates_transfer_def and_then_def split: sum.splits stmt.splits)
qed (auto simp: path_terminates_edge, auto simp: path_terminates_transfer_def)

context built_graph
begin

abbreviation (input) falls :: "node \<Rightarrow> bool" where
  "falls \<equiv> falls_off body (nodes (cfg_graph c)) (set_mset (edges (cfg_graph c))) (cfg_exit c)"

lemma block_passes:
  assumes "v < N"
  shows "transfer_block G c (path_terminates_transfer body) v l = Inr (l \<and> passes body (nodes (cfg_graph c)) v)"
proof -
  have "get (nodes (cfg_graph c)) v = Some (nodes (cfg_graph c) ! v)"
    using assms by simp
  moreover have "transfer_expr (path_terminates_transfer body) e l = l"
    "transfer_loop_var_bind (path_terminates_transfer body) x l = l"
    "transfer_try_entry (path_terminates_transfer body) t l = l" for e x t
    by (simp_all add: path_terminates_transfer_def)
  moreover have "transfer_stmts (path_terminates_transfer body) ss l =
      Inr (l \<and> list_all (\<lambda>s. \<not> is_terminator (body_stmt_arena body ! s)) ss)"
    if "nodes (cfg_graph c) ! v = BasicBlock ss" for ss
    using contents assms that by (intro path_terminates_stmts) (auto simp: cfg_contents_def)
  ultimately show ?thesis
    by (cases "nodes (cfg_graph c) ! v")
      (auto simp: transfer_block_def vertex_def node_weight passes_def split: option.splits)
qed

lemma exit_passes: "passes body (nodes (cfg_graph c)) (cfg_exit c)" "cfg_exit c < N"
  using contents shape by (simp_all add: cfg_contents_def cfg_shape_def passes_def)

text \<open>Where a block starts from, the two tables being filled.\<close>

lemma start_falls:
  assumes "v < N" and "\<forall>w < N. outs w \<noteq> None"
  shows "start_state (path_terminates_transfer body) (outgoing_edges G c) (\<lambda>i. i = cfg_exit c) ins outs v =
    (if v = cfg_exit c then expect_state ins v
     else Inr (\<exists>(w, k) \<in> set (outgoing_edges G c v). outs w = Some True \<and> is_executable k))"
proof (cases "v = cfg_exit c")
  case True
  then show ?thesis
    by (simp add: start_state_def exit_leaves_not)
next
  case False
  have "\<forall>(p, k) \<in> set (outgoing_edges G c v). outs p \<noteq> None"
    using assms(2) ends by (fastforce simp: outgoing_edges_def set_edges_out)
  with leaves [OF assms(1) False]
  show ?thesis
    using False by (simp add: start_state_def gather_passes_nonempty)
qed

text \<open>While the loop runs, the exit keeps its state and every block marked falls off.\<close>

definition marks_fall :: "(node \<rightharpoonup> bool) \<Rightarrow> (node \<rightharpoonup> bool) \<Rightarrow> bool" where
  "marks_fall ins outs \<longleftrightarrow> ins (cfg_exit c) = Some True \<and> (\<forall>w < N. outs w \<noteq> None) \<and>
     (\<forall>v < N. outs v = Some True \<longrightarrow> falls v)"

lemma marks_fall_step:
  assumes m: "marks_fall ins outs" and v: "v \<in> {..<N}"
    and i: "start_state (path_terminates_transfer body) (outgoing_edges G c) (\<lambda>i. i = cfg_exit c) ins outs v = Inr i"
    and l: "transfer_block G c (path_terminates_transfer body) v i = Inr l"
  shows "marks_fall (ins(v \<mapsto> i)) (outs(v \<mapsto> l))"
proof -
  have l': "l \<longleftrightarrow> i \<and> passes body (nodes (cfg_graph c)) v"
    using l block_passes v by simp
  show ?thesis
  proof (cases "v = cfg_exit c")
    case True
    then show ?thesis
      using m i exit_passes l' v by (auto simp: marks_fall_def start_falls expect_state_def at_exit)
  next
    case False
    have "falls v" if L: l
    proof -
      obtain w k where w: "(w, k) \<in> set (outgoing_edges G c v)" "outs w = Some True" "is_executable k"
        using i False v m L l' by (auto simp: start_falls marks_fall_def)
      then have "(v, k, w) \<in># edges (cfg_graph c)"
        by (simp add: outgoing_edges_def set_edges_out)
      then show ?thesis
        using m w L l' ends by (intro through [of body _ v k w]) (auto simp: marks_fall_def)
    qed
    then show ?thesis
      using m False by (auto simp: marks_fall_def)
  qed
qed

text \<open>At a solution every vertex control falls off from is marked.\<close>

lemma falls_marked:
  assumes m: "marks_fall ins outs" and "falls v"
    and eq: "\<forall>v < N. block_equation (path_terminates_transfer body) (transfer_block G c (path_terminates_transfer body))
      (outgoing_edges G c) (\<lambda>i. i = cfg_exit c) ins outs v"
  shows "v < N \<longrightarrow> outs v = Some True"
  using assms(2)
proof (induction rule: falls_off.induct)
  case at_exit
  obtain i l where "ins (cfg_exit c) = Some i" "transfer_block G c (path_terminates_transfer body) (cfg_exit c) i = Inr l"
    "outs (cfg_exit c) = Some l"
    using eq exit_passes(2) unfolding block_equation_def by blast
  then show ?case
    using m exit_passes by (auto simp: block_passes marks_fall_def)
next
  case (through v k w)
  have v: "v < N" "w < N"
    using through.hyps(2) ends by blast+
  obtain i l where il: "start_state (path_terminates_transfer body) (outgoing_edges G c) (\<lambda>i. i = cfg_exit c) ins outs v = Inr i"
    "transfer_block G c (path_terminates_transfer body) v i = Inr l" "outs v = Some l" "ins v = Some i"
    using eq v(1) unfolding block_equation_def by blast
  have "(w, k) \<in> set (outgoing_edges G c v)"
    using through.hyps(2) by (simp add: outgoing_edges_def set_edges_out)
  then have i
    using il(1,4) v m through.IH through.hyps(3)
    by (cases "v = cfg_exit c") (auto simp: start_falls marks_fall_def expect_state_def)
  then show ?case
    using il(2,3) block_passes [OF v(1)] through.hyps(1) by simp
qed

text \<open>The solver as the analysis sets it up.\<close>

definition terminates_solver :: "nat \<Rightarrow> ('g, bool) solver" where
  "terminates_solver n = set_bottom_factory G False
     (set_max_iterations n (set_direction Backward (solver_new c (path_terminates_transfer body))))"

lemma terminates_solver_start:
  "set_initial_state_at_exit G True (terminates_solver n) =
    Inr ((terminates_solver n)\<lparr>sv_block_out := (sv_block_out (terminates_solver n))(cfg_exit c \<mapsto> True)\<rparr>)"
  "sv_cfg (terminates_solver n) = c" "sv_transfer (terminates_solver n) = path_terminates_transfer body"
  "sv_direction (terminates_solver n) = Backward" "sv_max_iterations (terminates_solver n) = n"
  "v < N \<Longrightarrow> sv_block_in (terminates_solver n) v = Some False"
  "v < N \<Longrightarrow> sv_block_out (terminates_solver n) v = Some False"
  by (auto simp: terminates_solver_def set_initial_state_at_exit_def all_initialized_def list_all_iff
      set_bottom_factory_tables set_max_iterations_def set_direction_def solver_new_def vertices_def counts)

lemma analyze_path_terminates_ok:
  assumes "\<not> loops_executed_at_least_once config"
  shows "returns False (analyze_path_terminates G body c config n) (\<lambda>r.
    (\<forall>v < N. may_fallthrough_at_block r v \<longrightarrow> falls v) \<and>
    (dr_converged r \<longrightarrow> (\<forall>v < N. falls v \<longrightarrow> may_fallthrough_at_block r v)) \<and>
    (N + size (edges (cfg_graph c)) \<le> n \<longrightarrow> dr_converged r))"
proof -
  let ?s = "(terminates_solver n)\<lparr>sv_block_out := (sv_block_out (terminates_solver n))(cfg_exit c \<mapsto> True)\<rparr>"
  have s: "sv_cfg ?s = c" "sv_transfer ?s = path_terminates_transfer body" "sv_direction ?s = Backward"
    "sv_max_iterations ?s = n" "all_initialized G ?s"
    using terminates_solver_start by (auto simp: all_initialized_def list_all_iff vertices_def counts)
  have tables: "v \<in> {..<N} \<Longrightarrow> sv_block_out ?s v \<noteq> None \<and> sv_block_in ?s v \<noteq> None" for v
    using terminates_solver_start(6,7) by auto
  have "marks_fall (sv_block_out ?s) (sv_block_in ?s)"
    using terminates_solver_start(6,7) by (auto simp: marks_fall_def)
  then have "returns False (run_flow (path_terminates_transfer body) (transfer_block G c (path_terminates_transfer body))
      (outgoing_edges G c) (incoming_edges G c) (\<lambda>i. i = cfg_exit c) n (postorder_from_exit G c)
      (sv_block_out ?s) (sv_block_in ?s)) (\<lambda>f. marks_fall (fl_in f) (fl_out f))"
    by (intro terminates.backward.run_flow_invariant [OF orders(3,4), where P = marks_fall])
      (rule tables marks_fall_step | assumption)+
  then have inv: "returns False (solve G ?s) (\<lambda>r. marks_fall (dr_block_out r) (dr_block_in r))"
    unfolding solve_def s(3) direction.case solve_backward_def Let_def
    by (simp only: s returns_and_then returns_Inr not_True_eq_False if_False
        dataflow_result.select_convs)
  have "returns False (solve G ?s) dr_converged" if "N + size (edges (cfg_graph c)) \<le> n"
  proof (rule terminates.solve_backward_converges [OF s(1-3,5)])
    show "terminates.backward.rising (sv_block_out ?s) (sv_block_in ?s)"
      using terminates_solver_start(6)
      by (auto simp: terminates.backward.rising_def terminates.backward.below_def option.rel_refl)
  qed (use s(4) that in simp)
  then have conv: "returns False (solve G ?s) (\<lambda>r. N + size (edges (cfg_graph c)) \<le> n \<longrightarrow> dr_converged r)"
    using inv by (cases "N + size (edges (cfg_graph c)) \<le> n") (auto elim: returns_mono)
  have "returns False (solve G ?s) (\<lambda>r.
    (\<forall>v < N. may_fallthrough_at_block r v \<longrightarrow> falls v) \<and>
    (dr_converged r \<longrightarrow> (\<forall>v < N. falls v \<longrightarrow> may_fallthrough_at_block r v)) \<and>
    (N + size (edges (cfg_graph c)) \<le> n \<longrightarrow> dr_converged r))"
    using returns_conj [OF inv returns_conj [OF conv terminates.solve_fixpoint [OF s(1,2,5)]]]
  proof (rule returns_mono)
    fix r
    assume r: "marks_fall (dr_block_out r) (dr_block_in r) \<and>
      (N + size (edges (cfg_graph c)) \<le> n \<longrightarrow> dr_converged r) \<and> dr_cfg r = c \<and>
      (\<forall>v < N. dr_block_in r v \<noteq> None \<and> dr_block_out r v \<noteq> None) \<and>
      (dr_converged r \<longrightarrow> (\<forall>v < N. flow_equation G c (path_terminates_transfer body) (sv_direction ?s) r v))"
    have may: "may_fallthrough_at_block r v \<longleftrightarrow> dr_block_in r v = Some True" for v
      by (simp add: may_fallthrough_at_block_def split: option.split)
    have "may_fallthrough_at_block r v" if "dr_converged r" "v < N" "falls v" for v
    proof -
      have "\<forall>v < N. block_equation (path_terminates_transfer body)
          (transfer_block G c (path_terminates_transfer body)) (outgoing_edges G c) (\<lambda>i. i = cfg_exit c)
          (dr_block_out r) (dr_block_in r) v"
        using r that(1) unfolding s(3) by (simp add: flow_equation_def)
      then show ?thesis
        using falls_marked [of "dr_block_out r" "dr_block_in r" v] r that(2,3) unfolding may by blast
    qed
    moreover have "falls v" if "v < N" "may_fallthrough_at_block r v" for v
      using r that unfolding may marks_fall_def by blast
    ultimately show "(\<forall>v < N. may_fallthrough_at_block r v \<longrightarrow> falls v) \<and>
      (dr_converged r \<longrightarrow> (\<forall>v < N. falls v \<longrightarrow> may_fallthrough_at_block r v)) \<and>
      (N + size (edges (cfg_graph c)) \<le> n \<longrightarrow> dr_converged r)"
      using r by blast
  qed
  then show ?thesis
    using assms unfolding analyze_path_terminates_def
    by (simp add: terminates_solver_start(1) flip: terminates_solver_def)
qed

end


section \<open>Properties\<close>

definition loop_graph :: "list_graph control_flow_graph" where
  "loop_graph = (case build_graph_from_hir list_digraph (body_top loop_then_return) loop_then_return of
     Inr c \<Rightarrow> c | Inl _ \<Rightarrow> cfg_new list_digraph)"

lemma loop_graph_built:
  "build_graph_from_hir list_digraph (body_top loop_then_return) loop_then_return = Inr loop_graph"
  "length (lg_nodes (cfg_graph loop_graph)) = 7" "length (lg_edges (cfg_graph loop_graph)) = 9"
  by (rule list_cfgE [OF loop_then_return_parts]; simp add: loop_graph_def)+

lemma built_graphI:
  assumes "digraph_laws G nodes edges" and "body_ok body" and "build_graph_from_hir G (body_top body) body = Inr c"
  shows "built_graph G nodes edges c body"
  using assms(1) built_shape [OF assms] by (simp add: built_graph_def built_graph_axioms_def)

interpretation loop_example: built_graph list_digraph lg_nodes "\<lambda>g. mset (lg_edges g)" loop_graph loop_then_return
  by (rule built_graphI [OF lists.digraph_laws_axioms example_bodies(1) loop_graph_built(1)])

text \<open>
  C32. On the graph of a lowered body, an analysis that does not panic on the body's
  statements and whose tables were filled before the solver starts: the solver returns, in
  either direction, every vertex has a state on both sides, and when the result says it
  converged the states solve the equations of the analysis at every vertex, the ones in
  dead code included.
\<close>

theorem solve_solves_equations:
  assumes "digraph_laws G nodes edges" and "body_ok body"
    and "build_graph_from_hir G (body_top body) body = Inr c"
    and "\<forall>s l. s < length (body_stmt_arena body) \<longrightarrow> (\<exists>l'. transfer_stmt T s l = Inr l')"
    and "sv_cfg s = c" and "sv_transfer s = T" and "all_initialized G s"
  shows "\<exists>r. solve G s = Inr r \<and>
    (\<forall>v < length (nodes (cfg_graph c)). dr_block_in r v \<noteq> None \<and> dr_block_out r v \<noteq> None) \<and>
    (dr_converged r \<longrightarrow> (\<forall>v < length (nodes (cfg_graph c)). flow_equation G c T (sv_direction s) r v))"
proof -
  have "built_flow G nodes edges c body T"
    using built_graphI [OF assms(1-3)] assms(4) by (simp add: built_flow_def built_flow_axioms_def)
  from built_flow.solve_fixpoint [OF this assms(5-7)]
  show ?thesis
    by (auto simp: returns_def split: sum.splits fault.splits)
qed

theorem solve_solves_equations_witness:
  "\<exists>r. solve list_digraph (loop_example.terminates_solver 100) = Inr r \<and>
    dr_block_in r 1 \<noteq> None \<and> dr_block_out r 1 \<noteq> None"
proof -
  have "\<forall>s l. s < length (body_stmt_arena loop_then_return) \<longrightarrow>
      (\<exists>l'. transfer_stmt (path_terminates_transfer loop_then_return) s l = Inr l')"
    by (simp add: path_terminates_stmt)
  moreover have "all_initialized list_digraph (loop_example.terminates_solver 100)"
    using loop_example.terminates_solver_start(2,6,7)
    by (auto simp: all_initialized_def list_all_iff vertices_def lists.counts)
  ultimately show ?thesis
    using solve_solves_equations [OF lists.digraph_laws_axioms example_bodies(1) loop_graph_built(1) _
        loop_example.terminates_solver_start(2,3)] loop_graph_built(2) by fastforce
qed

text \<open>
  C33. The analysis returns on the graph of every lowered body. Whatever the budget of
  iterations, a vertex is marked only when control falls off from it: executable edges lead
  from it to the exit through blocks without a return or a raise. With a budget of at least
  the number of vertices plus the number of edges the solver converges and marks every
  such vertex.
\<close>

theorem path_terminates_correct:
  assumes "digraph_laws G nodes edges" and "body_ok body"
    and "build_graph_from_hir G (body_top body) body = Inr c"
    and "\<not> loops_executed_at_least_once config"
  shows "\<exists>r. analyze_path_terminates G body c config n = Inr r \<and>
    (\<forall>v < length (nodes (cfg_graph c)). may_fallthrough_at_block r v \<longrightarrow>
      falls_off body (nodes (cfg_graph c)) (set_mset (edges (cfg_graph c))) (cfg_exit c) v) \<and>
    (length (nodes (cfg_graph c)) + size (edges (cfg_graph c)) \<le> n \<longrightarrow>
      dr_converged r \<and> (\<forall>v < length (nodes (cfg_graph c)).
        falls_off body (nodes (cfg_graph c)) (set_mset (edges (cfg_graph c))) (cfg_exit c) v \<longrightarrow>
        may_fallthrough_at_block r v))"
  using built_graph.analyze_path_terminates_ok [OF built_graphI [OF assms(1-3)] assms(4), of n]
  by (auto simp: returns_def split: sum.splits fault.splits)

theorem path_terminates_correct_witness:
  "\<exists>r. analyze_path_terminates list_digraph loop_then_return loop_graph path_terminates_config_default 100 = Inr r \<and>
    dr_converged r \<and>
    (may_fallthrough_at_block r 1 \<longleftrightarrow> falls_off loop_then_return (lg_nodes (cfg_graph loop_graph))
      (set (lg_edges (cfg_graph loop_graph))) (cfg_exit loop_graph) 1)"
proof -
  have "\<not> loops_executed_at_least_once path_terminates_config_default"
    by (simp add: path_terminates_config_default_def)
  from path_terminates_correct [OF lists.digraph_laws_axioms example_bodies(1) loop_graph_built(1) this, of 100]
  show ?thesis
    unfolding loop_graph_built size_mset set_mset_mset by fastforce
qed

end
