(* ===== verification/Witness_Paths.thy ===== *)
theory Witness_Paths
  imports Definite_Init_Correct Path_Terminates
begin

text \<open>
  The search for a path without initialization: a breadth-first walk backwards over pairs of a
  vertex and the demand that it be entered along a back edge. It returns a path of the kind it
  promises exactly when there is one.
\<close>

section \<open>The search\<close>

text \<open>
  Pairs chained by the edges the search may follow, from any pair to the one it started from,
  and the chain that the table of parents holds.
\<close>

type_synonym pair_chain = "(search_pair \<times> cfg_edge_type) list"

definition pairs_head :: "search_pair \<Rightarrow> pair_chain \<Rightarrow> search_pair" where
  "pairs_head origin qs = (case qs of [] \<Rightarrow> origin | (q, _) # _ \<Rightarrow> q)"

fun linked_pairs ::
  "(search_pair \<Rightarrow> node \<times> cfg_edge_type \<Rightarrow> search_pair option) \<Rightarrow> (node \<Rightarrow> (node \<times> cfg_edge_type) list) \<Rightarrow>
     search_pair \<Rightarrow> pair_chain \<Rightarrow> bool" where
  "linked_pairs next inc origin [] \<longleftrightarrow> True"
| "linked_pairs next inc origin ((q, e) # qs) \<longleftrightarrow>
     (fst q, e) \<in> set (inc (fst (pairs_head origin qs))) \<and> next (pairs_head origin qs) (fst q, e) = Some q \<and>
     linked_pairs next inc origin qs"

fun climbs :: "(search_pair \<rightharpoonup> search_pair \<times> cfg_edge_type) \<Rightarrow> search_pair \<Rightarrow> search_pair \<Rightarrow> pair_chain \<Rightarrow> bool" where
  "climbs parent origin q [] \<longleftrightarrow> q = origin"
| "climbs parent origin q ((q', e) # qs) \<longleftrightarrow>
     q' = q \<and> q \<noteq> origin \<and> (\<exists>p. parent q = Some (p, e) \<and> climbs parent origin p qs)"

definition chain_steps :: "pair_chain \<Rightarrow> witness_step list" where
  "chain_steps qs = map (\<lambda>(q, e). \<lparr>ws_vertex = fst q, ws_edge = e\<rparr>) qs"

lemma climbs_head: "climbs parent origin q qs \<Longrightarrow> pairs_head origin qs = q"
  by (cases qs) (auto simp: pairs_head_def)

lemma climbs_steps_to:
  "climbs parent origin q qs \<Longrightarrow> length qs \<le> n \<Longrightarrow> steps_to n parent q origin = Inr (chain_steps qs)"
proof (induction qs arbitrary: q n)
  case Nil
  then show ?case
    by (subst steps_to.simps) (simp add: chain_steps_def)
next
  case (Cons x qs)
  obtain e p where x: "x = (q, e)" "q \<noteq> origin" "parent q = Some (p, e)" "climbs parent origin p qs"
    using Cons.prems(1) by (cases x) auto
  obtain m where "n = Suc m" "length qs \<le> m"
    using Cons.prems(2) by (cases n) auto
  then show ?case
    using Cons.IH [OF x(4)] x by (subst steps_to.simps) (simp add: chain_steps_def)
qed

lemma climbs_linked:
  assumes "\<forall>q p e. parent q = Some (p, e) \<longrightarrow> (fst q, e) \<in> set (inc (fst p)) \<and> next p (fst q, e) = Some q"
  shows "climbs parent origin q qs \<Longrightarrow> linked_pairs next inc origin qs"
proof (induction qs arbitrary: q)
  case (Cons x qs)
  obtain e p where x: "x = (q, e)" "parent q = Some (p, e)" "climbs parent origin p qs"
    using Cons.prems by (cases x) auto
  then show ?case
    using assms [rule_format, OF x(2)] Cons.IH [OF x(3)] climbs_head [OF x(3)] by simp
qed simp

lemma climbs_extend:
  "climbs parent origin q qs \<Longrightarrow> new \<notin> fst ` set qs \<Longrightarrow> climbs (parent(new := y)) origin q qs"
proof (induction qs arbitrary: q)
  case (Cons x qs)
  then show ?case
    by (cases x) auto
qed simp

definition search_ok ::
  "(search_pair \<Rightarrow> node \<times> cfg_edge_type \<Rightarrow> search_pair option) \<Rightarrow> (node \<Rightarrow> (node \<times> cfg_edge_type) list) \<Rightarrow>
     nat \<Rightarrow> search_pair \<Rightarrow> witness_search \<Rightarrow> bool" where
  "search_ok next inc n origin w \<longleftrightarrow> origin \<in> wq_visited w \<and> set (wq_queue w) \<subseteq> wq_visited w \<and>
     wq_visited w \<subseteq> {..<n} \<times> UNIV \<and>
     (\<forall>q p e. wq_parent w q = Some (p, e) \<longrightarrow> (fst q, e) \<in> set (inc (fst p)) \<and> next p (fst q, e) = Some q) \<and>
     (\<forall>q \<in> wq_visited w. \<exists>qs. climbs (wq_parent w) origin q qs \<and> distinct (map fst qs) \<and> fst ` set qs \<subseteq> wq_visited w)"

lemma search_ok_chain:
  assumes "search_ok next inc n origin w" and "q \<in> wq_visited w"
  shows "\<exists>qs. steps_to (2 * n) (wq_parent w) q origin = Inr (chain_steps qs) \<and> pairs_head origin qs = q \<and>
    linked_pairs next inc origin qs"
proof -
  obtain qs where qs: "climbs (wq_parent w) origin q qs" "distinct (map fst qs)" "fst ` set qs \<subseteq> wq_visited w"
    using assms by (auto simp: search_ok_def)
  have "card (fst ` set qs) \<le> card ({..<n} \<times> (UNIV :: bool set))"
    using qs(3) assms(1) by (intro card_mono) (auto simp: search_ok_def)
  then have "length qs \<le> 2 * n"
    using distinct_card [OF qs(2)] by (simp add: card_cartesian_product)
  then show ?thesis
    using climbs_steps_to [OF qs(1)] climbs_head [OF qs(1)] climbs_linked [OF _ qs(1)] assms(1)
    by (auto simp: search_ok_def)
qed

lemma search_ok_insert:
  assumes ok: "search_ok next inc n origin w" and pair: "pair \<in> wq_visited w" and new: "q \<notin> wq_visited w"
    and q: "(fst q, e) \<in> set (inc (fst pair))" "next pair (fst q, e) = Some q" "fst q < n"
    and w': "wq_visited w' = insert q (wq_visited w)" "wq_parent w' = (wq_parent w)(q \<mapsto> (pair, e))"
      "set (wq_queue w') \<subseteq> insert q (set (wq_queue w))"
  shows "search_ok next inc n origin w'"
proof -
  have chain: "\<exists>qs. climbs (wq_parent w') origin x qs \<and> distinct (map fst qs) \<and> fst ` set qs \<subseteq> wq_visited w"
    if x: "x \<in> wq_visited w" for x
    using ok x new climbs_extend unfolding search_ok_def w'(2) by (metis subsetD)
  obtain qs where qs: "climbs (wq_parent w') origin pair qs" "distinct (map fst qs)" "fst ` set qs \<subseteq> wq_visited w"
    using chain [OF pair] by blast
  have "q \<noteq> origin"
    using ok new by (auto simp: search_ok_def)
  then have "climbs (wq_parent w') origin q ((q, e) # qs)"
    using qs(1) w'(2) by simp
  moreover have "distinct (map fst ((q, e) # qs))" "fst ` set ((q, e) # qs) \<subseteq> wq_visited w'"
    using qs(2,3) new w'(1) by auto
  ultimately have here: "\<exists>qs. climbs (wq_parent w') origin q qs \<and> distinct (map fst qs) \<and> fst ` set qs \<subseteq> wq_visited w'"
    by blast
  have chains: "\<forall>x \<in> wq_visited w'. \<exists>qs. climbs (wq_parent w') origin x qs \<and> distinct (map fst qs) \<and>
      fst ` set qs \<subseteq> wq_visited w'"
  proof
    fix x
    assume "x \<in> wq_visited w'"
    then consider "x = q" | "x \<in> wq_visited w"
      using w'(1) by blast
    then show "\<exists>qs. climbs (wq_parent w') origin x qs \<and> distinct (map fst qs) \<and> fst ` set qs \<subseteq> wq_visited w'"
    proof cases
      case 2
      then obtain qs where "climbs (wq_parent w') origin x qs \<and> distinct (map fst qs) \<and> fst ` set qs \<subseteq> wq_visited w"
        using chain by blast
      then show ?thesis
        using w'(1) by (intro exI [of _ qs]) auto
    qed (use here in simp)
  qed
  have "wq_visited w' \<subseteq> {..<n} \<times> UNIV"
    using ok q(3) w'(1) by (cases q) (auto simp: search_ok_def)
  moreover have "(fst x, k) \<in> set (inc (fst p)) \<and> next p (fst x, k) = Some x" if "wq_parent w' x = Some (p, k)" for x p k
  proof (cases "x = q")
    case True
    then show ?thesis
      using that q(1,2) w'(2) by simp
  next
    case False
    then have "wq_parent w x = Some (p, k)"
      using that w'(2) by simp
    then show ?thesis
      using ok unfolding search_ok_def by blast
  qed
  moreover have "origin \<in> wq_visited w'" "set (wq_queue w') \<subseteq> wq_visited w'"
    using ok w'(1,3) by (auto simp: search_ok_def)
  ultimately show ?thesis
    unfolding search_ok_def using chains by blast
qed

text \<open>What the pass over the edges into one vertex leaves behind.\<close>

definition edges_done ::
  "(search_pair \<Rightarrow> node \<times> cfg_edge_type \<Rightarrow> search_pair option) \<Rightarrow> (node \<Rightarrow> (node \<times> cfg_edge_type) list) \<Rightarrow>
     nat \<Rightarrow> search_pair \<Rightarrow> search_pair \<Rightarrow> node \<Rightarrow> witness_search \<Rightarrow> (node \<times> cfg_edge_type) list \<Rightarrow>
     witness_search + witness_search \<times> search_pair \<Rightarrow> bool" where
  "edges_done next inc n origin pair s w es r \<longleftrightarrow>
    (case r of
       Inl w' \<Rightarrow> search_ok next inc n origin w' \<and> (s, False) \<notin> wq_visited w' \<and>
         (\<exists>new. wq_queue w' = wq_queue w @ new \<and> wq_visited w' = wq_visited w \<union> set new \<and>
           distinct new \<and> set new \<inter> wq_visited w = {}) \<and>
         (\<forall>x \<in> set es. \<forall>q. next pair x = Some q \<longrightarrow> q \<in> wq_visited w')
     | Inr (w', q) \<Rightarrow> q = (s, False) \<and> search_ok next inc n origin w' \<and> q \<in> wq_visited w')"

lemma edges_done_skip:
  assumes "edges_done next inc n origin pair s w es r" and "\<forall>q. next pair x = Some q \<longrightarrow> q \<in> wq_visited w"
  shows "edges_done next inc n origin pair s w (x # es) r"
  using assms by (cases r) (auto simp: edges_done_def)

lemma edges_done_add:
  assumes "edges_done next inc n origin pair s w' es r" and "next pair x = Some q" and "q \<notin> wq_visited w"
    and "wq_queue w' = wq_queue w @ [q]" and "wq_visited w' = insert q (wq_visited w)"
  shows "edges_done next inc n origin pair s w (x # es) r"
proof (cases r)
  case (Inl w2)
  then obtain new where new: "wq_queue w2 = wq_queue w' @ new" "wq_visited w2 = wq_visited w' \<union> set new"
    "distinct new" "set new \<inter> wq_visited w' = {}"
    using assms(1) by (auto simp: edges_done_def)
  then have "wq_queue w2 = wq_queue w @ (q # new)" "wq_visited w2 = wq_visited w \<union> set (q # new)"
    "distinct (q # new)" "set (q # new) \<inter> wq_visited w = {}"
    using assms(3-5) by auto
  then have "\<exists>new. wq_queue w2 = wq_queue w @ new \<and> wq_visited w2 = wq_visited w \<union> set new \<and>
      distinct new \<and> set new \<inter> wq_visited w = {}"
    by blast
  moreover have "q \<in> wq_visited w2"
    using new(2) assms(5) by simp
  ultimately show ?thesis
    using assms(1,2) Inl by (auto simp: edges_done_def)
qed (use assms(1) in \<open>auto simp: edges_done_def\<close>)

lemma witness_edges_ok:
  assumes "search_ok next inc n origin w" and "pair \<in> wq_visited w" and "(s, False) \<notin> wq_visited w"
    and "set es \<subseteq> set (inc (fst pair))" and next_fst: "\<And>u e q. next pair (u, e) = Some q \<Longrightarrow> fst q = u"
    and below: "\<forall>(u, e) \<in> set (inc (fst pair)). u < n"
  shows "edges_done next inc n origin pair s w es (witness_edges (next pair) s pair es w)"
  using assms(1-4)
proof (induction es arbitrary: w)
  case Nil
  then show ?case
    by (simp add: edges_done_def)
next
  case (Cons x es)
  obtain u e where x: "x = (u, e)"
    by (cases x)
  have es: "set es \<subseteq> set (inc (fst pair))"
    using Cons.prems(4) by simp
  show ?case
  proof (cases "\<forall>q. next pair (u, e) = Some q \<longrightarrow> q \<in> wq_visited w")
    case True
    then have "witness_edges (next pair) s pair (x # es) w = witness_edges (next pair) s pair es w"
      by (cases "next pair (u, e)") (simp_all add: x)
    then show ?thesis
      using edges_done_skip [OF Cons.IH [OF Cons.prems(1-3) es]] True x by simp
  next
    case False
    then obtain q where q: "next pair (u, e) = Some q" "q \<notin> wq_visited w"
      by blast
    have u: "fst q = u" "(fst q, e) \<in> set (inc (fst pair))" "fst q < n"
      using next_fst [OF q(1)] Cons.prems(4) x below by auto
    let ?w = "w\<lparr>wq_visited := insert q (wq_visited w), wq_parent := (wq_parent w)(q \<mapsto> (pair, e))\<rparr>"
    let ?w' = "?w\<lparr>wq_queue := wq_queue ?w @ [q]\<rparr>"
    have ok: "search_ok next inc n origin ?w" "search_ok next inc n origin ?w'"
      using q(1) u(1) by (auto intro!: search_ok_insert [OF Cons.prems(1,2) q(2) u(2) _ u(3)])
    show ?thesis
    proof (cases "q = (s, False)")
      case True
      then show ?thesis
        using q x ok(1) by (simp add: edges_done_def)
    next
      case False
      have "edges_done next inc n origin pair s ?w' es (witness_edges (next pair) s pair es ?w')"
        using Cons.prems(2,3) False by (intro Cons.IH ok(2) es) auto
      from edges_done_add [OF this _ q(2), of x] show ?thesis
        using q False x by simp
    qed
  qed
qed


text \<open>The whole search: a chain to the start when there is one, and only then.\<close>

definition pairs_inv ::
  "(search_pair \<Rightarrow> node \<times> cfg_edge_type \<Rightarrow> search_pair option) \<Rightarrow> (node \<Rightarrow> (node \<times> cfg_edge_type) list) \<Rightarrow>
     nat \<Rightarrow> search_pair \<Rightarrow> node \<Rightarrow> witness_search \<Rightarrow> bool" where
  "pairs_inv next inc n origin s w \<longleftrightarrow> search_ok next inc n origin w \<and> (s, False) \<notin> wq_visited w \<and>
     (\<forall>p \<in> wq_visited w. p \<notin> set (wq_queue w) \<longrightarrow> (\<forall>x \<in> set (inc (fst p)). \<forall>q. next p x = Some q \<longrightarrow> q \<in> wq_visited w))"

definition search_left :: "nat \<Rightarrow> witness_search \<Rightarrow> nat" where
  "search_left n w = 2 * n - card (wq_visited w) + length (wq_queue w)"

lemma search_closed:
  assumes inv: "pairs_inv next inc n origin s w" and "wq_queue w = []" and "linked_pairs next inc origin qs"
  shows "pairs_head origin qs \<in> wq_visited w"
  using assms(3)
proof (induction qs)
  case Nil
  then show ?case
    using inv by (simp add: pairs_head_def pairs_inv_def search_ok_def)
next
  case (Cons x qs)
  obtain q e where x: "x = (q, e)"
    by (cases x)
  have "pairs_head origin qs \<in> wq_visited w" "(fst q, e) \<in> set (inc (fst (pairs_head origin qs)))"
    "next (pairs_head origin qs) (fst q, e) = Some q"
    using Cons x by simp_all
  then have "q \<in> wq_visited w"
    using inv assms(2) unfolding pairs_inv_def by (metis empty_iff list.set(1))
  then show ?case
    by (simp add: pairs_head_def x)
qed

lemma search_continues:
  assumes inv: "pairs_inv next inc n origin s w" and queue: "wq_queue w = pair # rest"
    and w': "edges_done next inc n origin pair s (w\<lparr>wq_queue := rest\<rparr>) (inc (fst pair)) (Inl w')"
  shows "pairs_inv next inc n origin s w' \<and> search_left n w' < search_left n w"
proof -
  have visited: "wq_visited w \<subseteq> {..<n} \<times> UNIV" "wq_visited w' \<subseteq> {..<n} \<times> UNIV" "pair \<in> wq_visited w"
    using inv w' queue by (auto simp: pairs_inv_def search_ok_def edges_done_def)
  have fin: "finite (wq_visited w)" and le: "card (wq_visited w') \<le> 2 * n"
    using finite_subset [OF visited(1)] card_mono [OF _ visited(2)] by (simp_all add: card_cartesian_product)
  obtain new where new: "wq_queue w' = rest @ new" "wq_visited w' = wq_visited w \<union> set new" "distinct new"
    "set new \<inter> wq_visited w = {}"
    using w' by (auto simp: edges_done_def)
  have "card (wq_visited w') = card (wq_visited w) + length new"
    using new(2-4) fin by (simp add: card_Un_disjoint Int_commute distinct_card)
  then have "search_left n w' < search_left n w"
    using le new(1) queue by (simp add: search_left_def)
  moreover have "q \<in> wq_visited w'" if "p \<in> wq_visited w'" "p \<notin> set (wq_queue w')" "x \<in> set (inc (fst p))" "next p x = Some q" for p x q
  proof (cases "p = pair")
    case True
    then show ?thesis
      using w' that(3,4) unfolding edges_done_def sum.case by blast
  next
    case False
    then have "p \<in> wq_visited w" "p \<notin> set (wq_queue w)"
      using that new(1,2) queue by auto
    then show ?thesis
      using inv that(3,4) new(2) unfolding pairs_inv_def by blast
  qed
  ultimately show ?thesis
    using w' by (simp add: pairs_inv_def edges_done_def)
qed

lemma search_ok_pop:
  "search_ok next inc n origin w \<Longrightarrow> wq_queue w = pair # rest \<Longrightarrow> search_ok next inc n origin (w\<lparr>wq_queue := rest\<rparr>)"
  by (simp add: search_ok_def)

lemma witness_next_fst: "witness_next B r i pair (u, e) = Some q \<Longrightarrow> fst q = u"
  by (auto simp: witness_next_def Let_def split: if_splits option.splits entering_header.splits prod.splits)

lemma search_correct:
  fixes G :: "'g digraph" and B :: "'b bitset" and r :: "('g, 'b) definite_init_result"
  defines "inc \<equiv> incoming_edges G (dr_cfg (di_inner r))" and "n \<equiv> vertex_count G (dr_cfg (di_inner r))"
  assumes below: "\<forall>v. \<forall>(u, e) \<in> set (inc v). u < n" and "t < n" and "t \<noteq> s"
  shows "returns False (loop (2 * n + 1) (witness_pass G B r i s (t, False))
      \<lparr>wq_queue = [(t, False)], wq_visited = {(t, False)}, wq_parent = Map.empty\<rparr>)
    (\<lambda>res. case res of
       None \<Rightarrow> \<nexists>qs. pairs_head (t, False) qs = (s, False) \<and> linked_pairs (witness_next B r i) inc (t, False) qs
     | Some steps \<Rightarrow> \<exists>qs. steps = chain_steps qs \<and> pairs_head (t, False) qs = (s, False) \<and>
         linked_pairs (witness_next B r i) inc (t, False) qs)"
    (is "returns False (loop _ ?pass ?w) ?post")
proof (rule returns_loop [where I = "pairs_inv (witness_next B r i) inc n (t, False) s" and \<mu> = "search_left n"])
  show "pairs_inv (witness_next B r i) inc n (t, False) s ?w" "search_left n ?w < 2 * n + 1"
    using assms(4,5) by (auto simp: pairs_inv_def search_ok_def search_left_def intro: exI [of _ "[]"])
next
  fix w
  assume inv: "pairs_inv (witness_next B r i) inc n (t, False) s w"
  show "returns False (?pass w) (\<lambda>x. case x of
      Inl w' \<Rightarrow> pairs_inv (witness_next B r i) inc n (t, False) s w' \<and> search_left n w' < search_left n w
    | Inr res \<Rightarrow> ?post res)"
  proof (cases "wq_queue w")
    case Nil
    have "pairs_head (t, False) qs \<noteq> (s, False)" if "linked_pairs (witness_next B r i) inc (t, False) qs" for qs
      using search_closed [OF inv Nil that] inv by (auto simp: pairs_inv_def)
    then show ?thesis
      using Nil by (auto simp: witness_pass_def)
  next
    case (Cons pair rest)
    have "search_ok (witness_next B r i) inc n (t, False) (w\<lparr>wq_queue := rest\<rparr>)" "pair \<in> wq_visited w" "(s, False) \<notin> wq_visited w"
      using inv Cons search_ok_pop [OF _ Cons] by (auto simp: pairs_inv_def search_ok_def)
    then have ed: "edges_done (witness_next B r i) inc n (t, False) pair s (w\<lparr>wq_queue := rest\<rparr>) (inc (fst pair))
        (witness_edges (witness_next B r i pair) s pair (inc (fst pair)) (w\<lparr>wq_queue := rest\<rparr>))"
      using below by (intro witness_edges_ok witness_next_fst) simp_all
    show ?thesis
    proof (cases "witness_edges (witness_next B r i pair) s pair (inc (fst pair)) (w\<lparr>wq_queue := rest\<rparr>)")
      case (Inl w')
      then show ?thesis
        using search_continues [OF inv Cons, of w'] ed Cons by (simp add: witness_pass_def Let_def inc_def)
    next
      case (Inr x)
      obtain w' q where x: "x = (w', q)"
        by (cases x)
      then have "search_ok (witness_next B r i) inc n (t, False) w'" "q \<in> wq_visited w'" "q = (s, False)"
        using ed unfolding Inr x edges_done_def sum.case prod.case by blast+
      from search_ok_chain [OF this(1,2)] this(3) show ?thesis
        using Inr x Cons by (auto simp: witness_pass_def Let_def inc_def n_def)
    qed
  qed
qed


section \<open>Paths without initialization\<close>

text \<open>The condition of a loop header whose literal bounds decide its false branch.\<close>

definition enters_at :: "'g control_flow_graph \<Rightarrow> init_events \<Rightarrow> node \<Rightarrow> cfg_edge_type \<Rightarrow> entering_header option" where
  "enters_at c ev v k =
    (case source_stmt_id c v of
       None \<Rightarrow> None
     | Some stmt \<Rightarrow> if k = FalseBranch then ie_entering_headers ev stmt else None)"

text \<open>
  A path of steps to a target over executable edges through vertices that satisfy a test. It
  never leaves a loop that has no exit, and leaves a loop that is entered on the first arrival
  only after it came back to the header.
\<close>

fun witness_path ::
  "cfg_edge set \<Rightarrow> (node \<Rightarrow> bool) \<Rightarrow> (node \<Rightarrow> cfg_edge_type \<Rightarrow> entering_header option) \<Rightarrow> (node \<Rightarrow> node \<Rightarrow> bool) \<Rightarrow>
     node \<Rightarrow> node option \<Rightarrow> witness_step list \<Rightarrow> bool" where
  "witness_path A ok enters back t prev [] \<longleftrightarrow> True"
| "witness_path A ok enters back t prev (s # rest) \<longleftrightarrow>
     (ws_vertex s, ws_edge s, (case rest of [] \<Rightarrow> t | s' # _ \<Rightarrow> ws_vertex s')) \<in> A \<and>
     is_executable (ws_edge s) \<and> ok (ws_vertex s) \<and>
     (case enters (ws_vertex s) (ws_edge s) of
        None \<Rightarrow> True
      | Some NeverExits \<Rightarrow> False
      | Some EntersOnFirstArrival \<Rightarrow> (case prev of None \<Rightarrow> False | Some u \<Rightarrow> back u (ws_vertex s))) \<and>
     witness_path A ok enters back t (Some (ws_vertex s)) rest"

definition path_head :: "node \<Rightarrow> witness_step list \<Rightarrow> node" where
  "path_head t steps = (case steps of [] \<Rightarrow> t | s # _ \<Rightarrow> ws_vertex s)"

lemma chain_steps_head: "path_head (fst origin) (chain_steps qs) = fst (pairs_head origin qs)"
  by (cases qs) (auto simp: path_head_def chain_steps_def pairs_head_def)

context init_flow
begin

abbreviation without :: "nat \<Rightarrow> node \<Rightarrow> bool" where
  "without i u \<equiv> i \<notin> bits_at u"

lemma out_lacks:
  assumes "solved r" and "v < N"
  shows "(case dr_block_out (di_inner r) v of None \<Rightarrow> False | Some st \<Rightarrow> lacks B st i) \<longleftrightarrow>
    arrives A 1 (without i) v \<and> without i v"
proof -
  let ?ins = "dr_block_in (di_inner r)" and ?outs = "dr_block_out (di_inner r)"
  obtain st where st: "?ins v = Some st" "wide st" "misses i st \<longleftrightarrow> arrives A 1 (without i) v"
    using solution_exact [of ?ins ?outs v] assms unfolding solved_def by blast
  obtain l where l: "transfer_block G c T v st = Inr l" "?outs v = Some l"
    using assms st(1) by (auto simp: solved_def block_equation_def)
  show ?thesis
    using block_adds [OF assms(2) st(2) l(1)] st(3) l(2) by (simp add: lacks_misses adds_def)
qed

lemma witness_next_eq:
  assumes "solved r" and "u < N"
  shows "witness_next B r i (v, back_only) (u, k) =
    (if is_executable k \<and> (back_only \<longrightarrow> is_back_edge r u v) \<and> arrives A 1 (without i) u \<and> without i u
     then (case enters_at c ev u k of None \<Rightarrow> Some (u, False) | Some NeverExits \<Rightarrow> None
       | Some EntersOnFirstArrival \<Rightarrow> Some (u, True))
     else None)"
  using out_lacks [OF assms, of i] assms(1)
  by (auto simp: witness_next_def enters_at_def solved_def Let_def)

lemma linked_path:
  assumes "solved r"
  shows "linked_pairs (witness_next B r i) (incoming_edges G c) (t, False) qs \<Longrightarrow>
    (snd (pairs_head (t, False) qs) \<Longrightarrow> \<exists>u. prev = Some u \<and> is_back_edge r u (fst (pairs_head (t, False) qs))) \<Longrightarrow>
    witness_path A (without i) (enters_at c ev) (is_back_edge r) t prev (chain_steps qs)"
proof (induction qs arbitrary: prev)
  case (Cons x qs)
  obtain u b k where x: "x = ((u, b), k)"
    by (cases x) auto
  obtain v back_only where p: "pairs_head (t, False) qs = (v, back_only)"
    by fastforce
  have edge: "(u, k, v) \<in> A" and next_q: "witness_next B r i (v, back_only) (u, k) = Some (u, b)"
    and linked: "linked_pairs (witness_next B r i) (incoming_edges G c) (t, False) qs"
    using Cons.prems(1) x p by (simp_all add: incoming)
  have u: "u < N"
    using ends [OF edge] by simp
  have q: "is_executable k" "back_only \<longrightarrow> is_back_edge r u v" "without i u" "enters_at c ev u k \<noteq> Some NeverExits"
    "b \<longleftrightarrow> enters_at c ev u k = Some EntersOnFirstArrival"
    using next_q unfolding witness_next_eq [OF assms u] by (auto split: if_splits option.splits entering_header.splits)
  have "witness_path A (without i) (enters_at c ev) (is_back_edge r) t (Some u) (chain_steps qs)"
    using Cons.IH [OF linked, of "Some u"] q(2) p by simp
  moreover have "(case chain_steps qs of [] \<Rightarrow> t | s' # _ \<Rightarrow> ws_vertex s') = v"
    using chain_steps_head [of "(t, False)" qs] p by (simp add: path_head_def)
  moreover have "b \<Longrightarrow> \<exists>u'. prev = Some u' \<and> is_back_edge r u' u"
    using Cons.prems(2) x by (simp add: pairs_head_def)
  ultimately show ?case
    using edge q x by (auto simp: chain_steps_def split: option.splits entering_header.splits)
qed (simp add: chain_steps_def)

lemma path_linked:
  assumes "solved r"
  shows "witness_path A (without i) (enters_at c ev) (is_back_edge r) t prev steps \<Longrightarrow>
    arrives A 1 (without i) (path_head t steps) \<Longrightarrow>
    \<exists>qs. linked_pairs (witness_next B r i) (incoming_edges G c) (t, False) qs \<and> chain_steps qs = steps \<and>
      (snd (pairs_head (t, False) qs) \<longrightarrow> (\<exists>u. prev = Some u \<and> is_back_edge r u (path_head t steps)))"
proof (induction steps arbitrary: prev)
  case Nil
  then show ?case
    by (intro exI [of _ "[]"]) (simp add: chain_steps_def pairs_head_def)
next
  case (Cons s steps)
  let ?v = "ws_vertex s" and ?k = "ws_edge s"
  have s: "(?v, ?k, path_head t steps) \<in> A" "is_executable ?k" "without i ?v"
    "enters_at c ev ?v ?k \<noteq> Some NeverExits"
    "enters_at c ev ?v ?k = Some EntersOnFirstArrival \<Longrightarrow> \<exists>u. prev = Some u \<and> is_back_edge r u ?v"
    and rest: "witness_path A (without i) (enters_at c ev) (is_back_edge r) t (Some ?v) steps"
    using Cons.prems(1) by (auto simp: path_head_def split: option.splits entering_header.splits)
  have v: "arrives A 1 (without i) ?v" "?v < N"
    using Cons.prems(2) ends [OF s(1)] by (simp_all add: path_head_def)
  have "arrives A 1 (without i) (path_head t steps)"
    by (rule arrives_step [OF v(1) s(3,1,2)])
  from Cons.IH [OF rest this] obtain qs where qs: "linked_pairs (witness_next B r i) (incoming_edges G c) (t, False) qs"
    "chain_steps qs = steps" "snd (pairs_head (t, False) qs) \<longrightarrow> is_back_edge r ?v (path_head t steps)"
    by auto
  let ?q = "(?v, enters_at c ev ?v ?k = Some EntersOnFirstArrival)"
  obtain b where head: "pairs_head (t, False) qs = (path_head t steps, b)"
    using chain_steps_head [of "(t, False)" qs] qs(2) by (cases "pairs_head (t, False) qs") simp
  have "witness_next B r i (pairs_head (t, False) qs) (?v, ?k) = Some ?q"
    unfolding head witness_next_eq [OF assms v(2)] using s(2-4) v(1) qs(3) head
    by (auto split: option.splits entering_header.splits)
  then have "linked_pairs (witness_next B r i) (incoming_edges G c) (t, False) ((?q, ?k) # qs)"
    using s(1) qs(1) head by (simp add: incoming)
  moreover have "chain_steps ((?q, ?k) # qs) = s # steps"
    using qs(2) by (simp add: chain_steps_def)
  ultimately show ?case
    using s(5) by (intro exI [of _ "(?q, ?k) # qs"]) (auto simp: pairs_head_def path_head_def)
qed

lemma witness_exact:
  assumes "solved r" and "vertex_of r p = Some t" and "t < N"
  shows "returns False (witness G B r p i) (\<lambda>res. if t = 1 then res = Some []
    else (case res of
        Some steps \<Rightarrow> path_head t steps = 1 \<and> witness_path A (without i) (enters_at c ev) (is_back_edge r) t None steps
      | None \<Rightarrow> \<nexists>steps. path_head t steps = 1 \<and>
          witness_path A (without i) (enters_at c ev) (is_back_edge r) t None steps))"
proof (cases "t = 1")
  case True
  then show ?thesis
    using assms entry(1) by (simp add: witness_def solved_def)
next
  case False
  have c: "dr_cfg (di_inner r) = c" "vertex_count G c = N"
    using assms(1) by (simp_all add: solved_def vertex_count_def counts)
  have below: "\<forall>v. \<forall>(u, e) \<in> set (incoming_edges G c v). u < N"
    using ends by (auto simp: incoming)
  note found = search_correct [of G r t 1 B i, unfolded c, OF below assms(3) False]
  have yes: "path_head t (chain_steps qs) = 1 \<and>
      witness_path A (without i) (enters_at c ev) (is_back_edge r) t None (chain_steps qs)"
    if "pairs_head (t, False) qs = (1, False)" "linked_pairs (witness_next B r i) (incoming_edges G c) (t, False) qs" for qs
    using linked_path [OF assms(1) that(2)] chain_steps_head [of "(t, False)" qs] that(1) by simp
  have no: "\<exists>qs. pairs_head (t, False) qs = (1, False) \<and> linked_pairs (witness_next B r i) (incoming_edges G c) (t, False) qs"
    if "path_head t steps = 1" "witness_path A (without i) (enters_at c ev) (is_back_edge r) t None steps" for steps
  proof -
    have "arrives A 1 (without i) (path_head t steps)"
      by (subst that(1)) (rule arrives_start)
    from path_linked [OF assms(1) that(2) this] obtain qs where
      qs: "linked_pairs (witness_next B r i) (incoming_edges G c) (t, False) qs" "chain_steps qs = steps"
        "\<not> snd (pairs_head (t, False) qs)"
      by auto
    then have "pairs_head (t, False) qs = (1, False)"
      using chain_steps_head [of "(t, False)" qs] that(1) by (simp add: prod_eq_iff)
    then show ?thesis
      using qs(1) by blast
  qed
  have "witness G B r p i = loop (2 * N + 1) (witness_pass G B r i 1 (t, False))
      \<lparr>wq_queue = [(t, False)], wq_visited = {(t, False)}, wq_parent = Map.empty\<rparr>"
    using False assms(2) by (simp add: witness_def c entry(1) Let_def)
  then show ?thesis
    using False found yes no by (auto elim!: returns_mono split: option.splits)
qed

end


section \<open>Bit sets as lists\<close>

definition list_bits :: "bool list bitset" where
  "list_bits = \<lparr>bs_with_capacity = (\<lambda>n. replicate n False), bs_insert = (\<lambda>i b. b[i := True]),
     bs_contains = (\<lambda>b i. i < length b \<and> b ! i),
     bs_intersect = (\<lambda>a b. map (\<lambda>i. a ! i \<and> i < length b \<and> b ! i) [0..<length a])\<rparr>"

definition list_ones :: "bool list \<Rightarrow> nat set" where
  "list_ones b = {i. i < length b \<and> b ! i}"

interpretation bits: bitset_laws list_bits list_ones length
proof
  show "a = b" if "list_ones a = list_ones b" "length a = length b" for a b
    using that by (intro nth_equalityI) (auto simp: list_ones_def set_eq_iff)
qed (auto simp: list_bits_def list_ones_def nth_list_update)

text \<open>In the example the \<open>break\<close> in the loop assigns the only name.\<close>

definition loop_events :: init_events where
  "loop_events = \<lparr>ie_width = 1, ie_stmt = [0 \<mapsto> [0]], ie_header = Map.empty, ie_loop_var = Map.empty,
     ie_entering_headers = Map.empty\<rparr>"

lemma loop_events_ok: "events_ok loop_events"
  by (simp add: events_ok_def loop_events_def event_bits_def)

lemma loop_graph_parts:
  "cfg_start loop_graph = Some 1"
  "lg_nodes (cfg_graph loop_graph) =
    [ExitVertex, BasicBlock [], WhileHeader 0, BasicBlock [0], BasicBlock [2], BasicBlock [], BasicBlock []]"
  "lg_edges (cfg_graph loop_graph) =
    [(1, Unconditional, 2), (2, TrueBranch, 3), (3, Unconditional, 4), (3, Unexecutable, 5),
     (5, Unconditional, 2), (2, FalseBranch, 4), (4, Unconditional, 0), (4, Unexecutable, 6), (6, Unexecutable, 0)]"
  by (rule list_cfgE [OF loop_then_return_parts]; simp add: loop_graph_def)+

interpretation init_example: init_flow list_digraph lg_nodes "\<lambda>g. mset (lg_edges g)" loop_graph loop_then_return
  list_bits list_ones length loop_events
  by unfold_locales (rule loop_events_ok)

lemma init_flowI:
  assumes "digraph_laws G nodes edges" and "body_ok body" and "build_graph_from_hir G (body_top body) body = Inr c"
    and "bitset_laws B ones bits_len" and "events_ok ev"
  shows "init_flow G nodes edges c body B ones bits_len ev"
  using built_graphI [OF assms(1-3)] assms(4,5) by (simp add: init_flow_def init_flow_axioms_def)


text \<open>In the example the path around the body of the loop leaves the name unset at the statement after it.\<close>

lemma loop_arrives:
  "arrives (set (lg_edges (cfg_graph loop_graph))) 1
     (\<lambda>u. 0 \<notin> vertex_bits loop_events (lg_nodes (cfg_graph loop_graph) ! u)) 4"
proof -
  let ?A = "set (lg_edges (cfg_graph loop_graph))"
  let ?ok = "\<lambda>u. 0 \<notin> vertex_bits loop_events (lg_nodes (cfg_graph loop_graph) ! u)"
  have edges: "(1, Unconditional, 2) \<in> ?A" "(2, FalseBranch, 4) \<in> ?A"
    by (simp_all add: loop_graph_parts)
  have ok: "?ok 1" "?ok 2"
    by (simp_all add: loop_graph_parts vertex_bits_def stmt_bits_def event_bits_def loop_events_def)
  have "arrives ?A 1 ?ok 2"
    using arrives_step [where ok = ?ok, OF arrives_start ok(1) edges(1)] by (simp add: is_executable_def)
  from arrives_step [where ok = ?ok, OF this ok(2) edges(2)] show ?thesis
    by (simp add: is_executable_def)
qed

lemma arrives_mono: "arrives A s ok v \<Longrightarrow> (\<And>u. ok u \<Longrightarrow> ok' u) \<Longrightarrow> arrives A s ok' v"
  by (induction rule: arrives.induct) (auto intro: arrives_start arrives_step)

inductive_cases stmt_pointE: "point_at ev kind (IP_Stmt s) done"

lemma loop_point:
  assumes "v < length (lg_nodes (cfg_graph loop_graph))"
    and "point_at loop_events (lg_nodes (cfg_graph loop_graph) ! v) (IP_Stmt 2) done"
  shows "v = 4 \<and> 0 \<notin> done"
proof -
  obtain pre post where b: "lg_nodes (cfg_graph loop_graph) ! v = BasicBlock (pre @ 2 # post)"
    "done = stmt_bits loop_events pre"
    using assms(2) by (auto elim: stmt_pointE)
  have "v \<in> {0, 1, 2, 3, 4, 5, 6}"
    using assms(1) by (auto simp: loop_graph_parts)
  then have "v = 4"
    using b(1) by (auto simp: loop_graph_parts Cons_eq_append_conv)
  then show ?thesis
    using b by (auto simp: loop_graph_parts Cons_eq_append_conv stmt_bits_def)
qed

lemma loop_vertex_there: "4 < length (lg_nodes (cfg_graph loop_graph))"
  by (simp add: loop_graph_parts)

lemma loop_point_there: "point_at loop_events (lg_nodes (cfg_graph loop_graph) ! 4) (IP_Stmt 2) {}"
  using at_stmt [of loop_events "[]" 2 "[]"] by (simp add: loop_graph_parts stmt_bits_def)

lemma loop_budget:
  "length (lg_nodes (cfg_graph loop_graph)) + (ie_width loop_events + 1) * size (mset (lg_edges (cfg_graph loop_graph))) \<le> 100"
  by (simp add: loop_graph_parts loop_events_def)

lemma loop_vertex:
  assumes "analyze_definite_init list_digraph list_bits loop_graph loop_events n = Inr (Some r)"
  shows "vertex_of r (IP_Stmt 2) = Some 4"
proof -
  have solved: "init_example.solved r"
    using init_example.analyze_ok [of n] assms by (simp add: returns_def)
  from init_example.point_recorded [OF solved loop_vertex_there loop_point_there] obtain st0 where
    "state_before r (IP_Stmt 2) = Some st0"
    by auto
  from init_example.point_exact [OF solved this] show ?thesis
    using loop_point by blast
qed


section \<open>Properties\<close>

text \<open>
  C13. Definite initialization is exact. On the graph of every lowered body, with events inside
  the width of the bit sets, the analysis returns; it has a result whenever its budget is at
  least the number of vertices plus the number of edges times one more than the width. Every
  point of the graph then has a state, which says: unreachable when no executable path leads
  from the start to the point's vertex; otherwise a name is initialized exactly when every
  executable path to the point sets its bit, in a vertex it passes or in front of the point in
  its own vertex.
\<close>

theorem definite_init_exact:
  assumes "digraph_laws G nodes edges" and "body_ok body" and "build_graph_from_hir G (body_top body) body = Inr c"
    and "bitset_laws B ones bits_len" and "events_ok ev"
  shows "\<exists>res. analyze_definite_init G B c ev n = Inr res \<and>
    (length (nodes (cfg_graph c)) + (ie_width ev + 1) * size (edges (cfg_graph c)) \<le> n \<longrightarrow> res \<noteq> None) \<and>
    (\<forall>r. res = Some r \<longrightarrow>
      (\<forall>v p done. v < length (nodes (cfg_graph c)) \<and> point_at ev (nodes (cfg_graph c) ! v) p done \<longrightarrow> state_before r p \<noteq> None) \<and>
      (\<forall>p st. state_before r p = Some st \<longrightarrow> (\<exists>v done. v < length (nodes (cfg_graph c)) \<and> vertex_of r p = Some v \<and>
        point_at ev (nodes (cfg_graph c) ! v) p done \<and>
        (\<forall>i. is_initialized B st i =
          (if arrives (set_mset (edges (cfg_graph c))) (the (cfg_start c)) (\<lambda>_. True) v
           then Some (\<not> (arrives (set_mset (edges (cfg_graph c))) (the (cfg_start c))
             (\<lambda>u. i \<notin> vertex_bits ev (nodes (cfg_graph c) ! u)) v \<and> i \<notin> done))
           else None)))))"
proof -
  note flow = init_flowI [OF assms]
  have s: "the (cfg_start c) = 1"
    using init_flow.entry(1) [OF flow] by simp
  show ?thesis
    unfolding s
    using returns_total [OF init_flow.analyze_ok [OF flow, of n]] init_flow.point_exact [OF flow] init_flow.point_recorded [OF flow]
    by fastforce
qed

theorem definite_init_exact_witness:
  "\<exists>r s. analyze_definite_init list_digraph list_bits loop_graph loop_events 100 = Inr (Some r) \<and>
     state_before r (IP_Stmt 2) = Some s \<and> is_initialized list_bits s 0 = Some False"
proof -
  note exact = definite_init_exact [OF lists.digraph_laws_axioms example_bodies(1) loop_graph_built(1)
      bits.bitset_laws_axioms loop_events_ok, of 100]
  obtain r where r: "analyze_definite_init list_digraph list_bits loop_graph loop_events 100 = Inr (Some r)"
    using exact loop_budget by auto
  then have "state_before r (IP_Stmt 2) \<noteq> None"
    using exact loop_point_there loop_vertex_there by auto
  then obtain s where s: "state_before r (IP_Stmt 2) = Some s"
    by blast
  obtain v "done" where v: "v < length (lg_nodes (cfg_graph loop_graph))"
    "point_at loop_events (lg_nodes (cfg_graph loop_graph) ! v) (IP_Stmt 2) done"
    "is_initialized list_bits s 0 =
      (if arrives (set_mset (mset (lg_edges (cfg_graph loop_graph)))) (the (cfg_start loop_graph)) (\<lambda>_. True) v
       then Some (\<not> (arrives (set_mset (mset (lg_edges (cfg_graph loop_graph)))) (the (cfg_start loop_graph))
         (\<lambda>u. 0 \<notin> vertex_bits loop_events (lg_nodes (cfg_graph loop_graph) ! u)) v \<and> 0 \<notin> done))
       else None)"
    using exact s unfolding r sum.inject by blast
  have "arrives (set (lg_edges (cfg_graph loop_graph))) 1 (\<lambda>_. True) 4"
    using loop_arrives by (rule arrives_mono) simp
  then have "is_initialized list_bits s 0 = Some False"
    using v(3) loop_point [OF v(1,2)] loop_arrives by (simp add: loop_graph_parts(1))
  then show ?thesis
    using r s by blast
qed

text \<open>
  C21. The path shown to the user. On a result of the analysis the search from the vertex of a
  point always returns. It returns the empty path when the vertex is the start. Otherwise it
  returns a path of executable edges from the start to that vertex on which no vertex sets the
  name, which leaves no loop that has no exit, and leaves a loop that is surely entered only
  after coming back to its header; and it returns nothing exactly when there is no such path.
\<close>

theorem uninitialized_path_exact:
  assumes "digraph_laws G nodes edges" and "body_ok body" and "build_graph_from_hir G (body_top body) body = Inr c"
    and "bitset_laws B ones bits_len" and "events_ok ev"
    and "analyze_definite_init G B c ev n = Inr (Some r)" and "vertex_of r p = Some t"
  shows "\<exists>res. witness G B r p i = Inr res \<and>
    (if t = the (cfg_start c) then res = Some []
     else
       let start_v = the (cfg_start c);
           good = witness_path (set_mset (edges (cfg_graph c))) (\<lambda>u. i \<notin> vertex_bits ev (nodes (cfg_graph c) ! u))
             (enters_at c ev) (is_back_edge r) t None
       in case res of
         Some steps \<Rightarrow> path_head t steps = start_v \<and> good steps
       | None \<Rightarrow> \<nexists>steps. path_head t steps = start_v \<and> good steps)"
proof -
  note flow = init_flowI [OF assms(1-5)]
  have s: "the (cfg_start c) = 1"
    using init_flow.entry(1) [OF flow] by simp
  have solved: "init_flow.solved G nodes edges c B ones bits_len ev r"
    using init_flow.analyze_ok [OF flow, of n] assms(6) by (simp add: returns_def)
  from init_flow.witness_exact [OF flow this assms(7) init_flow.vertex_recorded [OF flow this assms(7)], of i]
  show ?thesis
    unfolding s Let_def by (rule returns_total)
qed

theorem uninitialized_path_exact_witness:
  "\<exists>r steps. analyze_definite_init list_digraph list_bits loop_graph loop_events 100 = Inr (Some r) \<and>
     witness list_digraph list_bits r (IP_Stmt 2) 0 = Inr (Some steps) \<and> path_head 4 steps = 1"
proof -
  obtain r where r: "analyze_definite_init list_digraph list_bits loop_graph loop_events 100 = Inr (Some r)"
    using returns_total [OF init_example.analyze_ok [of 100]] loop_budget by auto
  let ?steps = "[\<lparr>ws_vertex = 1, ws_edge = Unconditional\<rparr>, \<lparr>ws_vertex = 2, ws_edge = FalseBranch\<rparr>]"
  have "enters_at loop_graph loop_events v k = None" for v k
    by (simp add: enters_at_def loop_events_def split: option.splits)
  then have "witness_path (set_mset (mset (lg_edges (cfg_graph loop_graph))))
      (\<lambda>u. 0 \<notin> vertex_bits loop_events (lg_nodes (cfg_graph loop_graph) ! u))
      (enters_at loop_graph loop_events) (is_back_edge r) 4 None ?steps"
    by (simp add: loop_graph_parts is_executable_def vertex_bits_def stmt_bits_def event_bits_def loop_events_def)
  moreover have "path_head 4 ?steps = 1"
    by (simp add: path_head_def)
  ultimately show ?thesis
    using uninitialized_path_exact [OF lists.digraph_laws_axioms example_bodies(1) loop_graph_built(1)
        bits.bitset_laws_axioms loop_events_ok r loop_vertex [OF r], of 0] r
    by (auto simp: loop_graph_parts(1) Let_def split: option.splits)
qed

end
