(* ===== verification/Case_Folding.thy ===== *)
theory Case_Folding
  imports Text_Ops "HOL-Library.Sublist"
begin

text \<open>
  Comparison and search without regard to case (\<open>stdx/src/case.rs\<close>). The conversions of
  the standard library that read the Unicode tables, \<open>char::to_lowercase\<close>,
  \<open>char::to_uppercase\<close> and \<open>str::to_lowercase\<close>, are arguments; the locale \<open>lowercase_laws\<close> is
  what is asked of the first: it yields at least one character, and agrees with the
  arithmetic of the fast alphabet.
\<close>

section \<open>Characters\<close>

definition fold_char_fast :: "uchar \<Rightarrow> uchar option" where
  "fold_char_fast c =
    (if 0x41 \<le> c \<and> c \<le> 0x5A then Some (c + 0x20)
     else if c < 0x80 then Some c
     else if 0x410 \<le> c \<and> c \<le> 0x42F then Some (c + 0x20)
     else if c = 0x401 then Some 0x451
     else if 0x430 \<le> c \<and> c \<le> 0x44F \<or> c = 0x451 then Some c
     else None)"

text \<open>A conversion counts only when it yields a single character.\<close>

definition single :: "ustring \<Rightarrow> uchar \<Rightarrow> uchar" where
  "single s c = (case s of [x] \<Rightarrow> x | _ \<Rightarrow> c)"

definition fold_case_slow :: "(uchar \<Rightarrow> ustring) \<Rightarrow> (uchar \<Rightarrow> ustring) \<Rightarrow> uchar \<Rightarrow> uchar" where
  "fold_case_slow to_uppercase to_lowercase c =
    (let upper = single (to_uppercase c) c in single (to_lowercase upper) upper)"

definition fold_case :: "(uchar \<Rightarrow> ustring) \<Rightarrow> (uchar \<Rightarrow> ustring) \<Rightarrow> uchar \<Rightarrow> uchar" where
  "fold_case to_uppercase to_lowercase c =
    (if 0x41 \<le> c \<and> c \<le> 0x5A then c + 0x20
     else if c < 0x80 then c
     else if 0x410 \<le> c \<and> c \<le> 0x42F then c + 0x20
     else if c = 0x401 then 0x451
     else if 0x430 \<le> c \<and> c \<le> 0x44F \<or> c = 0x451 then c
     else if c = 0x131 then c
     else fold_case_slow to_uppercase to_lowercase c)"

definition fold_one :: "(uchar \<Rightarrow> ustring) \<Rightarrow> uchar \<Rightarrow> uchar" where
  "fold_one to_lowercase c =
    (case fold_char_fast c of
       Some f \<Rightarrow> f
     | None \<Rightarrow> (case to_lowercase c of [] \<Rightarrow> c | f # _ \<Rightarrow> f))"


section \<open>Comparison\<close>

definition eq_ignore_case_slow ::
  "(uchar \<Rightarrow> ustring) \<Rightarrow> uchar \<Rightarrow> uchar \<Rightarrow> ustring \<Rightarrow> ustring \<Rightarrow> bool" where
  "eq_ignore_case_slow to_lowercase x y a_rest b_rest \<longleftrightarrow>
     to_lowercase x @ concat (map to_lowercase a_rest) = to_lowercase y @ concat (map to_lowercase b_rest)"

fun eq_ignore_case :: "(uchar \<Rightarrow> ustring) \<Rightarrow> ustring \<Rightarrow> ustring \<Rightarrow> bool" where
  "eq_ignore_case to_lowercase [] [] = True"
| "eq_ignore_case to_lowercase (x # a) (y # b) =
    (case (fold_char_fast x, fold_char_fast y) of
       (Some fx, Some fy) \<Rightarrow> if fx \<noteq> fy then False else eq_ignore_case to_lowercase a b
     | _ \<Rightarrow> eq_ignore_case_slow to_lowercase x y a b)"
| "eq_ignore_case to_lowercase _ _ = False"

fun eq_case_folded :: "(uchar \<Rightarrow> ustring) \<Rightarrow> (uchar \<Rightarrow> ustring) \<Rightarrow> ustring \<Rightarrow> ustring \<Rightarrow> bool" where
  "eq_case_folded to_uppercase to_lowercase [] [] = True"
| "eq_case_folded to_uppercase to_lowercase (x # a) (y # b) =
    (if fold_case to_uppercase to_lowercase x = fold_case to_uppercase to_lowercase y
     then eq_case_folded to_uppercase to_lowercase a b else False)"
| "eq_case_folded to_uppercase to_lowercase _ _ = False"


section \<open>Keys\<close>

text \<open>The first character outside the fast alphabet hands the whole string to the library.\<close>

fun fold_lower_from :: "(ustring \<Rightarrow> ustring) \<Rightarrow> ustring \<Rightarrow> ustring \<Rightarrow> ustring \<Rightarrow> ustring" where
  "fold_lower_from str_to_lowercase whole [] out = out"
| "fold_lower_from str_to_lowercase whole (c # s) out =
    (case fold_char_fast c of
       Some f \<Rightarrow> fold_lower_from str_to_lowercase whole s (out @ [f])
     | None \<Rightarrow> str_to_lowercase whole)"

definition fold_lower :: "(ustring \<Rightarrow> ustring) \<Rightarrow> ustring \<Rightarrow> ustring" where
  "fold_lower str_to_lowercase s = fold_lower_from str_to_lowercase s s []"

definition fold_lower_per_char :: "(uchar \<Rightarrow> ustring) \<Rightarrow> ustring \<Rightarrow> ustring" where
  "fold_lower_per_char to_lowercase s =
    fold (\<lambda>c out. case fold_char_fast c of Some f \<Rightarrow> out @ [f] | None \<Rightarrow> out @ to_lowercase c) s []"


section \<open>Search\<close>

text \<open>
  \<open>index\<close> is the byte offset of the next character of the haystack, \<open>pending\<close> what is left
  of the expansion of the last one.
\<close>

fun match_len_from ::
  "(uchar \<Rightarrow> ustring) \<Rightarrow> ustring \<Rightarrow> nat \<Rightarrow> ustring \<Rightarrow> ustring \<Rightarrow> nat \<Rightarrow> nat option" where
  "match_len_from to_lowercase haystack index [] pending consumed = Some consumed"
| "match_len_from to_lowercase haystack index (expected # needle) (folded # pending) consumed =
    (if folded \<noteq> expected then None
     else match_len_from to_lowercase haystack index needle pending consumed)"
| "match_len_from to_lowercase [] index (expected # needle) [] consumed = None"
| "match_len_from to_lowercase (candidate # haystack) index (expected # needle) [] consumed =
    (let consumed = index + len_utf8 candidate in
     case fold_char_fast candidate of
       Some folded \<Rightarrow>
         if folded \<noteq> expected then None
         else match_len_from to_lowercase haystack consumed needle [] consumed
     | None \<Rightarrow>
         (case to_lowercase candidate of
            [] \<Rightarrow> None
          | first # expansion \<Rightarrow>
              if first \<noteq> expected then None
              else match_len_from to_lowercase haystack consumed needle expansion consumed))"

definition match_len_ignore_case :: "(uchar \<Rightarrow> ustring) \<Rightarrow> ustring \<Rightarrow> ustring \<Rightarrow> nat option" where
  "match_len_ignore_case to_lowercase haystack needle = match_len_from to_lowercase haystack 0 needle [] 0"

fun find_from :: "(uchar \<Rightarrow> ustring) \<Rightarrow> uchar \<Rightarrow> ustring \<Rightarrow> ustring \<Rightarrow> nat \<Rightarrow> (nat \<times> nat) option" where
  "find_from to_lowercase needle_first needle [] start = None"
| "find_from to_lowercase needle_first needle (candidate # haystack) start =
    (if fold_one to_lowercase candidate \<noteq> needle_first
     then find_from to_lowercase needle_first needle haystack (start + len_utf8 candidate)
     else case match_len_ignore_case to_lowercase (candidate # haystack) needle of
         Some len \<Rightarrow> Some (start, start + len)
       | None \<Rightarrow> find_from to_lowercase needle_first needle haystack (start + len_utf8 candidate))"

text \<open>A debug assertion asks for a needle that is folded already.\<close>

definition find_ignore_case ::
  "(uchar \<Rightarrow> ustring) \<Rightarrow> ustring \<Rightarrow> ustring \<Rightarrow> (nat \<times> nat) option outcome" where
  "find_ignore_case to_lowercase haystack needle_lower =
    (if needle_lower \<noteq> fold_lower_per_char to_lowercase needle_lower then Inl Panic
     else case needle_lower of
         [] \<Rightarrow> Inr (Some (0, 0))
       | needle_first # _ \<Rightarrow> Inr (find_from to_lowercase needle_first needle_lower haystack 0))"

definition contains_ignore_case :: "(uchar \<Rightarrow> ustring) \<Rightarrow> ustring \<Rightarrow> ustring \<Rightarrow> bool outcome" where
  "contains_ignore_case to_lowercase haystack needle_lower =
    and_then (find_ignore_case to_lowercase haystack needle_lower) (\<lambda>r. Inr (r \<noteq> None))"

definition starts_with_ignore_case :: "(uchar \<Rightarrow> ustring) \<Rightarrow> ustring \<Rightarrow> ustring \<Rightarrow> bool outcome" where
  "starts_with_ignore_case to_lowercase haystack needle_lower =
    (if needle_lower \<noteq> fold_lower_per_char to_lowercase needle_lower then Inl Panic
     else Inr (match_len_ignore_case to_lowercase haystack needle_lower \<noteq> None))"


section \<open>The contract of the library\<close>

text \<open>
  What a match is: the fewest characters of the text whose folding, after what is pending,
  covers the needle.
\<close>

definition least_cover :: "(uchar \<Rightarrow> ustring) \<Rightarrow> ustring \<Rightarrow> ustring \<Rightarrow> ustring \<Rightarrow> bool" where
  "least_cover lower p needle m \<longleftrightarrow> prefix needle (p @ concat (map lower m)) \<and>
     (m \<noteq> [] \<longrightarrow> length (p @ concat (map lower (butlast m))) < length needle)"

lemma least_cover_pending:
  "least_cover lower (f # p) (x # needle) m \<longleftrightarrow> f = x \<and> least_cover lower p needle m"
  by (auto simp: least_cover_def)

lemma least_cover_Cons:
  "least_cover lower [] needle (c # m) \<longleftrightarrow> needle \<noteq> [] \<and>
     (if m = [] then prefix needle (lower c) else least_cover lower (lower c) needle m)"
  by (auto simp: least_cover_def)

definition match_result ::
  "(uchar \<Rightarrow> ustring) \<Rightarrow> ustring \<Rightarrow> nat \<Rightarrow> ustring \<Rightarrow> ustring \<Rightarrow> nat \<Rightarrow> nat option \<Rightarrow> bool" where
  "match_result lower h index needle pending consumed r \<longleftrightarrow>
     (case r of
        Some n \<Rightarrow> \<exists>m post. h = m @ post \<and> least_cover lower pending needle m \<and>
          n = (if m = [] then consumed else index + str_len m)
      | None \<Rightarrow> \<not> prefix needle (pending @ concat (map lower h)))"

lemma match_result_pending:
  "match_result lower h index (x # needle) (x # pending) consumed r =
    match_result lower h index needle pending consumed r"
  by (simp only: match_result_def least_cover_pending append_Cons Cons_prefix_Cons simp_thms)

lemma match_result_Cons:
  assumes "lower c = x # p" and "match_result lower h (index + len_utf8 c) needle p (index + len_utf8 c) r"
  shows "match_result lower (c # h) index (x # needle) [] consumed r"
proof (cases r)
  case None
  then show ?thesis
    using assms by (simp add: match_result_def)
next
  case (Some n)
  then obtain m post where m: "h = m @ post" "least_cover lower p needle m"
    "n = (if m = [] then index + len_utf8 c else index + len_utf8 c + str_len m)"
    using assms(2) by (auto simp: match_result_def)
  have "least_cover lower [] (x # needle) (c # m)"
    using m(2) assms(1) by (auto simp: least_cover_Cons least_cover_pending) (simp add: least_cover_def)
  then show ?thesis
    using m unfolding match_result_def Some option.case
    by (intro exI [of _ "c # m"] exI [of _ post]) (simp split: if_splits)
qed

locale lowercase_laws =
  fixes lower :: "uchar \<Rightarrow> ustring"
  assumes lower_nonempty: "lower c \<noteq> []"
    and lower_fast: "fold_char_fast c = Some f \<Longrightarrow> lower c = [f]"
begin

lemma fold_lower_per_char_concat: "fold_lower_per_char lower s = concat (map lower s)"
proof -
  have "fold (\<lambda>c out. case fold_char_fast c of Some f \<Rightarrow> out @ [f] | None \<Rightarrow> out @ lower c) s out =
      out @ concat (map lower s)" for out
    by (induction s arbitrary: out) (auto simp: lower_fast split: option.splits)
  then show ?thesis
    by (simp add: fold_lower_per_char_def)
qed

lemma eq_ignore_case_concat: "eq_ignore_case lower a b \<longleftrightarrow> concat (map lower a) = concat (map lower b)"
proof (induction a b rule: list_induct2')
  case (4 x a y b)
  then show ?case
    using lower_fast [of x] lower_fast [of y] by (auto simp: eq_ignore_case_slow_def split: option.splits)
qed (auto simp: lower_nonempty)

lemma fold_one_hd: "fold_one lower c = hd (lower c)"
  using lower_nonempty [of c] lower_fast [of c]
  by (auto simp: fold_one_def split: option.splits list.splits)

lemma match_len_from_correct:
  "l = lower \<Longrightarrow> match_result lower h index needle pending consumed
    (match_len_from l h index needle pending consumed)"
proof (induction l h index needle pending consumed rule: match_len_from.induct)
  case (1 l h index pending consumed)
  then show ?case
    unfolding match_result_def match_len_from.simps option.case
    by (intro exI [of _ "[]"] exI [of _ h]) (simp add: least_cover_def)
next
  case (2 l h index x needle f pending consumed)
  then show ?case
    by (cases "f = x") (simp add: match_result_pending, simp add: match_result_def)
next
  case (3 l index x needle consumed)
  then show ?case
    by (simp add: match_result_def)
next
  case (4 l c h index x needle consumed)
  obtain f p where lc: "lower c = f # p"
    using lower_nonempty [of c] by (cases "lower c") auto
  show ?case
  proof (cases "f = x")
    case True
    then have "match_len_from l (c # h) index (x # needle) [] consumed =
        match_len_from lower h (index + len_utf8 c) needle p (index + len_utf8 c)"
      using lower_fast [of c] lc 4(3) by (cases "fold_char_fast c") (auto simp: Let_def)
    moreover have "match_result lower h (index + len_utf8 c) needle p (index + len_utf8 c)
        (match_len_from lower h (index + len_utf8 c) needle p (index + len_utf8 c))"
      using 4(1) [OF refl] 4(2) [OF refl] 4(3) True lc lower_fast [of c]
      by (cases "fold_char_fast c") auto
    ultimately show ?thesis
      using lc True match_result_Cons by simp
  next
    case False
    then have "match_len_from l (c # h) index (x # needle) [] consumed = None"
      using lower_fast [of c] lc 4(3) by (cases "fold_char_fast c") (auto simp: Let_def)
    then show ?thesis
      using False lc by (simp add: match_result_def)
  qed
qed

lemma match_len_cases:
  obtains (found) m post where "h = m @ post" and "least_cover lower [] needle m"
    and "match_len_ignore_case lower h needle = Some (str_len m)"
  | (missing) "match_len_ignore_case lower h needle = None" and "\<not> prefix needle (concat (map lower h))"
proof (cases "match_len_ignore_case lower h needle")
  case None
  then show ?thesis
    using match_len_from_correct [OF refl, where h = h and index = 0 and needle = needle and
      pending = "[]" and consumed = 0] missing by (simp add: match_len_ignore_case_def match_result_def)
next
  case (Some n)
  then obtain m post where "h = m @ post" "least_cover lower [] needle m"
    "n = (if m = [] then 0 else 0 + str_len m)"
    using match_len_from_correct [OF refl, where h = h and index = 0 and needle = needle and
      pending = "[]" and consumed = 0] by (auto simp: match_len_ignore_case_def match_result_def)
  then show ?thesis
    using found [of m post] Some by (simp split: if_splits)
qed

lemma least_cover_prefix: "least_cover lower [] needle m \<Longrightarrow> prefix needle (concat (map lower (m @ post)))"
  by (auto simp: least_cover_def intro: prefix_order.trans)

lemma find_from_correct:
  assumes "needle = x # rest"
  shows "case find_from lower x needle h start of
      Some (a, b) \<Rightarrow> \<exists>pre m post. h = pre @ m @ post \<and> least_cover lower [] needle m \<and>
        a = start + str_len pre \<and> b = start + str_len (pre @ m) \<and>
        (\<forall>p q. h = p @ q \<longrightarrow> length p < length pre \<longrightarrow> \<not> prefix needle (concat (map lower q)))
    | None \<Rightarrow> \<forall>p q. h = p @ q \<longrightarrow> \<not> prefix needle (concat (map lower q))"
proof (induction h arbitrary: start)
  case Nil
  then show ?case
    using assms by simp
next
  case (Cons c h)
  have skip: ?case if no: "\<not> prefix needle (concat (map lower (c # h)))"
    and eq: "find_from lower x needle (c # h) start = find_from lower x needle h (start + len_utf8 c)"
  proof (cases "find_from lower x needle h (start + len_utf8 c)")
    case None
    then show ?thesis
      using Cons.IH [of "start + len_utf8 c"] no eq by (auto simp: Cons_eq_append_conv)
  next
    case (Some r)
    obtain a b where r: "r = (a, b)"
      by (cases r)
    then obtain pre m post where *: "h = pre @ m @ post" "least_cover lower [] needle m"
      "a = start + len_utf8 c + str_len pre" "b = start + len_utf8 c + str_len (pre @ m)"
      "\<forall>p q. h = p @ q \<longrightarrow> length p < length pre \<longrightarrow> \<not> prefix needle (concat (map lower q))"
      using Cons.IH [of "start + len_utf8 c"] Some by auto
    have "\<forall>p q. c # h = p @ q \<longrightarrow> length p < length (c # pre) \<longrightarrow> \<not> prefix needle (concat (map lower q))"
      using *(5) no by (auto simp: Cons_eq_append_conv)
    then show ?thesis
      using * unfolding eq Some r option.case prod.case
      by (intro exI [of _ "c # pre"] exI [of _ m] exI [of _ post]) simp
  qed
  show ?case
  proof (cases "fold_one lower c = x")
    case False
    have "\<not> prefix needle (concat (map lower (c # h)))"
      using False lower_nonempty [of c] by (cases "lower c") (auto simp: assms fold_one_hd)
    then show ?thesis
      using skip False by simp
  next
    case True
    show ?thesis
    proof (cases rule: match_len_cases [of "c # h" needle])
      case (found m post)
      have at_start: "find_from lower x needle (c # h) start = Some (start, start + str_len m)"
        using found(3) True by simp
      show ?thesis
        unfolding at_start option.case prod.case using found(1,2)
        by (intro exI [of _ "[]"] exI [of _ m] exI [of _ post]) simp
    next
      case missing
      then show ?thesis
        using skip True by simp
    qed
  qed
qed

end

text \<open>
  A small conversion that keeps the laws: the fast alphabet, and the dotted capital I, whose
  lower case is two characters.
\<close>

definition sample_lower :: "uchar \<Rightarrow> ustring" where
  "sample_lower c =
    (case fold_char_fast c of Some f \<Rightarrow> [f] | None \<Rightarrow> if c = 0x130 then [0x69, 0x307] else [c])"

interpretation sample: lowercase_laws sample_lower
  by unfold_locales (auto simp: sample_lower_def split: option.splits)


section \<open>Properties\<close>

text \<open>
  C34. Comparing two strings without regard to case is comparing their folded keys: the
  fast walk, its early exits and the restart on the full streams when a character leaves
  the fast alphabet answer like \<open>fold_lower_per_char\<close> on both sides.
\<close>

theorem eq_ignore_case_iff_keys:
  assumes "lowercase_laws lower"
  shows "eq_ignore_case lower a b \<longleftrightarrow> fold_lower_per_char lower a = fold_lower_per_char lower b"
  by (simp add: lowercase_laws.eq_ignore_case_concat [OF assms]
      lowercase_laws.fold_lower_per_char_concat [OF assms])

theorem eq_ignore_case_iff_keys_witness:
  "eq_ignore_case sample_lower (0x41 # 0x130 # ascii ''B'') (0x61 # 0x130 # ascii ''b'')"
proof -
  have "fold_lower_per_char sample_lower (0x41 # 0x130 # ascii ''B'') =
      fold_lower_per_char sample_lower (0x61 # 0x130 # ascii ''b'')"
    by code_simp
  then show ?thesis
    using eq_ignore_case_iff_keys [OF sample.lowercase_laws_axioms] by blast
qed

text \<open>
  C35. With a needle that is folded already the search returns. The range it reports lies
  on character boundaries of the haystack, covers the fewest characters from its start whose
  folding covers the needle, and no match starts earlier; when it reports nothing, the
  folding of no rest of the haystack begins with the needle. With any other needle it
  panics.
\<close>

theorem find_ignore_case_correct:
  assumes "lowercase_laws lower" and "needle \<noteq> []"
  shows "case find_ignore_case lower h needle of
      Inl e \<Rightarrow> e = Panic \<and> fold_lower_per_char lower needle \<noteq> needle
    | Inr (Some (a, b)) \<Rightarrow> \<exists>pre m post. h = pre @ m @ post \<and> a = str_len pre \<and> b = str_len (pre @ m) \<and>
        least_cover lower [] needle m \<and>
        (\<forall>p q. h = p @ q \<longrightarrow> length p < length pre \<longrightarrow> \<not> prefix needle (fold_lower_per_char lower q))
    | Inr None \<Rightarrow> \<forall>p q. h = p @ q \<longrightarrow> \<not> prefix needle (fold_lower_per_char lower q)"
proof -
  obtain x rest where needle: "needle = x # rest"
    using assms(2) by (cases needle) auto
  note keys = lowercase_laws.fold_lower_per_char_concat [OF assms(1)]
  show ?thesis
  proof (cases "needle = fold_lower_per_char lower needle")
    case True
    then have "find_ignore_case lower h needle = Inr (find_from lower x needle h 0)"
      by (simp add: find_ignore_case_def needle)
    then show ?thesis
      using lowercase_laws.find_from_correct [OF assms(1) needle, of h 0]
      by (cases "find_from lower x needle h 0") (auto simp: keys)
  next
    case False
    then show ?thesis
      by (simp add: find_ignore_case_def)
  qed
qed

theorem find_ignore_case_correct_witness:
  "find_ignore_case sample_lower (0x43F # 0x130 # ascii ''X'') [0x69, 0x307] = Inr (Some (2, 4)) \<and>
    (\<exists>pre m post. 0x43F # 0x130 # ascii ''X'' = pre @ m @ post \<and> 2 = str_len pre \<and> 4 = str_len (pre @ m) \<and>
      least_cover sample_lower [] [0x69, 0x307] m)"
proof -
  have run: "find_ignore_case sample_lower (0x43F # 0x130 # ascii ''X'') [0x69, 0x307] = Inr (Some (2, 4))"
    by code_simp
  from find_ignore_case_correct [OF sample.lowercase_laws_axioms, of "[0x69, 0x307]" "0x43F # 0x130 # ascii ''X''"]
  show ?thesis
    unfolding run by auto
qed

end
