(* ===== verification/Preproc_Symbols.thy ===== *)
theory Preproc_Symbols
  imports Case_Folding
begin

text \<open>
  The registry of preprocessor symbols (\<open>syntax/src/preproc_symbols.rs\<close>): thirteen symbols with
  a Russian and an English spelling each, found without regard to case.
\<close>

datatype preproc_symbol_id =
    PSI_Server
  | PSI_AtServer
  | PSI_Client
  | PSI_AtClient
  | PSI_ThinClient
  | PSI_MobileClient
  | PSI_WebClient
  | PSI_ExternalConnection
  | PSI_ThickClientManagedApplication
  | PSI_ThickClientOrdinaryApplication
  | PSI_MobileAppClient
  | PSI_MobileAppServer
  | PSI_MobileStandaloneServer

definition preproc_symbol_id_ALL :: "preproc_symbol_id list" where
  "preproc_symbol_id_ALL =
    [PSI_Server,
     PSI_AtServer,
     PSI_Client,
     PSI_AtClient,
     PSI_ThinClient,
     PSI_MobileClient,
     PSI_WebClient,
     PSI_ExternalConnection,
     PSI_ThickClientManagedApplication,
     PSI_ThickClientOrdinaryApplication,
     PSI_MobileAppClient,
     PSI_MobileAppServer,
     PSI_MobileStandaloneServer]"

fun symbol_ru :: "preproc_symbol_id \<Rightarrow> ustring" where
  "symbol_ru PSI_Server = [0x421, 0x435, 0x440, 0x432, 0x435, 0x440]"
| "symbol_ru PSI_AtServer = [0x41D, 0x430, 0x421, 0x435, 0x440, 0x432, 0x435, 0x440, 0x435]"
| "symbol_ru PSI_Client = [0x41A, 0x43B, 0x438, 0x435, 0x43D, 0x442]"
| "symbol_ru PSI_AtClient = [0x41D, 0x430, 0x41A, 0x43B, 0x438, 0x435, 0x43D, 0x442, 0x435]"
| "symbol_ru PSI_ThinClient = 
      [0x422, 0x43E, 0x43D, 0x43A, 0x438, 0x439, 0x41A, 0x43B, 0x438, 0x435, 0x43D, 0x442]"
| "symbol_ru PSI_MobileClient = 
      [0x41C, 0x43E, 0x431, 0x438, 0x43B, 0x44C, 0x43D, 0x44B, 0x439, 0x41A, 0x43B, 0x438,
       0x435, 0x43D, 0x442]"
| "symbol_ru PSI_WebClient = [0x412, 0x435, 0x431, 0x41A, 0x43B, 0x438, 0x435, 0x43D, 0x442]"
| "symbol_ru PSI_ExternalConnection = 
      [0x412, 0x43D, 0x435, 0x448, 0x43D, 0x435, 0x435, 0x421, 0x43E, 0x435, 0x434, 0x438,
       0x43D, 0x435, 0x43D, 0x438, 0x435]"
| "symbol_ru PSI_ThickClientManagedApplication = 
      [0x422, 0x43E, 0x43B, 0x441, 0x442, 0x44B, 0x439, 0x41A, 0x43B, 0x438, 0x435, 0x43D,
       0x442, 0x423, 0x43F, 0x440, 0x430, 0x432, 0x43B, 0x44F, 0x435, 0x43C, 0x43E, 0x435,
       0x41F, 0x440, 0x438, 0x43B, 0x43E, 0x436, 0x435, 0x43D, 0x438, 0x435]"
| "symbol_ru PSI_ThickClientOrdinaryApplication = 
      [0x422, 0x43E, 0x43B, 0x441, 0x442, 0x44B, 0x439, 0x41A, 0x43B, 0x438, 0x435, 0x43D,
       0x442, 0x41E, 0x431, 0x44B, 0x447, 0x43D, 0x43E, 0x435, 0x41F, 0x440, 0x438, 0x43B,
       0x43E, 0x436, 0x435, 0x43D, 0x438, 0x435]"
| "symbol_ru PSI_MobileAppClient = 
      [0x41C, 0x43E, 0x431, 0x438, 0x43B, 0x44C, 0x43D, 0x43E, 0x435, 0x41F, 0x440, 0x438,
       0x43B, 0x43E, 0x436, 0x435, 0x43D, 0x438, 0x435, 0x41A, 0x43B, 0x438, 0x435, 0x43D,
       0x442]"
| "symbol_ru PSI_MobileAppServer = 
      [0x41C, 0x43E, 0x431, 0x438, 0x43B, 0x44C, 0x43D, 0x43E, 0x435, 0x41F, 0x440, 0x438,
       0x43B, 0x43E, 0x436, 0x435, 0x43D, 0x438, 0x435, 0x421, 0x435, 0x440, 0x432, 0x435,
       0x440]"
| "symbol_ru PSI_MobileStandaloneServer = 
      [0x41C, 0x43E, 0x431, 0x438, 0x43B, 0x44C, 0x43D, 0x44B, 0x439, 0x410, 0x432, 0x442,
       0x43E, 0x43D, 0x43E, 0x43C, 0x43D, 0x44B, 0x439, 0x421, 0x435, 0x440, 0x432, 0x435,
       0x440]"

fun symbol_en :: "preproc_symbol_id \<Rightarrow> ustring" where
  "symbol_en PSI_Server = ascii ''Server''"
| "symbol_en PSI_AtServer = ascii ''AtServer''"
| "symbol_en PSI_Client = ascii ''Client''"
| "symbol_en PSI_AtClient = ascii ''AtClient''"
| "symbol_en PSI_ThinClient = ascii ''ThinClient''"
| "symbol_en PSI_MobileClient = ascii ''MobileClient''"
| "symbol_en PSI_WebClient = ascii ''WebClient''"
| "symbol_en PSI_ExternalConnection = ascii ''ExternalConnection''"
| "symbol_en PSI_ThickClientManagedApplication = ascii ''ThickClientManagedApplication''"
| "symbol_en PSI_ThickClientOrdinaryApplication = ascii ''ThickClientOrdinaryApplication''"
| "symbol_en PSI_MobileAppClient = ascii ''MobileAppClient''"
| "symbol_en PSI_MobileAppServer = ascii ''MobileAppServer''"
| "symbol_en PSI_MobileStandaloneServer = ascii ''MobileStandaloneServer''"

definition lookup_symbol ::
  "(uchar \<Rightarrow> ustring) \<Rightarrow> (uchar \<Rightarrow> ustring) \<Rightarrow> ustring \<Rightarrow> preproc_symbol_id option" where
  "lookup_symbol to_uppercase to_lowercase s =
    List.find (\<lambda>i. eq_case_folded to_uppercase to_lowercase s (symbol_ru i) \<or>
        eq_case_folded to_uppercase to_lowercase s (symbol_en i)) preproc_symbol_id_ALL"

definition is_known_symbol :: "(uchar \<Rightarrow> ustring) \<Rightarrow> (uchar \<Rightarrow> ustring) \<Rightarrow> ustring \<Rightarrow> bool" where
  "is_known_symbol to_uppercase to_lowercase s \<longleftrightarrow> lookup_symbol to_uppercase to_lowercase s \<noteq> None"

text \<open>Every spelling finds its own symbol, whatever the tables of the library hold.\<close>

lemma lookup_ru: "lookup_symbol up low (symbol_ru i) = Some i"
  by (cases i) (simp_all add: lookup_symbol_def preproc_symbol_id_ALL_def fold_case_def ascii_def)

lemma lookup_en: "lookup_symbol up low (symbol_en i) = Some i"
  by (cases i) (simp_all add: lookup_symbol_def preproc_symbol_id_ALL_def fold_case_def ascii_def)

end
