(* ===== verification/Env_Flags.thy ===== *)
theory Env_Flags
  imports Preproc_Symbols "HOL-Library.Word"
begin

unbundle bit_operations_syntax

text \<open>
  Sets of execution environments (\<open>EnvFlags\<close> of \<open>hir-def/src/execution_env.rs\<close>): eight bits,
  seven of them in use.
\<close>

type_synonym env_flags = "8 word"

definition THIN_CLIENT :: env_flags where "THIN_CLIENT = push_bit 0 1"
definition WEB_CLIENT :: env_flags where "WEB_CLIENT = push_bit 1 1"
definition THICK_CLIENT_MANAGED :: env_flags where "THICK_CLIENT_MANAGED = push_bit 2 1"
definition THICK_CLIENT_ORDINARY :: env_flags where "THICK_CLIENT_ORDINARY = push_bit 3 1"
definition SERVER :: env_flags where "SERVER = push_bit 4 1"
definition MOBILE_CLIENT :: env_flags where "MOBILE_CLIENT = push_bit 5 1"
definition EXTERNAL_CONNECTION :: env_flags where "EXTERNAL_CONNECTION = push_bit 6 1"

definition ENV_EMPTY :: env_flags where "ENV_EMPTY = 0"
definition ENV_ALL :: env_flags where "ENV_ALL = 0x7f"
definition SERVER_SIDE :: env_flags where "SERVER_SIDE = SERVER OR EXTERNAL_CONNECTION"
definition MANAGED_CLIENTS :: env_flags where
  "MANAGED_CLIENTS = THIN_CLIENT OR WEB_CLIENT OR THICK_CLIENT_MANAGED OR MOBILE_CLIENT"
definition ALL_CLIENTS :: env_flags where "ALL_CLIENTS = MANAGED_CLIENTS OR THICK_CLIENT_ORDINARY"
definition SERVER_CALL_CALLERS :: env_flags where
  "SERVER_CALL_CALLERS = ALL_CLIENTS OR EXTERNAL_CONNECTION"

definition env_is_empty :: "env_flags \<Rightarrow> bool" where
  "env_is_empty a \<longleftrightarrow> a = 0"

definition env_contains :: "env_flags \<Rightarrow> env_flags \<Rightarrow> bool" where
  "env_contains a b \<longleftrightarrow> a AND b = b"

definition env_intersects :: "env_flags \<Rightarrow> env_flags \<Rightarrow> bool" where
  "env_intersects a b \<longleftrightarrow> a AND b \<noteq> 0"

definition env_union :: "env_flags \<Rightarrow> env_flags \<Rightarrow> env_flags" where
  "env_union a b = a OR b"

definition env_intersection :: "env_flags \<Rightarrow> env_flags \<Rightarrow> env_flags" where
  "env_intersection a b = a AND b"

definition env_without :: "env_flags \<Rightarrow> env_flags \<Rightarrow> env_flags" where
  "env_without a b = a AND NOT b"

definition single_envs :: "env_flags list" where
  "single_envs = [THIN_CLIENT, WEB_CLIENT, THICK_CLIENT_MANAGED, THICK_CLIENT_ORDINARY, SERVER,
     MOBILE_CLIENT, EXTERNAL_CONNECTION]"

definition env_iter :: "env_flags \<Rightarrow> env_flags list" where
  "env_iter a = filter (env_contains a) single_envs"

definition checked_envs_of :: "preproc_symbol_id \<Rightarrow> env_flags" where
  "checked_envs_of i =
    (case i of
       PSI_Server \<Rightarrow> SERVER | PSI_AtServer \<Rightarrow> SERVER
     | PSI_Client \<Rightarrow> MANAGED_CLIENTS | PSI_AtClient \<Rightarrow> MANAGED_CLIENTS
     | PSI_ThinClient \<Rightarrow> THIN_CLIENT
     | PSI_WebClient \<Rightarrow> WEB_CLIENT
     | PSI_MobileClient \<Rightarrow> MOBILE_CLIENT
     | PSI_ThickClientManagedApplication \<Rightarrow> THICK_CLIENT_MANAGED
     | PSI_ThickClientOrdinaryApplication \<Rightarrow> THICK_CLIENT_ORDINARY
     | PSI_ExternalConnection \<Rightarrow> EXTERNAL_CONNECTION
     | PSI_MobileAppClient \<Rightarrow> ENV_EMPTY | PSI_MobileAppServer \<Rightarrow> ENV_EMPTY
     | PSI_MobileStandaloneServer \<Rightarrow> ENV_EMPTY)"

definition from_config_name ::
  "(uchar \<Rightarrow> ustring) \<Rightarrow> (uchar \<Rightarrow> ustring) \<Rightarrow> ustring \<Rightarrow> env_flags option" where
  "from_config_name to_uppercase to_lowercase name =
    (case lookup_symbol to_uppercase to_lowercase name of
       None \<Rightarrow> None
     | Some i \<Rightarrow>
         let mask = checked_envs_of i
         in if \<not> env_is_empty mask then Some mask else None)"

text \<open>The availability of an entry of the platform, as the platform's data marks it.\<close>

record context_availability =
  ca_thin_client :: bool
  ca_web_client :: bool
  ca_thick_client :: bool
  ca_server :: bool
  ca_mobile_client :: bool
  ca_external_connection :: bool

definition UNRESTRICTED :: context_availability where
  "UNRESTRICTED = \<lparr>ca_thin_client = True, ca_web_client = True, ca_thick_client = True, ca_server = True,
     ca_mobile_client = True, ca_external_connection = True\<rparr>"

definition effective :: "context_availability option \<Rightarrow> context_availability" where
  "effective context = (case context of None \<Rightarrow> UNRESTRICTED | Some c \<Rightarrow> c)"

definition from_platform_context :: "context_availability option \<Rightarrow> env_flags" where
  "from_platform_context context =
    (let ctx = effective context;
         env = ENV_EMPTY;
         env = (if ca_thin_client ctx then env_union env THIN_CLIENT else env);
         env = (if ca_web_client ctx then env_union env WEB_CLIENT else env);
         env = (if ca_thick_client ctx
           then env_union (env_union env THICK_CLIENT_MANAGED) THICK_CLIENT_ORDINARY else env);
         env = (if ca_server ctx then env_union env SERVER else env);
         env = (if ca_mobile_client ctx then env_union env MOBILE_CLIENT else env);
         env = (if ca_external_connection ctx then env_union env EXTERNAL_CONNECTION else env)
     in env)"


section \<open>Sets of environments\<close>

lemmas single_env_defs = THIN_CLIENT_def WEB_CLIENT_def THICK_CLIENT_MANAGED_def
  THICK_CLIENT_ORDINARY_def SERVER_def MOBILE_CLIENT_def EXTERNAL_CONNECTION_def

lemma contains_flag:
  assumes "n < 8"
  shows "env_contains a (2 ^ n) \<longleftrightarrow> bit a n"
proof
  assume "env_contains a (2 ^ n)"
  then have "bit (a AND 2 ^ n) n = bit (2 ^ n :: env_flags) n"
    by (simp add: env_contains_def)
  then show "bit a n"
    using assms by (simp add: bit_simps)
next
  assume "bit a n"
  then show "env_contains a (2 ^ n)"
    unfolding env_contains_def by (intro bit_word_eqI) (auto simp: bit_simps)
qed

lemma single_env_flag: "e \<in> set single_envs \<Longrightarrow> \<exists>n < 7. e = 2 ^ n"
  by (auto simp: single_envs_def single_env_defs push_bit_eq_mult intro: exI [of _ 0] exI [of _ 1] exI [of _ 2]
      exI [of _ 3] exI [of _ 4] exI [of _ 5] exI [of _ 6])

lemma contains_union [simp]:
  "e \<in> set single_envs \<Longrightarrow> env_contains (env_union a b) e \<longleftrightarrow> env_contains a e \<or> env_contains b e"
  by (auto simp: contains_flag env_union_def bit_simps dest!: single_env_flag)

lemma contains_intersection [simp]:
  "e \<in> set single_envs \<Longrightarrow> env_contains (env_intersection a b) e \<longleftrightarrow> env_contains a e \<and> env_contains b e"
  by (auto simp: contains_flag env_intersection_def bit_simps dest!: single_env_flag)

lemma contains_without [simp]:
  "e \<in> set single_envs \<Longrightarrow> env_contains (env_without a b) e \<longleftrightarrow> env_contains a e \<and> \<not> env_contains b e"
  by (auto simp: contains_flag env_without_def bit_simps dest!: single_env_flag)

lemma contains_empty [simp]: "e \<in> set single_envs \<Longrightarrow> \<not> env_contains ENV_EMPTY e"
  by (auto simp: contains_flag ENV_EMPTY_def dest!: single_env_flag)

lemma distinct_single_envs: "distinct single_envs"
  by (simp add: single_envs_def single_env_defs)

lemma contains_single:
  "e \<in> set single_envs \<Longrightarrow> e' \<in> set single_envs \<Longrightarrow> env_contains e' e \<longleftrightarrow> e' = e"
  by (auto simp: single_envs_def single_env_defs env_contains_def)

lemma contains_all [simp]: "e \<in> set single_envs \<Longrightarrow> env_contains ENV_ALL e"
  by (auto simp: single_envs_def single_env_defs env_contains_def ENV_ALL_def)

lemma env_iter_set: "set (env_iter a) = {e \<in> set single_envs. env_contains a e}"
  by (auto simp: env_iter_def)

lemma env_iter_distinct: "distinct (env_iter a)"
  by (simp add: env_iter_def distinct_single_envs)

end
