(* ===== verification/Preproc_Condition.thy ===== *)
theory Preproc_Condition
  imports Env_Flags Hir
begin

text \<open>
  The conditions of conditional compilation (\<open>hir-def/src/preproc_condition.rs\<close>): parsing
  their text, their three-valued truth in one environment, and the masks of environments a
  chain of branches gets. Classes of characters and conversions of case are arguments.
\<close>

section \<open>Symbols\<close>

definition symbol_of_id :: "preproc_symbol_id \<Rightarrow> env_symbol" where
  "symbol_of_id i =
    (case i of
       PSI_Client \<Rightarrow> PS_Client | PSI_AtClient \<Rightarrow> PS_Client
     | PSI_Server \<Rightarrow> PS_Server | PSI_AtServer \<Rightarrow> PS_Server
     | PSI_ThinClient \<Rightarrow> PS_ThinClient
     | PSI_WebClient \<Rightarrow> PS_WebClient
     | PSI_MobileClient \<Rightarrow> PS_MobileClient
     | PSI_ThickClientOrdinaryApplication \<Rightarrow> PS_ThickClientOrdinaryApplication
     | PSI_ThickClientManagedApplication \<Rightarrow> PS_ThickClientManagedApplication
     | PSI_ExternalConnection \<Rightarrow> PS_ExternalConnection
     | PSI_MobileAppClient \<Rightarrow> PS_MobileAppRuntime | PSI_MobileAppServer \<Rightarrow> PS_MobileAppRuntime
     | PSI_MobileStandaloneServer \<Rightarrow> PS_MobileAppRuntime)"

definition from_ident :: "(uchar \<Rightarrow> ustring) \<Rightarrow> (uchar \<Rightarrow> ustring) \<Rightarrow> ustring \<Rightarrow> env_symbol" where
  "from_ident to_uppercase to_lowercase ident =
    (case lookup_symbol to_uppercase to_lowercase ident of
       None \<Rightarrow> PS_Unrecognized
     | Some i \<Rightarrow> symbol_of_id i)"

definition symbol_eval :: "env_symbol \<Rightarrow> env_flags \<Rightarrow> bool option \<Rightarrow> bool option" where
  "symbol_eval symbol env server =
    (case symbol of
       PS_Client \<Rightarrow> Some (env_intersects env (env_union MANAGED_CLIENTS THICK_CLIENT_ORDINARY))
     | PS_Server \<Rightarrow>
         if env = SERVER then Some True
         else if env = THICK_CLIENT_MANAGED \<or> env = THICK_CLIENT_ORDINARY \<or> env = EXTERNAL_CONNECTION
         then server
         else Some False
     | PS_ThinClient \<Rightarrow> Some (env = THIN_CLIENT)
     | PS_WebClient \<Rightarrow> Some (env = WEB_CLIENT)
     | PS_MobileClient \<Rightarrow> Some (env = MOBILE_CLIENT)
     | PS_ThickClientOrdinaryApplication \<Rightarrow> Some (env = THICK_CLIENT_ORDINARY)
     | PS_ThickClientManagedApplication \<Rightarrow> Some (env = THICK_CLIENT_MANAGED)
     | PS_ExternalConnection \<Rightarrow> Some (env = EXTERNAL_CONNECTION)
     | PS_MobileAppRuntime \<Rightarrow> Some False
     | PS_Unrecognized \<Rightarrow> None)"


section \<open>Truth in an environment\<close>

fun eval_with :: "preproc_condition \<Rightarrow> env_flags \<Rightarrow> bool option \<Rightarrow> bool option" where
  "eval_with (PC_Symbol symbol) env server = symbol_eval symbol env server"
| "eval_with (PC_Not inner) env server = map_option Not (eval_with inner env server)"
| "eval_with (PC_And lhs rhs) env server =
    (let l = eval_with lhs env server; r = eval_with rhs env server in
     if l = Some False \<or> r = Some False then Some False
     else if l = Some True \<and> r = Some True then Some True
     else None)"
| "eval_with (PC_Or lhs rhs) env server =
    (let l = eval_with lhs env server; r = eval_with rhs env server in
     if l = Some True \<or> r = Some True then Some True
     else if l = Some False \<and> r = Some False then Some False
     else None)"
| "eval_with PC_Unknown env server = None"

definition condition_eval :: "preproc_condition \<Rightarrow> env_flags \<Rightarrow> bool option" where
  "condition_eval c env =
    (case eval_with c env None of
       Some v \<Rightarrow> Some v
     | None \<Rightarrow>
         (case (eval_with c env (Some True), eval_with c env (Some False)) of
            (Some when_server, Some when_not) \<Rightarrow>
              if when_server = when_not then Some when_server else None
          | _ \<Rightarrow> None))"


section \<open>Masks of branches\<close>

text \<open>The loops go over the environments \<open>remaining\<close> had at the start.\<close>

definition narrow_branch :: "preproc_condition \<Rightarrow> env_flags \<Rightarrow> env_flags \<times> env_flags" where
  "narrow_branch c remaining =
    fold (\<lambda>env (mask, remaining).
        case condition_eval c env of
          Some True \<Rightarrow> (env_union mask env, env_without remaining env)
        | Some False \<Rightarrow> (mask, remaining)
        | None \<Rightarrow> (mask, env_without remaining env))
      (env_iter remaining) (ENV_EMPTY, remaining)"

definition possible_branch :: "preproc_condition \<Rightarrow> env_flags \<Rightarrow> env_flags \<times> env_flags" where
  "possible_branch c remaining =
    fold (\<lambda>env (mask, remaining).
        case condition_eval c env of
          Some True \<Rightarrow> (env_union mask env, env_without remaining env)
        | Some False \<Rightarrow> (mask, remaining)
        | None \<Rightarrow> (env_union mask env, remaining))
      (env_iter remaining) (ENV_EMPTY, remaining)"


text \<open>
  A chain from its \<open>#If\<close> on: a branch with a condition, or one without, which gets what is
  left. Each branch gets the environments that surely compile it and those that may.
\<close>

fun branch_masks :: "preproc_condition option list \<Rightarrow> env_flags \<Rightarrow> env_flags \<Rightarrow> (env_flags \<times> env_flags) list" where
  "branch_masks [] remaining possible_remaining = []"
| "branch_masks (Some c # branches) remaining possible_remaining =
    (let (mask, remaining) = narrow_branch c remaining;
         (possible, possible_remaining) = possible_branch c possible_remaining
     in (mask, possible) # branch_masks branches remaining possible_remaining)"
| "branch_masks (None # branches) remaining possible_remaining =
    (remaining, possible_remaining) # branch_masks branches remaining possible_remaining"


section \<open>Parsing\<close>

datatype condition_token =
    CT_Ident ustring | CT_Not | CT_And | CT_Or | CT_LParen | CT_RParen | CT_Error

text \<open>What the parser asks of the standard library.\<close>

record char_tables =
  ch_whitespace :: "uchar \<Rightarrow> bool"
  ch_alphabetic :: "uchar \<Rightarrow> bool"
  ch_alphanumeric :: "uchar \<Rightarrow> bool"
  ch_to_uppercase :: "uchar \<Rightarrow> ustring"
  ch_to_lowercase :: "uchar \<Rightarrow> ustring"

definition bilingual_eq :: "char_tables \<Rightarrow> ustring \<Rightarrow> ustring \<Rightarrow> ustring \<Rightarrow> bool" where
  "bilingual_eq T ident ru en \<longleftrightarrow>
     eq_case_folded (ch_to_uppercase T) (ch_to_lowercase T) ident ru \<or>
     eq_case_folded (ch_to_uppercase T) (ch_to_lowercase T) ident en"

definition word_token :: "char_tables \<Rightarrow> ustring \<Rightarrow> condition_token" where
  "word_token T word =
    (if bilingual_eq T word [0x41D, 0x415] (ascii ''Not'') then CT_Not
     else if bilingual_eq T word [0x418] (ascii ''And'') then CT_And
     else if bilingual_eq T word [0x418, 0x41B, 0x418] (ascii ''Or'') then CT_Or
     else CT_Ident word)"

function tokenize_condition :: "char_tables \<Rightarrow> ustring \<Rightarrow> condition_token list" where
  "tokenize_condition T [] = []"
| "tokenize_condition T (c # s) =
    (if ch_whitespace T c then tokenize_condition T s
     else if c = 0x28 then CT_LParen # tokenize_condition T s
     else if c = 0x29 then CT_RParen # tokenize_condition T s
     else if ch_alphabetic T c \<or> c = 0x5F then
       (let inside = (\<lambda>c. ch_alphanumeric T c \<or> c = 0x5F)
        in word_token T (c # takeWhile inside s) # tokenize_condition T (dropWhile inside s))
     else CT_Error # tokenize_condition T s)"
  by pat_completeness auto

termination
  by (relation "measure (length \<circ> snd)") (auto simp: le_imp_less_Suc length_dropWhile_le)

text \<open>
  The parser by recursive descent. Its position is the rest of the tokens; \<open>None\<close> is the
  failure of the source, the fuel bounds the depth of the calls and the passes of the loops.
\<close>

type_synonym condition_result = "(preproc_condition \<times> condition_token list) option outcome"

definition parsed :: "condition_result \<Rightarrow> (preproc_condition \<Rightarrow> condition_token list \<Rightarrow> condition_result) \<Rightarrow>
    condition_result" where
  "parsed m f = and_then m (\<lambda>r. case r of None \<Rightarrow> Inr None | Some (c, ts) \<Rightarrow> f c ts)"

lemma parsed_cong [fundef_cong]:
  "m = m' \<Longrightarrow> (\<And>c ts. m' = Inr (Some (c, ts)) \<Longrightarrow> f c ts = g c ts) \<Longrightarrow> parsed m f = parsed m' g"
  by (auto simp: parsed_def and_then_def split: sum.splits option.splits)

function parse_or :: "char_tables \<Rightarrow> nat \<Rightarrow> condition_token list \<Rightarrow> condition_result"
  and or_loop :: "char_tables \<Rightarrow> nat \<Rightarrow> preproc_condition \<Rightarrow> condition_token list \<Rightarrow> condition_result"
  and parse_and :: "char_tables \<Rightarrow> nat \<Rightarrow> condition_token list \<Rightarrow> condition_result"
  and and_loop :: "char_tables \<Rightarrow> nat \<Rightarrow> preproc_condition \<Rightarrow> condition_token list \<Rightarrow> condition_result"
  and parse_unary :: "char_tables \<Rightarrow> nat \<Rightarrow> condition_token list \<Rightarrow> condition_result" where
  "parse_or T 0 ts = Inl OutOfFuel"
| "parse_or T (Suc n) ts = parsed (parse_and T n ts) (or_loop T n)"
| "or_loop T 0 lhs ts = Inl OutOfFuel"
| "or_loop T (Suc n) lhs ts =
    (case ts of
       CT_Or # ts \<Rightarrow> parsed (parse_and T n ts) (\<lambda>rhs. or_loop T n (PC_Or lhs rhs))
     | _ \<Rightarrow> Inr (Some (lhs, ts)))"
| "parse_and T 0 ts = Inl OutOfFuel"
| "parse_and T (Suc n) ts = parsed (parse_unary T n ts) (and_loop T n)"
| "and_loop T 0 lhs ts = Inl OutOfFuel"
| "and_loop T (Suc n) lhs ts =
    (case ts of
       CT_And # ts \<Rightarrow> parsed (parse_unary T n ts) (\<lambda>rhs. and_loop T n (PC_And lhs rhs))
     | _ \<Rightarrow> Inr (Some (lhs, ts)))"
| "parse_unary T 0 ts = Inl OutOfFuel"
| "parse_unary T (Suc n) ts =
    (case ts of
       [] \<Rightarrow> Inr None
     | CT_Not # ts \<Rightarrow> parsed (parse_unary T n ts) (\<lambda>c ts. Inr (Some (PC_Not c, ts)))
     | CT_LParen # ts \<Rightarrow>
         parsed (parse_or T n ts) (\<lambda>inner ts.
           case ts of CT_RParen # ts \<Rightarrow> Inr (Some (inner, ts)) | _ \<Rightarrow> Inr None)
     | CT_Ident word # ts \<Rightarrow>
         Inr (Some (PC_Symbol (from_ident (ch_to_uppercase T) (ch_to_lowercase T) word), ts))
     | _ \<Rightarrow> Inr None)"
  by pat_completeness auto

termination
  by (relation "measure (\<lambda>x. case x of
      Inl (Inl (_, n, _)) \<Rightarrow> n | Inl (Inr (_, n, _, _)) \<Rightarrow> n | Inr (Inl (_, n, _)) \<Rightarrow> n
    | Inr (Inr (Inl (_, n, _, _))) \<Rightarrow> n | Inr (Inr (Inr (_, n, _))) \<Rightarrow> n)") auto

definition MAX_CONDITION_TOKENS :: nat where
  "MAX_CONDITION_TOKENS = 64"

text \<open>Four calls stand between a token and the next, so four units of fuel pay for one.\<close>

definition parse_condition_tokens :: "char_tables \<Rightarrow> condition_token list \<Rightarrow> preproc_condition outcome" where
  "parse_condition_tokens T tokens =
    (if MAX_CONDITION_TOKENS < length tokens then Inr PC_Unknown
     else and_then (parse_or T (4 * length tokens + 4) tokens) (\<lambda>r.
       Inr (case r of Some (c, []) \<Rightarrow> c | _ \<Rightarrow> PC_Unknown)))"

definition parse_condition :: "char_tables \<Rightarrow> ustring \<Rightarrow> preproc_condition outcome" where
  "parse_condition T s = parse_condition_tokens T (tokenize_condition T s)"


section \<open>Headers\<close>

fun before_comment :: "ustring \<Rightarrow> ustring" where
  "before_comment (a # b # s) = (if a = 0x2F \<and> b = 0x2F then [] else a # before_comment (b # s))"
| "before_comment s = s"

definition trim_start :: "char_tables \<Rightarrow> ustring \<Rightarrow> ustring" where
  "trim_start T s = dropWhile (ch_whitespace T) s"

definition trim_end :: "char_tables \<Rightarrow> ustring \<Rightarrow> ustring" where
  "trim_end T s = rev (dropWhile (ch_whitespace T) (rev s))"

definition char_fold :: "char_tables \<Rightarrow> uchar \<Rightarrow> uchar" where
  "char_fold T = fold_case (ch_to_uppercase T) (ch_to_lowercase T)"

text \<open>\<open>at\<close> is the byte offset of the next character.\<close>

fun folded_prefix_from :: "char_tables \<Rightarrow> ustring \<Rightarrow> ustring \<Rightarrow> nat \<Rightarrow> nat option" where
  "folded_prefix_from T s [] at = Some at"
| "folded_prefix_from T [] (expected # keyword) at = None"
| "folded_prefix_from T (c # s) (expected # keyword) at =
    (if char_fold T c \<noteq> char_fold T expected then None
     else folded_prefix_from T s keyword (at + len_utf8 c))"

definition folded_prefix_len :: "char_tables \<Rightarrow> ustring \<Rightarrow> ustring \<Rightarrow> nat option" where
  "folded_prefix_len T s keyword = folded_prefix_from T s keyword 0"

text \<open>Both strings are read from their ends; \<open>start\<close> is the offset reached.\<close>

fun folded_suffix_from :: "char_tables \<Rightarrow> ustring \<Rightarrow> ustring \<Rightarrow> nat \<Rightarrow> nat option" where
  "folded_suffix_from T s [] start = Some start"
| "folded_suffix_from T [] (expected # keyword) start = None"
| "folded_suffix_from T (c # s) (expected # keyword) start =
    (if char_fold T c \<noteq> char_fold T expected then None
     else folded_suffix_from T s keyword (start - len_utf8 c))"

definition folded_suffix_start :: "char_tables \<Rightarrow> ustring \<Rightarrow> ustring \<Rightarrow> nat option" where
  "folded_suffix_start T s keyword = folded_suffix_from T (rev s) (rev keyword) (str_len s)"

fun find_map_word :: "(ustring \<Rightarrow> nat option) \<Rightarrow> ustring list \<Rightarrow> nat option" where
  "find_map_word f [] = None"
| "find_map_word f (w # ws) = (case f w of Some n \<Rightarrow> Some n | None \<Rightarrow> find_map_word f ws)"

definition header_keywords :: "ustring list" where
  "header_keywords =
    [[0x418, 0x43D, 0x430, 0x447, 0x435, 0x415, 0x441, 0x43B, 0x438], ascii ''ElsIf'',
     [0x415, 0x441, 0x43B, 0x438], ascii ''If'']"

definition then_keywords :: "ustring list" where
  "then_keywords = [[0x422, 0x43E, 0x433, 0x434, 0x430], ascii ''Then'']"

definition extract_condition_text :: "char_tables \<Rightarrow> ustring \<Rightarrow> ustring option outcome" where
  "extract_condition_text T header =
    (case trim_start T (before_comment header) of
       [] \<Rightarrow> Inr None
     | hash # rest \<Rightarrow>
         if hash \<noteq> 0x23 then Inr None
         else
           let rest = trim_start T rest in
           case find_map_word (folded_prefix_len T rest) header_keywords of
             None \<Rightarrow> Inr None
           | Some keyword_len \<Rightarrow>
               and_then (str_from rest keyword_len) (\<lambda>rest.
               let rest = trim_end T (trim_start T rest) in
               case find_map_word (folded_suffix_start T rest) then_keywords of
                 None \<Rightarrow> Inr None
               | Some then_at \<Rightarrow>
                   and_then (str_index rest 0 then_at) (\<lambda>s. Inr (Some (trim_end T s)))))"

definition parse_directive_header :: "char_tables \<Rightarrow> ustring \<Rightarrow> preproc_condition outcome" where
  "parse_directive_header T header =
    and_then (extract_condition_text T header) (\<lambda>r.
    case r of None \<Rightarrow> Inr PC_Unknown | Some s \<Rightarrow> parse_condition T s)"


section \<open>Truth and its three values\<close>

text \<open>
  The values a condition may have in an environment, given whether the infobase compiles
  server code locally: a symbol of no known meaning may hold or not, each time it stands in
  the condition.
\<close>

fun condition_values :: "preproc_condition \<Rightarrow> env_flags \<Rightarrow> bool \<Rightarrow> bool set" where
  "condition_values (PC_Symbol symbol) env server =
    (case symbol of
       PS_Unrecognized \<Rightarrow> {True, False}
     | PS_MobileAppRuntime \<Rightarrow> {False}
     | PS_Client \<Rightarrow> {env_intersects env ALL_CLIENTS}
     | PS_Server \<Rightarrow> {env = SERVER \<or>
         server \<and> env \<in> {THICK_CLIENT_MANAGED, THICK_CLIENT_ORDINARY, EXTERNAL_CONNECTION}}
     | PS_ThinClient \<Rightarrow> {env = THIN_CLIENT}
     | PS_WebClient \<Rightarrow> {env = WEB_CLIENT}
     | PS_MobileClient \<Rightarrow> {env = MOBILE_CLIENT}
     | PS_ThickClientOrdinaryApplication \<Rightarrow> {env = THICK_CLIENT_ORDINARY}
     | PS_ThickClientManagedApplication \<Rightarrow> {env = THICK_CLIENT_MANAGED}
     | PS_ExternalConnection \<Rightarrow> {env = EXTERNAL_CONNECTION})"
| "condition_values (PC_Not c) env server = Not ` condition_values c env server"
| "condition_values (PC_And a b) env server =
    {x \<and> y | x y. x \<in> condition_values a env server \<and> y \<in> condition_values b env server}"
| "condition_values (PC_Or a b) env server =
    {x \<or> y | x y. x \<in> condition_values a env server \<and> y \<in> condition_values b env server}"
| "condition_values PC_Unknown env server = {True, False}"

lemma symbol_eval_values:
  "condition_values (PC_Symbol symbol) env server =
    (case symbol_eval symbol env (Some server) of Some v \<Rightarrow> {v} | None \<Rightarrow> UNIV)"
proof (cases symbol)
  case PS_Server
  have "SERVER \<noteq> THICK_CLIENT_MANAGED" "SERVER \<noteq> THICK_CLIENT_ORDINARY" "SERVER \<noteq> EXTERNAL_CONNECTION"
    by (simp_all add: single_env_defs)
  then show ?thesis
    using PS_Server by (auto simp: symbol_eval_def)
qed (auto simp: symbol_eval_def env_union_def ALL_CLIENTS_def)

lemma eval_with_values:
  "condition_values c env server =
    (case eval_with c env (Some server) of Some v \<Rightarrow> {v} | None \<Rightarrow> UNIV)"
proof (induction c)
  case (PC_Symbol symbol)
  then show ?case
    by (simp only: symbol_eval_values eval_with.simps)
next
  case (PC_Not c)
  then show ?case
    by (auto split: option.splits)
next
  case (PC_And a b)
  then show ?case
    by (cases "eval_with a env (Some server)"; cases "eval_with b env (Some server)") auto
next
  case (PC_Or a b)
  then show ?case
    by (cases "eval_with a env (Some server)"; cases "eval_with b env (Some server)") auto
qed auto

lemma eval_with_mono: "eval_with c env None = Some v \<Longrightarrow> eval_with c env (Some server) = Some v"
proof (induction c arbitrary: v)
  case (PC_Symbol symbol)
  then show ?case
    by (auto simp: symbol_eval_def split: env_symbol.splits if_splits)
next
  case (PC_And a b)
  then show ?case
    by (cases "eval_with a env None"; cases "eval_with b env None"; cases v)
      (simp_all add: Let_def split: if_splits)
next
  case (PC_Or a b)
  then show ?case
    by (cases "eval_with a env None"; cases "eval_with b env None"; cases v)
      (simp_all add: Let_def split: if_splits)
qed auto

lemma condition_eval_iff:
  "condition_eval c env = Some v \<longleftrightarrow>
    eval_with c env (Some True) = Some v \<and> eval_with c env (Some False) = Some v"
  using eval_with_mono [of c env]
  by (cases "eval_with c env None") (auto simp: condition_eval_def split: option.splits if_splits)

text \<open>
  C36. The truth of a condition in an environment is exact: it is decided with a value just
  when the condition has that value, and no other, in both modes of the infobase and
  whatever the unknown symbols mean. In particular a contradiction or a tautology over
  \<open>Server\<close> is decided although \<open>Server\<close> itself is not.
\<close>

theorem condition_eval_exact:
  "condition_eval c env = Some v \<longleftrightarrow>
    condition_values c env True = {v} \<and> condition_values c env False = {v}"
proof -
  have "condition_values c env server = {v} \<longleftrightarrow> eval_with c env (Some server) = Some v" for server
    unfolding eval_with_values by (cases v) (auto split: option.splits)
  then show ?thesis
    by (simp add: condition_eval_iff)
qed



section \<open>Chains of branches\<close>

lemma narrow_fold:
  assumes "set xs \<subseteq> set single_envs" and "e \<in> set single_envs"
  shows "\<And>m rest. let (m', rest') = fold (\<lambda>env (mask, remaining).
        case condition_eval c env of
          Some True \<Rightarrow> (env_union mask env, env_without remaining env)
        | Some False \<Rightarrow> (mask, remaining)
        | None \<Rightarrow> (mask, env_without remaining env)) xs (m, rest) in
      (env_contains m' e \<longleftrightarrow> env_contains m e \<or> e \<in> set xs \<and> condition_eval c e = Some True) \<and>
      (env_contains rest' e \<longleftrightarrow> env_contains rest e \<and> (e \<in> set xs \<longrightarrow> condition_eval c e = Some False))"
  using assms(1)
proof (induction xs)
  case (Cons x xs)
  then show ?case
    using assms(2)
    by (cases "condition_eval c x"; cases "condition_eval c e"; cases "x = e")
      (auto simp: contains_single case_prod_unfold Let_def split: bool.splits)
qed simp

lemma possible_fold:
  assumes "set xs \<subseteq> set single_envs" and "e \<in> set single_envs"
  shows "\<And>m rest. let (m', rest') = fold (\<lambda>env (mask, remaining).
        case condition_eval c env of
          Some True \<Rightarrow> (env_union mask env, env_without remaining env)
        | Some False \<Rightarrow> (mask, remaining)
        | None \<Rightarrow> (env_union mask env, remaining)) xs (m, rest) in
      (env_contains m' e \<longleftrightarrow> env_contains m e \<or> e \<in> set xs \<and> condition_eval c e \<noteq> Some False) \<and>
      (env_contains rest' e \<longleftrightarrow> env_contains rest e \<and> (e \<in> set xs \<longrightarrow> condition_eval c e \<noteq> Some True))"
  using assms(1)
proof (induction xs)
  case (Cons x xs)
  then show ?case
    using assms(2)
    by (cases "condition_eval c x"; cases "condition_eval c e"; cases "x = e")
      (auto simp: contains_single case_prod_unfold Let_def split: bool.splits)
qed simp

lemma narrow_branch_masks:
  assumes "e \<in> set single_envs" and "narrow_branch c r = (m, rest)"
  shows "env_contains m e \<longleftrightarrow> env_contains r e \<and> condition_eval c e = Some True"
    and "env_contains rest e \<longleftrightarrow> env_contains r e \<and> condition_eval c e = Some False"
  using narrow_fold [of "env_iter r" e c ENV_EMPTY r] assms
  by (auto simp: narrow_branch_def env_iter_set)

lemma possible_branch_masks:
  assumes "e \<in> set single_envs" and "possible_branch c r = (m, rest)"
  shows "env_contains m e \<longleftrightarrow> env_contains r e \<and> condition_eval c e \<noteq> Some False"
    and "env_contains rest e \<longleftrightarrow> env_contains r e \<and> condition_eval c e \<noteq> Some True"
  using possible_fold [of "env_iter r" e c ENV_EMPTY r] assms
  by (auto simp: possible_branch_def env_iter_set)

text \<open>What is known of a branch, and what values it may have; one without a condition holds.\<close>

definition branch_verdict :: "preproc_condition option \<Rightarrow> env_flags \<Rightarrow> bool option" where
  "branch_verdict b e = (case b of None \<Rightarrow> Some True | Some c \<Rightarrow> condition_eval c e)"

definition branch_values :: "preproc_condition option \<Rightarrow> env_flags \<Rightarrow> bool \<Rightarrow> bool set" where
  "branch_values b e server = (case b of None \<Rightarrow> {True} | Some c \<Rightarrow> condition_values c e server)"

lemma branch_masks_length [simp]: "length (branch_masks bs r p) = length bs"
  by (induction bs r p rule: branch_masks.induct) (auto split: prod.splits)

lemma branch_masks_nth:
  assumes "e \<in> set single_envs" and "i < length bs" and "None \<notin> set (take i bs)"
  shows "(env_contains (fst (branch_masks bs r p ! i)) e \<longleftrightarrow> env_contains r e \<and>
      (\<forall>j < i. branch_verdict (bs ! j) e = Some False) \<and> branch_verdict (bs ! i) e = Some True) \<and>
    (env_contains (snd (branch_masks bs r p ! i)) e \<longleftrightarrow> env_contains p e \<and>
      (\<forall>j < i. branch_verdict (bs ! j) e \<noteq> Some True) \<and> branch_verdict (bs ! i) e \<noteq> Some False)"
  using assms(2,3)
proof (induction bs r p arbitrary: i rule: branch_masks.induct)
  case (2 c bs r p)
  obtain m r' where n: "narrow_branch c r = (m, r')"
    by fastforce
  obtain q p' where q: "possible_branch c p = (q, p')"
    by fastforce
  show ?case
  proof (cases i)
    case 0
    then show ?thesis
      using narrow_branch_masks [OF assms(1) n] possible_branch_masks [OF assms(1) q]
      by (simp add: n q branch_verdict_def)
  next
    case (Suc k)
    then show ?thesis
      using narrow_branch_masks [OF assms(1) n] possible_branch_masks [OF assms(1) q]
        "2.IH" [OF n [symmetric] refl q [symmetric] refl, of k] "2.prems"
      by (auto simp: n q branch_verdict_def All_less_Suc2)
  qed
next
  case (3 bs r p)
  then show ?case
    by (cases i) (auto simp: branch_verdict_def)
qed simp


text \<open>One way the chain may go: a value for every branch, in one mode of the infobase.\<close>

definition chain_run :: "preproc_condition option list \<Rightarrow> env_flags \<Rightarrow> bool \<Rightarrow> bool list \<Rightarrow> bool" where
  "chain_run bs e server ws \<longleftrightarrow> list_all2 (\<lambda>b w. w \<in> branch_values b e server) bs ws"

definition branch_taken :: "bool list \<Rightarrow> nat \<Rightarrow> bool" where
  "branch_taken ws i \<longleftrightarrow> ws ! i \<and> (\<forall>j < i. \<not> ws ! j)"

lemma branch_verdict_values:
  "branch_verdict b e = Some v \<longleftrightarrow> branch_values b e True = {v} \<and> branch_values b e False = {v}"
  by (cases b) (auto simp: branch_verdict_def branch_values_def condition_eval_iff eval_with_values
      split: option.splits)

lemma branch_values_nonempty: "branch_values b e server \<noteq> {}"
  by (cases b) (auto simp: branch_values_def eval_with_values split: option.splits)

text \<open>A branch that is not surely \<open>v\<close> has the other value in some run of the chain.\<close>

lemma run_against:
  assumes "i < length bs" and "branch_verdict (bs ! i) e \<noteq> Some v"
  shows "\<exists>server ws. chain_run bs e server ws \<and> ws ! i = (\<not> v)"
proof -
  obtain server where "branch_values (bs ! i) e server \<noteq> {v}"
    using assms(2) by (auto simp: branch_verdict_values)
  then obtain w where "w \<in> branch_values (bs ! i) e server" "w \<noteq> v"
    using branch_values_nonempty [of "bs ! i" e server] by blast
  moreover from this(2) have "w = (\<not> v)"
    by blast
  ultimately have in_values: "(\<not> v) \<in> branch_values (bs ! i) e server"
    by simp
  let ?ws = "(map (\<lambda>b. True \<in> branch_values b e server) bs)[i := \<not> v]"
  have pick: "(True \<in> branch_values b e server) \<in> branch_values b e server" for b
    using branch_values_nonempty [of b e server] by (metis (full_types) ex_in_conv)
  have "?ws ! j \<in> branch_values (bs ! j) e server" if "j < length bs" for j
    using that in_values pick by (cases "j = i") simp_all
  then have "chain_run bs e server ?ws"
    by (simp add: chain_run_def list_all2_conv_all_nth)
  then show ?thesis
    using assms(1) by (intro exI [of _ server] exI [of _ ?ws]) simp
qed

lemma branch_masks_exact:
  assumes "e \<in> set single_envs" and "i < length bs" and "None \<notin> set (butlast bs)"
  shows "(env_contains (fst (branch_masks bs ENV_ALL ENV_ALL ! i)) e \<longleftrightarrow>
      (\<forall>server ws. chain_run bs e server ws \<longrightarrow> branch_taken ws i)) \<and>
    ((\<exists>server ws. chain_run bs e server ws \<and> branch_taken ws i) \<longrightarrow>
      env_contains (snd (branch_masks bs ENV_ALL ENV_ALL ! i)) e)"
proof -
  have "take i bs = take i (butlast bs)"
    using assms(2) by (simp add: butlast_conv_take min_def)
  then have "None \<notin> set (take i bs)"
    using assms(3) by (auto dest: in_set_takeD)
  note masks = branch_masks_nth [OF assms(1,2) this, of ENV_ALL ENV_ALL]
  have known: "ws ! j = v" if "chain_run bs e server ws" "j < length bs" "branch_verdict (bs ! j) e = Some v"
    for server ws j v
    using that by (cases server) (auto simp: chain_run_def list_all2_conv_all_nth branch_verdict_values)
  show ?thesis
  proof (intro conjI iffI impI allI)
    fix server ws
    assume "env_contains (fst (branch_masks bs ENV_ALL ENV_ALL ! i)) e" and run: "chain_run bs e server ws"
    then show "branch_taken ws i"
      using masks assms(2) known [OF run] unfolding branch_taken_def by (metis order.strict_trans)
  next
    assume all: "\<forall>server ws. chain_run bs e server ws \<longrightarrow> branch_taken ws i"
    have "branch_verdict (bs ! i) e = Some True"
      using run_against [OF assms(2), of e True] all by (auto simp: branch_taken_def)
    moreover have "branch_verdict (bs ! j) e = Some False" if "j < i" for j
      using run_against [of j bs e False] all that assms(2) by (auto simp: branch_taken_def)
    ultimately show "env_contains (fst (branch_masks bs ENV_ALL ENV_ALL ! i)) e"
      using masks assms(1) by simp
  next
    assume "\<exists>server ws. chain_run bs e server ws \<and> branch_taken ws i"
    then obtain server ws where run: "chain_run bs e server ws" and taken: "branch_taken ws i"
      by blast
    have "branch_verdict (bs ! j) e \<noteq> Some True" if "j < i" for j
      using known [OF run] taken that assms(2) by (auto simp: branch_taken_def)
    moreover have "branch_verdict (bs ! i) e \<noteq> Some False"
      using known [OF run assms(2)] taken by (auto simp: branch_taken_def)
    ultimately show "env_contains (snd (branch_masks bs ENV_ALL ENV_ALL ! i)) e"
      using masks assms(1) by simp
  qed
qed

text \<open>
  C37. In a chain of branches the first mask of a branch holds exactly the environments that
  compile it whatever the mode of the infobase and whatever the unknown symbols mean, and
  the second holds every environment that may compile it. An environment an earlier branch
  leaves undecided is in no first mask, the one of the last branch included.
\<close>

theorem branch_masks_sound:
  assumes "e \<in> set single_envs" and "i < length bs" and "None \<notin> set (butlast bs)"
  shows "(env_contains (fst (branch_masks bs ENV_ALL ENV_ALL ! i)) e \<longleftrightarrow>
      (\<forall>server ws. chain_run bs e server ws \<longrightarrow> branch_taken ws i)) \<and>
    ((\<exists>server ws. chain_run bs e server ws \<and> branch_taken ws i) \<longrightarrow>
      env_contains (snd (branch_masks bs ENV_ALL ENV_ALL ! i)) e)"
  using assms by (rule branch_masks_exact)

theorem branch_masks_sound_witness:
  "SERVER \<in> set single_envs \<and>
    env_contains (fst (branch_masks [Some (PC_Symbol PS_ThinClient), Some (PC_Symbol PS_Server), None]
      ENV_ALL ENV_ALL ! 1)) SERVER \<and>
    branch_taken [False, True, True] 1"
proof -
  let ?bs = "[Some (PC_Symbol PS_ThinClient), Some (PC_Symbol PS_Server), None]"
  have e: "SERVER \<in> set single_envs" "SERVER \<noteq> THIN_CLIENT"
    by (simp_all add: single_envs_def single_env_defs)
  have "\<exists>server ws. chain_run ?bs SERVER server ws \<and> branch_taken ws 1"
    using e by (intro exI [of _ True] exI [of _ "[False, True, True]"])
      (simp add: chain_run_def branch_values_def branch_taken_def)
  moreover have "\<forall>server ws. chain_run ?bs SERVER server ws \<longrightarrow> branch_taken ws 1"
    using e by (auto simp: chain_run_def branch_values_def branch_taken_def list_all2_Cons1)
  ultimately show ?thesis
    using branch_masks_sound [OF e(1), of 1 ?bs] e by (simp add: branch_taken_def)
qed

end
