(* ===== verification/Conditional_Tree.thy ===== *)
theory Conditional_Tree
  imports Preproc_Condition Syntax_Tree
begin

text \<open>
  The tree of the conditional directives of a module (\<open>hir-def/src/conditional_tree.rs\<close>): its
  data and queries, and its builder, which walks the syntax tree. The queries read only the
  arena of conditionals, so they take it.
\<close>

section \<open>Data and queries\<close>

type_synonym conditional_idx = nat

datatype conditional_kind = CK_If | CK_ElsIf | CK_Else

record conditional_data =
  cd_kind :: conditional_kind
  cd_condition_text :: "ustring option"
  cd_range :: text_range
  cd_directive_range :: text_range
  cd_condition_range :: "text_range option"
  cd_parent :: "conditional_idx option"
  cd_children :: "conditional_idx list"
  cd_siblings :: "conditional_idx list"
  cd_depth :: nat
  cd_parent_ast_kind :: "syntax_kind option"

type_synonym conditional_arena = "conditional_data list"

record conditional_tree =
  ct_conditionals :: conditional_arena
  ct_root_conditionals :: "conditional_idx list"
  ct_position_map :: "nat \<rightharpoonup> conditional_idx"

definition tree_conditional :: "conditional_arena \<Rightarrow> conditional_idx \<Rightarrow> conditional_data outcome" where
  "tree_conditional tree i = (case get tree i of Some d \<Rightarrow> Inr d | None \<Rightarrow> Inl Panic)"

definition conditional_parent :: "conditional_arena \<Rightarrow> conditional_idx \<Rightarrow> conditional_idx option outcome" where
  "conditional_parent tree i = and_then (tree_conditional tree i) (\<lambda>d. Inr (cd_parent d))"

definition main_if_branch :: "conditional_arena \<Rightarrow> conditional_idx \<Rightarrow> conditional_idx option outcome" where
  "main_if_branch tree i =
    and_then (tree_conditional tree i) (\<lambda>d.
    Inr (case cd_kind d of
        CK_If \<Rightarrow> None
      | _ \<Rightarrow> map_option fst (List.find (\<lambda>(_, candidate). cd_kind candidate = CK_If \<and> i \<in> set (cd_siblings candidate))
          (enumerate 0 tree))))"

definition all_branches :: "conditional_arena \<Rightarrow> conditional_idx \<Rightarrow> conditional_idx list outcome" where
  "all_branches tree i =
    and_then (main_if_branch tree i) (\<lambda>m.
    let main_if = (case m of Some j \<Rightarrow> j | None \<Rightarrow> i) in
    and_then (tree_conditional tree main_if) (\<lambda>main. Inr (main_if # cd_siblings main)))"

definition range_contains :: "text_range \<Rightarrow> nat \<Rightarrow> bool" where
  "range_contains r offset \<longleftrightarrow> fst r \<le> offset \<and> offset < snd r"

definition range_contains_range :: "text_range \<Rightarrow> text_range \<Rightarrow> bool" where
  "range_contains_range r s \<longleftrightarrow> fst r \<le> fst s \<and> snd s \<le> snd r"

text \<open>The deepest conditional that satisfies a test; among equals the first.\<close>

definition deepest :: "conditional_arena \<Rightarrow> (text_range \<Rightarrow> bool) \<Rightarrow> conditional_idx option" where
  "deepest tree test =
    map_option fst (fold (\<lambda>(i, d) best.
        if test (cd_range d) then
          (case best of
             None \<Rightarrow> Some (i, cd_depth d)
           | Some (_, best_depth) \<Rightarrow> if best_depth < cd_depth d then Some (i, cd_depth d) else best)
        else best) (enumerate 0 tree) None)"

definition tree_conditional_at :: "conditional_arena \<Rightarrow> nat \<Rightarrow> conditional_idx option" where
  "tree_conditional_at tree offset = deepest tree (\<lambda>r. range_contains r offset)"

definition conditional_containing :: "conditional_arena \<Rightarrow> text_range \<Rightarrow> conditional_idx option" where
  "conditional_containing tree rng = deepest tree (\<lambda>r. range_contains_range r rng)"

definition is_inside_conditional :: "conditional_arena \<Rightarrow> nat \<Rightarrow> bool" where
  "is_inside_conditional tree offset \<longleftrightarrow> tree_conditional_at tree offset \<noteq> None"


section \<open>Syntax nodes\<close>

text \<open>
  A node of the syntax tree as the tree library presents it: the kinds of the nodes above it,
  nearest first, the offset of its text, its kind and its elements.
\<close>

record syntax_node =
  sn_parents :: "syntax_kind list"
  sn_start :: nat
  sn_kind :: syntax_kind
  sn_elements :: "tree list"

definition node_text :: "syntax_node \<Rightarrow> ustring" where
  "node_text n = concat (map tree_text (sn_elements n))"

definition node_range :: "syntax_node \<Rightarrow> text_range" where
  "node_range n = (sn_start n, sn_start n + str_len (node_text n))"

fun nodes_from :: "syntax_kind list \<Rightarrow> nat \<Rightarrow> tree list \<Rightarrow> syntax_node list" where
  "nodes_from outer at [] = []"
| "nodes_from outer at (Leaf k w # ts) = nodes_from outer (at + str_len w) ts"
| "nodes_from outer at (Node k es # ts) =
    \<lparr>sn_parents = outer, sn_start = at, sn_kind = k, sn_elements = es\<rparr>
      # nodes_from outer (at + str_len (tree_text (Node k es))) ts"

definition node_children :: "syntax_node \<Rightarrow> syntax_node list" where
  "node_children n = nodes_from (sn_kind n # sn_parents n) (sn_start n) (sn_elements n)"

definition node_size :: "syntax_node \<Rightarrow> nat" where
  "node_size n = size_list size (sn_elements n)"

definition nodes_size :: "syntax_node list \<Rightarrow> nat" where
  "nodes_size ns = sum_list (map (\<lambda>n. node_size n + 1) ns)"

lemma nodes_size_simps [simp]:
  "nodes_size [] = 0" "nodes_size (n # ns) = node_size n + 1 + nodes_size ns"
  by (simp_all add: nodes_size_def)

lemma nodes_from_size: "nodes_size (nodes_from outer at ts) \<le> size_list size ts"
  by (induction outer at ts rule: nodes_from.induct) (simp_all add: node_size_def)

lemma node_children_size: "nodes_size (node_children n) \<le> node_size n"
  by (simp add: node_children_def nodes_from_size node_size_def)

lemma node_child_size: "c \<in> set (node_children n) \<Longrightarrow> node_size c < node_size n"
proof -
  have "node_size c < nodes_size ns" if "c \<in> set ns" for ns
    using that by (induction ns) auto
  then show "c \<in> set (node_children n) \<Longrightarrow> node_size c < node_size n"
    using node_children_size [of n] by fastforce
qed

lemma nodes_filter_size: "nodes_size (filter p ns) \<le> nodes_size ns"
  by (induction ns) auto

lemma nodes_filtered_size: "nodes_size (filter p (node_children n)) \<le> node_size n"
  using nodes_filter_size node_children_size le_trans by blast

lemma node_child_pays: "2 * nodes_size (node_children c) \<le> Suc (2 * node_size c + k)"
  using node_children_size [of c] by simp

text \<open>The nodes of a subtree in document order, and the kinds of all its elements.\<close>

function node_descendants :: "syntax_node \<Rightarrow> syntax_node list" where
  "node_descendants n = n # concat (map node_descendants (node_children n))"
  by pat_completeness auto

termination
  by (relation "measure node_size") (simp_all add: node_child_size)

declare node_descendants.simps [simp del]

primrec tree_kinds :: "tree \<Rightarrow> syntax_kind list" where
  "tree_kinds (Node k ts) = k # concat (map tree_kinds ts)"
| "tree_kinds (Leaf k w) = [k]"

definition node_kinds :: "syntax_node \<Rightarrow> syntax_kind list" where
  "node_kinds n = sn_kind n # concat (map tree_kinds (sn_elements n))"

definition node_tokens :: "syntax_node \<Rightarrow> syntax_kind list" where
  "node_tokens n = map fst (concat (map tree_leaves (sn_elements n)))"

definition first_token_kind :: "syntax_node \<Rightarrow> syntax_kind option" where
  "first_token_kind n = (case node_tokens n of [] \<Rightarrow> None | k # _ \<Rightarrow> Some k)"

definition last_token_kind :: "syntax_node \<Rightarrow> syntax_kind option" where
  "last_token_kind n = last_opt (node_tokens n)"

text \<open>The first line of a text (\<open>str::lines\<close>), and the offset of the first occurrence of a text.\<close>

definition first_line :: "ustring \<Rightarrow> ustring" where
  "first_line s =
    (let line = takeWhile (\<lambda>c. c \<noteq> 0x0A) s in
     if 0x0A \<in> set s \<and> last_opt line = Some 0x0D then butlast line else line)"

fun str_find :: "ustring \<Rightarrow> ustring \<Rightarrow> nat option" where
  "str_find [] needle = (if needle = [] then Some 0 else None)"
| "str_find (c # s) needle =
    (if take (length needle) (c # s) = needle then Some 0
     else map_option (\<lambda>n. len_utf8 c + n) (str_find s needle))"

text \<open>The syntax tree as the node at its root.\<close>

definition syntax_root :: "syntax_kind \<Rightarrow> tree list \<Rightarrow> syntax_node" where
  "syntax_root k ts = \<lparr>sn_parents = [], sn_start = 0, sn_kind = k, sn_elements = ts\<rparr>"


section \<open>The builder\<close>

record conditional_tree_builder =
  cb_tree :: conditional_tree
  cb_parent_stack :: "conditional_idx list"
  cb_torn_ends :: "nat \<rightharpoonup> nat"

definition conditional_tree_new :: conditional_tree where
  "conditional_tree_new =
    \<lparr>ct_conditionals = [], ct_root_conditionals = [], ct_position_map = (\<lambda>_. None)\<rparr>"

definition tree_builder_new :: conditional_tree_builder where
  "tree_builder_new = \<lparr>cb_tree = conditional_tree_new, cb_parent_stack = [], cb_torn_ends = (\<lambda>_. None)\<rparr>"

text \<open>The arena's \<open>alloc\<close> together with the entry of the position map that follows it.\<close>

definition alloc_conditional :: "conditional_data \<Rightarrow> conditional_tree_builder \<Rightarrow> conditional_idx \<times> conditional_tree_builder" where
  "alloc_conditional d b =
    (let t = cb_tree b; idx = length (ct_conditionals t) in
     (idx, b\<lparr>cb_tree := t\<lparr>ct_conditionals := ct_conditionals t @ [d],
        ct_position_map := (ct_position_map t)(fst (cd_range d) \<mapsto> idx)\<rparr>\<rparr>))"

definition update_conditional ::
  "conditional_idx \<Rightarrow> (conditional_data \<Rightarrow> conditional_data) \<Rightarrow> conditional_tree_builder \<Rightarrow> conditional_tree_builder outcome" where
  "update_conditional i f b =
    (let t = cb_tree b in
     and_then (tree_conditional (ct_conditionals t) i) (\<lambda>d.
     Inr (b\<lparr>cb_tree := t\<lparr>ct_conditionals := (ct_conditionals t)[i := f d]\<rparr>\<rparr>)))"

definition link_conditional ::
  "conditional_idx option \<Rightarrow> conditional_idx \<Rightarrow> conditional_tree_builder \<Rightarrow> conditional_tree_builder outcome" where
  "link_conditional parent idx b =
    (case parent of
       Some parent_idx \<Rightarrow> update_conditional parent_idx (\<lambda>d. d\<lparr>cd_children := cd_children d @ [idx]\<rparr>) b
     | None \<Rightarrow>
         let t = cb_tree b
         in Inr (b\<lparr>cb_tree := t\<lparr>ct_root_conditionals := ct_root_conditionals t @ [idx]\<rparr>\<rparr>))"

text \<open>The stack is read from its top.\<close>

fun close_groups :: "conditional_arena \<Rightarrow> nat \<Rightarrow> conditional_idx list \<Rightarrow> conditional_idx list outcome" where
  "close_groups arena start_at [] = Inr []"
| "close_groups arena start_at (topmost # stack) =
    and_then (tree_conditional arena topmost) (\<lambda>d.
    if snd (cd_range d) > start_at then Inr (topmost # stack) else close_groups arena start_at stack)"

definition close_finished_groups :: "nat \<Rightarrow> conditional_tree_builder \<Rightarrow> conditional_tree_builder outcome" where
  "close_finished_groups start_at b =
    and_then (close_groups (ct_conditionals (cb_tree b)) start_at (rev (cb_parent_stack b))) (\<lambda>stack.
    Inr (b\<lparr>cb_parent_stack := rev stack\<rparr>))"

definition extract_condition :: "char_tables \<Rightarrow> syntax_node \<Rightarrow> (ustring \<times> text_range) outcome" where
  "extract_condition T node =
    (let line = first_line (node_text node) in
     and_then (extract_condition_text T line) (\<lambda>r.
     let condition = (case r of Some c \<Rightarrow> c | None \<Rightarrow> trim_end T (trim_start T line));
         condition_range =
           (case List.find (\<lambda>c. sn_kind c = SK_PRE_EXPR \<or> sn_kind c = SK_PRE_LOGICAL_EXPR) (node_children node) of
              Some c \<Rightarrow> node_range c
            | None \<Rightarrow>
                let start_offset = (case str_find line condition of Some n \<Rightarrow> n | None \<Rightarrow> 0);
                    start_at = sn_start node + start_offset
                in (start_at, start_at + str_len condition))
     in Inr (condition, condition_range)))"

definition find_first_line_range :: "syntax_node \<Rightarrow> text_range" where
  "find_first_line_range node = (sn_start node, sn_start node + str_len (first_line (node_text node)))"

primrec parent_ast_kind :: "syntax_kind list \<Rightarrow> syntax_kind option" where
  "parent_ast_kind [] = None"
| "parent_ast_kind (k # outer) =
    (if k \<in> {SK_BINARY_EXPR, SK_CALL_EXPR, SK_INDEX_EXPR, SK_TERNARY_EXPR, SK_UNARY_EXPR} then Some k
     else if k \<in> {SK_IF_STMT, SK_WHILE_STMT, SK_FOR_STMT, SK_FOR_EACH_STMT, SK_TRY_STMT, SK_ASSIGN_STMT,
       SK_CALL_STMT} then Some k
     else if k \<in> {SK_PROCEDURE_DEF, SK_FUNCTION_DEF, SK_PARAM_LIST, SK_VAR_DEF} then Some k
     else if k \<in> {SK_SOURCE_FILE, SK_STMT_LIST} then None
     else parent_ast_kind outer)"

definition find_parent_ast_kind :: "syntax_node \<Rightarrow> syntax_kind option" where
  "find_parent_ast_kind directive_node = parent_ast_kind (sn_parents directive_node)"

definition torn_part :: "syntax_node \<Rightarrow> (nat \<rightharpoonup> nat) \<times> nat list \<Rightarrow> (nat \<rightharpoonup> nat) \<times> nat list" where
  "torn_part node = (\<lambda>(ends, open).
    let rng = node_range node;
        first = first_token_kind node;
        last = last_token_kind node in
    if first = Some SK_PRE_IF then
      (if last = Some SK_PRE_END_IF then (ends(fst rng \<mapsto> snd rng), open)
       else (ends, open @ [fst rng]))
    else
      (case pop open of
         (Some start_at, open) \<Rightarrow> (ends(start_at \<mapsto> snd rng), open)
       | (None, open) \<Rightarrow> (ends, open)))"

definition torn_group_ends :: "syntax_node \<Rightarrow> (nat \<rightharpoonup> nat)" where
  "torn_group_ends root =
    fst (fold torn_part (filter (\<lambda>n. sn_kind n = SK_PRE_TORN_IF_PART) (node_descendants root)) (\<lambda>_. None, []))"

definition process_torn_if ::
  "char_tables \<Rightarrow> syntax_node \<Rightarrow> conditional_tree_builder \<Rightarrow> conditional_tree_builder outcome" where
  "process_torn_if T node b =
    (case cb_torn_ends b (sn_start node) of
       None \<Rightarrow> Inr b
     | Some group_end \<Rightarrow>
         let directives = length (filter (\<lambda>k. k \<in> {SK_PRE_IF, SK_PRE_ELSIF, SK_PRE_ELSE, SK_PRE_END_IF})
               (node_kinds node)) in
         and_then
           (if directives = 1 then
              and_then (extract_condition T node) (\<lambda>(s, r). Inr (Some s, Some r))
            else Inr (None, None)) (\<lambda>(condition_text, condition_range).
         and_then (text_range_new (sn_start node) group_end) (\<lambda>rng.
         and_then (close_finished_groups (fst rng) b) (\<lambda>b.
         let parent = last_opt (cb_parent_stack b);
             (idx, b) = alloc_conditional \<lparr>cd_kind = CK_If, cd_condition_text = condition_text, cd_range = rng,
               cd_directive_range = find_first_line_range node, cd_condition_range = condition_range,
               cd_parent = parent, cd_children = [], cd_siblings = [], cd_depth = length (cb_parent_stack b),
               cd_parent_ast_kind = find_parent_ast_kind node\<rparr> b in
         and_then (link_conditional parent idx b) (\<lambda>b.
         Inr (b\<lparr>cb_parent_stack := cb_parent_stack b @ [idx]\<rparr>))))))"

lemma and_then_cong [fundef_cong]:
  "m = m' \<Longrightarrow> (\<And>x. m' = Inr x \<Longrightarrow> f x = g x) \<Longrightarrow> and_then m f = and_then m' g"
  by (cases m') auto

text \<open>
  The walk. A list of nodes stands for what is left of the \<open>for\<close> loop over them; the loops over
  the clauses yield the indices of the siblings they add.
\<close>

function (sequential) process_if_directive ::
    "char_tables \<Rightarrow> syntax_node \<Rightarrow> conditional_tree_builder \<Rightarrow> conditional_tree_builder outcome"
  and then_branch :: "char_tables \<Rightarrow> syntax_node list \<Rightarrow> conditional_tree_builder \<Rightarrow> conditional_tree_builder outcome"
  and elsif_clauses :: "char_tables \<Rightarrow> syntax_node list \<Rightarrow> conditional_idx \<Rightarrow> nat \<Rightarrow> conditional_tree_builder \<Rightarrow>
    (conditional_idx list \<times> conditional_tree_builder) outcome"
  and process_elsif_clause :: "char_tables \<Rightarrow> syntax_node \<Rightarrow> conditional_idx \<Rightarrow> nat \<Rightarrow> conditional_tree_builder \<Rightarrow>
    (conditional_idx \<times> conditional_tree_builder) outcome"
  and else_clauses :: "char_tables \<Rightarrow> syntax_node list \<Rightarrow> conditional_idx \<Rightarrow> nat \<Rightarrow> conditional_tree_builder \<Rightarrow>
    (conditional_idx list \<times> conditional_tree_builder) outcome"
  and process_else_clause :: "char_tables \<Rightarrow> syntax_node \<Rightarrow> conditional_idx \<Rightarrow> nat \<Rightarrow> conditional_tree_builder \<Rightarrow>
    (conditional_idx \<times> conditional_tree_builder) outcome"
  and collect_nested_conditionals ::
    "char_tables \<Rightarrow> syntax_node list \<Rightarrow> conditional_tree_builder \<Rightarrow> conditional_tree_builder outcome" where
  "process_if_directive T node b =
    and_then (extract_condition T node) (\<lambda>(condition_text, condition_range).
    and_then (close_finished_groups (sn_start node) b) (\<lambda>b.
    let parent = last_opt (cb_parent_stack b);
        nesting = length (cb_parent_stack b);
        (if_idx, b) = alloc_conditional \<lparr>cd_kind = CK_If, cd_condition_text = Some condition_text,
          cd_range = node_range node, cd_directive_range = find_first_line_range node,
          cd_condition_range = Some condition_range, cd_parent = parent, cd_children = [], cd_siblings = [],
          cd_depth = nesting, cd_parent_ast_kind = find_parent_ast_kind node\<rparr> b in
    and_then (link_conditional parent if_idx b) (\<lambda>b.
    and_then (elsif_clauses T (filter (\<lambda>n. sn_kind n = SK_PRE_ELSIF_CLAUSE) (node_children node)) if_idx nesting b) (\<lambda>(elsifs, b).
    and_then (else_clauses T (filter (\<lambda>n. sn_kind n = SK_PRE_ELSE_CLAUSE) (node_children node)) if_idx nesting b) (\<lambda>(elses, b).
    and_then (update_conditional if_idx (\<lambda>d. d\<lparr>cd_siblings := elsifs @ elses\<rparr>) b) (\<lambda>b.
    let scope = length (cb_parent_stack b) in
    and_then (then_branch T (node_children node) (b\<lparr>cb_parent_stack := cb_parent_stack b @ [if_idx]\<rparr>)) (\<lambda>b.
    Inr (b\<lparr>cb_parent_stack := take scope (cb_parent_stack b)\<rparr>))))))))"
| "then_branch T [] b = Inr b"
| "then_branch T (child # children) b =
    and_then
      (if sn_kind child = SK_PRE_ELSIF_CLAUSE \<or> sn_kind child = SK_PRE_ELSE_CLAUSE then Inr b
       else if sn_kind child = SK_PRE_IF_DIR then process_if_directive T child b
       else if sn_kind child = SK_PRE_TORN_IF_PART then process_torn_if T child b
       else collect_nested_conditionals T (node_children child) b) (\<lambda>b.
    then_branch T children b)"
| "elsif_clauses T [] if_idx nesting b = Inr ([], b)"
| "elsif_clauses T (elsif # clauses) if_idx nesting b =
    and_then (process_elsif_clause T elsif if_idx nesting b) (\<lambda>(elsif_idx, b).
    and_then (elsif_clauses T clauses if_idx nesting b) (\<lambda>(siblings, b).
    Inr (elsif_idx # siblings, b)))"
| "process_elsif_clause T node parent_if nesting b =
    and_then (extract_condition T node) (\<lambda>(condition_text, condition_range).
    let (idx, b) = alloc_conditional \<lparr>cd_kind = CK_ElsIf, cd_condition_text = Some condition_text,
          cd_range = node_range node, cd_directive_range = find_first_line_range node,
          cd_condition_range = Some condition_range, cd_parent = Some parent_if, cd_children = [], cd_siblings = [],
          cd_depth = nesting, cd_parent_ast_kind = find_parent_ast_kind node\<rparr> b;
        scope = length (cb_parent_stack b) in
    and_then (collect_nested_conditionals T (node_children node) (b\<lparr>cb_parent_stack := cb_parent_stack b @ [idx]\<rparr>)) (\<lambda>b.
    Inr (idx, b\<lparr>cb_parent_stack := take scope (cb_parent_stack b)\<rparr>)))"
| "else_clauses T [] if_idx nesting b = Inr ([], b)"
| "else_clauses T (else_clause # clauses) if_idx nesting b =
    and_then (process_else_clause T else_clause if_idx nesting b) (\<lambda>(else_idx, b).
    and_then (else_clauses T clauses if_idx nesting b) (\<lambda>(siblings, b).
    Inr (else_idx # siblings, b)))"
| "process_else_clause T node parent_if nesting b =
    (let (idx, b) = alloc_conditional \<lparr>cd_kind = CK_Else, cd_condition_text = None,
          cd_range = node_range node, cd_directive_range = find_first_line_range node,
          cd_condition_range = None, cd_parent = Some parent_if, cd_children = [], cd_siblings = [],
          cd_depth = nesting, cd_parent_ast_kind = find_parent_ast_kind node\<rparr> b;
        scope = length (cb_parent_stack b) in
    and_then (collect_nested_conditionals T (node_children node) (b\<lparr>cb_parent_stack := cb_parent_stack b @ [idx]\<rparr>)) (\<lambda>b.
    Inr (idx, b\<lparr>cb_parent_stack := take scope (cb_parent_stack b)\<rparr>)))"
| "collect_nested_conditionals T [] b = Inr b"
| "collect_nested_conditionals T (child # children) b =
    and_then
      (if sn_kind child = SK_PRE_IF_DIR then process_if_directive T child b
       else if sn_kind child = SK_PRE_TORN_IF_PART then process_torn_if T child b
       else collect_nested_conditionals T (node_children child) b) (\<lambda>b.
    collect_nested_conditionals T children b)"
  by pat_completeness auto

termination
proof (relation "measure (\<lambda>x. case x of
      Inl (Inl (_, n, _)) \<Rightarrow> 2 * node_size n + 1
    | Inl (Inr (Inl (_, ns, _))) \<Rightarrow> 2 * nodes_size ns
    | Inl (Inr (Inr (_, ns, _))) \<Rightarrow> 2 * nodes_size ns
    | Inr (Inl (Inl (_, n, _))) \<Rightarrow> 2 * node_size n + 1
    | Inr (Inl (Inr (_, ns, _))) \<Rightarrow> 2 * nodes_size ns
    | Inr (Inr (Inl (_, n, _))) \<Rightarrow> 2 * node_size n + 1
    | Inr (Inr (Inr (_, ns, _))) \<Rightarrow> 2 * nodes_size ns)")
qed (auto simp: less_Suc_eq_le node_children_size nodes_filtered_size node_child_pays)

declare process_if_directive.simps [simp del] process_elsif_clause.simps [simp del]
  process_else_clause.simps [simp del]

text \<open>\<open>collect_conditionals\<close> of the source has the same body as the nested one.\<close>

definition build :: "char_tables \<Rightarrow> syntax_node \<Rightarrow> conditional_tree_builder \<Rightarrow> conditional_tree outcome" where
  "build T root b =
    (let b = b\<lparr>cb_torn_ends := torn_group_ends root\<rparr> in
     and_then (collect_nested_conditionals T (node_children root) b) (\<lambda>b.
     Inr (cb_tree b)))"

definition lower_conditionals :: "char_tables \<Rightarrow> syntax_node \<Rightarrow> conditional_tree outcome" where
  "lower_conditionals T root = build T root tree_builder_new"

end
