(* ===== verification/Execution_Env.thy ===== *)
theory Execution_Env
  imports Conditional_Tree
begin

text \<open>
  Where code may run (\<open>hir-def/src/execution_env.rs\<close>): the environments of a module, of a
  method by its directive, and of a place in the text by the conditional branches around it.
  An empty set means that nothing is known.
\<close>

section \<open>Modules and methods\<close>

datatype module_type =
    ApplicationModule | CommonModule | SessionModule | ExternalConnectionModule
  | ManagedApplicationModule | OrdinaryApplicationModule | ManagerModule | ObjectModule
  | RecordSetModule | ValueManagerModule | FormModule | CommandModule | HTTPServiceModule
  | WebServiceModule | IntegrationServiceModule | UnknownModule

datatype annotation_kind =
    AtClient | AtServer | AtClientAtServer | AtClientAtServerNoContext | AtServerNoContext
  | Before | After | Instead | ChangeAndValidate

text \<open>The flags of a common module; a missing one counts as not set.\<close>

record common_module =
  cm_server :: "bool option"
  cm_server_call :: "bool option"
  cm_external_connection :: "bool option"
  cm_client_managed_application :: "bool option"
  cm_client_ordinary_application :: "bool option"

definition flag_set :: "bool option \<Rightarrow> bool" where
  "flag_set f \<longleftrightarrow> f = Some True"

record module_metadata =
  md_module_type :: module_type
  md_common_module :: "common_module option"
  md_form_is_ordinary :: "bool option"

definition is_ordinary_form_module :: "module_metadata \<Rightarrow> bool" where
  "is_ordinary_form_module m \<longleftrightarrow> md_module_type m = FormModule \<and> md_form_is_ordinary m = Some True"

text \<open>A common module whose flags select no environment.\<close>

definition compiles_nowhere :: "module_metadata \<Rightarrow> bool" where
  "compiles_nowhere m \<longleftrightarrow> md_module_type m = CommonModule \<and>
     (case md_common_module m of
        None \<Rightarrow> False
      | Some cm \<Rightarrow> \<not> (flag_set (cm_server cm) \<or> flag_set (cm_server_call cm) \<or> flag_set (cm_external_connection cm) \<or>
          flag_set (cm_client_managed_application cm) \<or> flag_set (cm_client_ordinary_application cm)))"

record env_options =
  eo_client_environments :: env_flags
  eo_ordinary_app_support :: bool
  eo_checked_environments :: env_flags
  eo_ordinary_forms_in_managed_app :: "bool option"
  eo_managed_run_mode :: bool

definition env_options_default :: env_options where
  "env_options_default = \<lparr>
     eo_client_environments = env_union (env_union THIN_CLIENT WEB_CLIENT) THICK_CLIENT_MANAGED,
     eo_ordinary_app_support = False,
     eo_checked_environments = env_union (env_union (env_union THIN_CLIENT WEB_CLIENT) THICK_CLIENT_MANAGED) SERVER,
     eo_ordinary_forms_in_managed_app = None,
     eo_managed_run_mode = False\<rparr>"

definition managed_client_envs :: "env_options \<Rightarrow> env_flags" where
  "managed_client_envs opts = env_intersection (eo_client_environments opts) MANAGED_CLIENTS"

definition client_envs :: "env_options \<Rightarrow> env_flags" where
  "client_envs opts =
    (if eo_ordinary_app_support opts then env_union (managed_client_envs opts) THICK_CLIENT_ORDINARY
     else managed_client_envs opts)"

definition server_envs :: "env_options \<Rightarrow> env_flags" where
  "server_envs opts = SERVER_SIDE"

definition external_connection_checked :: "env_options \<Rightarrow> bool" where
  "external_connection_checked opts \<longleftrightarrow> env_contains (eo_checked_environments opts) EXTERNAL_CONNECTION"

definition common_module_env :: "common_module \<Rightarrow> env_options \<Rightarrow> env_flags" where
  "common_module_env cm opts =
    (let env = ENV_EMPTY;
         env = (if flag_set (cm_server cm) \<or> flag_set (cm_server_call cm) then env_union env SERVER else env);
         env = (if flag_set (cm_external_connection cm) then env_union env EXTERNAL_CONNECTION else env)
     in if \<not> flag_set (cm_server_call cm) then
          let env = (if flag_set (cm_client_managed_application cm)
                then env_union env (managed_client_envs opts) else env);
              env = (if flag_set (cm_client_ordinary_application cm)
                then env_union env THICK_CLIENT_ORDINARY else env)
          in env
        else env)"

definition module_base_env :: "module_metadata \<Rightarrow> env_options \<Rightarrow> env_flags" where
  "module_base_env m opts =
    (case md_module_type m of
       CommonModule \<Rightarrow>
         (case md_common_module m of Some cm \<Rightarrow> common_module_env cm opts | None \<Rightarrow> ENV_EMPTY)
     | FormModule \<Rightarrow>
         if is_ordinary_form_module m then
           (if eo_ordinary_forms_in_managed_app opts = Some False then THICK_CLIENT_ORDINARY
            else env_union THICK_CLIENT_ORDINARY THICK_CLIENT_MANAGED)
         else env_union (client_envs opts) SERVER
     | CommandModule \<Rightarrow> env_union (client_envs opts) SERVER
     | ManagedApplicationModule \<Rightarrow> managed_client_envs opts
     | ApplicationModule \<Rightarrow> managed_client_envs opts
     | OrdinaryApplicationModule \<Rightarrow> THICK_CLIENT_ORDINARY
     | SessionModule \<Rightarrow> SERVER_SIDE
     | ExternalConnectionModule \<Rightarrow> EXTERNAL_CONNECTION
     | HTTPServiceModule \<Rightarrow> SERVER
     | WebServiceModule \<Rightarrow> SERVER
     | IntegrationServiceModule \<Rightarrow> SERVER
     | UnknownModule \<Rightarrow> ENV_EMPTY
     | _ \<Rightarrow>
         let env = SERVER_SIDE;
             env = (if eo_ordinary_app_support opts then env_union env THICK_CLIENT_ORDINARY else env);
             env = (if eo_managed_run_mode opts
               then env_union env (env_intersection (managed_client_envs opts) THICK_CLIENT_MANAGED) else env)
         in env)"

definition is_object_family :: "module_type \<Rightarrow> bool" where
  "is_object_family t \<longleftrightarrow> t \<in> {ObjectModule, ManagerModule, RecordSetModule, ValueManagerModule}"

definition local_server_call_is_remote :: "module_type \<Rightarrow> bool" where
  "local_server_call_is_remote t \<longleftrightarrow> \<not> is_object_family t"

definition directive_env :: "annotation_kind option \<Rightarrow> module_type \<Rightarrow> env_options \<Rightarrow> env_flags" where
  "directive_env kind t opts =
    (case kind of
       Some AtClient \<Rightarrow> client_envs opts
     | Some k \<Rightarrow>
         if k = AtServer \<or> k = AtServerNoContext then
           (if external_connection_checked opts \<and> is_object_family t then SERVER else server_envs opts)
         else if k = AtClientAtServer \<or> k = AtClientAtServerNoContext then
           env_union (client_envs opts) (server_envs opts)
         else ENV_ALL
     | None \<Rightarrow> if t = FormModule \<or> t = CommandModule then server_envs opts else ENV_ALL)"

definition is_compilation_directive :: "annotation_kind \<Rightarrow> bool" where
  "is_compilation_directive k \<longleftrightarrow>
     k \<in> {AtClient, AtServer, AtServerNoContext, AtClientAtServer, AtClientAtServerNoContext}"

definition body_env :: "module_metadata \<Rightarrow> annotation_kind list \<Rightarrow> env_options \<Rightarrow> env_flags" where
  "body_env m annotations opts =
    (let base = module_base_env m opts in
     if env_is_empty base then ENV_EMPTY
     else if is_ordinary_form_module m then base
     else
       let directive = List.find is_compilation_directive annotations in
       if directive = None \<and> list_ex (\<lambda>a. \<not> is_compilation_directive a) annotations then base
       else env_intersection base (directive_env directive (md_module_type m) opts))"

definition module_code_env :: "module_metadata \<Rightarrow> env_options \<Rightarrow> env_flags" where
  "module_code_env m opts = module_base_env m opts"


section \<open>The environments of a place\<close>

text \<open>The smallest enclosing conditional; among equals the first.\<close>

definition innermost :: "conditional_arena \<Rightarrow> (text_range \<Rightarrow> bool) \<Rightarrow> conditional_idx option" where
  "innermost tree encloses =
    map_option fst (fold (\<lambda>(i, d) best.
        if encloses (cd_range d) then
          let len = snd (cd_range d) - fst (cd_range d) in
          (case best of
             None \<Rightarrow> Some (i, len)
           | Some (_, best_len) \<Rightarrow> if len < best_len then Some (i, len) else best)
        else best) (enumerate 0 tree) None)"

fun scan_branches ::
  "char_tables \<Rightarrow> conditional_arena \<Rightarrow> conditional_idx \<Rightarrow> conditional_idx list \<Rightarrow> env_flags \<Rightarrow> env_flags \<Rightarrow>
     env_flags \<times> env_flags \<Rightarrow> (env_flags \<times> env_flags) outcome" where
  "scan_branches T tree idx [] remaining_envs possible_remaining acc = Inr acc"
| "scan_branches T tree idx (branch # later) remaining_envs possible_remaining (env, possible) =
    and_then (tree_conditional tree branch) (\<lambda>data.
    and_then
      (case cd_kind data of
         CK_Else \<Rightarrow> Inr ((remaining_envs, possible_remaining), (remaining_envs, possible_remaining))
       | _ \<Rightarrow>
           and_then (case cd_condition_text data of None \<Rightarrow> Inr PC_Unknown | Some s \<Rightarrow> parse_condition T s) (\<lambda>condition.
           let (branch_env, remaining_envs) = narrow_branch condition remaining_envs;
               (branch_possible, possible_remaining) = possible_branch condition possible_remaining
           in Inr ((branch_env, branch_possible), (remaining_envs, possible_remaining)))) (\<lambda>((branch_env, branch_possible), rest).
    if branch = idx
    then Inr (env_intersection env branch_env, env_intersection possible branch_possible)
    else scan_branches T tree idx later (fst rest) (snd rest) (env, possible)))"

text \<open>
  One pass per enclosing conditional, outwards; the value \<open>Inr\<close> of a pass ends the loop. The
  fuel is one more than the number of conditionals.
\<close>

definition env_step ::
  "char_tables \<Rightarrow> conditional_arena \<Rightarrow> conditional_idx option \<times> (env_flags \<times> env_flags) \<Rightarrow>
     ((conditional_idx option \<times> (env_flags \<times> env_flags)) + (env_flags \<times> env_flags)) outcome" where
  "env_step T tree = (\<lambda>(cur, (env, possible)).
    case cur of
      None \<Rightarrow> Inr (Inr (env, env_without possible env))
    | Some idx \<Rightarrow>
        and_then (tree_conditional tree idx) (\<lambda>data.
        and_then (case cd_kind data of CK_If \<Rightarrow> Inr (Some idx) | _ \<Rightarrow> conditional_parent tree idx) (\<lambda>chain_if.
        case chain_if of
          None \<Rightarrow> Inr (Inr (ENV_EMPTY, ENV_ALL))
        | Some chain_if \<Rightarrow>
            and_then (all_branches tree chain_if) (\<lambda>branches.
            and_then (scan_branches T tree idx branches ENV_ALL ENV_ALL (env, possible)) (\<lambda>masks.
            and_then (conditional_parent tree chain_if) (\<lambda>parent.
            Inr (Inl (parent, masks))))))))"

definition conditional_env_where ::
  "char_tables \<Rightarrow> conditional_arena \<Rightarrow> (text_range \<Rightarrow> bool) \<Rightarrow> (env_flags \<times> env_flags) outcome" where
  "conditional_env_where T tree encloses =
    loop (length tree + 1) (env_step T tree) (innermost tree encloses, (ENV_ALL, ENV_ALL))"

definition conditional_env :: "char_tables \<Rightarrow> conditional_arena \<Rightarrow> text_range \<Rightarrow> env_flags outcome" where
  "conditional_env T tree rng =
    and_then (conditional_env_where T tree (\<lambda>r. range_contains_range r rng)) (\<lambda>(env, _). Inr env)"

definition conditional_env_tracking ::
  "char_tables \<Rightarrow> conditional_arena \<Rightarrow> text_range \<Rightarrow> (env_flags \<times> env_flags) outcome" where
  "conditional_env_tracking T tree rng = conditional_env_where T tree (\<lambda>r. range_contains_range r rng)"

definition conditional_env_at :: "char_tables \<Rightarrow> conditional_arena \<Rightarrow> nat \<Rightarrow> env_flags outcome" where
  "conditional_env_at T tree offset =
    and_then (conditional_env_where T tree (\<lambda>r. range_contains r offset)) (\<lambda>(env, _). Inr env)"

end
