(* ===== verification/Conditional_Build.thy ===== *)
theory Conditional_Build
  imports Conditional_Tree
begin

text \<open>
  The builder of the conditional tree returns for every syntax tree, and the tree it makes has
  the shape its readers rely on: parents before children, each clause listed by the \<open>If\<close> of its
  chain.
\<close>

section \<open>Headers never fail\<close>

lemma folded_prefix_from_split:
  "folded_prefix_from T s keyword at = Some n \<Longrightarrow> \<exists>a b. s = a @ b \<and> n = at + str_len a"
proof (induction T s keyword at rule: folded_prefix_from.induct)
  case (3 T c s expected keyword at)
  then obtain a b where "s = a @ b" "n = at + len_utf8 c + str_len a"
    by (auto split: if_splits)
  then show ?case
    by (intro exI [of _ "c # a"] exI [of _ b]) simp
qed (auto intro: exI [of _ "[]"])

lemma folded_suffix_from_split:
  "folded_suffix_from T s keyword at = Some n \<Longrightarrow> str_len s \<le> at \<Longrightarrow> \<exists>a b. s = a @ b \<and> n + str_len a = at"
proof (induction T s keyword at rule: folded_suffix_from.induct)
  case (3 T c s expected keyword at)
  have "str_len s \<le> at - len_utf8 c"
    using "3.prems"(2) by simp
  then obtain a b where "s = a @ b" "n + str_len a = at - len_utf8 c"
    using "3.IH" "3.prems"(1) by (auto split: if_splits)
  then show ?case
    using "3.prems"(2) by (intro exI [of _ "c # a"] exI [of _ b]) simp
qed (auto intro: exI [of _ "[]"])

lemma find_map_word_Some: "find_map_word f ws = Some n \<Longrightarrow> \<exists>w. f w = Some n"
  by (induction ws) (auto split: option.splits)

lemma str_len_rev [simp]: "str_len (rev s) = str_len s"
  by (simp add: str_len_def rev_map [symmetric])

lemma extract_condition_text_total: "\<exists>r. extract_condition_text T header = Inr r"
proof -
  have prefix_ok: "\<exists>b. str_from s n = Inr b" if found: "find_map_word (folded_prefix_len T s) ws = Some n" for s ws n
    using find_map_word_Some [OF found] folded_prefix_from_split unfolding folded_prefix_len_def by fastforce
  have suffix_ok: "\<exists>m. str_index s 0 n = Inr m" if found: "find_map_word (folded_suffix_start T s) ws = Some n" for s ws n
  proof -
    obtain a b where ab: "rev s = a @ b" "n + str_len a = str_len s"
      using find_map_word_Some [OF found] folded_suffix_from_split unfolding folded_suffix_start_def
      by (metis order_refl str_len_rev)
    then have s: "s = rev b @ rev a"
      by (metis rev_append rev_rev_ident)
    then have "n = str_len (rev b)"
      using ab(2) by simp
    then show ?thesis
      using str_index_0 s by blast
  qed
  show ?thesis
    unfolding extract_condition_text_def Let_def
    by (auto simp: and_then_def split: list.splits option.splits sum.splits dest!: prefix_ok suffix_ok)
qed

lemma extract_condition_total: "\<exists>c r. extract_condition T node = Inr (c, r)"
proof -
  obtain r where "extract_condition_text T (first_line (node_text node)) = Inr r"
    using extract_condition_text_total by blast
  then show ?thesis
    by (simp add: extract_condition_def Let_def)
qed


section \<open>The ends of torn groups\<close>

lemma tree_text_Node: "tree_text (Node k es) = concat (map tree_text es)"
  by (induction es) (simp_all add: tree_text_def)

lemma nodes_from_within:
  "n \<in> set (nodes_from outer at ts) \<Longrightarrow>
    at \<le> sn_start n \<and> snd (node_range n) \<le> at + str_len (concat (map tree_text ts))"
proof (induction outer at ts rule: nodes_from.induct)
  case (2 outer at k w ts)
  then show ?case
    by (auto simp: tree_text_def)
next
  case (3 outer at k es ts)
  then show ?case
    by (auto simp: node_range_def node_text_def tree_text_Node)
qed simp

lemma nodes_from_ordered:
  "sorted_wrt (\<lambda>a b. snd (node_range a) \<le> sn_start b) (nodes_from outer at ts)"
proof (induction outer at ts rule: nodes_from.induct)
  case (3 outer at k es ts)
  then show ?case
    using nodes_from_within by (fastforce simp: node_range_def node_text_def tree_text_Node)
qed simp_all

lemma descendant_within:
  "d \<in> set (node_descendants n) \<Longrightarrow> sn_start n \<le> sn_start d \<and> snd (node_range d) \<le> snd (node_range n)"
proof (induction n rule: node_descendants.induct)
  case (1 n)
  show ?case
  proof (cases "d = n")
    case False
    then obtain c where c: "c \<in> set (node_children n)" "d \<in> set (node_descendants c)"
      using "1.prems" by (subst (asm) node_descendants.simps) auto
    have "sn_start n \<le> sn_start c \<and> snd (node_range c) \<le> snd (node_range n)"
      using nodes_from_within c(1) by (fastforce simp: node_children_def node_range_def node_text_def)
    then show ?thesis
      using "1.IH" [OF c] by linarith
  qed simp
qed

lemma node_range_le: "sn_start n \<le> snd (node_range n)"
  by (simp add: node_range_def)

lemma sorted_concat:
  assumes "sorted_wrt (\<lambda>a b. \<forall>x \<in> set (f a). \<forall>y \<in> set (f b). x \<le> (y :: nat)) xs" and "\<forall>a \<in> set xs. sorted (f a)"
  shows "sorted (concat (map f xs))"
  using assms by (induction xs) (auto simp: sorted_append)

lemma descendants_sorted: "sorted (map sn_start (node_descendants n))"
proof (induction n rule: node_descendants.induct)
  case (1 n)
  let ?f = "\<lambda>c. map sn_start (node_descendants c)"
  have "x \<le> y" if "snd (node_range a) \<le> sn_start b" "x \<in> set (?f a)" "y \<in> set (?f b)" for a b x y
    using that descendant_within [of _ a] descendant_within [of _ b] node_range_le order_trans by fastforce
  then have "sorted_wrt (\<lambda>a b. \<forall>x \<in> set (?f a). \<forall>y \<in> set (?f b). x \<le> y) (node_children n)"
    unfolding node_children_def by (intro sorted_wrt_mono_rel [OF _ nodes_from_ordered]) blast
  then have "sorted (concat (map ?f (node_children n)))"
    by (rule sorted_concat) (simp add: "1.IH")
  moreover have "\<forall>d \<in> set (node_descendants n). sn_start n \<le> sn_start d"
    using descendant_within by blast
  ultimately show ?case
    by (subst (asm) (2) node_descendants.simps) (subst node_descendants.simps, simp add: map_concat comp_def)
qed

lemma torn_fold_ends:
  assumes "sorted (map sn_start ns)" and "\<forall>n \<in> set ns. \<forall>s \<in> set opened. s \<le> sn_start n"
    and "\<forall>k e. ends k = Some e \<longrightarrow> k \<le> e"
  shows "\<forall>k e. fst (fold torn_part ns (ends, opened)) k = Some e \<longrightarrow> k \<le> e"
  using assms
proof (induction ns arbitrary: ends opened)
  case (Cons n ns)
  obtain ends' opened' where step: "torn_part n (ends, opened) = (ends', opened')"
    by fastforce
  have "\<forall>k e. ends' k = Some e \<longrightarrow> k \<le> e" and "\<forall>s \<in> set opened'. s \<le> sn_start n"
    using step Cons.prems(2,3) node_range_le [of n]
    by (auto simp: torn_part_def pop_def Let_def node_range_def split: if_splits dest: in_set_butlastD
      intro!: trans_le_add1)
  then show ?case
    using Cons.IH [of opened' ends'] Cons.prems(1) step by (fastforce intro: order_trans)
qed simp

lemma torn_group_ends_le: "torn_group_ends root k = Some e \<Longrightarrow> k \<le> e"
  using torn_fold_ends [of "filter (\<lambda>n. sn_kind n = SK_PRE_TORN_IF_PART) (node_descendants root)" "[]" "\<lambda>_. None"]
    sorted_filter [OF descendants_sorted] unfolding torn_group_ends_def by auto


section \<open>The shape of the tree\<close>

text \<open>What the shape depends on: the kind, the parent and the siblings of each conditional.\<close>

type_synonym shape = "(conditional_kind \<times> conditional_idx option \<times> conditional_idx list) list"

definition shape_of :: "conditional_arena \<Rightarrow> shape" where
  "shape_of tree = map (\<lambda>d. (cd_kind d, cd_parent d, cd_siblings d)) tree"

definition node_ok :: "shape \<Rightarrow> conditional_idx \<Rightarrow> bool" where
  "node_ok sh i \<longleftrightarrow> (case sh ! i of (kind, parent, siblings) \<Rightarrow>
     if kind = CK_If
     then (\<forall>p. parent = Some p \<longrightarrow> p < i) \<and> distinct siblings \<and>
       (\<forall>s \<in> set siblings. i < s \<and> s < length sh \<and> fst (sh ! s) \<noteq> CK_If) \<and>
       (\<forall>s \<in> set (butlast siblings). fst (sh ! s) \<noteq> CK_Else)
     else \<exists>p < i. parent = Some p \<and> fst (sh ! p) = CK_If \<and> i \<in> set (snd (snd (sh ! p))))"

text \<open>
  An outer conditional comes before an inner one, a clause points at the \<open>If\<close> of its chain,
  which lists it, and only the last clause has no condition.
\<close>

definition tree_ok :: "conditional_arena \<Rightarrow> bool" where
  "tree_ok tree \<longleftrightarrow> (\<forall>i < length tree. node_ok (shape_of tree) i)"

lemma shape_of_simps [simp]:
  "length (shape_of tree) = length tree"
  "shape_of (tree @ tree') = shape_of tree @ shape_of tree'"
  "i < length tree \<Longrightarrow> shape_of tree ! i = (cd_kind (tree ! i), cd_parent (tree ! i), cd_siblings (tree ! i))"
  by (simp_all add: shape_of_def)

lemma shape_of_update:
  "shape_of (tree[i := d]) = (shape_of tree)[i := (cd_kind d, cd_parent d, cd_siblings d)]"
  by (simp add: shape_of_def map_update)

lemma node_ok_append:
  assumes "node_ok sh i" and "i < length sh"
  shows "node_ok (sh @ sh') i"
proof -
  obtain kind up clauses where i: "sh ! i = (kind, up, clauses)" "(sh @ sh') ! i = (kind, up, clauses)"
    using assms(2) by (metis nth_append prod_cases3)
  show ?thesis
  proof (cases "kind = CK_If")
    case True
    then have "\<forall>s \<in> set clauses. i < s \<and> s < length sh \<and> fst (sh ! s) \<noteq> CK_If"
      using assms(1) i(1) by (simp add: node_ok_def)
    then show ?thesis
      using assms(1) i True by (auto simp: node_ok_def nth_append dest: in_set_butlastD)
  next
    case False
    then obtain p where "p < i" "up = Some p" "fst (sh ! p) = CK_If" "i \<in> set (snd (snd (sh ! p)))"
      using assms(1) i(1) by (auto simp: node_ok_def)
    then show ?thesis
      using False i(2) assms(2) by (simp add: node_ok_def nth_append)
  qed
qed

lemma node_ok_listed:
  assumes "node_ok sh i" and "sh ! j = (CK_If, parent, [])" and "i \<noteq> j" and "i < length sh"
  shows "node_ok (sh[j := (CK_If, parent, siblings)]) i"
proof (cases "j < length sh")
  case True
  have keep: "fst (sh[j := (CK_If, parent, siblings)] ! k) = fst (sh ! k)" for k
    using assms(2) True by (cases "k = j") simp_all
  obtain kind up clauses where i: "sh ! i = (kind, up, clauses)"
    by (metis prod_cases3)
  show ?thesis
  proof (cases "kind = CK_If")
    case True
    then show ?thesis
      using assms(1,3) i by (simp add: node_ok_def keep)
  next
    case False
    then obtain p where p: "p < i" "up = Some p" "fst (sh ! p) = CK_If" "i \<in> set (snd (snd (sh ! p)))"
      using assms(1) i by (auto simp: node_ok_def)
    then have "p \<noteq> j"
      using assms(2) by auto
    then show ?thesis
      using False i p assms(3) by (auto simp: node_ok_def keep)
  qed
qed (use assms in \<open>simp add: list_update_beyond\<close>)


section \<open>The walk\<close>

abbreviation arena_of :: "conditional_tree_builder \<Rightarrow> conditional_arena" where
  "arena_of b \<equiv> ct_conditionals (cb_tree b)"

definition builder_ok :: "conditional_tree_builder \<Rightarrow> bool" where
  "builder_ok b \<longleftrightarrow> (\<forall>i \<in> set (cb_parent_stack b). i < length (arena_of b)) \<and>
     (\<forall>k e. cb_torn_ends b k = Some e \<longrightarrow> k \<le> e)"

text \<open>
  What a part of the walk does: it adds conditionals, all of the right shape but for \<open>pending\<close>
  ones, which their \<open>If\<close> does not list yet, and leaves the shape of the others alone.
\<close>

definition grows :: "conditional_tree_builder \<Rightarrow> conditional_idx set \<Rightarrow> conditional_tree_builder \<Rightarrow> bool" where
  "grows b pending b' \<longleftrightarrow> builder_ok b' \<and> cb_torn_ends b' = cb_torn_ends b \<and>
     (\<exists>sh. shape_of (arena_of b') = shape_of (arena_of b) @ sh) \<and>
     (\<forall>i. length (arena_of b) \<le> i \<longrightarrow> i < length (arena_of b') \<longrightarrow> i \<notin> pending \<longrightarrow>
       node_ok (shape_of (arena_of b')) i)"

lemma grows_length: "grows b X b' \<Longrightarrow> length (arena_of b) \<le> length (arena_of b')"
  by (metis grows_def le_add1 length_append shape_of_simps(1))

lemma grows_refl: "builder_ok b \<Longrightarrow> grows b {} b"
  by (auto simp: grows_def)

lemma grows_trans:
  assumes "grows b X b'" and "grows b' Y b''"
  shows "grows b (X \<union> Y) b''"
proof -
  obtain sh sh' where sh: "shape_of (arena_of b') = shape_of (arena_of b) @ sh"
    "shape_of (arena_of b'') = shape_of (arena_of b') @ sh'"
    using assms by (auto simp: grows_def)
  have "node_ok (shape_of (arena_of b'')) i"
    if i: "length (arena_of b) \<le> i" "i < length (arena_of b'')" "i \<notin> X \<union> Y" for i
  proof (cases "i < length (arena_of b')")
    case True
    then have "node_ok (shape_of (arena_of b')) i"
      using assms(1) i by (auto simp: grows_def)
    then show ?thesis
      using True node_ok_append sh(2) by simp
  next
    case False
    then show ?thesis
      using assms(2) i by (auto simp: grows_def)
  qed
  then show ?thesis
    using assms sh by (auto simp: grows_def)
qed

lemma grows_trans0: "grows b {} b' \<Longrightarrow> grows b' {} b'' \<Longrightarrow> grows b {} b''"
  using grows_trans [of b "{}" b' "{}" b''] by simp

text \<open>The stack may be changed on both sides.\<close>

lemma grows_push:
  assumes "grows (b\<lparr>cb_parent_stack := stack\<rparr>) X b'"
  shows "grows b X b'"
  using assms by (simp add: grows_def)

lemma grows_scope:
  assumes "grows b X b'"
  shows "grows b X (b'\<lparr>cb_parent_stack := take scope (cb_parent_stack b')\<rparr>)"
  using assms by (auto simp: grows_def builder_ok_def dest: in_set_takeD)

lemma builder_ok_push: "builder_ok b \<Longrightarrow> i < length (arena_of b) \<Longrightarrow> builder_ok (b\<lparr>cb_parent_stack := cb_parent_stack b @ [i]\<rparr>)"
  by (auto simp: builder_ok_def)

lemma grows_pushed:
  assumes "grows b X b'" and "i < length (arena_of b')"
  shows "grows b X (b'\<lparr>cb_parent_stack := cb_parent_stack b' @ [i]\<rparr>)"
  using assms by (simp add: grows_def builder_ok_push)

lemma close_finished_groups_ok:
  assumes "builder_ok b"
  shows "returns False (close_finished_groups at b)
    (\<lambda>b'. builder_ok b' \<and> (\<exists>stack. b' = b\<lparr>cb_parent_stack := stack\<rparr>))"
proof -
  have "returns False (close_groups (arena_of b) at stack) (\<lambda>stack'. set stack' \<subseteq> set stack)"
    if "\<forall>i \<in> set stack. i < length (arena_of b)" for stack
    using that by (induction stack) (auto simp: tree_conditional_def returns_def split: sum.splits fault.splits)
  from this [of "rev (cb_parent_stack b)"] have "returns False (close_groups (arena_of b) at (rev (cb_parent_stack b)))
      (\<lambda>stack. set stack \<subseteq> set (cb_parent_stack b))"
    using assms by (simp add: builder_ok_def)
  then show ?thesis
    unfolding close_finished_groups_def
    by (rule returns_bind) (use assms in \<open>auto simp: builder_ok_def\<close>)
qed

lemma link_conditional_ok:
  assumes "builder_ok b" and "\<forall>p. parent = Some p \<longrightarrow> p < length (arena_of b)"
  shows "returns False (link_conditional parent idx b) (\<lambda>b'. builder_ok b' \<and> cb_torn_ends b' = cb_torn_ends b \<and>
    cb_parent_stack b' = cb_parent_stack b \<and> shape_of (arena_of b') = shape_of (arena_of b))"
proof (cases parent)
  case (Some p)
  have "shape_of ((arena_of b)[p := (arena_of b ! p)\<lparr>cd_children := cs\<rparr>]) = shape_of (arena_of b)" for cs
    using assms(2) Some by (simp add: shape_of_update list_update_same_conv)
  then show ?thesis
    using assms Some
    by (auto simp: link_conditional_def update_conditional_def tree_conditional_def builder_ok_def Let_def)
qed (use assms in \<open>auto simp: link_conditional_def builder_ok_def Let_def\<close>)


lemma alloc_conditional_ok:
  assumes "builder_ok b" and "alloc_conditional d b = (idx, b')"
  shows "idx = length (arena_of b)" and "builder_ok b'" and "cb_torn_ends b' = cb_torn_ends b"
    and "cb_parent_stack b' = cb_parent_stack b"
    and "shape_of (arena_of b') = shape_of (arena_of b) @ [(cd_kind d, cd_parent d, cd_siblings d)]"
    and "length (arena_of b') = Suc (length (arena_of b))"
  using assms by (auto simp: alloc_conditional_def Let_def builder_ok_def shape_of_def less_Suc_eq)

lemma open_if_ok:
  assumes "builder_ok b" and "alloc_conditional d b = (idx, b')"
    and "cd_kind d = CK_If" and "cd_parent d = last_opt (cb_parent_stack b)" and "cd_siblings d = []"
  shows "returns False (link_conditional (last_opt (cb_parent_stack b)) idx b')
    (\<lambda>b'. idx = length (arena_of b) \<and> idx < length (arena_of b') \<and> grows b {} b' \<and> cb_parent_stack b' = cb_parent_stack b \<and>
      shape_of (arena_of b') = shape_of (arena_of b) @ [(CK_If, last_opt (cb_parent_stack b), [])])"
proof -
  note alloc = alloc_conditional_ok [OF assms(1,2)]
  have last: "p < length (arena_of b)" if "last_opt (cb_parent_stack b) = Some p" for p
    using assms(1) that by (auto simp: builder_ok_def last_opt_def split: if_splits)
  then have "\<forall>p. last_opt (cb_parent_stack b) = Some p \<longrightarrow> p < length (arena_of b')"
    by (simp add: alloc(6) less_Suc_eq)
  from link_conditional_ok [OF alloc(2) this] show ?thesis
  proof (rule returns_mono)
    fix b''
    assume b'': "builder_ok b'' \<and> cb_torn_ends b'' = cb_torn_ends b' \<and> cb_parent_stack b'' = cb_parent_stack b' \<and>
      shape_of (arena_of b'') = shape_of (arena_of b')"
    have sh: "shape_of (arena_of b'') = shape_of (arena_of b) @ [(CK_If, last_opt (cb_parent_stack b), [])]"
      using b'' alloc(5) assms(3-5) by simp
    have len: "length (arena_of b'') = Suc (length (arena_of b))"
      using arg_cong [OF sh, of length] by simp
    moreover have "node_ok (shape_of (arena_of b'')) (length (arena_of b))"
      unfolding sh using last by (simp add: node_ok_def nth_append)
    ultimately have "\<forall>i. length (arena_of b) \<le> i \<longrightarrow> i < length (arena_of b'') \<longrightarrow> node_ok (shape_of (arena_of b'')) i"
      by (metis le_antisym less_Suc_eq_le)
    moreover have "\<exists>sh. shape_of (arena_of b'') = shape_of (arena_of b) @ sh"
      using sh by blast
    ultimately have "grows b {} b''"
      using b'' alloc(3) by (simp add: grows_def)
    then show "idx = length (arena_of b) \<and> idx < length (arena_of b'') \<and> grows b {} b'' \<and> cb_parent_stack b'' = cb_parent_stack b \<and>
      shape_of (arena_of b'') = shape_of (arena_of b) @ [(CK_If, last_opt (cb_parent_stack b), [])]"
      using b'' sh len alloc(1,4) by simp
  qed
qed

lemma process_torn_if_ok:
  assumes "builder_ok b"
  shows "returns False (process_torn_if T node b) (grows b {})"
proof (cases "cb_torn_ends b (sn_start node)")
  case None
  then show ?thesis
    by (simp add: process_torn_if_def grows_refl assms)
next
  case (Some e)
  have e: "sn_start node \<le> e"
    using assms Some by (auto simp: builder_ok_def)
  obtain c r where c: "(if length (filter (\<lambda>k. k \<in> {SK_PRE_IF, SK_PRE_ELSIF, SK_PRE_ELSE, SK_PRE_END_IF})
      (node_kinds node)) = 1 then and_then (extract_condition T node) (\<lambda>(s, r). Inr (Some s, Some r))
      else Inr (None, None)) = Inr (c, r)"
    using extract_condition_total [of T node] by fastforce
  show ?thesis
    unfolding process_torn_if_def Some option.case Let_def c and_then_Inr prod.case text_range_new_def
      if_P [OF e] fst_conv
  proof (rule returns_bind [OF close_finished_groups_ok [OF assms]])
    fix b1
    assume b1: "builder_ok b1 \<and> (\<exists>stack. b1 = b\<lparr>cb_parent_stack := stack\<rparr>)"
    then have same: "grows b {} b2" if "grows b1 {} b2" for b2
      using that grows_push by blast
    let ?d = "\<lparr>cd_kind = CK_If, cd_condition_text = c, cd_range = (sn_start node, e),
       cd_directive_range = find_first_line_range node, cd_condition_range = r,
       cd_parent = last_opt (cb_parent_stack b1), cd_children = [], cd_siblings = [],
       cd_depth = length (cb_parent_stack b1), cd_parent_ast_kind = find_parent_ast_kind node\<rparr>"
    obtain idx b2 where alloc: "alloc_conditional ?d b1 = (idx, b2)"
      by fastforce
    have "returns False (link_conditional (last_opt (cb_parent_stack b1)) idx b2)
        (\<lambda>b3. grows b {} (b3\<lparr>cb_parent_stack := cb_parent_stack b3 @ [idx]\<rparr>))"
    proof (rule returns_mono [OF open_if_ok [OF _ alloc]])
      fix b3
      assume b3: "idx = length (arena_of b1) \<and> idx < length (arena_of b3) \<and> grows b1 {} b3 \<and> cb_parent_stack b3 = cb_parent_stack b1 \<and>
        shape_of (arena_of b3) = shape_of (arena_of b1) @ [(CK_If, last_opt (cb_parent_stack b1), [])]"
      then have "grows b1 {} (b3\<lparr>cb_parent_stack := cb_parent_stack b3 @ [idx]\<rparr>)"
        using grows_pushed by blast
      then show "grows b {} (b3\<lparr>cb_parent_stack := cb_parent_stack b3 @ [idx]\<rparr>)"
        by (rule same)
    qed (use b1 in simp_all)
    then show "returns False
        (case alloc_conditional ?d b1 of (idx, b) \<Rightarrow>
          and_then (link_conditional (last_opt (cb_parent_stack b1)) idx b)
            (\<lambda>b. Inr (b\<lparr>cb_parent_stack := cb_parent_stack b @ [idx]\<rparr>))) (grows b {})"
      by (simp add: alloc returns_and_then)
  qed
qed


text \<open>At most one clause of a directive has no condition, as the grammar makes it.\<close>

definition single_else :: "syntax_node \<Rightarrow> bool" where
  "single_else n \<longleftrightarrow> list_all (\<lambda>d. sn_kind d = SK_PRE_IF_DIR \<longrightarrow>
     length (filter (\<lambda>c. sn_kind c = SK_PRE_ELSE_CLAUSE) (node_children d)) \<le> 1) (node_descendants n)"

lemma single_else_children: "single_else n \<Longrightarrow> list_all single_else (node_children n)"
  unfolding single_else_def by (subst (asm) node_descendants.simps) (auto simp: list_all_iff)

lemma single_else_node:
  assumes "single_else n" and "sn_kind n = SK_PRE_IF_DIR"
  shows "length (filter (\<lambda>c. sn_kind c = SK_PRE_ELSE_CLAUSE) (node_children n)) \<le> 1"
  using assms unfolding single_else_def by (subst (asm) node_descendants.simps) simp

definition tree_walks :: "char_tables \<Rightarrow> nat \<Rightarrow> bool" where
  "tree_walks T k \<longleftrightarrow>
     (\<forall>node b. node_size node < k \<longrightarrow> sn_kind node = SK_PRE_IF_DIR \<longrightarrow> single_else node \<longrightarrow> builder_ok b \<longrightarrow>
       returns False (process_if_directive T node b) (grows b {})) \<and>
     (\<forall>ns b. nodes_size ns < k \<longrightarrow> list_all single_else ns \<longrightarrow> builder_ok b \<longrightarrow>
       returns False (collect_nested_conditionals T ns b) (grows b {}))"

lemma walks_if:
  "tree_walks T k \<Longrightarrow> node_size node < k \<Longrightarrow> sn_kind node = SK_PRE_IF_DIR \<Longrightarrow> single_else node \<Longrightarrow> builder_ok b \<Longrightarrow>
    returns False (process_if_directive T node b) (grows b {})"
  by (simp add: tree_walks_def)

lemma walks_children:
  "tree_walks T k \<Longrightarrow> node_size node < k \<Longrightarrow> single_else node \<Longrightarrow> builder_ok b \<Longrightarrow>
    returns False (collect_nested_conditionals T (node_children node) b) (grows b {})"
  using node_children_size [of node] single_else_children [of node] by (simp add: tree_walks_def)

lemma clause_ok:
  assumes "tree_walks T k" and "node_size node < k" and "single_else node" and "builder_ok b"
    and alloc: "alloc_conditional d b = (idx, b1)"
  shows "returns False
    (and_then (collect_nested_conditionals T (node_children node) (b1\<lparr>cb_parent_stack := cb_parent_stack b1 @ [idx]\<rparr>))
      (\<lambda>b. Inr (idx, b\<lparr>cb_parent_stack := take scope (cb_parent_stack b)\<rparr>)))
    (\<lambda>(i, b'). i = length (arena_of b) \<and> i < length (arena_of b') \<and> grows b {i} b' \<and>
      shape_of (arena_of b') ! i = (cd_kind d, cd_parent d, cd_siblings d))"
proof -
  note alloc_ok = alloc_conditional_ok [OF assms(4) alloc]
  have b1: "grows b {idx} b1"
    using alloc_ok by (simp add: grows_def)
  have "builder_ok (b1\<lparr>cb_parent_stack := cb_parent_stack b1 @ [idx]\<rparr>)"
    using alloc_ok by (intro builder_ok_push) simp_all
  from walks_children [OF assms(1-3) this] show ?thesis
  proof (rule returns_bind)
    fix b2
    assume "grows (b1\<lparr>cb_parent_stack := cb_parent_stack b1 @ [idx]\<rparr>) {} b2"
    then have b2: "grows b1 {} b2"
      by (rule grows_push)
    have "grows b {idx} (b2\<lparr>cb_parent_stack := take scope (cb_parent_stack b2)\<rparr>)"
      using grows_trans [OF b1 b2] by (intro grows_scope) simp
    moreover have "shape_of (arena_of b2) ! idx = (cd_kind d, cd_parent d, cd_siblings d)"
      using b2 alloc_ok(1,5) by (auto simp: grows_def nth_append)
    ultimately show "returns False (Inr (idx, b2\<lparr>cb_parent_stack := take scope (cb_parent_stack b2)\<rparr>))
      (\<lambda>(i, b'). i = length (arena_of b) \<and> i < length (arena_of b') \<and> grows b {i} b' \<and>
        shape_of (arena_of b') ! i = (cd_kind d, cd_parent d, cd_siblings d))"
      using alloc_ok(1,6) grows_length [OF b2] by simp
  qed
qed

lemma clause_walk_ok:
  assumes "tree_walks T k" and "node_size node < k" and "single_else node" and "builder_ok b"
  shows "returns False
    (let (idx, b) = alloc_conditional d b; scope = length (cb_parent_stack b)
     in and_then (collect_nested_conditionals T (node_children node) (b\<lparr>cb_parent_stack := cb_parent_stack b @ [idx]\<rparr>))
       (\<lambda>b. Inr (idx, b\<lparr>cb_parent_stack := take scope (cb_parent_stack b)\<rparr>)))
    (\<lambda>(i, b'). i = length (arena_of b) \<and> i < length (arena_of b') \<and> grows b {i} b' \<and>
      shape_of (arena_of b') ! i = (cd_kind d, cd_parent d, cd_siblings d))"
  using clause_ok [OF assms, of d] by (cases "alloc_conditional d b") (simp add: Let_def)

definition clauses_added ::
  "conditional_kind \<Rightarrow> conditional_idx \<Rightarrow> conditional_tree_builder \<Rightarrow> nat \<Rightarrow> conditional_idx list \<times> conditional_tree_builder \<Rightarrow> bool" where
  "clauses_added kind if_idx b n r \<longleftrightarrow> (case r of (siblings, b') \<Rightarrow>
     grows b (set siblings) b' \<and> distinct siblings \<and> length siblings = n \<and>
     (\<forall>s \<in> set siblings. length (arena_of b) \<le> s \<and> s < length (arena_of b') \<and>
       shape_of (arena_of b') ! s = (kind, Some if_idx, [])))"

lemma clauses_added_Cons:
  assumes "i = length (arena_of b)" and "i < length (arena_of b1)" and "grows b {i} b1"
    and "shape_of (arena_of b1) ! i = (kind, Some if_idx, [])"
    and "clauses_added kind if_idx b1 n (siblings, b2)"
  shows "clauses_added kind if_idx b (Suc n) (i # siblings, b2)"
proof -
  have b2: "grows b1 (set siblings) b2"
    using assms(5) by (simp add: clauses_added_def)
  then have "shape_of (arena_of b2) ! i = (kind, Some if_idx, [])"
    using assms(2,4) by (auto simp: grows_def nth_append)
  then show ?thesis
    using assms grows_trans [OF assms(3) b2] grows_length [OF b2]
    by (fastforce simp: clauses_added_def)
qed

lemma process_elsif_clause_ok:
  assumes "tree_walks T k" and "node_size node < k" and "single_else node" and "builder_ok b"
  shows "returns False (process_elsif_clause T node if_idx nesting b)
    (\<lambda>(i, b'). i = length (arena_of b) \<and> i < length (arena_of b') \<and> grows b {i} b' \<and>
      shape_of (arena_of b') ! i = (CK_ElsIf, Some if_idx, []))"
proof -
  obtain c r where c: "extract_condition T node = Inr (c, r)"
    using extract_condition_total by blast
  show ?thesis
    unfolding process_elsif_clause.simps c and_then_Inr prod.case
    by (rule returns_mono [OF clause_walk_ok [OF assms]]) simp
qed

lemma process_else_clause_ok:
  assumes "tree_walks T k" and "node_size node < k" and "single_else node" and "builder_ok b"
  shows "returns False (process_else_clause T node if_idx nesting b)
    (\<lambda>(i, b'). i = length (arena_of b) \<and> i < length (arena_of b') \<and> grows b {i} b' \<and>
      shape_of (arena_of b') ! i = (CK_Else, Some if_idx, []))"
  unfolding process_else_clause.simps by (rule returns_mono [OF clause_walk_ok [OF assms]]) simp

lemma grows_ok: "grows b X b' \<Longrightarrow> builder_ok b'"
  by (simp add: grows_def)

lemma clauses_ok:
  assumes "tree_walks T k" and "\<forall>n \<in> set ns. node_size n < k \<and> single_else n" and "builder_ok b"
  shows "returns False (elsif_clauses T ns if_idx nesting b) (clauses_added CK_ElsIf if_idx b (length ns))"
    and "returns False (else_clauses T ns if_idx nesting b) (clauses_added CK_Else if_idx b (length ns))"
  using assms(2,3)
proof (induction ns arbitrary: b)
  case (Cons n ns)
  {
    case 1
    have n: "node_size n < k" "single_else n" "\<forall>n \<in> set ns. node_size n < k \<and> single_else n"
      using 1 by simp_all
    show ?case
      unfolding elsif_clauses.simps
      by (rule returns_bind [OF process_elsif_clause_ok [OF assms(1) n(1,2) 1(2)]])
        (auto intro!: returns_bind [OF Cons.IH(1) [OF n(3) grows_ok]] clauses_added_Cons)
  next
    case 2
    have n: "node_size n < k" "single_else n" "\<forall>n \<in> set ns. node_size n < k \<and> single_else n"
      using 2 by simp_all
    show ?case
      unfolding else_clauses.simps
      by (rule returns_bind [OF process_else_clause_ok [OF assms(1) n(1,2) 2(2)]])
        (auto intro!: returns_bind [OF Cons.IH(2) [OF n(3) grows_ok]] clauses_added_Cons)
  }
qed (simp_all add: clauses_added_def grows_refl)


text \<open>A list of nodes, one by one.\<close>

lemma node_walk_ok:
  assumes "tree_walks T k" and "node_size n < k" and "single_else n" and "builder_ok b"
  shows "returns False
    (if sn_kind n = SK_PRE_IF_DIR then process_if_directive T n b
     else if sn_kind n = SK_PRE_TORN_IF_PART then process_torn_if T n b
     else collect_nested_conditionals T (node_children n) b) (grows b {})"
  using walks_if [OF assms(1,2) _ assms(3,4)] walks_children [OF assms] process_torn_if_ok [OF assms(4)] by simp

lemma list_walk_ok:
  assumes "tree_walks T k" and "\<forall>n \<in> set ns. node_size n < k \<and> single_else n" and "builder_ok b"
  shows "returns False (collect_nested_conditionals T ns b) (grows b {})"
    and "returns False (then_branch T ns b) (grows b {})"
  using assms(2,3)
proof (induction ns arbitrary: b)
  case (Cons n ns)
  have on: "returns False (and_then m f) (grows b {})"
    if "returns False m (grows b {})" and "\<And>b'. builder_ok b' \<Longrightarrow> returns False (f b') (grows b' {})" for m f b
    by (rule returns_bind [OF that(1)])
      (rule returns_mono [OF that(2)], auto intro: grows_ok grows_trans0)
  {
    case 1
    show ?case
      unfolding collect_nested_conditionals.simps
      by (intro on node_walk_ok [OF assms(1)] Cons.IH(1)) (use 1 in auto)
  next
    case 2
    show ?case
      unfolding then_branch.simps
      by (intro on Cons.IH(2))
        (use 2 node_walk_ok [OF assms(1), of n b] grows_refl in auto)
  }
qed (simp_all add: grows_refl)

lemma siblings_listed:
  assumes "shape_of (arena_of b) ! j = (CK_If, parent, [])" and "j < length (arena_of b)"
    and "\<forall>p. parent = Some p \<longrightarrow> p < j"
    and "\<forall>i. j < i \<longrightarrow> i < length (arena_of b) \<longrightarrow> i \<notin> set siblings \<longrightarrow> node_ok (shape_of (arena_of b)) i"
    and "\<forall>s \<in> set siblings. j < s \<and> s < length (arena_of b)" and "distinct siblings"
    and "\<forall>s \<in> set siblings. \<exists>kind. shape_of (arena_of b) ! s = (kind, Some j, []) \<and> kind \<noteq> CK_If"
    and "\<forall>s \<in> set (butlast siblings). fst (shape_of (arena_of b) ! s) \<noteq> CK_Else"
    and "j \<le> i" and "i < length (arena_of b)"
  shows "node_ok ((shape_of (arena_of b))[j := (CK_If, parent, siblings)]) i"
proof -
  let ?sh = "(shape_of (arena_of b))[j := (CK_If, parent, siblings)]"
  have other: "?sh ! s = shape_of (arena_of b) ! s" if "s \<in> set siblings" for s
    using assms(5) that by (auto simp del: shape_of_simps(3))
  consider "i = j" | "i \<in> set siblings" | "i \<noteq> j" "i \<notin> set siblings"
    by blast
  then show ?thesis
  proof cases
    case 1
    have "\<forall>s \<in> set siblings. j < s \<and> s < length ?sh \<and> fst (?sh ! s) \<noteq> CK_If"
      using assms(5,7) other by fastforce
    moreover have "\<forall>s \<in> set (butlast siblings). fst (?sh ! s) \<noteq> CK_Else"
      using assms(8) other in_set_butlastD by fastforce
    ultimately show ?thesis
      using 1 assms(2,3,6) by (simp add: node_ok_def)
  next
    case 2
    then obtain kind where "?sh ! i = (kind, Some j, [])" "kind \<noteq> CK_If" "j < i"
      using assms(5,7) other by fastforce
    then show ?thesis
      using 2 assms(2) by (simp add: node_ok_def)
  next
    case 3
    then have "node_ok (shape_of (arena_of b)) i"
      using assms(4,9,10) by simp
    then show ?thesis
      using assms(1,10) 3(1) by (intro node_ok_listed) simp_all
  qed
qed


lemma chain_closed:
  assumes idx: "idx = length (arena_of b1)" and sh2: "shape_of (arena_of b2) = shape_of (arena_of b1) @ [(CK_If, parent, [])]"
    and torn: "cb_torn_ends b2 = cb_torn_ends b1" and parent: "\<forall>p. parent = Some p \<longrightarrow> p < idx"
    and es: "clauses_added CK_ElsIf idx b2 n (es, b3)" and ls: "clauses_added CK_Else idx b3 m (ls, b4)" and m: "m \<le> 1"
  shows "returns False (update_conditional idx (\<lambda>d. d\<lparr>cd_siblings := es @ ls\<rparr>) b4)
    (\<lambda>b5. grows b1 {} b5 \<and> idx < length (arena_of b5))"
proof -
  have len2: "length (arena_of b2) = Suc idx"
    using arg_cong [OF sh2, of length] idx by simp
  have g: "grows b2 (set es) b3" "grows b3 (set ls) b4"
    using es ls by (simp_all add: clauses_added_def)
  obtain x y where sh3: "shape_of (arena_of b3) = shape_of (arena_of b2) @ x"
    and sh4: "shape_of (arena_of b4) = shape_of (arena_of b3) @ y"
    using g by (auto simp: grows_def)
  have len: "Suc idx \<le> length (arena_of b3)" "length (arena_of b3) \<le> length (arena_of b4)"
    using g [THEN grows_length] len2 by simp_all
  have at: "shape_of (arena_of b4) ! idx = (CK_If, parent, [])"
    unfolding sh4 sh3 sh2 using idx by (simp add: nth_append)
  have b4: "grows b2 (set (es @ ls)) b4"
    using grows_trans [OF g] by simp
  have e: "\<forall>s \<in> set es. idx < s \<and> s < length (arena_of b3) \<and> shape_of (arena_of b4) ! s = (CK_ElsIf, Some idx, [])"
    using es len2 unfolding sh4 by (auto simp: clauses_added_def nth_append)
  have l: "\<forall>s \<in> set ls. idx < s \<and> length (arena_of b3) \<le> s \<and> s < length (arena_of b4) \<and>
      shape_of (arena_of b4) ! s = (CK_Else, Some idx, [])"
    using ls len by (auto simp: clauses_added_def)
  have bound: "\<forall>s \<in> set (es @ ls). idx < s \<and> s < length (arena_of b4)"
    using e l len by fastforce
  have d: "distinct (es @ ls)"
    using es ls e l by (fastforce simp: clauses_added_def)
  have kinds: "\<forall>s \<in> set (es @ ls). \<exists>kind. shape_of (arena_of b4) ! s = (kind, Some idx, []) \<and> kind \<noteq> CK_If"
    using e l by auto
  have "set (butlast (es @ ls)) \<subseteq> set es"
  proof -
    have "length ls \<le> 1"
      using ls m by (simp add: clauses_added_def)
    then show ?thesis
      by (cases ls) (auto dest: in_set_butlastD)
  qed
  then have last: "\<forall>s \<in> set (butlast (es @ ls)). fst (shape_of (arena_of b4) ! s) \<noteq> CK_Else"
    using e by fastforce
  let ?d = "arena_of b4 ! idx"
  have idx4: "idx < length (arena_of b4)"
    using len by simp
  have d4: "cd_kind ?d = CK_If" "cd_parent ?d = parent"
    using at idx4 by simp_all
  let ?b5 = "b4\<lparr>cb_tree := (cb_tree b4)\<lparr>ct_conditionals := (arena_of b4)[idx := ?d\<lparr>cd_siblings := es @ ls\<rparr>]\<rparr>\<rparr>"
  have sh5: "shape_of (arena_of ?b5) = (shape_of (arena_of b4))[idx := (CK_If, parent, es @ ls)]"
    by (simp add: shape_of_update d4)
  have "node_ok (shape_of (arena_of ?b5)) i" if "idx \<le> i" "i < length (arena_of ?b5)" for i
    unfolding sh5 using that b4 len2
    by (intro siblings_listed [OF at idx4 parent _ bound d kinds last])
      (auto simp: grows_def Suc_le_eq)
  moreover have "\<exists>sh. shape_of (arena_of ?b5) = shape_of (arena_of b1) @ sh"
    unfolding sh5 sh4 sh3 sh2 using idx by (simp add: list_update_append)
  moreover have "builder_ok ?b5" "cb_torn_ends ?b5 = cb_torn_ends b1"
    using b4 torn by (auto simp: grows_def builder_ok_def)
  ultimately have "grows b1 {} ?b5"
    unfolding grows_def idx [symmetric] by blast
  then show ?thesis
    using idx4 by (simp add: update_conditional_def tree_conditional_def Let_def)
qed

lemma then_scope_ok:
  assumes "tree_walks T k" and "\<forall>n \<in> set ns. node_size n < k \<and> single_else n"
    and "idx = length (arena_of b1)" and "grows b1 {} b2"
    and "shape_of (arena_of b2) = shape_of (arena_of b1) @ [(CK_If, parent, [])]"
    and "\<forall>p. parent = Some p \<longrightarrow> p < length (arena_of b1)"
    and "clauses_added CK_ElsIf idx b2 n (es, b3)" and "clauses_added CK_Else idx b3 m (ls, b4)" and "m \<le> 1"
  shows "returns False
    (and_then (update_conditional idx (\<lambda>d. d\<lparr>cd_siblings := es @ ls\<rparr>) b4) (\<lambda>b.
     and_then (then_branch T ns (b\<lparr>cb_parent_stack := cb_parent_stack b @ [idx]\<rparr>)) (\<lambda>b'.
     Inr (b'\<lparr>cb_parent_stack := take (length (cb_parent_stack b)) (cb_parent_stack b')\<rparr>)))) (grows b1 {})"
proof (rule returns_bind [OF chain_closed [OF assms(3,5) _ _ assms(7-9)]])
  fix b5
  assume b5: "grows b1 {} b5 \<and> idx < length (arena_of b5)"
  then have "builder_ok (b5\<lparr>cb_parent_stack := cb_parent_stack b5 @ [idx]\<rparr>)"
    using builder_ok_push grows_ok by blast
  from list_walk_ok(2) [OF assms(1,2) this]
  show "returns False (and_then (then_branch T ns (b5\<lparr>cb_parent_stack := cb_parent_stack b5 @ [idx]\<rparr>))
     (\<lambda>b'. Inr (b'\<lparr>cb_parent_stack := take (length (cb_parent_stack b5)) (cb_parent_stack b')\<rparr>))) (grows b1 {})"
    by (rule returns_bind) (use b5 in \<open>auto intro!: grows_scope dest!: grows_push intro: grows_trans0\<close>)
qed (use assms(3,4,6) in \<open>simp_all add: grows_def\<close>)

lemma process_if_directive_ok:
  assumes "tree_walks T k" and "node_size node \<le> k" and "sn_kind node = SK_PRE_IF_DIR" and "single_else node" and "builder_ok b"
  shows "returns False (process_if_directive T node b) (grows b {})"
proof -
  have children: "\<forall>n \<in> set (node_children node). node_size n < k \<and> single_else n"
    using node_child_size [of _ node] single_else_children [OF assms(4)] assms(2)
    by (fastforce simp: list_all_iff)
  obtain c r where c: "extract_condition T node = Inr (c, r)"
    using extract_condition_total by blast
  let ?elsifs = "filter (\<lambda>n. sn_kind n = SK_PRE_ELSIF_CLAUSE) (node_children node)"
  let ?elses = "filter (\<lambda>n. sn_kind n = SK_PRE_ELSE_CLAUSE) (node_children node)"
  have clauses: "\<forall>n \<in> set ?elsifs. node_size n < k \<and> single_else n" "\<forall>n \<in> set ?elses. node_size n < k \<and> single_else n"
    using children by auto
  show ?thesis
    unfolding process_if_directive.simps c and_then_Inr prod.case
  proof (rule returns_bind [OF close_finished_groups_ok [OF assms(5)]], goal_cases)
    case (1 b1)
    let ?parent = "last_opt (cb_parent_stack b1)"
    let ?d = "\<lparr>cd_kind = CK_If, cd_condition_text = Some c, cd_range = node_range node,
       cd_directive_range = find_first_line_range node, cd_condition_range = Some r,
       cd_parent = ?parent, cd_children = [], cd_siblings = [],
       cd_depth = length (cb_parent_stack b1), cd_parent_ast_kind = find_parent_ast_kind node\<rparr>"
    obtain idx b2 where alloc: "alloc_conditional ?d b1 = (idx, b2)"
      by fastforce
    have parent: "\<forall>p. ?parent = Some p \<longrightarrow> p < length (arena_of b1)"
      using 1 by (auto simp: builder_ok_def last_opt_def split: if_splits)
    have same: "returns False m (grows b {})" if "returns False m (grows b1 {})" for m
      using that 1 by (elim returns_mono) (auto intro: grows_push)
    show ?case
      unfolding Let_def alloc prod.case
    proof (rule same, rule returns_bind [OF open_if_ok [OF _ alloc]], goal_cases)
      case (5 b3)
      then have b3: "builder_ok b3"
        using grows_ok by blast
      show ?case
      proof (rule returns_bind [OF clauses_ok(1) [OF assms(1) clauses(1) b3]], goal_cases)
        case (1 r)
        then obtain es b4 where r: "r = (es, b4)" and es: "clauses_added CK_ElsIf idx b3 (length ?elsifs) (es, b4)"
          by (cases r) simp
        have b4: "builder_ok b4"
          using es by (simp add: clauses_added_def grows_def)
        show ?case
          unfolding r prod.case
          by (rule returns_bind [OF clauses_ok(2) [OF assms(1) clauses(2) b4]])
            (use then_scope_ok [OF assms(1) children _ _ _ parent es] 5 single_else_node [OF assms(4,3)] in auto)
      qed
    qed (use 1 in simp_all)
  qed
qed

lemma walks_all: "tree_walks T k"
proof (induction k)
  case (Suc k)
  show ?case
    unfolding tree_walks_def
  proof (intro conjI allI impI)
    fix ns b
    assume ns: "nodes_size ns < Suc k" "list_all single_else ns" "builder_ok b"
    have "node_size n < nodes_size ns" if "n \<in> set ns" for n
      using that by (induction ns) auto
    then show "returns False (collect_nested_conditionals T ns b) (grows b {})"
      using ns by (intro list_walk_ok(1) [OF Suc.IH]) (fastforce simp: list_all_iff)+
  qed (use process_if_directive_ok [OF Suc.IH] in simp)
qed (auto simp: tree_walks_def nodes_size_def)

lemma lower_conditionals_ok:
  assumes "single_else root"
  shows "\<exists>tree. lower_conditionals T root = Inr tree \<and> tree_ok (ct_conditionals tree)"
proof -
  let ?b = "tree_builder_new\<lparr>cb_torn_ends := torn_group_ends root\<rparr>"
  have b: "builder_ok ?b"
    using torn_group_ends_le by (auto simp: builder_ok_def tree_builder_new_def)
  have "returns False (collect_nested_conditionals T (node_children root) ?b) (grows ?b {})"
    by (rule walks_children [OF walks_all [of T "Suc (node_size root)"] _ assms b]) simp
  from returns_total [OF this] obtain b' where
    "collect_nested_conditionals T (node_children root) ?b = Inr b'" "grows ?b {} b'"
    by blast
  then show ?thesis
    by (auto simp: lower_conditionals_def build_def grows_def tree_ok_def tree_builder_new_def conditional_tree_new_def)
qed

end
