(* ===== verification/Condition_Roundtrip.thy ===== *)
theory Condition_Roundtrip
  imports Preproc_Condition
begin

text \<open>
  The parser of conditions returns on every list of tokens, and reads back what a condition
  prints as.
\<close>

section \<open>The fuel is enough\<close>

lemma returns_parsed:
  "returns False (parsed m f) Q =
    returns False m (\<lambda>r. case r of None \<Rightarrow> Q None | Some (c, ts) \<Rightarrow> returns False (f c ts) Q)"
  by (auto simp: parsed_def returns_and_then returns_def split: sum.splits option.splits fault.splits)

definition leaves_at_most :: "nat \<Rightarrow> (preproc_condition \<times> condition_token list) option \<Rightarrow> bool" where
  "leaves_at_most n r \<longleftrightarrow> (case r of None \<Rightarrow> True | Some (c, ts) \<Rightarrow> length ts \<le> n)"

lemma leaves_simps [simp]: "leaves_at_most n None" "leaves_at_most n (Some (c, ts)) \<longleftrightarrow> length ts \<le> n"
  by (simp_all add: leaves_at_most_def)

lemma leaves_mono: "leaves_at_most n r \<Longrightarrow> n \<le> m \<Longrightarrow> leaves_at_most m r"
  by (auto simp: leaves_at_most_def split: option.splits)

lemma parser_total:
  "(4 * length ts + 3 \<le> n \<longrightarrow> returns False (parse_or T n ts) (leaves_at_most (length ts - 1))) \<and>
   (4 * length ts + 1 \<le> n \<longrightarrow> returns False (or_loop T n lhs ts) (leaves_at_most (length ts))) \<and>
   (4 * length ts + 2 \<le> n \<longrightarrow> returns False (parse_and T n ts) (leaves_at_most (length ts - 1))) \<and>
   (4 * length ts + 1 \<le> n \<longrightarrow> returns False (and_loop T n lhs ts) (leaves_at_most (length ts))) \<and>
   (4 * length ts + 1 \<le> n \<longrightarrow> returns False (parse_unary T n ts) (leaves_at_most (length ts - 1)))"
proof (induction n arbitrary: ts lhs)
  case (Suc n)
  note IH = Suc [THEN conjunct1, rule_format] Suc [THEN conjunct2, THEN conjunct1, rule_format]
    Suc [THEN conjunct2, THEN conjunct2, THEN conjunct1, rule_format]
    Suc [THEN conjunct2, THEN conjunct2, THEN conjunct2, THEN conjunct1, rule_format]
    Suc [THEN conjunct2, THEN conjunct2, THEN conjunct2, THEN conjunct2, rule_format]
  have step: "returns False (f c ts') (leaves_at_most k)"
    if "\<And>c ts'. 4 * length ts' + 1 \<le> n \<Longrightarrow> returns False (f c ts') (leaves_at_most (length ts'))"
      "length ts' \<le> k" "4 * length ts' + 1 \<le> n" for f :: "preproc_condition \<Rightarrow> condition_token list \<Rightarrow> condition_result"
      and c ts' k
    using that(1) [of ts' c] that(2,3) by (auto elim!: returns_mono dest: leaves_mono)
  have or: "returns False (parse_or T (Suc n) ts) (leaves_at_most (length ts - 1))" if "4 * length ts + 3 \<le> Suc n"
    using IH(3) [of ts] that
    by (auto simp: returns_parsed elim!: returns_mono split: option.splits intro!: step IH(2))
  have or_loop: "returns False (or_loop T (Suc n) lhs ts) (leaves_at_most (length ts))" if n: "4 * length ts + 1 \<le> Suc n"
  proof (cases "\<exists>rest. ts = CT_Or # rest")
    case True
    then obtain rest where ts: "ts = CT_Or # rest"
      by blast
    have "returns False (parse_and T n rest) (leaves_at_most (length rest - 1))"
      using IH(3) [of rest] n ts by simp
    then show ?thesis
      using n ts
      by (auto simp: returns_parsed elim!: returns_mono split: option.splits
          intro!: step [where f = "\<lambda>c. or_loop T n (PC_Or lhs c)"] IH(2))
  qed (auto split: list.splits condition_token.splits)
  have and_p: "returns False (parse_and T (Suc n) ts) (leaves_at_most (length ts - 1))" if "4 * length ts + 2 \<le> Suc n"
    using IH(5) [of ts] that
    by (auto simp: returns_parsed elim!: returns_mono split: option.splits intro!: step IH(4))
  have and_loop: "returns False (and_loop T (Suc n) lhs ts) (leaves_at_most (length ts))" if n: "4 * length ts + 1 \<le> Suc n"
  proof (cases "\<exists>rest. ts = CT_And # rest")
    case True
    then obtain rest where ts: "ts = CT_And # rest"
      by blast
    have "returns False (parse_unary T n rest) (leaves_at_most (length rest - 1))"
      using IH(5) [of rest] n ts by simp
    then show ?thesis
      using n ts
      by (auto simp: returns_parsed elim!: returns_mono split: option.splits
          intro!: step [where f = "\<lambda>c. and_loop T n (PC_And lhs c)"] IH(4))
  qed (auto split: list.splits condition_token.splits)
  have unary: "returns False (parse_unary T (Suc n) ts) (leaves_at_most (length ts - 1))" if n: "4 * length ts + 1 \<le> Suc n"
  proof (cases ts)
    case (Cons t rest)
    show ?thesis
    proof (cases t)
      case CT_Not
      have "returns False (parse_unary T n rest) (leaves_at_most (length rest - 1))"
        using IH(5) [of rest] n Cons by simp
      then show ?thesis
        using CT_Not Cons by (auto simp: returns_parsed elim!: returns_mono split: option.splits)
    next
      case CT_LParen
      have "returns False (parse_or T n rest) (leaves_at_most (length rest - 1))"
        using IH(1) [of rest] n Cons by simp
      then show ?thesis
        using CT_LParen Cons
        by (auto simp: returns_parsed elim!: returns_mono split: option.splits list.splits condition_token.splits)
    qed (simp_all add: Cons)
  qed simp
  show ?case
    using or or_loop and_p and_loop unary by blast
qed simp


text \<open>More fuel changes no result.\<close>

lemma parsed_Inr:
  "parsed m f = Inr r \<longleftrightarrow> (m = Inr None \<and> r = None) \<or> (\<exists>c ts. m = Inr (Some (c, ts)) \<and> f c ts = Inr r)"
  by (auto simp: parsed_def and_then_def split: sum.splits option.splits)

lemma parsed_mono:
  assumes "parsed m f = Inr r" and "\<And>x. m = Inr x \<Longrightarrow> m' = Inr x"
    and "\<And>c ts r. f c ts = Inr r \<Longrightarrow> f' c ts = Inr r"
  shows "parsed m' f' = Inr r"
  using assms unfolding parsed_Inr by blast

lemma loop_stops:
  "\<nexists>rest. ts = CT_Or # rest \<Longrightarrow> or_loop T (Suc n) lhs ts = Inr (Some (lhs, ts))"
  "\<nexists>rest. ts = CT_And # rest \<Longrightarrow> and_loop T (Suc n) lhs ts = Inr (Some (lhs, ts))"
  by (auto split: list.splits condition_token.splits)

lemma loop_goes_on:
  "or_loop T (Suc n) lhs (CT_Or # ts) = parsed (parse_and T n ts) (\<lambda>rhs. or_loop T n (PC_Or lhs rhs))"
  "and_loop T (Suc n) lhs (CT_And # ts) = parsed (parse_unary T n ts) (\<lambda>rhs. and_loop T n (PC_And lhs rhs))"
  by simp_all

lemma unary_steps:
  "parse_unary T (Suc n) (CT_Not # ts) = parsed (parse_unary T n ts) (\<lambda>c ts. Inr (Some (PC_Not c, ts)))"
  "parse_unary T (Suc n) (CT_LParen # ts) = parsed (parse_or T n ts) (\<lambda>inner ts.
     case ts of CT_RParen # ts \<Rightarrow> Inr (Some (inner, ts)) | _ \<Rightarrow> Inr None)"
  by simp_all

lemma parser_more:
  "(\<forall>T ts r. parse_or T n ts = Inr r \<longrightarrow> parse_or T (Suc n) ts = Inr r) \<and>
   (\<forall>T lhs ts r. or_loop T n lhs ts = Inr r \<longrightarrow> or_loop T (Suc n) lhs ts = Inr r) \<and>
   (\<forall>T ts r. parse_and T n ts = Inr r \<longrightarrow> parse_and T (Suc n) ts = Inr r) \<and>
   (\<forall>T lhs ts r. and_loop T n lhs ts = Inr r \<longrightarrow> and_loop T (Suc n) lhs ts = Inr r) \<and>
   (\<forall>T ts r. parse_unary T n ts = Inr r \<longrightarrow> parse_unary T (Suc n) ts = Inr r)"
proof (induction n)
  case (Suc n)
  note IH = Suc [THEN conjunct1, rule_format] Suc [THEN conjunct2, THEN conjunct1, rule_format]
    Suc [THEN conjunct2, THEN conjunct2, THEN conjunct1, rule_format]
    Suc [THEN conjunct2, THEN conjunct2, THEN conjunct2, THEN conjunct1, rule_format]
    Suc [THEN conjunct2, THEN conjunct2, THEN conjunct2, THEN conjunct2, rule_format]
  have "parse_or T (Suc (Suc n)) ts = Inr r" if "parse_or T (Suc n) ts = Inr r" for T ts r
    using that IH(3,2) unfolding parse_or.simps(2) by (rule parsed_mono)
  moreover have "or_loop T (Suc (Suc n)) lhs ts = Inr r" if "or_loop T (Suc n) lhs ts = Inr r" for T lhs ts r
  proof (cases "\<exists>rest. ts = CT_Or # rest")
    case True
    then show ?thesis
      using that IH(3,2) by (auto simp only: loop_goes_on elim!: parsed_mono)
  next
    case False
    then show ?thesis
      using that loop_stops by metis
  qed
  moreover have "parse_and T (Suc (Suc n)) ts = Inr r" if "parse_and T (Suc n) ts = Inr r" for T ts r
    using that IH(5,4) unfolding parse_and.simps(2) by (rule parsed_mono)
  moreover have "and_loop T (Suc (Suc n)) lhs ts = Inr r" if "and_loop T (Suc n) lhs ts = Inr r" for T lhs ts r
  proof (cases "\<exists>rest. ts = CT_And # rest")
    case True
    then show ?thesis
      using that IH(5,4) by (auto simp only: loop_goes_on elim!: parsed_mono)
  next
    case False
    then show ?thesis
      using that loop_stops by metis
  qed
  moreover have "parse_unary T (Suc (Suc n)) ts = Inr r" if "parse_unary T (Suc n) ts = Inr r" for T ts r
  proof (cases "\<exists>rest. ts = CT_Not # rest \<or> ts = CT_LParen # rest")
    case True
    then show ?thesis
      using that IH(1,5) by (auto simp only: unary_steps elim!: parsed_mono)
  next
    case False
    have "parse_unary T (Suc (Suc n)) ts = parse_unary T (Suc n) ts"
      using False by (auto split: list.splits condition_token.splits)
    then show ?thesis
      using that by simp
  qed
  ultimately show ?case
    by blast
qed simp

lemma parser_mono:
  assumes "n \<le> m"
  shows "parse_or T n ts = Inr r \<Longrightarrow> parse_or T m ts = Inr r"
    and "or_loop T n lhs ts = Inr r \<Longrightarrow> or_loop T m lhs ts = Inr r"
    and "parse_and T n ts = Inr r \<Longrightarrow> parse_and T m ts = Inr r"
    and "and_loop T n lhs ts = Inr r \<Longrightarrow> and_loop T m lhs ts = Inr r"
    and "parse_unary T n ts = Inr r \<Longrightarrow> parse_unary T m ts = Inr r"
  using assms by (induction m rule: dec_induct) (use parser_more in blast)+



section \<open>Reading back a printed condition\<close>

text \<open>
  A spelling of every symbol; the ones that fall together are spelt as one of them, and an
  unknown symbol as a word the registry does not hold.
\<close>

definition symbol_word :: "env_symbol \<Rightarrow> ustring" where
  "symbol_word symbol =
    (case symbol of
       PS_Client \<Rightarrow> symbol_en PSI_Client
     | PS_Server \<Rightarrow> symbol_ru PSI_Server
     | PS_ThinClient \<Rightarrow> symbol_en PSI_ThinClient
     | PS_WebClient \<Rightarrow> symbol_ru PSI_WebClient
     | PS_MobileClient \<Rightarrow> symbol_en PSI_MobileClient
     | PS_ThickClientOrdinaryApplication \<Rightarrow> symbol_en PSI_ThickClientOrdinaryApplication
     | PS_ThickClientManagedApplication \<Rightarrow> symbol_en PSI_ThickClientManagedApplication
     | PS_ExternalConnection \<Rightarrow> symbol_en PSI_ExternalConnection
     | PS_MobileAppRuntime \<Rightarrow> symbol_en PSI_MobileAppClient
     | PS_Unrecognized \<Rightarrow> ascii ''Linux'')"

lemma from_ident_word: "from_ident up low (symbol_word symbol) = symbol"
proof (cases symbol)
  case PS_Unrecognized
  have "lookup_symbol up low (ascii ''Linux'') = None"
    by (simp add: lookup_symbol_def preproc_symbol_id_ALL_def fold_case_def ascii_def)
  then show ?thesis
    by (simp add: from_ident_def symbol_word_def PS_Unrecognized)
qed (simp_all only: from_ident_def symbol_word_def env_symbol.case lookup_ru lookup_en option.case
    symbol_of_id_def preproc_symbol_id.case)

text \<open>Printing with the fewest parentheses: \<open>Not\<close> binds tighter than \<open>And\<close>, that than \<open>Or\<close>.\<close>

datatype level = L_Or | L_And | L_Unary

fun print_condition :: "level \<Rightarrow> preproc_condition \<Rightarrow> condition_token list" where
  "print_condition l (PC_Symbol symbol) = [CT_Ident (symbol_word symbol)]"
| "print_condition l (PC_Not c) = CT_Not # print_condition L_Unary c"
| "print_condition l (PC_And a b) =
    (let ts = print_condition L_And a @ [CT_And] @ print_condition L_Unary b
     in if l = L_Unary then [CT_LParen] @ ts @ [CT_RParen] else ts)"
| "print_condition l (PC_Or a b) =
    (let ts = print_condition L_Or a @ [CT_Or] @ print_condition L_And b
     in if l = L_Or then ts else [CT_LParen] @ ts @ [CT_RParen])"
| "print_condition l PC_Unknown = [CT_Error]"

fun well_formed :: "preproc_condition \<Rightarrow> bool" where
  "well_formed (PC_Symbol _) = True"
| "well_formed (PC_Not c) = well_formed c"
| "well_formed (PC_And a b) \<longleftrightarrow> well_formed a \<and> well_formed b"
| "well_formed (PC_Or a b) \<longleftrightarrow> well_formed a \<and> well_formed b"
| "well_formed PC_Unknown = False"

text \<open>What it means that a rule reads a condition in front of any rest, given enough fuel.\<close>

definition reads_unary :: "char_tables \<Rightarrow> preproc_condition \<Rightarrow> condition_token list \<Rightarrow> bool" where
  "reads_unary T c ts \<longleftrightarrow> (\<forall>rest. \<exists>n. parse_unary T n (ts @ rest) = Inr (Some (c, rest)))"

definition reads_and :: "char_tables \<Rightarrow> preproc_condition \<Rightarrow> condition_token list \<Rightarrow> bool" where
  "reads_and T c ts \<longleftrightarrow>
     (\<forall>rest n r. and_loop T n c rest = Inr r \<longrightarrow> (\<exists>m. parse_and T m (ts @ rest) = Inr r))"

definition reads_or :: "char_tables \<Rightarrow> preproc_condition \<Rightarrow> condition_token list \<Rightarrow> bool" where
  "reads_or T c ts \<longleftrightarrow>
     (\<forall>rest n r. or_loop T n c rest = Inr r \<longrightarrow> (\<nexists>q. rest = CT_And # q) \<longrightarrow>
       (\<exists>m. parse_or T m (ts @ rest) = Inr r))"

lemma reads_unary_and: "reads_unary T c ts \<Longrightarrow> reads_and T c ts"
  unfolding reads_and_def reads_unary_def
proof (intro allI impI)
  fix rest n r
  assume u: "\<forall>rest. \<exists>n. parse_unary T n (ts @ rest) = Inr (Some (c, rest))" and l: "and_loop T n c rest = Inr r"
  then obtain k where k: "parse_unary T k (ts @ rest) = Inr (Some (c, rest))"
    by blast
  have "parse_and T (Suc (max k n)) (ts @ rest) = Inr r"
    unfolding parse_and.simps(2) parsed_Inr
    using parser_mono(5) [OF max.cobounded1 k, of n] parser_mono(4) [OF max.cobounded2 l, of k] by blast
  then show "\<exists>m. parse_and T m (ts @ rest) = Inr r"
    by blast
qed

lemma reads_and_or: "reads_and T c ts \<Longrightarrow> reads_or T c ts"
  unfolding reads_or_def
proof (intro allI impI)
  fix rest n r
  assume a: "reads_and T c ts" and l: "or_loop T n c rest = Inr r" and no: "\<nexists>q. rest = CT_And # q"
  obtain k where k: "parse_and T k (ts @ rest) = Inr (Some (c, rest))"
    using a loop_stops(2) [OF no, of T 0 c] unfolding reads_and_def by blast
  have "parse_or T (Suc (max k n)) (ts @ rest) = Inr r"
    unfolding parse_or.simps(2) parsed_Inr
    using parser_mono(3) [OF max.cobounded1 k, of n] parser_mono(2) [OF max.cobounded2 l, of k] by blast
  then show "\<exists>m. parse_or T m (ts @ rest) = Inr r"
    by blast
qed

lemma reads_and_cons:
  assumes a: "reads_and T a ts" and b: "reads_unary T b us"
  shows "reads_and T (PC_And a b) (ts @ [CT_And] @ us)"
  unfolding reads_and_def
proof (intro allI impI)
  fix rest n r
  assume l: "and_loop T n (PC_And a b) rest = Inr r"
  obtain k where k: "parse_unary T k (us @ rest) = Inr (Some (b, rest))"
    using b unfolding reads_unary_def by blast
  have "and_loop T (Suc (max k n)) a (CT_And # us @ rest) = Inr r"
    unfolding loop_goes_on parsed_Inr
    using parser_mono(5) [OF max.cobounded1 k, of n] parser_mono(4) [OF max.cobounded2 l, of k] by blast
  then show "\<exists>m. parse_and T m ((ts @ [CT_And] @ us) @ rest) = Inr r"
    using a unfolding reads_and_def append_assoc append_Cons append_Nil by blast
qed

lemma reads_or_cons:
  assumes a: "reads_or T a ts" and b: "reads_and T b us"
  shows "reads_or T (PC_Or a b) (ts @ [CT_Or] @ us)"
  unfolding reads_or_def
proof (intro allI impI)
  fix rest n r
  assume l: "or_loop T n (PC_Or a b) rest = Inr r" and no: "\<nexists>q. rest = CT_And # q"
  obtain k where k: "parse_and T k (us @ rest) = Inr (Some (b, rest))"
    using b loop_stops(2) [OF no, of T 0 b] unfolding reads_and_def by blast
  have "or_loop T (Suc (max k n)) a (CT_Or # us @ rest) = Inr r"
    unfolding loop_goes_on parsed_Inr
    using parser_mono(3) [OF max.cobounded1 k, of n] parser_mono(2) [OF max.cobounded2 l, of k] by blast
  then show "\<exists>m. parse_or T m ((ts @ [CT_Or] @ us) @ rest) = Inr r"
    using a unfolding reads_or_def append_assoc append_Cons append_Nil by blast
qed

lemma reads_not: "reads_unary T c ts \<Longrightarrow> reads_unary T (PC_Not c) (CT_Not # ts)"
  unfolding reads_unary_def
proof
  fix rest
  assume "\<forall>rest. \<exists>n. parse_unary T n (ts @ rest) = Inr (Some (c, rest))"
  then obtain n where "parse_unary T n (ts @ rest) = Inr (Some (c, rest))"
    by blast
  then have "parse_unary T (Suc n) ((CT_Not # ts) @ rest) = Inr (Some (PC_Not c, rest))"
    by (simp only: append_Cons unary_steps parsed_Inr) simp
  then show "\<exists>n. parse_unary T n ((CT_Not # ts) @ rest) = Inr (Some (PC_Not c, rest))"
    by blast
qed

lemma reads_parens: "reads_or T c ts \<Longrightarrow> reads_unary T c ([CT_LParen] @ ts @ [CT_RParen])"
  unfolding reads_unary_def
proof
  fix rest
  assume o: "reads_or T c ts"
  obtain n where "parse_or T n (ts @ CT_RParen # rest) = Inr (Some (c, CT_RParen # rest))"
    using o loop_stops(1) [of "CT_RParen # rest" T 0 c] unfolding reads_or_def by blast
  then have "parse_unary T (Suc n) (([CT_LParen] @ ts @ [CT_RParen]) @ rest) = Inr (Some (c, rest))"
    by (simp only: append_Cons append_Nil append_assoc unary_steps parsed_Inr) simp
  then show "\<exists>n. parse_unary T n (([CT_LParen] @ ts @ [CT_RParen]) @ rest) = Inr (Some (c, rest))"
    by blast
qed

lemma print_reads:
  "well_formed c \<Longrightarrow> reads_or T c (print_condition L_Or c) \<and> reads_and T c (print_condition L_And c) \<and>
    reads_unary T c (print_condition L_Unary c)"
proof (induction c)
  case (PC_Symbol symbol)
  have "reads_unary T (PC_Symbol symbol) [CT_Ident (symbol_word symbol)]"
    by (auto simp: reads_unary_def from_ident_word intro!: exI [of _ "Suc 0"])
  then show ?case
    by (simp add: reads_unary_and reads_and_or)
next
  case (PC_Not c)
  then have "reads_unary T (PC_Not c) (CT_Not # print_condition L_Unary c)"
    by (simp add: reads_not)
  then show ?case
    by (simp add: reads_unary_and reads_and_or)
next
  case (PC_And a b)
  then have read: "reads_and T (PC_And a b) (print_condition L_And (PC_And a b))"
    using reads_and_cons by simp
  show ?case
    using read reads_and_or [OF read] reads_parens [OF reads_and_or [OF read]] by simp
next
  case (PC_Or a b)
  then have read: "reads_or T (PC_Or a b) (print_condition L_Or (PC_Or a b))"
    using reads_or_cons by simp
  show ?case
    using read reads_parens [OF read] reads_unary_and [OF reads_parens [OF read]] by simp
qed simp

text \<open>
  C38. A condition printed with the fewest parentheses, in at most 64 tokens, is read back as
  it was: the precedence and the grouping to the left are those of the printer. More than 64
  tokens give the unknown condition. The parser always returns.
\<close>

theorem parse_print_condition:
  assumes "well_formed c" and "tokenize_condition T s = print_condition L_Or c"
  shows "parse_condition T s =
    Inr (if length (print_condition L_Or c) \<le> MAX_CONDITION_TOKENS then c else PC_Unknown)"
proof (cases "length (print_condition L_Or c) \<le> MAX_CONDITION_TOKENS")
  case True
  let ?ts = "print_condition L_Or c"
  obtain n where n: "parse_or T n ?ts = Inr (Some (c, []))"
    using print_reads [OF assms(1), of T] loop_stops(1) [of "[]" T 0 c] unfolding reads_or_def
    by (metis append_Nil2 list.distinct(1))
  obtain r where r: "parse_or T (4 * length ?ts + 4) ?ts = Inr r"
    using parser_total [THEN conjunct1, of ?ts "4 * length ?ts + 4" T]
    by (auto simp: returns_def split: sum.splits fault.splits)
  have "r = Some (c, [])"
    using parser_mono(1) [OF max.cobounded1 n, of "4 * length ?ts + 4"] parser_mono(1) [OF max.cobounded2 r, of n]
    by simp
  then show ?thesis
    using True r assms(2) by (simp add: parse_condition_def parse_condition_tokens_def)
next
  case False
  then show ?thesis
    using assms(2) by (simp add: parse_condition_def parse_condition_tokens_def)
qed


text \<open>Character classes for the example: the letters and digits of ASCII.\<close>

definition ascii_tables :: char_tables where
  "ascii_tables = \<lparr>ch_whitespace = (\<lambda>c. c = 0x20 \<or> c = 0x09),
     ch_alphabetic = (\<lambda>c. 0x41 \<le> c \<and> c \<le> 0x5A \<or> 0x61 \<le> c \<and> c \<le> 0x7A),
     ch_alphanumeric = (\<lambda>c. 0x41 \<le> c \<and> c \<le> 0x5A \<or> 0x61 \<le> c \<and> c \<le> 0x7A \<or> 0x30 \<le> c \<and> c \<le> 0x39),
     ch_to_uppercase = (\<lambda>c. [c]), ch_to_lowercase = sample_lower\<rparr>"

theorem parse_print_condition_witness:
  "parse_condition ascii_tables (ascii ''not Client and (ThinClient or Linux)'') =
    Inr (PC_And (PC_Not (PC_Symbol PS_Client)) (PC_Or (PC_Symbol PS_ThinClient) (PC_Symbol PS_Unrecognized)))"
proof -
  let ?c = "PC_And (PC_Not (PC_Symbol PS_Client)) (PC_Or (PC_Symbol PS_ThinClient) (PC_Symbol PS_Unrecognized))"
  have "tokenize_condition ascii_tables (ascii ''not Client and (ThinClient or Linux)'') = print_condition L_Or ?c"
    by (simp add: ascii_def ascii_tables_def word_token_def bilingual_eq_def fold_case_def symbol_word_def)
  moreover have "length (print_condition L_Or ?c) = 8"
    by simp
  ultimately show ?thesis
    using parse_print_condition [of ?c ascii_tables "ascii ''not Client and (ThinClient or Linux)''"]
    by (simp add: MAX_CONDITION_TOKENS_def)
qed

end
