(* ===== verification/Env_Properties.thy ===== *)
theory Env_Properties
  imports Execution_Env Conditional_Build Condition_Roundtrip
begin

text \<open>
  What the environments of a place mean: the conditional branches around it, read as the
  runs of \<open>Preproc_Condition\<close>, and the bounds on the environments of a method.
\<close>

section \<open>Trees of conditionals\<close>














section \<open>Runs of a chain and of the tree\<close>








section \<open>The environments of a place\<close>











section \<open>The environments of a method\<close>





text \<open>A module that compiles nowhere has no environment, so its methods are not checked in any.\<close>

lemma compiles_nowhere_env:
  assumes "compiles_nowhere m"
  shows "body_env m annotations opts = ENV_EMPTY"
  using assms by (auto simp: compiles_nowhere_def body_env_def module_base_env_def common_module_env_def
      env_is_empty_def ENV_EMPTY_def split: option.splits)





end
