(* ===== verification/Index_Collections.thy ===== *)
theory Index_Collections
  imports Prelude "HOL-Library.AList"
begin

text \<open>
  The containers of the library \<open>indexmap\<close>: sets and maps that remember the order of
  insertion. The code that uses them takes their operations as a record; the locales are the
  documented behaviour, told by the list of items. Lists are the instances.
\<close>

section \<open>Sets\<close>

record ('s, 'k) index_set =
  ixs_new :: 's
  ixs_insert_full :: "'s \<Rightarrow> 'k \<Rightarrow> nat \<times> 's"
  ixs_get_index_of :: "'s \<Rightarrow> 'k \<Rightarrow> nat option"
  ixs_get_index :: "'s \<Rightarrow> nat \<Rightarrow> 'k option"

locale index_set_laws =
  fixes X :: "('s, 'k) index_set" and items :: "'s \<Rightarrow> 'k list"
  assumes set_new: "items (ixs_new X) = []"
    and set_distinct: "distinct (items s)"
    and set_index_of: "ixs_get_index_of X s k = Some i \<longleftrightarrow> i < length (items s) \<and> items s ! i = k"
    and set_get_index: "ixs_get_index X s i = get (items s) i"
    and set_insert_old: "k \<in> set (items s) \<Longrightarrow> ixs_insert_full X s k = (the (ixs_get_index_of X s k), s)"
    and set_insert_new: "k \<notin> set (items s) \<Longrightarrow> \<exists>s'. ixs_insert_full X s k = (length (items s), s') \<and> items s' = items s @ [k]"
begin

lemma index_of_None: "ixs_get_index_of X s k = None \<longleftrightarrow> k \<notin> set (items s)"
  using set_index_of [of s k] by (metis in_set_conv_nth not_None_eq)

lemma insert_full_index:
  assumes "ixs_insert_full X s k = (i, s')"
  shows "ixs_get_index_of X s' k = Some i" and "items s' = (if k \<in> set (items s) then items s else items s @ [k])"
  using assms set_insert_old [of k s] set_insert_new [of k s] index_of_None [of s k]
  by (auto simp: set_index_of nth_append split: if_splits)

lemma index_of_inject: "ixs_get_index_of X s k = Some i \<Longrightarrow> ixs_get_index_of X s k' = Some i \<Longrightarrow> k = k'"
  by (simp add: set_index_of)

end


section \<open>Maps\<close>

record ('m, 'k, 'v) index_map =
  ixm_new :: 'm
  ixm_get :: "'m \<Rightarrow> 'k \<Rightarrow> 'v option"
  ixm_insert :: "'m \<Rightarrow> 'k \<Rightarrow> 'v \<Rightarrow> 'm"
  ixm_shift_remove :: "'m \<Rightarrow> 'k \<Rightarrow> 'v option \<times> 'm"
  ixm_entries :: "'m \<Rightarrow> ('k \<times> 'v) list"

locale index_map_laws =
  fixes M :: "('m, 'k, 'v) index_map"
  assumes map_new: "ixm_entries M (ixm_new M) = []"
    and map_distinct: "distinct (map fst (ixm_entries M m))"
    and map_get: "ixm_get M m k = map_of (ixm_entries M m) k"
    and map_insert: "ixm_entries M (ixm_insert M m k v) = AList.update k v (ixm_entries M m)"
    and map_remove: "fst (ixm_shift_remove M m k) = ixm_get M m k"
      "ixm_entries M (snd (ixm_shift_remove M m k)) = AList.delete k (ixm_entries M m)"
begin

lemma get_new: "ixm_get M (ixm_new M) k = None"
  by (simp add: map_get map_new)

lemma get_insert: "ixm_get M (ixm_insert M m k v) k' = (if k' = k then Some v else ixm_get M m k')"
  by (simp add: map_get map_insert update_conv')

lemma get_remove: "ixm_get M (snd (ixm_shift_remove M m k)) k' = (if k' = k then None else ixm_get M m k')"
  by (simp add: map_get map_remove delete_conv')

lemma entry_get: "(k, v) \<in> set (ixm_entries M m) \<longleftrightarrow> ixm_get M m k = Some v"
  using map_distinct [of m] by (simp add: map_get)

end


section \<open>Lists\<close>

definition list_index :: "'k list \<Rightarrow> 'k \<Rightarrow> nat option" where
  "list_index xs k = (if k \<in> set xs then Some (length (takeWhile (\<lambda>x. x \<noteq> k) xs)) else None)"

lemma list_index_Some:
  assumes "distinct xs"
  shows "list_index xs k = Some i \<longleftrightarrow> i < length xs \<and> xs ! i = k"
proof -
  let ?n = "length (takeWhile (\<lambda>x. x \<noteq> k) xs)"
  have "?n < length xs \<and> xs ! ?n = k" if "k \<in> set xs"
    using split_list_first [OF that] by (auto simp: takeWhile_append)
  then show ?thesis
    using assms by (auto simp: list_index_def nth_eq_iff_index_eq)
qed

text \<open>A set as the list of its items, the last inserted first; of repeated items only one counts.\<close>

definition list_items :: "'k list \<Rightarrow> 'k list" where
  "list_items s = rev (remdups s)"

definition list_index_set :: "('k list, 'k) index_set" where
  "list_index_set = \<lparr>ixs_new = [],
     ixs_insert_full = (\<lambda>s k.
       case list_index (list_items s) k of Some i \<Rightarrow> (i, s) | None \<Rightarrow> (length (list_items s), k # s)),
     ixs_get_index_of = (\<lambda>s. list_index (list_items s)), ixs_get_index = (\<lambda>s. get (list_items s))\<rparr>"

interpretation list_set: index_set_laws list_index_set list_items
proof
  show "distinct (list_items s)" for s :: "'k list"
    by (simp add: list_items_def)
  show "ixs_get_index_of list_index_set s k = Some i \<longleftrightarrow> i < length (list_items s) \<and> list_items s ! i = k"
    for s and k :: 'k and i
    by (simp add: list_index_set_def list_index_Some list_items_def)
qed (auto simp: list_index_set_def list_items_def list_index_def)

definition list_index_map :: "(('k \<times> 'v) list, 'k, 'v) index_map" where
  "list_index_map = \<lparr>ixm_new = [], ixm_get = map_of, ixm_insert = (\<lambda>m k v. AList.update k v m),
     ixm_shift_remove = (\<lambda>m k. (map_of m k, AList.delete k m)), ixm_entries = AList.clearjunk\<rparr>"

interpretation list_map: index_map_laws list_index_map
  by unfold_locales
    (simp_all add: list_index_map_def distinct_clearjunk map_of_clearjunk clearjunk_update clearjunk_delete)

end
