(* ===== verification/Vfs.thy ===== *)
theory Vfs
  imports Index_Collections
begin

text \<open>
  The virtual file system (\<open>vfs/src/lib.rs\<close>, \<open>path_interner.rs\<close>): identities for paths, the
  state of every file as the hash of its text, and the changes that wait to be taken. Paths are
  of any type; the hash of \<open>rustc_hash\<close> is a parameter.
\<close>

section \<open>Data\<close>

type_synonym file_id = "32 word"
type_synonym text_hash = "64 word"

datatype file_state = Exists text_hash | Deleted | WatchOnly

datatype change = Create ustring text_hash | Modify ustring text_hash | Delete

datatype change_kind = CK_Create | CK_Modify | CK_Delete

record changed_file =
  cf_file_id :: file_id
  cf_change :: change

fun change_kind_of :: "change \<Rightarrow> change_kind" where
  "change_kind_of (Create _ _) = CK_Create"
| "change_kind_of (Modify _ _) = CK_Modify"
| "change_kind_of Delete = CK_Delete"

fun change_content :: "change \<Rightarrow> ustring option" where
  "change_content (Create t _) = Some t"
| "change_content (Modify t _) = Some t"
| "change_content Delete = None"

fun change_hash :: "change \<Rightarrow> text_hash option" where
  "change_hash (Create _ h) = Some h"
| "change_hash (Modify _ h) = Some h"
| "change_hash Delete = None"

record ('s, 'm) vfs =
  vfs_interner :: 's
  vfs_data :: "file_state list"
  vfs_changes :: 'm


section \<open>Interning paths\<close>

definition intern :: "('s, 'p) index_set \<Rightarrow> 's \<Rightarrow> 'p \<Rightarrow> file_id \<times> 's" where
  "intern X s path = (let (idx, s) = ixs_insert_full X s path in (word_of_nat idx, s))"

definition interner_get :: "('s, 'p) index_set \<Rightarrow> 's \<Rightarrow> 'p \<Rightarrow> file_id option" where
  "interner_get X s path = map_option word_of_nat (ixs_get_index_of X s path)"

definition interner_lookup :: "('s, 'p) index_set \<Rightarrow> 's \<Rightarrow> file_id \<Rightarrow> 'p outcome" where
  "interner_lookup X s file = (case ixs_get_index X s (unat file) of None \<Rightarrow> Inl Panic | Some path \<Rightarrow> Inr path)"


section \<open>Operations\<close>

definition vfs_new :: "('s, 'p) index_set \<Rightarrow> ('m, file_id, changed_file) index_map \<Rightarrow> ('s, 'm) vfs" where
  "vfs_new X M = \<lparr>vfs_interner = ixs_new X, vfs_data = [], vfs_changes = ixm_new M\<rparr>"

definition get_state :: "('s, 'm) vfs \<Rightarrow> file_id \<Rightarrow> file_state" where
  "get_state v file = (case get (vfs_data v) (unat file) of Some state \<Rightarrow> state | None \<Rightarrow> Deleted)"

definition set_state :: "file_id \<Rightarrow> file_state \<Rightarrow> ('s, 'm) vfs \<Rightarrow> ('s, 'm) vfs outcome" where
  "set_state file state v =
    (if unat file < length (vfs_data v) then Inr (v\<lparr>vfs_data := (vfs_data v)[unat file := state]\<rparr>) else Inl Panic)"

function grow_data :: "nat \<Rightarrow> file_state list \<Rightarrow> file_state list" where
  "grow_data n data = (if length data \<le> n then grow_data n (data @ [Deleted]) else data)"
  by pat_completeness auto
termination
  by (relation "measure (\<lambda>(n, data). Suc n - length data)") auto

declare grow_data.simps [simp del]

definition alloc_file_id :: "('s, 'p) index_set \<Rightarrow> 'p \<Rightarrow> ('s, 'm) vfs \<Rightarrow> file_id \<times> ('s, 'm) vfs" where
  "alloc_file_id X path v =
    (let (file, interner) = intern X (vfs_interner v) path in
     (file, v\<lparr>vfs_interner := interner, vfs_data := grow_data (unat file) (vfs_data v)\<rparr>))"

definition merge_changes :: "change \<Rightarrow> change \<Rightarrow> change" where
  "merge_changes old new =
    (case (old, new) of
       (Create _ _, Create t h) \<Rightarrow> Create t h
     | (Create _ _, Modify t h) \<Rightarrow> Create t h
     | (Create _ _, Delete) \<Rightarrow> Delete
     | (Modify _ _, Modify t h) \<Rightarrow> Modify t h
     | (Modify _ _, Delete) \<Rightarrow> Delete
     | (Delete, Create t h) \<Rightarrow> Modify t h
     | _ \<Rightarrow> new)"

definition record_change ::
  "('m, file_id, changed_file) index_map \<Rightarrow> file_id \<Rightarrow> change \<Rightarrow> ('s, 'm) vfs \<Rightarrow> ('s, 'm) vfs" where
  "record_change M file new v =
    v\<lparr>vfs_changes :=
      (case ixm_get M (vfs_changes v) file of
         Some old \<Rightarrow> ixm_insert M (vfs_changes v) file (old\<lparr>cf_change := merge_changes (cf_change old) new\<rparr>)
       | None \<Rightarrow> ixm_insert M (vfs_changes v) file \<lparr>cf_file_id = file, cf_change = new\<rparr>)\<rparr>"

definition set_file_contents ::
  "('s, 'p) index_set \<Rightarrow> ('m, file_id, changed_file) index_map \<Rightarrow> (ustring \<Rightarrow> text_hash) \<Rightarrow>
     'p \<Rightarrow> ustring option \<Rightarrow> ('s, 'm) vfs \<Rightarrow> (bool \<times> ('s, 'm) vfs) outcome" where
  "set_file_contents X M hash path contents v =
    (let (file, v) = alloc_file_id X path v in
     case (get_state v file, contents) of
       (Exists old_hash, Some t) \<Rightarrow>
         let new_hash = hash t in
         if new_hash = old_hash then Inr (False, v)
         else and_then (set_state file (Exists new_hash) v) (\<lambda>v. Inr (True, record_change M file (Modify t new_hash) v))
     | (Exists _, None) \<Rightarrow>
         and_then (set_state file Deleted v) (\<lambda>v. Inr (True, record_change M file Delete v))
     | (_, Some t) \<Rightarrow>
         let new_hash = hash t in
         and_then (set_state file (Exists new_hash) v) (\<lambda>v. Inr (True, record_change M file (Create t new_hash) v))
     | (Deleted, None) \<Rightarrow> Inr (False, v)
     | (WatchOnly, None) \<Rightarrow> and_then (set_state file Deleted v) (\<lambda>v. Inr (False, v)))"

definition register_watch_only ::
  "('s, 'p) index_set \<Rightarrow> 'p \<Rightarrow> ('s, 'm) vfs \<Rightarrow> (file_id \<times> ('s, 'm) vfs) outcome" where
  "register_watch_only X path v =
    (let (file, v) = alloc_file_id X path v in
     if get_state v file = Deleted then and_then (set_state file WatchOnly v) (\<lambda>v. Inr (file, v)) else Inr (file, v))"

definition vfs_file_id :: "('s, 'p) index_set \<Rightarrow> ('s, 'm) vfs \<Rightarrow> 'p \<Rightarrow> file_id option" where
  "vfs_file_id X v path = interner_get X (vfs_interner v) path"

definition vfs_file_path :: "('s, 'p) index_set \<Rightarrow> ('s, 'm) vfs \<Rightarrow> file_id \<Rightarrow> 'p outcome" where
  "vfs_file_path X v file = interner_lookup X (vfs_interner v) file"

definition unregister_watch_only :: "('s, 'p) index_set \<Rightarrow> 'p \<Rightarrow> ('s, 'm) vfs \<Rightarrow> ('s, 'm) vfs outcome" where
  "unregister_watch_only X path v =
    (case vfs_file_id X v path of
       None \<Rightarrow> Inr v
     | Some file \<Rightarrow> if get_state v file = WatchOnly then set_state file Deleted v else Inr v)"

definition take_changes ::
  "('m, file_id, changed_file) index_map \<Rightarrow> ('s, 'm) vfs \<Rightarrow> changed_file list \<times> ('s, 'm) vfs" where
  "take_changes M v = (map snd (ixm_entries M (vfs_changes v)), v\<lparr>vfs_changes := ixm_new M\<rparr>)"

definition pending_change_bytes :: "('m, file_id, changed_file) index_map \<Rightarrow> ('s, 'm) vfs \<Rightarrow> nat \<times> nat" where
  "pending_change_bytes M v =
    (let entries = map snd (ixm_entries M (vfs_changes v)) in
     (length entries,
      sum_list (map (\<lambda>c. case cf_change c of Create t _ \<Rightarrow> str_len t | Modify t _ \<Rightarrow> str_len t | Delete \<Rightarrow> 0) entries)))"

definition vfs_exists :: "('s, 'm) vfs \<Rightarrow> file_id \<Rightarrow> bool" where
  "vfs_exists v file = (case get_state v file of Exists _ \<Rightarrow> True | WatchOnly \<Rightarrow> True | Deleted \<Rightarrow> False)"

definition num_file_ids :: "('s, 'm) vfs \<Rightarrow> 32 word" where
  "num_file_ids v = word_of_nat (length (vfs_data v))"

end
