(* ===== verification/Vfs_Replay.thy ===== *)
theory Vfs_Replay
  imports Vfs
begin

text \<open>
  What a client of the file system learns from the changes it takes. The client keeps a copy of
  the texts and replays every batch of changes; the copy then holds, for every path, the text
  that was set last, up to collisions of the hash.
\<close>

section \<open>Sequences of operations\<close>

datatype 'p vfs_op = SetContents 'p "ustring option" | RegisterWatch 'p | UnregisterWatch 'p | TakeChanges

type_synonym text_copy = "file_id \<rightharpoonup> ustring"

definition replay_change :: "changed_file \<Rightarrow> text_copy \<Rightarrow> text_copy" where
  "replay_change c copy = copy(cf_file_id c := change_content (cf_change c))"

fun vfs_step ::
  "('s, 'p) index_set \<Rightarrow> ('m, file_id, changed_file) index_map \<Rightarrow> (ustring \<Rightarrow> text_hash) \<Rightarrow>
     'p vfs_op \<Rightarrow> ('s, 'm) vfs \<times> text_copy \<Rightarrow> (('s, 'm) vfs \<times> text_copy) outcome" where
  "vfs_step X M hash (SetContents p t) (v, copy) = and_then (set_file_contents X M hash p t v) (\<lambda>(_, v). Inr (v, copy))"
| "vfs_step X M hash (RegisterWatch p) (v, copy) = and_then (register_watch_only X p v) (\<lambda>(_, v). Inr (v, copy))"
| "vfs_step X M hash (UnregisterWatch p) (v, copy) = and_then (unregister_watch_only X p v) (\<lambda>v. Inr (v, copy))"
| "vfs_step X M hash TakeChanges (v, copy) = (let (cs, v) = take_changes M v in Inr (v, fold replay_change cs copy))"

fun vfs_run ::
  "('s, 'p) index_set \<Rightarrow> ('m, file_id, changed_file) index_map \<Rightarrow> (ustring \<Rightarrow> text_hash) \<Rightarrow>
     'p vfs_op list \<Rightarrow> ('s, 'm) vfs \<times> text_copy \<Rightarrow> (('s, 'm) vfs \<times> text_copy) outcome" where
  "vfs_run X M hash [] s = Inr s"
| "vfs_run X M hash (op # ops) s = and_then (vfs_step X M hash op s) (vfs_run X M hash ops)"

fun set_last :: "'p vfs_op \<Rightarrow> ('p \<rightharpoonup> ustring) \<Rightarrow> ('p \<rightharpoonup> ustring)" where
  "set_last (SetContents p t) m = m(p := t)"
| "set_last _ m = m"

fun op_paths :: "'p vfs_op \<Rightarrow> 'p set" where
  "op_paths (SetContents p _) = {p}"
| "op_paths (RegisterWatch p) = {p}"
| "op_paths _ = {}"

fun op_texts :: "'p vfs_op \<Rightarrow> ustring set" where
  "op_texts (SetContents _ (Some t)) = {t}"
| "op_texts _ = {}"


section \<open>The invariant\<close>

lemma grow_data_eq: "grow_data n data = data @ replicate (Suc n - length data) Deleted"
proof (induction n data rule: grow_data.induct)
  case (1 n data)
  then show ?case
    by (subst grow_data.simps) (auto simp: Suc_diff_le replicate_append_same simp flip: replicate_Suc)
qed

lemma fold_replay:
  assumes "distinct (map fst cs)" and "\<forall>(k, c) \<in> set cs. cf_file_id c = k"
  shows "fold replay_change (map snd cs) copy file =
    (case map_of cs file of Some c \<Rightarrow> change_content (cf_change c) | None \<Rightarrow> copy file)"
  using assms
proof (induction cs arbitrary: copy)
  case (Cons x cs)
  then show ?case
    by (cases x) (auto simp: replay_change_def split: option.splits dest: map_of_SomeD intro!: image_eqI)
qed simp

locale vfs_space = index_set_laws X items + index_map_laws M
  for X :: "('s, 'p) index_set" and items and M :: "('m, file_id, changed_file) index_map" +
  fixes hash :: "ustring \<Rightarrow> text_hash" and paths :: "'p set" and texts :: "ustring set"
  assumes paths_fit: "finite paths" "card paths \<le> 2 ^ 32"
begin

text \<open>The copy after the changes that still wait.\<close>

definition view :: "('s, 'm) vfs \<Rightarrow> text_copy \<Rightarrow> text_copy" where
  "view v copy file = (case ixm_get M (vfs_changes v) file of Some c \<Rightarrow> change_content (cf_change c) | None \<Rightarrow> copy file)"

definition state_ok :: "file_state \<Rightarrow> ustring option \<Rightarrow> ustring option \<Rightarrow> bool" where
  "state_ok s seen last_set \<longleftrightarrow>
    (case s of
       Exists h \<Rightarrow> \<exists>t \<in> texts. \<exists>t' \<in> texts. seen = Some t \<and> hash t = h \<and> last_set = Some t' \<and> hash t' = h
     | _ \<Rightarrow> seen = None \<and> last_set = None)"

definition change_ok :: "text_copy \<Rightarrow> file_id \<Rightarrow> changed_file \<Rightarrow> bool" where
  "change_ok copy file c \<longleftrightarrow> cf_file_id c = file \<and> (change_kind_of (cf_change c) = CK_Create \<longrightarrow> copy file = None)"

definition mirrors :: "('s, 'm) vfs \<Rightarrow> text_copy \<Rightarrow> ('p \<rightharpoonup> ustring) \<Rightarrow> bool" where
  "mirrors v copy m \<longleftrightarrow> length (vfs_data v) = length (items (vfs_interner v)) \<and> set (items (vfs_interner v)) \<subseteq> paths \<and>
     (\<forall>file c. ixm_get M (vfs_changes v) file = Some c \<longrightarrow> change_ok copy file c \<and> unat file < length (vfs_data v)) \<and>
     (\<forall>i < length (vfs_data v). state_ok (vfs_data v ! i) (view v copy (word_of_nat i)) (m (items (vfs_interner v) ! i))) \<and>
     (\<forall>file. length (vfs_data v) \<le> unat file \<longrightarrow> view v copy file = None) \<and>
     (\<forall>p. p \<notin> set (items (vfs_interner v)) \<longrightarrow> m p = None)"

lemma items_fit:
  assumes "set (items s) \<subseteq> paths"
  shows "length (items s) \<le> 2 ^ 32"
  using card_mono [OF paths_fit(1) assms] paths_fit(2) distinct_card [OF set_distinct [of s]] by simp

lemma unat_index: "set (items s) \<subseteq> paths \<Longrightarrow> i < length (items s) \<Longrightarrow> unat (word_of_nat i :: file_id) = i"
  using items_fit [of s] by (simp add: unat_of_nat)

lemma alloc_ok:
  assumes "mirrors v copy m" and "p \<in> paths" and "alloc_file_id X p v = (file, v')"
  shows "mirrors v' copy m" and "ixs_get_index_of X (vfs_interner v') p = Some (unat file)"
proof -
  obtain i s' where ins: "ixs_insert_full X (vfs_interner v) p = (i, s')"
    by fastforce
  note idx = insert_full_index [OF ins]
  have sub: "set (items s') \<subseteq> paths" and len: "length (vfs_data v) = length (items (vfs_interner v))"
    using assms(1,2) idx(2) by (auto simp: mirrors_def)
  have i: "i < length (items s')" "items s' ! i = p"
    using idx(1) by (simp_all add: set_index_of)
  then have fl: "file = word_of_nat i" "unat file = i" "v' = v\<lparr>vfs_interner := s', vfs_data := grow_data i (vfs_data v)\<rparr>"
    using assms(3) ins unat_index [OF sub] by (auto simp: alloc_file_id_def intern_def)
  show "ixs_get_index_of X (vfs_interner v') p = Some (unat file)"
    using fl idx(1) by simp
  show "mirrors v' copy m"
  proof (cases "p \<in> set (items (vfs_interner v))")
    case True
    then have "s' = vfs_interner v"
      using ins set_insert_old by simp
    moreover have "grow_data i (vfs_data v) = vfs_data v"
      using True i(1) idx(2) len by (simp add: grow_data_eq)
    ultimately show ?thesis
      using assms(1) fl(3) by simp
  next
    case False
    then have new: "i = length (items (vfs_interner v))" "items s' = items (vfs_interner v) @ [p]"
      using ins set_insert_new [OF False] idx(2) by auto
    have "grow_data i (vfs_data v) = vfs_data v @ [Deleted]"
      using new len by (simp add: grow_data_eq)
    moreover have "view v copy file = None" "m p = None"
      using assms(1) False fl(2) new len by (simp_all add: mirrors_def)
    ultimately show ?thesis
      using assms(1,2) fl new len
      by (auto simp: mirrors_def view_def nth_append less_Suc_eq state_ok_def [of Deleted])
  qed
qed

lemma index_bound: "mirrors v copy m \<Longrightarrow> ixs_get_index_of X (vfs_interner v) p = Some i \<Longrightarrow> i < length (vfs_data v)"
  by (simp add: mirrors_def set_index_of)

text \<open>What one operation does to the file it is about.\<close>

lemma update_ok:
  assumes "mirrors v copy m" and "ixs_get_index_of X (vfs_interner v) p = Some (unat file)"
    and "vfs_interner v' = vfs_interner v" and "vfs_data v' = (vfs_data v)[unat file := s]"
    and "\<forall>f. f \<noteq> file \<longrightarrow> ixm_get M (vfs_changes v') f = ixm_get M (vfs_changes v) f"
    and "\<forall>c. ixm_get M (vfs_changes v') file = Some c \<longrightarrow> change_ok copy file c"
    and "state_ok s (view v' copy file) t"
  shows "mirrors v' copy (m(p := t))"
proof -
  let ?is = "items (vfs_interner v)"
  have sub: "set ?is \<subseteq> paths" and len: "length (vfs_data v) = length ?is"
    using assms(1) by (simp_all add: mirrors_def)
  have i: "unat file < length ?is" "?is ! unat file = p"
    using assms(2) by (simp_all add: set_index_of)
  have same: "view v' copy f = view v copy f" if "f \<noteq> file" for f
    using assms(5) that by (simp add: view_def)
  have other: "(word_of_nat j :: file_id) \<noteq> file" "?is ! j \<noteq> p" if "j < length ?is" "j \<noteq> unat file" for j
    using that unat_index [OF sub that(1)] i set_distinct by (auto simp: nth_eq_iff_index_eq)
  have "state_ok (vfs_data v' ! j) (view v' copy (word_of_nat j)) ((m(p := t)) (?is ! j))" if "j < length ?is" for j
  proof (cases "j = unat file")
    case True
    then show ?thesis
      using assms(4,7) i len by simp
  next
    case False
    then show ?thesis
      using assms(1,4) len same other that by (simp add: mirrors_def)
  qed
  moreover have "view v' copy f = None" if "length ?is \<le> unat f" for f
  proof -
    have "f \<noteq> file"
      using that i(1) by auto
    then show ?thesis
      using assms(1) same that len by (simp add: mirrors_def)
  qed
  moreover have "change_ok copy f c \<and> unat f < length ?is" if "ixm_get M (vfs_changes v') f = Some c" for f c
    using assms(1,5,6) that i(1) len by (cases "f = file") (auto simp: mirrors_def)
  ultimately show ?thesis
    using assms(1,3,4) i len by (auto simp: mirrors_def)
qed

lemma update_unchanged:
  assumes "mirrors v copy m" and "ixs_get_index_of X (vfs_interner v) p = Some (unat file)"
    and "state_ok (get_state v file) (view v copy file) t"
  shows "mirrors v copy (m(p := t))"
proof -
  have "get_state v file = vfs_data v ! unat file" "\<forall>c. ixm_get M (vfs_changes v) file = Some c \<longrightarrow> change_ok copy file c"
    using assms(1) index_bound [OF assms(1,2)] by (simp_all add: get_state_def mirrors_def)
  then show ?thesis
    using assms by (intro update_ok [OF assms(1,2), where s = "get_state v file"]) simp_all
qed

lemma file_ok:
  assumes "mirrors v copy m" and "ixs_get_index_of X (vfs_interner v) p = Some (unat file)"
  shows "state_ok (get_state v file) (view v copy file) (m p)"
    and "ixm_get M (vfs_changes v) file = Some c \<Longrightarrow> change_ok copy file c"
  using assms index_bound [OF assms] by (force simp: get_state_def mirrors_def set_index_of)+

lemma record_ok:
  assumes "mirrors v copy m" and "ixs_get_index_of X (vfs_interner v) p = Some (unat file)"
    and "state_ok s (change_content new) t"
    and "change_kind_of new = CK_Create \<longleftrightarrow> view v copy file = None"
    and "set_state file s v = Inr v'"
  shows "mirrors (record_change M file new v') copy (m(p := t))"
proof -
  have v': "v' = v\<lparr>vfs_data := (vfs_data v)[unat file := s]\<rparr>"
    using assms(5) by (simp add: set_state_def split: if_splits)
  define c where "c = (case ixm_get M (vfs_changes v) file of
      Some old \<Rightarrow> old\<lparr>cf_change := merge_changes (cf_change old) new\<rparr> | None \<Rightarrow> \<lparr>cf_file_id = file, cf_change = new\<rparr>)"
  have rec: "record_change M file new v' =
      v\<lparr>vfs_data := (vfs_data v)[unat file := s], vfs_changes := ixm_insert M (vfs_changes v) file c\<rparr>"
    by (simp add: record_change_def v' c_def split: option.splits)
  have content: "change_content (cf_change c) = change_content new"
    by (auto simp: c_def merge_changes_def split: option.splits change.splits)
  have "change_ok copy file c"
  proof (cases "ixm_get M (vfs_changes v) file")
    case None
    then show ?thesis
      using assms(4) by (simp add: c_def change_ok_def view_def)
  next
    case (Some old)
    then show ?thesis
      using assms(4) file_ok(2) [OF assms(1,2) Some]
      by (cases "cf_change old"; cases new) (simp_all add: c_def change_ok_def merge_changes_def view_def)
  qed
  then show ?thesis
    using assms(3) content unfolding rec
    by (intro update_ok [OF assms(1,2), where s = s]) (simp_all add: get_insert view_def)
qed

lemma set_state_returns:
  "mirrors v copy m \<Longrightarrow> ixs_get_index_of X (vfs_interner v) p = Some (unat file) \<Longrightarrow>
   set_state file s v = Inr (v\<lparr>vfs_data := (vfs_data v)[unat file := s]\<rparr>)"
  using index_bound [of v copy m p] by (simp add: set_state_def)

lemma state_only_ok:
  assumes "mirrors v copy m" and "ixs_get_index_of X (vfs_interner v) p = Some (unat file)"
    and "state_ok s (view v copy file) t"
  shows "returns False (set_state file s v) (\<lambda>v'. mirrors v' copy (m(p := t)))"
proof -
  have "\<forall>c. ixm_get M (vfs_changes v) file = Some c \<longrightarrow> change_ok copy file c"
    using file_ok(2) [OF assms(1,2)] by blast
  then have "mirrors (v\<lparr>vfs_data := (vfs_data v)[unat file := s]\<rparr>) copy (m(p := t))"
    using assms(3) by (intro update_ok [OF assms(1,2), where s = s]) (simp_all add: view_def)
  then show ?thesis
    by (simp add: set_state_returns [OF assms(1,2)])
qed

lemma set_contents_ok:
  assumes "mirrors v copy m" and "p \<in> paths" and "set_option t \<subseteq> texts"
  shows "returns False (set_file_contents X M hash p t v) (\<lambda>(_, v'). mirrors v' copy (m(p := t)))"
proof -
  obtain f v1 where a: "alloc_file_id X p v = (f, v1)"
    by fastforce
  note v1 = alloc_ok [OF assms(1,2) a]
  note ok = file_ok(1) [OF v1] and st = set_state_returns [OF v1] and rec = record_ok [OF v1 _ _ st]
  show ?thesis
  proof (cases t)
    case None
    then show ?thesis
      using ok rec [where new = Delete and s = Deleted and t = None] state_only_ok [OF v1, of Deleted None]
        update_unchanged [OF v1, of None]
      by (cases "get_state v1 f") (auto simp: set_file_contents_def a st state_ok_def returns_and_then)
  next
    case (Some text')
    have in_texts: "text' \<in> texts"
      using assms(3) Some by simp
    show ?thesis
    proof (cases "get_state v1 f")
      case (Exists h)
      then show ?thesis
        using ok in_texts Some rec [where new = "Modify text' (hash text')" and s = "Exists (hash text')" and t = t]
          update_unchanged [OF v1, of t]
        by (auto simp: set_file_contents_def a st state_ok_def Let_def)
    qed (use ok in_texts Some rec [where new = "Create text' (hash text')" and s = "Exists (hash text')" and t = t] in
        \<open>auto simp: set_file_contents_def a st state_ok_def Let_def\<close>)
  qed
qed

lemma register_ok:
  assumes "mirrors v copy m" and "p \<in> paths"
  shows "returns False (register_watch_only X p v) (\<lambda>(_, v'). mirrors v' copy m)"
proof -
  obtain f v1 where a: "alloc_file_id X p v = (f, v1)"
    by fastforce
  note v1 = alloc_ok [OF assms a]
  show ?thesis
    using v1(1) file_ok(1) [OF v1] state_only_ok [OF v1, of WatchOnly "m p"]
    by (auto simp: register_watch_only_def a state_ok_def returns_and_then fun_upd_idem)
qed

lemma unregister_ok:
  assumes "mirrors v copy m"
  shows "returns False (unregister_watch_only X p v) (\<lambda>v'. mirrors v' copy m)"
proof (cases "ixs_get_index_of X (vfs_interner v) p")
  case None
  then show ?thesis
    using assms by (simp add: unregister_watch_only_def vfs_file_id_def interner_get_def)
next
  case (Some i)
  have "i < length (items (vfs_interner v))" "set (items (vfs_interner v)) \<subseteq> paths"
    using Some assms by (simp_all add: set_index_of mirrors_def)
  then have i: "ixs_get_index_of X (vfs_interner v) p = Some (unat (word_of_nat i :: file_id))"
    using Some unat_index by simp
  show ?thesis
    using assms file_ok(1) [OF assms i] state_only_ok [OF assms i, of Deleted "m p"] Some
    by (auto simp: unregister_watch_only_def vfs_file_id_def interner_get_def state_ok_def fun_upd_idem)
qed

lemma replay_view:
  assumes "mirrors v copy m"
  shows "fold replay_change (map snd (ixm_entries M (vfs_changes v))) copy = view v copy"
proof
  fix f
  have "\<forall>(k, c) \<in> set (ixm_entries M (vfs_changes v)). cf_file_id c = k"
    using assms by (auto simp: entry_get mirrors_def change_ok_def)
  from fold_replay [OF map_distinct this]
  show "fold replay_change (map snd (ixm_entries M (vfs_changes v))) copy f = view v copy f"
    by (simp add: view_def map_get)
qed

lemma take_ok: "mirrors v copy m \<Longrightarrow> mirrors (v\<lparr>vfs_changes := ixm_new M\<rparr>) (view v copy) m"
  by (simp add: mirrors_def view_def get_new)

lemma step_ok:
  assumes "mirrors v copy m" and "op_paths op \<subseteq> paths" and "op_texts op \<subseteq> texts"
  shows "returns False (vfs_step X M hash op (v, copy)) (\<lambda>(v', copy'). mirrors v' copy' (set_last op m))"
proof (cases op)
  case (SetContents p t)
  then have "set_option t \<subseteq> texts"
    using assms(3) by (cases t) auto
  then show ?thesis
    using set_contents_ok [OF assms(1)] SetContents assms(2) by (simp add: returns_and_then split_def)
next
  case (RegisterWatch p)
  then show ?thesis
    using register_ok [OF assms(1)] assms(2) by (simp add: returns_and_then split_def)
next
  case (UnregisterWatch p)
  then show ?thesis
    using unregister_ok [OF assms(1)] by (simp add: returns_and_then)
next
  case TakeChanges
  then show ?thesis
    using take_ok [OF assms(1)] by (simp add: take_changes_def replay_view [OF assms(1)])
qed

lemma run_ok:
  assumes "mirrors v copy m" and "\<forall>op \<in> set ops. op_paths op \<subseteq> paths \<and> op_texts op \<subseteq> texts"
  shows "returns False (vfs_run X M hash ops (v, copy)) (\<lambda>(v', copy'). mirrors v' copy' (fold set_last ops m))"
  using assms
proof (induction ops arbitrary: v copy m)
  case (Cons op ops)
  have "returns False (vfs_step X M hash op (v, copy)) (\<lambda>(v', copy'). mirrors v' copy' (set_last op m))"
    using step_ok [OF Cons.prems(1)] Cons.prems(2) by simp
  then show ?case
    unfolding vfs_run.simps by (rule returns_bind) (use Cons in \<open>auto simp: split_paired_all\<close>)
qed simp

lemma new_ok: "mirrors (vfs_new X M) Map.empty Map.empty"
  by (simp add: mirrors_def vfs_new_def set_new get_new view_def)

lemma batch_ok:
  assumes "mirrors v copy m" and "take_changes M v = (cs, v')"
  shows "distinct (map cf_file_id cs)" and "\<forall>c \<in> set cs. change_kind_of (cf_change c) = CK_Create \<longrightarrow> copy (cf_file_id c) = None"
    and "mirrors v' (fold replay_change cs copy) m" and "ixm_get M (vfs_changes v') f = None"
proof -
  have cs: "cs = map snd (ixm_entries M (vfs_changes v))" "v' = v\<lparr>vfs_changes := ixm_new M\<rparr>"
    using assms(2) by (simp_all add: take_changes_def)
  have ok: "change_ok copy k c" if "(k, c) \<in> set (ixm_entries M (vfs_changes v))" for k c
    using assms(1) that by (simp add: entry_get mirrors_def)
  have "map cf_file_id cs = map fst (ixm_entries M (vfs_changes v))"
    using ok by (auto simp: cs change_ok_def)
  then show "distinct (map cf_file_id cs)"
    using map_distinct by simp
  show "\<forall>c \<in> set cs. change_kind_of (cf_change c) = CK_Create \<longrightarrow> copy (cf_file_id c) = None"
    using ok by (force simp: cs change_ok_def)
  show "mirrors v' (fold replay_change cs copy) m"
    using take_ok [OF assms(1)] by (simp add: cs replay_view [OF assms(1)])
  show "ixm_get M (vfs_changes v') f = None"
    by (simp add: cs get_new)
qed

text \<open>When nothing waits, the copy is what was set.\<close>

lemma mirrors_copy:
  assumes "mirrors v copy m" and "\<And>f. ixm_get M (vfs_changes v) f = None"
  shows "m p = Some t \<Longrightarrow> \<exists>f t'. vfs_file_id X v p = Some f \<and> vfs_file_path X v f = Inr p \<and> copy f = Some t' \<and>
      t \<in> texts \<and> t' \<in> texts \<and> hash t' = hash t"
    and "m p = None \<Longrightarrow> vfs_file_id X v p = Some f \<Longrightarrow> copy f = None"
    and "copy f = Some t \<Longrightarrow> \<exists>q. vfs_file_id X v q = Some f \<and> m q \<noteq> None"
    and "vfs_file_id X v p = Some f \<Longrightarrow> vfs_file_id X v q = Some f \<Longrightarrow> p = q"
proof -
  let ?is = "items (vfs_interner v)"
  have len: "length (vfs_data v) = length ?is" and sub: "set ?is \<subseteq> paths"
    using assms(1) by (simp_all add: mirrors_def)
  have view_copy: "view v copy = copy"
    by (simp add: view_def assms(2) fun_eq_iff)
  have same_word: "(word_of_nat (unat g) :: file_id) = g" for g
    by simp
  have id_iff: "vfs_file_id X v q = Some g \<longleftrightarrow> unat g < length ?is \<and> ?is ! unat g = q" for q g
    using unat_index [OF sub] by (auto simp: vfs_file_id_def interner_get_def set_index_of)
  have ok: "state_ok (vfs_data v ! i) (copy (word_of_nat i)) (m (?is ! i))" if "i < length ?is" for i
    using assms(1) that len view_copy by (simp add: mirrors_def)
  show "p = q" if "vfs_file_id X v p = Some f" "vfs_file_id X v q = Some f"
    using that by (simp add: id_iff)
  show "copy f = None" if "m p = None" "vfs_file_id X v p = Some f"
    using ok [of "unat f"] that by (auto simp: id_iff state_ok_def split: file_state.splits)
  show "\<exists>f t'. vfs_file_id X v p = Some f \<and> vfs_file_path X v f = Inr p \<and> copy f = Some t' \<and>
      t \<in> texts \<and> t' \<in> texts \<and> hash t' = hash t" if "m p = Some t"
  proof -
    have "p \<in> set ?is"
      using assms(1) that by (force simp: mirrors_def)
    then obtain i where i: "i < length ?is" "?is ! i = p"
      by (auto simp: in_set_conv_nth)
    then have f: "vfs_file_id X v p = Some (word_of_nat i)" "vfs_file_path X v (word_of_nat i) = Inr p"
      using unat_index [OF sub i(1)] by (simp_all add: id_iff vfs_file_path_def interner_lookup_def set_get_index)
    then show ?thesis
      using ok [OF i(1)] i(2) that by (auto simp: state_ok_def split: file_state.splits)
  qed
  show "\<exists>q. vfs_file_id X v q = Some f \<and> m q \<noteq> None" if "copy f = Some t"
  proof -
    have f: "unat f < length ?is"
      using assms(1) that len view_copy by (force simp: mirrors_def not_less [symmetric])
    then show ?thesis
      using ok [OF f] that by (auto simp: id_iff state_ok_def split: file_state.splits)
  qed
qed

end

text \<open>The space of the examples: two paths, and texts hashed by their length.\<close>

definition length_hash :: "ustring \<Rightarrow> text_hash" where
  "length_hash t = word_of_nat (length t)"

interpretation list_space: vfs_space list_index_set list_items list_index_map length_hash "{ascii ''a'', ascii ''b''}" UNIV
  by unfold_locales (auto simp: card_insert_if)


section \<open>Properties\<close>

text \<open>
  C11. Taking changes is lossless. For every sequence of operations on at most \<open>2 ^ 32\<close> paths the
  file system never panics. A batch that is taken names no file twice and creates only files the
  client does not hold. Replayed, it leaves the client with a text for exactly the paths whose
  contents are set, found under their identities and with the same hash as the text set last;
  the texts are the same unless two texts of the sequence collide. Identities never clash.
\<close>

theorem vfs_replay_exact:
  assumes "index_set_laws X items" and "index_map_laws M" and "card (\<Union>op \<in> set ops. op_paths op) \<le> 2 ^ 32"
  shows "\<exists>v copy cs v'. vfs_run X M hash ops (vfs_new X M, Map.empty) = Inr (v, copy) \<and> take_changes M v = (cs, v') \<and>
    distinct (map cf_file_id cs) \<and>
    (\<forall>c \<in> set cs. change_kind_of (cf_change c) = CK_Create \<longrightarrow> copy (cf_file_id c) = None) \<and>
    (let copy' = fold replay_change cs copy; m = fold set_last ops Map.empty in
     (\<forall>p t. m p = Some t \<longrightarrow> (\<exists>f t'. vfs_file_id X v' p = Some f \<and> vfs_file_path X v' f = Inr p \<and> copy' f = Some t' \<and>
        hash t' = hash t \<and> (inj_on hash (\<Union>op \<in> set ops. op_texts op) \<longrightarrow> t' = t))) \<and>
     (\<forall>p f. m p = None \<and> vfs_file_id X v' p = Some f \<longrightarrow> copy' f = None) \<and>
     (\<forall>f \<in> dom copy'. \<exists>p. vfs_file_id X v' p = Some f \<and> m p \<noteq> None) \<and>
     (\<forall>p q f. vfs_file_id X v' p = Some f \<and> vfs_file_id X v' q = Some f \<longrightarrow> p = q))"
proof -
  let ?paths = "\<Union>op \<in> set ops. op_paths op" and ?texts = "\<Union>op \<in> set ops. op_texts op"
  have "finite (op_paths op)" for op :: "'b vfs_op"
    by (cases op) auto
  then have space: "vfs_space X items M ?paths"
    using assms by (simp add: vfs_space_def vfs_space_axioms_def)
  obtain v copy where run: "vfs_run X M hash ops (vfs_new X M, Map.empty) = Inr (v, copy)"
    "vfs_space.mirrors items M hash ?paths ?texts v copy (fold set_last ops Map.empty)"
    using returns_total [OF vfs_space.run_ok [OF space vfs_space.new_ok [OF space], of ops ?texts hash]] by auto
  obtain cs v' where cs: "take_changes M v = (cs, v')"
    by fastforce
  note batch = vfs_space.batch_ok [OF space run(2) cs]
  note copy = vfs_space.mirrors_copy [OF space batch(3,4)]
  have present: "\<exists>f t'. vfs_file_id X v' p = Some f \<and> vfs_file_path X v' f = Inr p \<and> fold replay_change cs copy f = Some t' \<and>
      hash t' = hash t \<and> (inj_on hash ?texts \<longrightarrow> t' = t)" if "fold set_last ops Map.empty p = Some t" for p t
    using copy(1) [OF that] inj_on_eq_iff [of hash ?texts] by metis
  have known: "\<forall>f \<in> dom (fold replay_change cs copy). \<exists>p. vfs_file_id X v' p = Some f \<and> fold set_last ops Map.empty p \<noteq> None"
    using copy(3) by auto
  show ?thesis
    unfolding Let_def
    by (rule exI [of _ v], rule exI [of _ copy], rule exI [of _ cs], rule exI [of _ v'])
      (use run(1) cs batch(1,2) copy(2,4) present known in auto)
qed

theorem vfs_replay_exact_witness:
  "\<exists>v copy cs v' f. vfs_run list_index_set list_index_map length_hash
      [SetContents (ascii ''a'') (Some [1]), TakeChanges, SetContents (ascii ''a'') (Some [2, 3]), SetContents (ascii ''b'') None]
      (vfs_new list_index_set list_index_map, Map.empty) = Inr (v, copy) \<and> take_changes list_index_map v = (cs, v') \<and>
    vfs_file_id list_index_set v' (ascii ''a'') = Some f \<and> fold replay_change cs copy f = Some [2, 3]"
proof -
  let ?ops = "[SetContents (ascii ''a'') (Some [1]), TakeChanges, SetContents (ascii ''a'') (Some [2, 3]), SetContents (ascii ''b'') None]"
  have "fold set_last ?ops Map.empty (ascii ''a'') = Some [2, 3]"
    by (simp add: ascii_def)
  moreover have "inj_on length_hash (\<Union>op \<in> set ?ops. op_texts op)"
    by (simp add: length_hash_def)
  moreover have "card (\<Union>op \<in> set ?ops. op_paths op) \<le> 2 ^ 32"
    by (simp add: card_insert_if)
  ultimately show ?thesis
    using vfs_replay_exact [OF list_set.index_set_laws_axioms list_map.index_map_laws_axioms, of ?ops length_hash]
    unfolding Let_def by blast
qed

text \<open>
  A file the client never held can come as a modification: created, deleted and created again
  between two batches, its changes merge to one that does not say that it is new.
\<close>

lemma recreated_as_modified:
  "\<exists>v. vfs_run list_index_set list_index_map length_hash
      [SetContents p (Some [1]), SetContents p None, SetContents p (Some [2, 3])]
      (vfs_new list_index_set list_index_map, Map.empty) = Inr (v, Map.empty) \<and>
    fst (take_changes list_index_map v) = [\<lparr>cf_file_id = 0, cf_change = Modify [2, 3] 2\<rparr>]"
  by (simp add: vfs_new_def set_file_contents_def alloc_file_id_def intern_def list_index_set_def list_items_def list_index_def
      grow_data_eq get_state_def set_state_def record_change_def merge_changes_def list_index_map_def length_hash_def take_changes_def)

end
