(* ===== verification/File_Set.thy ===== *)
theory File_Set
  imports Vfs
begin

text \<open>
  Sets of files (\<open>vfs/src/file_set.rs\<close>): identities to paths and back, in two tables. The shared
  pointers of the source are values here. The tables are each other's inverse as long as every
  path keeps one identity.
\<close>

record ('m, 'p) file_set =
  fs_files :: "'p \<rightharpoonup> file_id"
  fs_paths :: 'm

definition file_set_new :: "('m, file_id, 'p) index_map \<Rightarrow> ('m, 'p) file_set" where
  "file_set_new M = \<lparr>fs_files = Map.empty, fs_paths = ixm_new M\<rparr>"

definition file_set_len :: "('m, 'p) file_set \<Rightarrow> nat" where
  "file_set_len fs = card (dom (fs_files fs))"

definition file_set_is_empty :: "('m, 'p) file_set \<Rightarrow> bool" where
  "file_set_is_empty fs \<longleftrightarrow> dom (fs_files fs) = {}"

definition file_set_insert ::
  "('m, file_id, 'p) index_map \<Rightarrow> file_id \<Rightarrow> 'p \<Rightarrow> ('m, 'p) file_set \<Rightarrow> ('m, 'p) file_set" where
  "file_set_insert M file path fs =
    fs\<lparr>fs_files := (fs_files fs)(path \<mapsto> file), fs_paths := ixm_insert M (fs_paths fs) file path\<rparr>"

definition file_for_path :: "('m, 'p) file_set \<Rightarrow> 'p \<Rightarrow> file_id option" where
  "file_for_path fs path = fs_files fs path"

definition path_for_file :: "('m, file_id, 'p) index_map \<Rightarrow> ('m, 'p) file_set \<Rightarrow> file_id \<Rightarrow> 'p option" where
  "path_for_file M fs file = ixm_get M (fs_paths fs) file"

definition file_set_iter :: "('m, file_id, 'p) index_map \<Rightarrow> ('m, 'p) file_set \<Rightarrow> file_id list" where
  "file_set_iter M fs = map fst (ixm_entries M (fs_paths fs))"

definition file_set_remove ::
  "('m, file_id, 'p) index_map \<Rightarrow> file_id \<Rightarrow> ('m, 'p) file_set \<Rightarrow> 'p option \<times> ('m, 'p) file_set" where
  "file_set_remove M file fs =
    (case ixm_shift_remove M (fs_paths fs) file of
       (None, paths) \<Rightarrow> (None, fs\<lparr>fs_paths := paths\<rparr>)
     | (Some path, paths) \<Rightarrow> (Some path, fs\<lparr>fs_files := (fs_files fs)(path := None), fs_paths := paths\<rparr>))"


section \<open>The two tables agree\<close>

locale file_sets = index_map_laws M for M :: "('m, file_id, 'p) index_map"
begin

definition inverse_tables :: "('m, 'p) file_set \<Rightarrow> bool" where
  "inverse_tables fs \<longleftrightarrow> (\<forall>f p. path_for_file M fs f = Some p \<longleftrightarrow> file_for_path fs p = Some f)"

lemma new_inverse: "inverse_tables (file_set_new M)"
  by (simp add: inverse_tables_def file_set_new_def path_for_file_def file_for_path_def get_new)

lemma path_after_insert:
  "path_for_file M (file_set_insert M f p fs) g = (if g = f then Some p else path_for_file M fs g)"
  by (simp add: path_for_file_def file_set_insert_def get_insert)

lemma path_after_remove:
  "path_for_file M (snd (file_set_remove M f fs)) g = (if g = f then None else path_for_file M fs g)"
  using get_remove [of "fs_paths fs" f g] map_remove(1) [of "fs_paths fs" f]
  by (auto simp: path_for_file_def file_set_remove_def split: prod.splits option.splits)

lemma removed_path: "fst (file_set_remove M f fs) = path_for_file M fs f"
  using map_remove(1) [of "fs_paths fs" f]
  by (auto simp: path_for_file_def file_set_remove_def split: prod.splits option.splits)

lemma remove_inverse:
  assumes "inverse_tables fs"
  shows "inverse_tables (snd (file_set_remove M f fs))"
proof -
  have files: "file_for_path (snd (file_set_remove M f fs)) p = (if path_for_file M fs f = Some p then None else file_for_path fs p)" for p
    using map_remove(1) [of "fs_paths fs" f]
    by (auto simp: path_for_file_def file_for_path_def file_set_remove_def split: prod.splits option.splits)
  show ?thesis
    using assms unfolding inverse_tables_def path_after_remove files by (metis option.inject option.distinct(1))
qed

lemma insert_inverse:
  assumes "inverse_tables fs" and "path_for_file M fs f = None" and "file_for_path fs p = None"
  shows "inverse_tables (file_set_insert M f p fs)"
proof -
  have "file_for_path (file_set_insert M f p fs) q = (if q = p then Some f else file_for_path fs q)" for q
    by (simp add: file_for_path_def file_set_insert_def)
  then show ?thesis
    using assms unfolding inverse_tables_def path_after_insert by (metis option.inject option.distinct(1))
qed

end

interpretation list_files: file_sets list_index_map
  by unfold_locales

end
