(* ===== verification/Source_Db.thy ===== *)
theory Source_Db
  imports File_Set
begin

text \<open>
  The inputs of the database (\<open>base-db/src/lib.rs\<close>, \<open>input.rs\<close>) and the text of a file
  (\<open>queries.rs\<close>). An input of \<open>salsa\<close> is a cell owned by one entry of one table: the model has the
  contents of the cell in the table, each field with the durability it was written with. The
  asserts on a single writer are left out, as are the counters of the parser.
\<close>

section \<open>Source roots\<close>

type_synonym source_root_id = "32 word"

datatype durability = LOW | MEDIUM | HIGH

datatype source_root_kind = Local | Library | Metadata

record ('m, 'p) source_root =
  sr_kind :: source_root_kind
  sr_file_set :: "('m, 'p) file_set"

definition new_local :: "('m, 'p) file_set \<Rightarrow> ('m, 'p) source_root" where
  "new_local fs = \<lparr>sr_kind = Local, sr_file_set = fs\<rparr>"

definition new_library :: "('m, 'p) file_set \<Rightarrow> ('m, 'p) source_root" where
  "new_library fs = \<lparr>sr_kind = Library, sr_file_set = fs\<rparr>"

definition new_metadata :: "('m, 'p) file_set \<Rightarrow> ('m, 'p) source_root" where
  "new_metadata fs = \<lparr>sr_kind = Metadata, sr_file_set = fs\<rparr>"

definition is_library :: "('m, 'p) source_root \<Rightarrow> bool" where
  "is_library root \<longleftrightarrow> sr_kind root = Library"

definition root_durability :: "('m, 'p) source_root \<Rightarrow> durability" where
  "root_durability root = (case sr_kind root of Local \<Rightarrow> LOW | Library \<Rightarrow> HIGH | Metadata \<Rightarrow> MEDIUM)"


section \<open>Inputs\<close>

text \<open>The hasher is fed the length of the text in bytes and the text.\<close>

definition content_revision :: "(nat \<Rightarrow> ustring \<Rightarrow> 64 word) \<Rightarrow> ustring \<Rightarrow> 64 word" where
  "content_revision hasher t = hasher (str_len t) t"

record file_text_input =
  ti_text :: ustring
  ti_durability :: durability

record file_revision_input =
  ri_revision :: "64 word"
  ri_unreadable :: bool
  ri_revision_durability :: durability
  ri_unreadable_durability :: durability

record ('m, 'p) source_root_input =
  si_root :: "('m, 'p) source_root"
  si_durability :: durability

record file_source_root_input =
  fi_source_root_id :: source_root_id
  fi_durability :: durability

record ('m, 'p, 'snap) db_files =
  db_file_texts :: "file_id \<rightharpoonup> file_text_input"
  db_file_revisions :: "file_id \<rightharpoonup> file_revision_input"
  db_source_roots :: "source_root_id \<rightharpoonup> ('m, 'p) source_root_input"
  db_file_source_roots :: "file_id \<rightharpoonup> file_source_root_input"
  db_parse_snapshots :: "file_id \<rightharpoonup> 'snap"
  db_disk_drifts :: "64 word"

definition db_new :: "('m, 'p, 'snap) db_files" where
  "db_new = \<lparr>db_file_texts = Map.empty, db_file_revisions = Map.empty, db_source_roots = Map.empty,
     db_file_source_roots = Map.empty, db_parse_snapshots = Map.empty, db_disk_drifts = 0\<rparr>"

definition try_file_text :: "('m, 'p, 'snap) db_files \<Rightarrow> file_id \<Rightarrow> file_text_input option" where
  "try_file_text db file = db_file_texts db file"

definition try_file_revision :: "('m, 'p, 'snap) db_files \<Rightarrow> file_id \<Rightarrow> file_revision_input option" where
  "try_file_revision db file = db_file_revisions db file"

definition file_revision :: "('m, 'p, 'snap) db_files \<Rightarrow> file_id \<Rightarrow> file_revision_input outcome" where
  "file_revision db file = (case db_file_revisions db file of None \<Rightarrow> Inl Panic | Some r \<Rightarrow> Inr r)"

definition source_root_of :: "('m, 'p, 'snap) db_files \<Rightarrow> source_root_id \<Rightarrow> ('m, 'p) source_root_input outcome" where
  "source_root_of db r = (case db_source_roots db r of None \<Rightarrow> Inl Panic | Some root \<Rightarrow> Inr root)"

definition file_source_root :: "('m, 'p, 'snap) db_files \<Rightarrow> file_id \<Rightarrow> file_source_root_input outcome" where
  "file_source_root db file = (case db_file_source_roots db file of None \<Rightarrow> Inl Panic | Some r \<Rightarrow> Inr r)"

definition parse_snapshot :: "('m, 'p, 'snap) db_files \<Rightarrow> file_id \<Rightarrow> 'snap option" where
  "parse_snapshot db file = db_parse_snapshots db file"

definition store_parse_snapshot :: "file_id \<Rightarrow> 'snap \<Rightarrow> ('m, 'p, 'snap) db_files \<Rightarrow> ('m, 'p, 'snap) db_files" where
  "store_parse_snapshot file s db = db\<lparr>db_parse_snapshots := (db_parse_snapshots db)(file \<mapsto> s)\<rparr>"

definition note_disk_drift :: "('m, 'p, 'snap) db_files \<Rightarrow> ('m, 'p, 'snap) db_files" where
  "note_disk_drift db = db\<lparr>db_disk_drifts := db_disk_drifts db + 1\<rparr>"

definition durability_for_file :: "('m, 'p, 'snap) db_files \<Rightarrow> file_id \<Rightarrow> durability option" where
  "durability_for_file db file =
    (case db_file_source_roots db file of
       None \<Rightarrow> None
     | Some mapping \<Rightarrow>
         (case db_source_roots db (fi_source_root_id mapping) of
            None \<Rightarrow> None
          | Some root \<Rightarrow> Some (root_durability (si_root root))))"

definition set_file_revision_with_durability ::
  "file_id \<Rightarrow> 64 word \<Rightarrow> durability \<Rightarrow> bool \<Rightarrow> ('m, 'p, 'snap) db_files \<Rightarrow> ('m, 'p, 'snap) db_files" where
  "set_file_revision_with_durability file revision d unreadable db =
    db\<lparr>db_file_revisions := (db_file_revisions db)(file \<mapsto>
      (case db_file_revisions db file of
         Some input \<Rightarrow>
           let input = input\<lparr>ri_revision := revision, ri_revision_durability := d\<rparr> in
           if ri_unreadable input \<noteq> unreadable then input\<lparr>ri_unreadable := unreadable, ri_unreadable_durability := d\<rparr> else input
       | None \<Rightarrow> \<lparr>ri_revision = revision, ri_unreadable = unreadable, ri_revision_durability = d, ri_unreadable_durability = d\<rparr>))\<rparr>"

definition set_file_text_marked ::
  "(nat \<Rightarrow> ustring \<Rightarrow> 64 word) \<Rightarrow> file_id \<Rightarrow> ustring \<Rightarrow> durability \<Rightarrow> bool \<Rightarrow> ('m, 'p, 'snap) db_files \<Rightarrow> ('m, 'p, 'snap) db_files" where
  "set_file_text_marked hasher file t d unreadable db =
    set_file_revision_with_durability file (content_revision hasher t) d unreadable
      (db\<lparr>db_file_texts := (db_file_texts db)(file \<mapsto>
        (case db_file_texts db file of
           Some input \<Rightarrow> input\<lparr>ti_text := t, ti_durability := d\<rparr>
         | None \<Rightarrow> \<lparr>ti_text = t, ti_durability = d\<rparr>))\<rparr>)"

definition set_file_text_with_durability ::
  "(nat \<Rightarrow> ustring \<Rightarrow> 64 word) \<Rightarrow> file_id \<Rightarrow> ustring \<Rightarrow> durability \<Rightarrow> ('m, 'p, 'snap) db_files \<Rightarrow> ('m, 'p, 'snap) db_files" where
  "set_file_text_with_durability hasher file t d = set_file_text_marked hasher file t d False"

definition set_file_text :: "(nat \<Rightarrow> ustring \<Rightarrow> 64 word) \<Rightarrow> file_id \<Rightarrow> ustring \<Rightarrow> ('m, 'p, 'snap) db_files \<Rightarrow> ('m, 'p, 'snap) db_files" where
  "set_file_text hasher file t = set_file_text_marked hasher file t LOW False"

definition set_file_text_smart ::
  "(nat \<Rightarrow> ustring \<Rightarrow> 64 word) \<Rightarrow> file_id \<Rightarrow> ustring \<Rightarrow> ('m, 'p, 'snap) db_files \<Rightarrow> ('m, 'p, 'snap) db_files" where
  "set_file_text_smart hasher file t db =
    (case durability_for_file db file of
       Some d \<Rightarrow> set_file_text_with_durability hasher file t d db
     | None \<Rightarrow> set_file_text_with_durability hasher file t LOW db)"

definition set_file_revision_from_disk :: "file_id \<Rightarrow> 64 word \<Rightarrow> ('m, 'p, 'snap) db_files \<Rightarrow> ('m, 'p, 'snap) db_files" where
  "set_file_revision_from_disk file revision db =
    (let db = db\<lparr>db_file_texts := (db_file_texts db)(file := None), db_parse_snapshots := (db_parse_snapshots db)(file := None)\<rparr>;
         d = (case durability_for_file db file of Some d \<Rightarrow> d | None \<Rightarrow> LOW)
     in set_file_revision_with_durability file revision d False db)"

definition set_file_unreadable :: "(nat \<Rightarrow> ustring \<Rightarrow> 64 word) \<Rightarrow> file_id \<Rightarrow> ('m, 'p, 'snap) db_files \<Rightarrow> ('m, 'p, 'snap) db_files" where
  "set_file_unreadable hasher file db =
    set_file_text_marked hasher file [] (case durability_for_file db file of Some d \<Rightarrow> d | None \<Rightarrow> LOW) True db"

definition file_is_unread :: "('m, 'p, 'snap) db_files \<Rightarrow> file_id \<Rightarrow> bool" where
  "file_is_unread db file = (case db_file_revisions db file of Some r \<Rightarrow> ri_unreadable r | None \<Rightarrow> False)"

definition set_source_root :: "source_root_id \<Rightarrow> ('m, 'p) source_root \<Rightarrow> ('m, 'p, 'snap) db_files \<Rightarrow> ('m, 'p, 'snap) db_files" where
  "set_source_root r root db =
    db\<lparr>db_source_roots := (db_source_roots db)(r \<mapsto>
      (case db_source_roots db r of
         Some input \<Rightarrow> input\<lparr>si_root := root, si_durability := root_durability root\<rparr>
       | None \<Rightarrow> \<lparr>si_root = root, si_durability = root_durability root\<rparr>))\<rparr>"

definition set_file_source_root :: "file_id \<Rightarrow> source_root_id \<Rightarrow> ('m, 'p, 'snap) db_files \<Rightarrow> ('m, 'p, 'snap) db_files" where
  "set_file_source_root file r db =
    (let d = (case db_source_roots db r of Some root \<Rightarrow> root_durability (si_root root) | None \<Rightarrow> LOW) in
     case db_file_source_roots db file of
       Some input \<Rightarrow>
         if fi_source_root_id input = r then db
         else db\<lparr>db_file_source_roots := (db_file_source_roots db)(file \<mapsto> input\<lparr>fi_source_root_id := r, fi_durability := d\<rparr>)\<rparr>
     | None \<Rightarrow> db\<lparr>db_file_source_roots := (db_file_source_roots db)(file \<mapsto> \<lparr>fi_source_root_id = r, fi_durability = d\<rparr>)\<rparr>)"


section \<open>The text of a file\<close>

text \<open>
  The disk is a partial function from paths to texts, \<open>None\<close> for an error of the read. A read
  that the disk has overtaken unwinds as cancelled: it has no text and is counted.
\<close>

definition disk_path :: "('m, file_id, 'p) index_map \<Rightarrow> ('m, 'p, 'snap) db_files \<Rightarrow> file_id \<Rightarrow> 'p outcome" where
  "disk_path M db file =
    and_then (file_source_root db file) (\<lambda>mapping.
    and_then (source_root_of db (fi_source_root_id mapping)) (\<lambda>root.
    case path_for_file M (sr_file_set (si_root root)) file of None \<Rightarrow> Inl Panic | Some path \<Rightarrow> Inr path))"

definition file_text_unmemoized ::
  "(nat \<Rightarrow> ustring \<Rightarrow> 64 word) \<Rightarrow> ('m, file_id, 'p) index_map \<Rightarrow> ('p \<rightharpoonup> ustring) \<Rightarrow> file_id \<Rightarrow>
     ('m, 'p, 'snap) db_files \<Rightarrow> (ustring option \<times> ('m, 'p, 'snap) db_files) outcome" where
  "file_text_unmemoized hasher M disk file db =
    and_then (file_revision db file) (\<lambda>r.
    let want = ri_revision r in
    case try_file_text db file of
      Some input \<Rightarrow>
        if content_revision hasher (ti_text input) \<noteq> want then Inl Panic else Inr (Some (ti_text input), db)
    | None \<Rightarrow>
        and_then (disk_path M db file) (\<lambda>path.
        case disk path of
          None \<Rightarrow> Inl Panic
        | Some t \<Rightarrow>
            if content_revision hasher t \<noteq> want then Inr (None, note_disk_drift db) else Inr (Some t, db)))"

end
