(* ===== verification/Source_Batch.thy ===== *)
theory Source_Batch
  imports Source_Db
begin

text \<open>
  Batches of source changes (\<open>ide-host-core/src/load.rs\<close>): the inputs of the files are written
  first, the set of files is published once at the end. Whether a path is a BSL source is a
  test on paths, a parameter; the questions a caller answers when asked whether the batch is
  cancelled are numbered.
\<close>

section \<open>Changes\<close>

datatype file_text_source = FT_Overlay ustring | FT_Disk ustring | FT_Deleted | FT_Unreadable

datatype batch_text_source =
    BT_Overlay ustring
  | BT_Disk ustring
  | BT_DiskOwned ustring
  | BT_DiskRevision "64 word"
  | BT_Deleted
  | BT_Unreadable

datatype 'p source_batch_change = Upsert file_id 'p "batch_text_source option" | Remove file_id

record 'p source_batch_effects =
  be_file_set_changed :: bool
  be_bsl_source_changed :: bool
  be_changed_file_ids :: "file_id list"
  be_affected_paths :: "'p list"

definition batch_effects_default :: "'p source_batch_effects" where
  "batch_effects_default = \<lparr>be_file_set_changed = False, be_bsl_source_changed = False,
     be_changed_file_ids = [], be_affected_paths = []\<rparr>"


section \<open>One file\<close>

definition set_file_text_source ::
  "(nat \<Rightarrow> ustring \<Rightarrow> 64 word) \<Rightarrow> file_id \<Rightarrow> file_text_source \<Rightarrow> ('m, 'p, 'snap) db_files \<Rightarrow> ('m, 'p, 'snap) db_files" where
  "set_file_text_source hasher file source db =
    (case source of
       FT_Overlay t \<Rightarrow> set_file_text_smart hasher file t db
     | FT_Disk t \<Rightarrow> set_file_revision_from_disk file (content_revision hasher t) db
     | FT_Deleted \<Rightarrow> set_file_text_smart hasher file [] db
     | FT_Unreadable \<Rightarrow> set_file_unreadable hasher file db)"

definition disk_revision :: "(nat \<Rightarrow> ustring \<Rightarrow> 64 word) \<Rightarrow> batch_text_source \<Rightarrow> 64 word option" where
  "disk_revision hasher source =
    (case source of
       BT_Disk t \<Rightarrow> Some (content_revision hasher t)
     | BT_DiskOwned t \<Rightarrow> Some (content_revision hasher t)
     | BT_DiskRevision r \<Rightarrow> Some r
     | _ \<Rightarrow> None)"

definition disk_matches :: "('m, 'p, 'snap) db_files \<Rightarrow> file_id \<Rightarrow> file_revision_input \<Rightarrow> 64 word option \<Rightarrow> bool outcome" where
  "disk_matches db file input revision =
    (if try_file_text db file \<noteq> None then Inr False
     else case revision of None \<Rightarrow> Inl Panic | Some r \<Rightarrow> Inr (ri_revision input = r))"

definition empty_matches :: "(nat \<Rightarrow> ustring \<Rightarrow> 64 word) \<Rightarrow> ('m, 'p, 'snap) db_files \<Rightarrow> file_id \<Rightarrow> file_revision_input \<Rightarrow> bool" where
  "empty_matches hasher db file input \<longleftrightarrow>
    (case try_file_text db file of None \<Rightarrow> False | Some ti \<Rightarrow> ti_text ti = []) \<and> ri_revision input = content_revision hasher []"

definition source_matches ::
  "(nat \<Rightarrow> ustring \<Rightarrow> 64 word) \<Rightarrow> ('m, 'p, 'snap) db_files \<Rightarrow> file_id \<Rightarrow> batch_text_source \<Rightarrow> (bool \<times> 64 word option) outcome" where
  "source_matches hasher db file source =
    (let revision = disk_revision hasher source in
     case try_file_revision db file of
       None \<Rightarrow> Inr (False, revision)
     | Some input \<Rightarrow>
         if ri_unreadable input \<noteq> (source = BT_Unreadable) then Inr (False, revision)
         else
           (case source of
              BT_Overlay t \<Rightarrow>
                (case try_file_text db file of
                   None \<Rightarrow> Inr (False, None)
                 | Some ti \<Rightarrow>
                     if ti_text ti \<noteq> t then Inr (False, None)
                     else Inr (ri_revision input = content_revision hasher t, revision))
            | BT_Disk _ \<Rightarrow> and_then (disk_matches db file input revision) (\<lambda>b. Inr (b, revision))
            | BT_DiskOwned _ \<Rightarrow> and_then (disk_matches db file input revision) (\<lambda>b. Inr (b, revision))
            | BT_DiskRevision _ \<Rightarrow> and_then (disk_matches db file input revision) (\<lambda>b. Inr (b, revision))
            | BT_Deleted \<Rightarrow> Inr (empty_matches hasher db file input, revision)
            | BT_Unreadable \<Rightarrow> Inr (empty_matches hasher db file input, revision)))"

definition set_from_disk ::
  "file_id \<Rightarrow> 64 word option \<Rightarrow> ('m, 'p, 'snap) db_files \<Rightarrow> ('m, 'p, 'snap) db_files outcome" where
  "set_from_disk file revision db =
    (case revision of None \<Rightarrow> Inl Panic | Some r \<Rightarrow> Inr (set_file_revision_from_disk file r db))"

definition apply_owned_source ::
  "(nat \<Rightarrow> ustring \<Rightarrow> 64 word) \<Rightarrow> file_id \<Rightarrow> batch_text_source \<Rightarrow> 64 word option \<Rightarrow> ('m, 'p, 'snap) db_files \<Rightarrow>
     ('m, 'p, 'snap) db_files outcome" where
  "apply_owned_source hasher file source revision db =
    (case source of
       BT_Overlay t \<Rightarrow> Inr (set_file_text_source hasher file (FT_Overlay t) db)
     | BT_Disk _ \<Rightarrow> set_from_disk file revision db
     | BT_DiskOwned _ \<Rightarrow> set_from_disk file revision db
     | BT_DiskRevision _ \<Rightarrow> set_from_disk file revision db
     | BT_Deleted \<Rightarrow> Inr (set_file_text_source hasher file FT_Deleted db)
     | BT_Unreadable \<Rightarrow> Inr (set_file_text_source hasher file FT_Unreadable db))"


section \<open>One change\<close>

type_synonym ('m, 'p, 'snap) batch_state = "('m, 'p) file_set \<times> 'p source_batch_effects \<times> ('m, 'p, 'snap) db_files"

definition note_effect :: "('p \<Rightarrow> bool) \<Rightarrow> file_id \<Rightarrow> 'p \<Rightarrow> 'p source_batch_effects \<Rightarrow> 'p source_batch_effects" where
  "note_effect is_bsl file path eff =
    eff\<lparr>be_changed_file_ids := be_changed_file_ids eff @ [file], be_affected_paths := be_affected_paths eff @ [path],
        be_bsl_source_changed := be_bsl_source_changed eff \<or> is_bsl path\<rparr>"

definition apply_upsert ::
  "(nat \<Rightarrow> ustring \<Rightarrow> 64 word) \<Rightarrow> ('m, file_id, 'p) index_map \<Rightarrow> ('p \<Rightarrow> bool) \<Rightarrow> source_root_id \<Rightarrow>
     file_id \<Rightarrow> 'p \<Rightarrow> batch_text_source option \<Rightarrow> ('m, 'p, 'snap) batch_state \<Rightarrow> ('m, 'p, 'snap) batch_state outcome" where
  "apply_upsert hasher M is_bsl rid file path source = (\<lambda>(fs, eff, db).
    if source = None \<and> is_bsl path then Inl Panic
    else
      let path_changed = path_for_file M fs file \<noteq> Some path in
      and_then
        (case source of
           None \<Rightarrow> Inr (False, None)
         | Some src \<Rightarrow> and_then (source_matches hasher db file src) (\<lambda>(same, revision). Inr (\<not> same, revision)))
        (\<lambda>(source_changed, revision).
      if \<not> path_changed \<and> \<not> source_changed then Inr (fs, eff, db)
      else
        let db = set_file_source_root file rid db in
        and_then (case source of None \<Rightarrow> Inr db | Some src \<Rightarrow> apply_owned_source hasher file src revision db) (\<lambda>db.
        let (fs, eff) =
              (if path_changed
               then (file_set_insert M file path (snd (file_set_remove M file fs)), eff\<lparr>be_file_set_changed := True\<rparr>)
               else (fs, eff));
            eff = (if source_changed \<or> path_changed then note_effect is_bsl file path eff else eff)
        in Inr (fs, eff, db))))"

definition apply_remove ::
  "(nat \<Rightarrow> ustring \<Rightarrow> 64 word) \<Rightarrow> ('m, file_id, 'p) index_map \<Rightarrow> ('p \<Rightarrow> bool) \<Rightarrow>
     file_id \<Rightarrow> ('m, 'p, 'snap) batch_state \<Rightarrow> ('m, 'p, 'snap) batch_state outcome" where
  "apply_remove hasher M is_bsl file = (\<lambda>(fs, eff, db).
    case path_for_file M fs file of
      None \<Rightarrow> Inr (fs, eff, db)
    | Some path \<Rightarrow>
        and_then
          (if is_bsl path
           then and_then (source_matches hasher db file BT_Deleted) (\<lambda>(same, revision).
                if \<not> same then apply_owned_source hasher file BT_Deleted revision db else Inr db)
           else Inr db)
          (\<lambda>db. Inr (snd (file_set_remove M file fs), note_effect is_bsl file path (eff\<lparr>be_file_set_changed := True\<rparr>), db)))"

fun apply_change ::
  "(nat \<Rightarrow> ustring \<Rightarrow> 64 word) \<Rightarrow> ('m, file_id, 'p) index_map \<Rightarrow> ('p \<Rightarrow> bool) \<Rightarrow> source_root_id \<Rightarrow>
     'p source_batch_change \<Rightarrow> ('m, 'p, 'snap) batch_state \<Rightarrow> ('m, 'p, 'snap) batch_state outcome" where
  "apply_change hasher M is_bsl rid (Upsert file path source) s = apply_upsert hasher M is_bsl rid file path source s"
| "apply_change hasher M is_bsl rid (Remove file) s = apply_remove hasher M is_bsl file s"


section \<open>Batches\<close>

text \<open>A cancelled batch has no effects to report; what it wrote stays.\<close>

fun batch_loop ::
  "('c \<Rightarrow> ('m, 'p, 'snap) batch_state \<Rightarrow> ('m, 'p, 'snap) batch_state outcome) \<Rightarrow> (nat \<Rightarrow> bool) \<Rightarrow> nat \<Rightarrow> 'c list \<Rightarrow>
     ('m, 'p, 'snap) batch_state \<Rightarrow> ((('m, 'p) file_set \<times> 'p source_batch_effects) option \<times> ('m, 'p, 'snap) db_files) outcome" where
  "batch_loop step cancelled n [] (fs, eff, db) = Inr (if cancelled n then (None, db) else (Some (fs, eff), db))"
| "batch_loop step cancelled n (c # cs) (fs, eff, db) =
    (if cancelled n then Inr (None, db)
     else and_then (step c (fs, eff, db)) (batch_loop step cancelled (Suc n) cs))"

definition apply_source_batch_cancellable ::
  "(nat \<Rightarrow> ustring \<Rightarrow> 64 word) \<Rightarrow> ('m, file_id, 'p) index_map \<Rightarrow> ('p \<Rightarrow> bool) \<Rightarrow> source_root_id \<Rightarrow>
     'p source_batch_change list \<Rightarrow> (nat \<Rightarrow> bool) \<Rightarrow> ('m, 'p, 'snap) db_files \<Rightarrow>
     ('p source_batch_effects option \<times> ('m, 'p, 'snap) db_files) outcome" where
  "apply_source_batch_cancellable hasher M is_bsl rid changes cancelled db =
    (if changes = [] then Inr (Some batch_effects_default, db)
     else
       and_then (source_root_of db rid) (\<lambda>root.
       and_then (batch_loop (apply_change hasher M is_bsl rid) cancelled 0 changes
           (sr_file_set (si_root root), batch_effects_default, db)) (\<lambda>(res, db).
       case res of
         None \<Rightarrow> Inr (None, db)
       | Some (fs, eff) \<Rightarrow>
           Inr (Some eff, if be_file_set_changed eff then set_source_root rid (new_local fs) db else db))))"

definition apply_source_batch ::
  "(nat \<Rightarrow> ustring \<Rightarrow> 64 word) \<Rightarrow> ('m, file_id, 'p) index_map \<Rightarrow> ('p \<Rightarrow> bool) \<Rightarrow> source_root_id \<Rightarrow>
     'p source_batch_change list \<Rightarrow> ('m, 'p, 'snap) db_files \<Rightarrow> ('p source_batch_effects \<times> ('m, 'p, 'snap) db_files) outcome" where
  "apply_source_batch hasher M is_bsl rid changes db =
    and_then (apply_source_batch_cancellable hasher M is_bsl rid changes (\<lambda>_. False) db) (\<lambda>(res, db).
    case res of None \<Rightarrow> Inl Panic | Some eff \<Rightarrow> Inr (eff, db))"

definition build_source_root :: "('m, file_id, 'p) index_map \<Rightarrow> (file_id \<times> 'p) list \<Rightarrow> ('m, 'p) source_root" where
  "build_source_root M all_files = new_local (fold (\<lambda>(file, path). file_set_insert M file path) all_files (file_set_new M))"

definition register_files_disk_backed ::
  "(nat \<Rightarrow> ustring \<Rightarrow> 64 word) \<Rightarrow> ('m, file_id, 'p) index_map \<Rightarrow> ('p \<Rightarrow> bool) \<Rightarrow> ('p \<rightharpoonup> ustring) \<Rightarrow> source_root_id \<Rightarrow>
     (file_id \<times> 'p) list \<Rightarrow> ('m, 'p, 'snap) db_files \<Rightarrow> ('p list \<times> ('m, 'p, 'snap) db_files) outcome" where
  "register_files_disk_backed hasher M is_bsl disk rid files db =
    (let changes = map (\<lambda>(file, path).
           Upsert file path (Some (case disk path of Some t \<Rightarrow> BT_DiskOwned t | None \<Rightarrow> BT_Unreadable))) files;
         unreadable = map snd (filter (\<lambda>(file, path). disk path = None) files)
     in and_then (apply_source_batch hasher M is_bsl rid changes db) (\<lambda>(_, db). Inr (unreadable, db)))"

end
