(* ===== verification/Source_Served.thy ===== *)
theory Source_Served
  imports Source_Batch
begin

text \<open>
  What a batch leaves behind: for every file the state its last change asks for, a database that
  reads the text of every source without a panic, and effects that name exactly what changed.
\<close>

section \<open>States of the inputs\<close>

text \<open>The inputs of a file are those that a source of a batch would write.\<close>

definition holds_text :: "(nat \<Rightarrow> ustring \<Rightarrow> 64 word) \<Rightarrow> ('m, 'p, 'snap) db_files \<Rightarrow> file_id \<Rightarrow> ustring \<Rightarrow> bool \<Rightarrow> bool" where
  "holds_text hasher db f t unread \<longleftrightarrow>
    map_option ti_text (db_file_texts db f) = Some t \<and>
    (\<exists>r. db_file_revisions db f = Some r \<and> ri_revision r = content_revision hasher t \<and> ri_unreadable r = unread)"

definition holds_revision :: "('m, 'p, 'snap) db_files \<Rightarrow> file_id \<Rightarrow> 64 word \<Rightarrow> bool" where
  "holds_revision db f rv \<longleftrightarrow> db_file_texts db f = None \<and>
    (\<exists>r. db_file_revisions db f = Some r \<and> ri_revision r = rv \<and> \<not> ri_unreadable r)"

definition holds :: "(nat \<Rightarrow> ustring \<Rightarrow> 64 word) \<Rightarrow> ('m, 'p, 'snap) db_files \<Rightarrow> file_id \<Rightarrow> batch_text_source \<Rightarrow> bool" where
  "holds hasher db f source \<longleftrightarrow>
    (case source of
       BT_Overlay t \<Rightarrow> holds_text hasher db f t False
     | BT_Disk t \<Rightarrow> holds_revision db f (content_revision hasher t)
     | BT_DiskOwned t \<Rightarrow> holds_revision db f (content_revision hasher t)
     | BT_DiskRevision r \<Rightarrow> holds_revision db f r
     | BT_Deleted \<Rightarrow> holds_text hasher db f [] False
     | BT_Unreadable \<Rightarrow> holds_text hasher db f [] True)"

definition same_inputs :: "('m, 'p, 'snap) db_files \<Rightarrow> ('m, 'p, 'snap) db_files \<Rightarrow> file_id \<Rightarrow> bool" where
  "same_inputs db db' f \<longleftrightarrow> db_file_texts db' f = db_file_texts db f \<and> db_file_revisions db' f = db_file_revisions db f \<and>
     db_file_source_roots db' f = db_file_source_roots db f"

lemmas setter_defs = set_file_text_smart_def set_file_text_with_durability_def set_file_text_marked_def set_file_unreadable_def
  set_file_revision_from_disk_def set_file_revision_with_durability_def Let_def

lemma source_matches_holds: "source_matches hasher db f src = Inr (holds hasher db f src, disk_revision hasher src)"
  by (cases src)
    (auto simp: source_matches_def holds_def holds_text_def holds_revision_def try_file_revision_def try_file_text_def
      disk_matches_def disk_revision_def empty_matches_def Let_def split: option.splits)

lemma set_from_disk_holds:
  "holds_revision (set_file_revision_from_disk f r db) f r"
  by (auto simp: setter_defs holds_revision_def split: option.splits)

lemma text_marked_holds: "holds_text hasher (set_file_text_marked hasher f t d unread db) f t unread"
  by (auto simp: setter_defs holds_text_def split: option.splits)

lemma setters_elsewhere:
  "g \<noteq> f \<Longrightarrow> same_inputs db (set_file_revision_from_disk f r db) g"
  "g \<noteq> f \<Longrightarrow> same_inputs db (set_file_text_marked hasher f t d unread db) g"
  by (simp_all add: setter_defs same_inputs_def)

lemma setters_roots:
  "db_source_roots (set_file_revision_from_disk f r db) = db_source_roots db"
  "db_source_roots (set_file_text_marked hasher f t d unread db) = db_source_roots db"
  "db_file_source_roots (set_file_revision_from_disk f r db) = db_file_source_roots db"
  "db_file_source_roots (set_file_text_marked hasher f t d unread db) = db_file_source_roots db"
  by (simp_all add: setter_defs)

lemma apply_owned_source_ok:
  assumes "revision = disk_revision hasher src"
  shows "\<exists>db'. apply_owned_source hasher f src revision db = Inr db' \<and> holds hasher db' f src \<and>
    (\<forall>g. g \<noteq> f \<longrightarrow> same_inputs db db' g) \<and> db_source_roots db' = db_source_roots db \<and>
    db_file_source_roots db' = db_file_source_roots db"
  using assms
  by (cases src)
    (simp_all add: apply_owned_source_def set_file_text_source_def set_from_disk_def disk_revision_def holds_def
      set_file_text_smart_def set_file_text_with_durability_def set_file_unreadable_def
      set_from_disk_holds text_marked_holds setters_elsewhere setters_roots split: option.splits)

text \<open>After a source of a batch was written, the text and the revision are in step.\<close>

definition in_step :: "(nat \<Rightarrow> ustring \<Rightarrow> 64 word) \<Rightarrow> ('m, 'p, 'snap) db_files \<Rightarrow> bool" where
  "in_step hasher db \<longleftrightarrow> (\<forall>f ti. db_file_texts db f = Some ti \<longrightarrow>
     (\<exists>r. db_file_revisions db f = Some r \<and> ri_revision r = content_revision hasher (ti_text ti)))"

lemma in_step_update:
  assumes "in_step hasher db" and "\<forall>g. g \<noteq> f \<longrightarrow> same_inputs db db' g" and "holds hasher db' f src"
  shows "in_step hasher db'"
  unfolding in_step_def
proof (intro allI impI)
  fix g ti
  assume g: "db_file_texts db' g = Some ti"
  show "\<exists>r. db_file_revisions db' g = Some r \<and> ri_revision r = content_revision hasher (ti_text ti)"
  proof (cases "g = f")
    case True
    then show ?thesis
      using assms(3) g by (cases src) (auto simp: holds_def holds_text_def holds_revision_def)
  next
    case False
    then show ?thesis
      using assms(1,2) g by (auto simp: in_step_def same_inputs_def)
  qed
qed


section \<open>One change\<close>

fun about :: "'p source_batch_change \<Rightarrow> file_id" where
  "about (Upsert f _ _) = f"
| "about (Remove f) = f"

text \<open>A change of a batch that may be applied: the paths are those the files have for good, and a source has a text.\<close>

fun change_fits :: "('p \<Rightarrow> bool) \<Rightarrow> (file_id \<rightharpoonup> 'p) \<Rightarrow> 'p source_batch_change \<Rightarrow> bool" where
  "change_fits is_bsl named (Upsert f p src) \<longleftrightarrow> named f = Some p \<and> (is_bsl p \<longrightarrow> src \<noteq> None)"
| "change_fits is_bsl named (Remove f) \<longleftrightarrow> True"

definition distinct_names :: "(file_id \<rightharpoonup> 'p) \<Rightarrow> bool" where
  "distinct_names named \<longleftrightarrow> (\<forall>f g p. named f = Some p \<and> named g = Some p \<longrightarrow> f = g)"

text \<open>The files of a set are known to the database.\<close>

definition files_known ::
  "('m, file_id, 'p) index_map \<Rightarrow> ('p \<Rightarrow> bool) \<Rightarrow> source_root_id \<Rightarrow> ('m, 'p) file_set \<Rightarrow> ('m, 'p, 'snap) db_files \<Rightarrow> bool" where
  "files_known M is_bsl rid fs db \<longleftrightarrow> (\<forall>f p. path_for_file M fs f = Some p \<longrightarrow>
     map_option fi_source_root_id (db_file_source_roots db f) = Some rid \<and> (is_bsl p \<longrightarrow> db_file_revisions db f \<noteq> None))"

text \<open>A source that left the set reads as empty.\<close>

definition tombstones ::
  "(nat \<Rightarrow> ustring \<Rightarrow> 64 word) \<Rightarrow> ('m, file_id, 'p) index_map \<Rightarrow> ('p \<Rightarrow> bool) \<Rightarrow> (file_id \<rightharpoonup> 'p) \<Rightarrow>
     ('m, 'p) file_set \<Rightarrow> ('m, 'p, 'snap) db_files \<Rightarrow> bool" where
  "tombstones hasher M is_bsl named fs db \<longleftrightarrow> (\<forall>f p. named f = Some p \<and> is_bsl p \<and> path_for_file M fs f = None \<and>
     db_file_revisions db f \<noteq> None \<longrightarrow> holds hasher db f BT_Deleted)"

text \<open>A change that has something to do.\<close>

fun alters ::
  "(nat \<Rightarrow> ustring \<Rightarrow> 64 word) \<Rightarrow> ('m, file_id, 'p) index_map \<Rightarrow> 'p source_batch_change \<Rightarrow>
     ('m, 'p) file_set \<Rightarrow> ('m, 'p, 'snap) db_files \<Rightarrow> bool" where
  "alters hasher M (Upsert f p src) fs db \<longleftrightarrow>
     path_for_file M fs f \<noteq> Some p \<or> (\<exists>s. src = Some s \<and> \<not> holds hasher db f s)"
| "alters hasher M (Remove f) fs db \<longleftrightarrow> path_for_file M fs f \<noteq> None"

fun settled ::
  "(nat \<Rightarrow> ustring \<Rightarrow> 64 word) \<Rightarrow> ('m, file_id, 'p) index_map \<Rightarrow> 'p source_batch_change \<Rightarrow>
     ('m, 'p) file_set \<Rightarrow> ('m, 'p, 'snap) db_files \<Rightarrow> bool" where
  "settled hasher M (Upsert f p src) fs db \<longleftrightarrow> path_for_file M fs f = Some p \<and> (\<forall>s. src = Some s \<longrightarrow> holds hasher db f s)"
| "settled hasher M (Remove f) fs db \<longleftrightarrow> path_for_file M fs f = None"

lemma settled_same:
  assumes "path_for_file M fs' (about c) = path_for_file M fs (about c)" and "same_inputs db db' (about c)"
  shows "settled hasher M c fs' db' \<longleftrightarrow> settled hasher M c fs db"
proof (cases c)
  case (Upsert f p src)
  have "holds hasher db' f s \<longleftrightarrow> holds hasher db f s" for s
    using assms(2) Upsert by (cases s) (simp_all add: holds_def holds_text_def holds_revision_def same_inputs_def)
  then show ?thesis
    using assms(1) Upsert by simp
qed (use assms in simp)

text \<open>
  A database whose root serves its files: the two tables of the set agree, the paths are the
  names, and every file has its inputs.
\<close>

definition root_files :: "source_root_id \<Rightarrow> ('m, 'p, 'snap) db_files \<Rightarrow> ('m, 'p) file_set option" where
  "root_files rid db = map_option (\<lambda>root. sr_file_set (si_root root)) (db_source_roots db rid)"

definition served_path :: "('m, file_id, 'p) index_map \<Rightarrow> source_root_id \<Rightarrow> ('m, 'p, 'snap) db_files \<Rightarrow> file_id \<Rightarrow> 'p option" where
  "served_path M rid db f = (case root_files rid db of None \<Rightarrow> None | Some fs \<Rightarrow> path_for_file M fs f)"

definition db_serves ::
  "(nat \<Rightarrow> ustring \<Rightarrow> 64 word) \<Rightarrow> ('m, file_id, 'p) index_map \<Rightarrow> ('p \<Rightarrow> bool) \<Rightarrow> source_root_id \<Rightarrow> (file_id \<rightharpoonup> 'p) \<Rightarrow>
     ('m, 'p, 'snap) db_files \<Rightarrow> bool" where
  "db_serves hasher M is_bsl rid named db \<longleftrightarrow> in_step hasher db \<and>
     (\<exists>fs. root_files rid db = Some fs \<and> (\<forall>f p. path_for_file M fs f = Some p \<longleftrightarrow> file_for_path fs p = Some f) \<and>
        (\<forall>f p. path_for_file M fs f = Some p \<longrightarrow> named f = Some p) \<and> files_known M is_bsl rid fs db)"

definition last_change :: "'p source_batch_change list \<Rightarrow> file_id \<Rightarrow> 'p source_batch_change option" where
  "last_change cs f = last_opt (filter (\<lambda>c. about c = f) cs)"

lemma last_change_Cons:
  "last_change (c # cs) f = (case last_change cs f of Some d \<Rightarrow> Some d | None \<Rightarrow> if about c = f then Some c else None)"
  by (simp add: last_change_def last_opt_def)

lemma last_change_about: "last_change cs f = Some c \<Longrightarrow> about c = f \<and> c \<in> set cs"
  by (induction cs) (auto simp: last_change_def last_opt_def split: if_splits)

locale source_batches = file_sets M for M :: "('m, file_id, 'p) index_map" +
  fixes hasher :: "nat \<Rightarrow> ustring \<Rightarrow> 64 word" and is_bsl :: "'p \<Rightarrow> bool" and rid :: source_root_id and named :: "file_id \<rightharpoonup> 'p"
  assumes names: "distinct_names named"
begin

definition set_ok :: "('m, 'p) file_set \<Rightarrow> bool" where
  "set_ok fs \<longleftrightarrow> inverse_tables fs \<and> (\<forall>f p. path_for_file M fs f = Some p \<longrightarrow> named f = Some p)"

definition batch_ok :: "('m, 'p) file_set \<Rightarrow> ('m, 'p, 'snap) db_files \<Rightarrow> bool" where
  "batch_ok fs db \<longleftrightarrow> set_ok fs \<and> in_step hasher db \<and> files_known M is_bsl rid fs db"

text \<open>What a step keeps: the roots, and that a known file stays known.\<close>

definition keeps_known :: "('m, 'p, 'snap) db_files \<Rightarrow> ('m, 'p, 'snap) db_files \<Rightarrow> bool" where
  "keeps_known db db' \<longleftrightarrow> db_source_roots db' = db_source_roots db \<and>
     (\<forall>f. (db_file_revisions db f \<noteq> None \<longrightarrow> db_file_revisions db' f \<noteq> None) \<and>
       (map_option fi_source_root_id (db_file_source_roots db f) = Some rid \<longrightarrow>
        map_option fi_source_root_id (db_file_source_roots db' f) = Some rid))"

lemma keeps_known_trans: "keeps_known db db' \<Longrightarrow> keeps_known db' db'' \<Longrightarrow> keeps_known db db''"
  by (simp add: keeps_known_def)

lemma keeps_files: "files_known M is_bsl rid fs db \<Longrightarrow> keeps_known db db' \<Longrightarrow> files_known M is_bsl rid fs db'"
  by (simp add: files_known_def keeps_known_def)

lemma set_root_ok:
  "map_option fi_source_root_id (db_file_source_roots (set_file_source_root f rid db) f) = Some rid"
  "g \<noteq> f \<Longrightarrow> same_inputs db (set_file_source_root f rid db) g"
  "db_file_texts (set_file_source_root f rid db) = db_file_texts db"
  "db_file_revisions (set_file_source_root f rid db) = db_file_revisions db"
  "db_source_roots (set_file_source_root f rid db) = db_source_roots db"
  by (auto simp: set_file_source_root_def same_inputs_def Let_def split: option.splits)

lemma set_ok_insert:
  assumes "set_ok fs" and "named f = Some p"
  shows "set_ok (file_set_insert M f p (snd (file_set_remove M f fs)))"
proof -
  let ?fs = "snd (file_set_remove M f fs)"
  have inv: "inverse_tables ?fs"
    using assms(1) remove_inverse by (simp add: set_ok_def)
  have "file_for_path ?fs p = None"
  proof (rule ccontr)
    assume "file_for_path ?fs p \<noteq> None"
    then obtain g where "path_for_file M ?fs g = Some p"
      using inv by (auto simp: inverse_tables_def)
    then have "g \<noteq> f" "path_for_file M fs g = Some p"
      by (auto simp: path_after_remove split: if_splits)
    then show False
      using assms names by (auto simp: set_ok_def distinct_names_def)
  qed
  then have "inverse_tables (file_set_insert M f p ?fs)"
    using insert_inverse [OF inv] by (simp add: path_after_remove)
  then show ?thesis
    using assms by (simp add: set_ok_def path_after_insert path_after_remove)
qed

lemma set_ok_remove: "set_ok fs \<Longrightarrow> set_ok (snd (file_set_remove M f fs))"
  using remove_inverse [of fs f] by (simp add: set_ok_def path_after_remove)

text \<open>One change does its work on its own file and nothing else.\<close>

definition step_post ::
  "'p source_batch_change \<Rightarrow> ('m, 'p, 'snap) batch_state \<Rightarrow> ('m, 'p, 'snap) batch_state \<Rightarrow> bool" where
  "step_post c = (\<lambda>(fs, eff, db) (fs', eff', db').
     batch_ok fs' db' \<and> keeps_known db db' \<and> settled hasher M c fs' db' \<and>
     (tombstones hasher M is_bsl named fs db \<longrightarrow> tombstones hasher M is_bsl named fs' db') \<and>
     (\<forall>g. g \<noteq> about c \<longrightarrow> path_for_file M fs' g = path_for_file M fs g \<and> same_inputs db db' g) \<and>
     (if alters hasher M c fs db
      then be_changed_file_ids eff' = be_changed_file_ids eff @ [about c] \<and>
        (be_file_set_changed eff' \<longleftrightarrow> be_file_set_changed eff \<or> path_for_file M fs' (about c) \<noteq> path_for_file M fs (about c)) \<and>
        (path_for_file M fs' (about c) = path_for_file M fs (about c) \<longrightarrow> fs' = fs)
      else (fs', eff', db') = (fs, eff, db)))"

lemma tombstones_elsewhere:
  assumes "tombstones hasher M is_bsl named fs db"
    and "\<forall>g. g \<noteq> f \<longrightarrow> path_for_file M fs' g = path_for_file M fs g \<and> same_inputs db db' g"
    and "\<And>p. named f = Some p \<Longrightarrow> is_bsl p \<Longrightarrow> path_for_file M fs' f = None \<Longrightarrow> db_file_revisions db' f \<noteq> None \<Longrightarrow> holds hasher db' f BT_Deleted"
  shows "tombstones hasher M is_bsl named fs' db'"
  unfolding tombstones_def
proof (intro allI impI, elim conjE)
  fix g q
  assume g: "named g = Some q" "is_bsl q" "path_for_file M fs' g = None" "db_file_revisions db' g \<noteq> None"
  show "holds hasher db' g BT_Deleted"
  proof (cases "g = f")
    case True
    then show ?thesis
      using assms(3) g by blast
  next
    case False
    then show ?thesis
      using assms(1,2) g by (auto simp: tombstones_def same_inputs_def holds_def holds_text_def)
  qed
qed

lemma upsert_ok:
  assumes ok: "batch_ok fs db" and fits: "named f = Some p" "is_bsl p \<longrightarrow> src \<noteq> None"
  shows "\<exists>s'. apply_upsert hasher M is_bsl rid f p src (fs, eff, db) = Inr s' \<and> step_post (Upsert f p src) (fs, eff, db) s'"
proof -
  define changed where "changed \<longleftrightarrow> (\<exists>s. src = Some s \<and> \<not> holds hasher db f s)"
  define moved where "moved \<longleftrightarrow> path_for_file M fs f \<noteq> Some p"
  have no_panic: "\<not> (src = None \<and> is_bsl p)"
    using fits by blast
  show ?thesis
  proof (cases "moved \<or> changed")
    case False
    then have "path_for_file M fs f = Some p"
      by (simp add: moved_def)
    with False show ?thesis
      using no_panic ok
      by (auto simp: apply_upsert_def step_post_def changed_def moved_def source_matches_holds keeps_known_def same_inputs_def
          split: option.splits)
  next
    case True
    let ?db = "set_file_source_root f rid db"
    let ?fs = "if moved then file_set_insert M f p (snd (file_set_remove M f fs)) else fs"
    obtain db' where db': "(case src of None \<Rightarrow> Inr ?db | Some s \<Rightarrow> apply_owned_source hasher f s (disk_revision hasher s) ?db) = Inr db'"
      "\<forall>s. src = Some s \<longrightarrow> holds hasher db' f s" "src = None \<longrightarrow> db' = ?db"
      "\<forall>g. g \<noteq> f \<longrightarrow> same_inputs ?db db' g" "db_source_roots db' = db_source_roots db"
      "db_file_source_roots db' = db_file_source_roots ?db"
    proof (cases src)
      case None
      then show ?thesis
        using that [of ?db] by (simp add: set_root_ok(5) same_inputs_def)
    next
      case (Some s)
      obtain d where "apply_owned_source hasher f s (disk_revision hasher s) ?db = Inr d" "holds hasher d f s"
        "\<forall>g. g \<noteq> f \<longrightarrow> same_inputs ?db d g" "db_source_roots d = db_source_roots ?db"
        "db_file_source_roots d = db_file_source_roots ?db"
        using apply_owned_source_ok [where src = s and hasher = hasher and f = f and db = ?db, OF refl] by blast
      then show ?thesis
        using that [of d] Some by (simp add: set_root_ok(5))
    qed
    have elsewhere: "\<forall>g. g \<noteq> f \<longrightarrow> path_for_file M ?fs g = path_for_file M fs g \<and> same_inputs db db' g"
      using db'(4) set_root_ok(2) [of _ f db] by (auto simp: path_after_insert path_after_remove same_inputs_def)
    have here: "path_for_file M ?fs f = Some p"
      by (simp add: path_after_insert moved_def)
    have step: "in_step hasher db'"
    proof (cases src)
      case None
      then show ?thesis
        using ok db'(3) by (simp add: batch_ok_def in_step_def set_root_ok)
    next
      case (Some s)
      have "in_step hasher ?db"
        using ok by (simp add: batch_ok_def in_step_def set_root_ok)
      then show ?thesis
        using in_step_update db'(2,4) Some by blast
    qed
    have revision: "db_file_revisions db' f \<noteq> None" if "src = Some s" for s
      using db'(2) that by (cases s) (auto simp: holds_def holds_text_def holds_revision_def)
    have known: "db_file_revisions db f \<noteq> None \<Longrightarrow> db_file_revisions db' f \<noteq> None" "is_bsl p \<Longrightarrow> db_file_revisions db' f \<noteq> None"
      using revision fits(2) db'(3) by (cases src; simp add: set_root_ok)+
    have keeps: "keeps_known db db'"
      using elsewhere known(1) db'(5,6) set_root_ok(1) [of f db]
      unfolding keeps_known_def same_inputs_def by metis
    have "files_known M is_bsl rid ?fs db'"
      using keeps_files [OF _ keeps] ok elsewhere here known(2) db'(6) set_root_ok(1) [of f db]
      unfolding files_known_def batch_ok_def by (metis option.inject)
    moreover have "set_ok ?fs"
      using ok set_ok_insert [OF _ fits(1)] by (simp add: batch_ok_def)
    ultimately have good: "batch_ok ?fs db'"
      using step by (simp add: batch_ok_def)
    have "tombstones hasher M is_bsl named ?fs db'" if "tombstones hasher M is_bsl named fs db"
      using tombstones_elsewhere [OF that elsewhere] here by simp
    then have "step_post (Upsert f p src) (fs, eff, db) (?fs,
        note_effect is_bsl f p (if moved then eff\<lparr>be_file_set_changed := True\<rparr> else eff), db')"
      using good keeps db'(2) elsewhere here True
      by (auto simp: step_post_def note_effect_def moved_def changed_def)
    moreover have "apply_upsert hasher M is_bsl rid f p src (fs, eff, db) = Inr (?fs,
        note_effect is_bsl f p (if moved then eff\<lparr>be_file_set_changed := True\<rparr> else eff), db')"
      using no_panic True db'(1)
      by (cases src) (auto simp: apply_upsert_def moved_def changed_def source_matches_holds Let_def)
    ultimately show ?thesis
      by blast
  qed
qed

lemma remove_ok:
  assumes ok: "batch_ok fs db"
  shows "\<exists>s'. apply_remove hasher M is_bsl f (fs, eff, db) = Inr s' \<and> step_post (Remove f) (fs, eff, db) s'"
proof (cases "path_for_file M fs f")
  case None
  then show ?thesis
    using ok by (simp add: apply_remove_def step_post_def keeps_known_def same_inputs_def)
next
  case (Some p)
  let ?fs = "snd (file_set_remove M f fs)"
  obtain db' where db': "(if is_bsl p then if holds hasher db f BT_Deleted then Inr db
      else apply_owned_source hasher f BT_Deleted (disk_revision hasher BT_Deleted) db else Inr db) = Inr db'"
    "is_bsl p \<longrightarrow> holds hasher db' f BT_Deleted" "\<forall>g. g \<noteq> f \<longrightarrow> same_inputs db db' g"
    "db_source_roots db' = db_source_roots db" "db_file_source_roots db' = db_file_source_roots db"
    "db' = db \<or> holds hasher db' f BT_Deleted"
  proof (cases "is_bsl p \<and> \<not> holds hasher db f BT_Deleted")
    case True
    obtain d where "apply_owned_source hasher f BT_Deleted (disk_revision hasher BT_Deleted) db = Inr d"
      "holds hasher d f BT_Deleted" "\<forall>g. g \<noteq> f \<longrightarrow> same_inputs db d g" "db_source_roots d = db_source_roots db"
      "db_file_source_roots d = db_file_source_roots db"
      using apply_owned_source_ok [where hasher = hasher and src = BT_Deleted and f = f and db = db, OF refl] by blast
    then show ?thesis
      using that [of d] True by simp
  next
    case False
    then show ?thesis
      using that [of db] by (simp add: same_inputs_def)
  qed
  have "named f = Some p"
    using ok Some by (simp add: batch_ok_def set_ok_def)
  have elsewhere: "\<forall>g. g \<noteq> f \<longrightarrow> path_for_file M ?fs g = path_for_file M fs g \<and> same_inputs db db' g"
    using db'(3) by (simp add: path_after_remove)
  have "db_file_revisions db' g \<noteq> None" if "db_file_revisions db g \<noteq> None" for g
    using db'(3,6) that by (cases "g = f") (auto simp: same_inputs_def holds_def holds_text_def)
  then have keeps: "keeps_known db db'"
    using db'(4,5) by (simp add: keeps_known_def)
  have "in_step hasher db'"
    using db'(3,6) ok in_step_update by (auto simp: batch_ok_def)
  moreover have "files_known M is_bsl rid ?fs db'"
    using keeps_files [OF _ keeps, of fs] ok by (simp add: batch_ok_def files_known_def path_after_remove)
  moreover have "set_ok ?fs"
    using ok set_ok_remove by (simp add: batch_ok_def)
  moreover have "tombstones hasher M is_bsl named ?fs db'" if "tombstones hasher M is_bsl named fs db"
    using tombstones_elsewhere [OF that elsewhere] db'(2) \<open>named f = Some p\<close> by simp
  ultimately have "step_post (Remove f) (fs, eff, db) (?fs, note_effect is_bsl f p (eff\<lparr>be_file_set_changed := True\<rparr>), db')"
    using keeps elsewhere Some by (simp add: step_post_def batch_ok_def note_effect_def path_after_remove)
  moreover have "apply_remove hasher M is_bsl f (fs, eff, db) =
      Inr (?fs, note_effect is_bsl f p (eff\<lparr>be_file_set_changed := True\<rparr>), db')"
    using Some db'(1) by (auto simp: apply_remove_def source_matches_holds disk_revision_def split: if_splits)
  ultimately show ?thesis
    by blast
qed

lemma change_ok:
  assumes "batch_ok fs db" and "change_fits is_bsl named c"
  shows "\<exists>s'. apply_change hasher M is_bsl rid c (fs, eff, db) = Inr s' \<and> step_post c (fs, eff, db) s'"
proof (cases c)
  case (Upsert f p src)
  then show ?thesis
    using upsert_ok [OF assms(1), of f p src eff] assms(2) by simp
next
  case (Remove f)
  then show ?thesis
    using remove_ok [OF assms(1), of f eff] by simp
qed

definition loop_post ::
  "'p source_batch_change list \<Rightarrow> ('m, 'p, 'snap) batch_state \<Rightarrow> ('m, 'p, 'snap) batch_state \<Rightarrow> bool" where
  "loop_post cs = (\<lambda>(fs, eff, db) (fs', eff', db').
     batch_ok fs' db' \<and> (tombstones hasher M is_bsl named fs db \<longrightarrow> tombstones hasher M is_bsl named fs' db') \<and>
     (\<forall>f. case last_change cs f of
        Some c \<Rightarrow> settled hasher M c fs' db'
      | None \<Rightarrow> path_for_file M fs' f = path_for_file M fs f \<and> same_inputs db db' f) \<and>
     (be_file_set_changed eff \<longrightarrow> be_file_set_changed eff') \<and> (\<not> be_file_set_changed eff' \<longrightarrow> fs' = fs) \<and>
     (\<exists>ids. be_changed_file_ids eff' = be_changed_file_ids eff @ ids \<and> set ids \<subseteq> about ` set cs \<and>
        (\<forall>f. f \<notin> set ids \<longrightarrow> path_for_file M fs' f = path_for_file M fs f \<and> same_inputs db db' f)))"

lemma same_inputs_trans: "same_inputs db db' f \<Longrightarrow> same_inputs db' db'' f \<Longrightarrow> same_inputs db db'' f"
  by (simp add: same_inputs_def)

lemma step_ids:
  assumes "step_post c (fs, eff, db) (fs', eff', db')"
  shows "\<exists>ids. be_changed_file_ids eff' = be_changed_file_ids eff @ ids \<and> set ids \<subseteq> {about c} \<and>
      (\<forall>f. f \<notin> set ids \<longrightarrow> path_for_file M fs' f = path_for_file M fs f \<and> same_inputs db db' f)"
    and "be_file_set_changed eff \<longrightarrow> be_file_set_changed eff'" and "\<not> be_file_set_changed eff' \<longrightarrow> fs' = fs"
proof -
  show "\<exists>ids. be_changed_file_ids eff' = be_changed_file_ids eff @ ids \<and> set ids \<subseteq> {about c} \<and>
      (\<forall>f. f \<notin> set ids \<longrightarrow> path_for_file M fs' f = path_for_file M fs f \<and> same_inputs db db' f)"
    using assms
    by (intro exI [of _ "if alters hasher M c fs db then [about c] else []"])
      (auto simp: step_post_def same_inputs_def split: if_splits)
qed (use assms in \<open>auto simp: step_post_def split: if_splits\<close>)

lemma loop_post_Cons:
  assumes "step_post c (fs, eff, db) (fs1, eff1, db1)" and "loop_post cs (fs1, eff1, db1) (fs', eff', db')"
  shows "loop_post (c # cs) (fs, eff, db) (fs', eff', db')"
proof -
  obtain ids where ids: "be_changed_file_ids eff1 = be_changed_file_ids eff @ ids" "set ids \<subseteq> {about c}"
    "\<forall>f. f \<notin> set ids \<longrightarrow> path_for_file M fs1 f = path_for_file M fs f \<and> same_inputs db db1 f"
    using step_ids(1) [OF assms(1)] by blast
  obtain ids' where ids': "be_changed_file_ids eff' = be_changed_file_ids eff1 @ ids'" "set ids' \<subseteq> about ` set cs"
    "\<forall>f. f \<notin> set ids' \<longrightarrow> path_for_file M fs' f = path_for_file M fs1 f \<and> same_inputs db1 db' f"
    using assms(2) by (auto simp: loop_post_def)
  have rest: "case last_change cs f of
        Some d \<Rightarrow> settled hasher M d fs' db'
      | None \<Rightarrow> path_for_file M fs' f = path_for_file M fs1 f \<and> same_inputs db1 db' f" for f
    using assms(2) unfolding loop_post_def prod.case by blast
  have "case last_change (c # cs) f of
        Some d \<Rightarrow> settled hasher M d fs' db'
      | None \<Rightarrow> path_for_file M fs' f = path_for_file M fs f \<and> same_inputs db db' f" for f
  proof (cases "last_change cs f")
    case None
    then have same: "path_for_file M fs' f = path_for_file M fs1 f" "same_inputs db1 db' f"
      using rest [of f] by simp_all
    show ?thesis
    proof (cases "about c = f")
      case True
      then show ?thesis
        using assms(1) None settled_same [of M fs' c fs1 db1 db' hasher] same by (simp add: last_change_Cons step_post_def)
    next
      case False
      then have "path_for_file M fs1 f = path_for_file M fs f" "same_inputs db db1 f"
        using assms(1) by (simp_all add: step_post_def)
      then show ?thesis
        using False None same same_inputs_trans [of db db1 f db'] by (simp add: last_change_Cons)
    qed
  next
    case (Some d)
    then show ?thesis
      using rest [of f] by (simp add: last_change_Cons)
  qed
  moreover have "\<exists>ids. be_changed_file_ids eff' = be_changed_file_ids eff @ ids \<and> set ids \<subseteq> about ` set (c # cs) \<and>
      (\<forall>f. f \<notin> set ids \<longrightarrow> path_for_file M fs' f = path_for_file M fs f \<and> same_inputs db db' f)"
    using ids ids' same_inputs_trans [of db db1 _ db'] by (intro exI [of _ "ids @ ids'"]) auto
  moreover have "batch_ok fs' db'" "tombstones hasher M is_bsl named fs db \<longrightarrow> tombstones hasher M is_bsl named fs' db'"
    "be_file_set_changed eff \<longrightarrow> be_file_set_changed eff'" "\<not> be_file_set_changed eff' \<longrightarrow> fs' = fs"
    using assms step_ids(2,3) [OF assms(1)] by (auto simp: loop_post_def step_post_def)
  ultimately show ?thesis
    unfolding loop_post_def prod.case by blast
qed

lemma loop_ok:
  assumes "batch_ok fs db" and "\<forall>c \<in> set cs. change_fits is_bsl named c"
  shows "\<exists>res db'. batch_loop (apply_change hasher M is_bsl rid) cancelled n cs (fs, eff, db) = Inr (res, db') \<and>
    in_step hasher db' \<and> keeps_known db db' \<and>
    (case res of None \<Rightarrow> \<exists>k. cancelled k | Some (fs', eff') \<Rightarrow> loop_post cs (fs, eff, db) (fs', eff', db'))"
  using assms
proof (induction cs arbitrary: fs eff db n)
  case Nil
  have "loop_post [] (fs, eff, db) (fs, eff, db)"
    using Nil.prems(1) by (simp add: loop_post_def last_change_def last_opt_def same_inputs_def)
  then show ?case
    using Nil.prems(1) by (auto simp: batch_ok_def keeps_known_def)
next
  case (Cons c cs)
  show ?case
  proof (cases "cancelled n")
    case True
    then show ?thesis
      using Cons.prems(1) by (auto simp: batch_ok_def keeps_known_def)
  next
    case False
    obtain fs1 eff1 db1 where step: "apply_change hasher M is_bsl rid c (fs, eff, db) = Inr (fs1, eff1, db1)"
      "step_post c (fs, eff, db) (fs1, eff1, db1)"
      using change_ok [OF Cons.prems(1), of c eff] Cons.prems(2) by auto
    then have ok: "batch_ok fs1 db1" "keeps_known db db1"
      by (simp_all add: step_post_def)
    obtain res db' where rest: "batch_loop (apply_change hasher M is_bsl rid) cancelled (Suc n) cs (fs1, eff1, db1) = Inr (res, db')"
      "in_step hasher db'" "keeps_known db1 db'"
      "case res of None \<Rightarrow> \<exists>k. cancelled k | Some (fs', eff') \<Rightarrow> loop_post cs (fs1, eff1, db1) (fs', eff', db')"
      using Cons.IH [OF ok(1), of "Suc n" eff1] Cons.prems(2) by auto
    have "case res of None \<Rightarrow> \<exists>k. cancelled k | Some (fs', eff') \<Rightarrow> loop_post (c # cs) (fs, eff, db) (fs', eff', db')"
      using rest(4) loop_post_Cons [OF step(2)] by (auto split: option.splits)
    then show ?thesis
      using False step(1) rest(1-3) keeps_known_trans [OF ok(2)] by auto
  qed
qed

lemma db_serves_iff:
  "db_serves hasher M is_bsl rid named db \<longleftrightarrow> (\<exists>fs. root_files rid db = Some fs \<and> batch_ok fs db)"
  by (auto simp: db_serves_def batch_ok_def set_ok_def inverse_tables_def)

lemma published:
  "root_files rid (set_source_root rid (new_local fs) db) = Some fs"
  "same_inputs db (set_source_root rid root db') f \<longleftrightarrow> same_inputs db db' f"
  "batch_ok fs (set_source_root rid root db) \<longleftrightarrow> batch_ok fs db"
  "tombstones hasher M is_bsl named fs (set_source_root rid root db) \<longleftrightarrow> tombstones hasher M is_bsl named fs db"
  "holds hasher (set_source_root rid root db) f src \<longleftrightarrow> holds hasher db f src"
  by (auto simp: root_files_def set_source_root_def new_local_def same_inputs_def batch_ok_def in_step_def files_known_def
      tombstones_def holds_def holds_text_def holds_revision_def split: option.splits batch_text_source.splits)

lemma settled_published: "settled hasher M c fs (set_source_root rid root db) \<longleftrightarrow> settled hasher M c fs db"
  by (cases c) (simp_all add: published(5))

lemma loop_post_published: "loop_post cs s (fs', eff, set_source_root rid root db') \<longleftrightarrow> loop_post cs s (fs', eff, db')"
  by (cases s) (simp add: loop_post_def published settled_published cong: option.case_cong)

lemma batch_returns:
  assumes "root_files rid db = Some fs" and "batch_ok fs db" and "\<forall>c \<in> set cs. change_fits is_bsl named c"
  shows "\<exists>res db'. apply_source_batch_cancellable hasher M is_bsl rid cs cancelled db = Inr (res, db') \<and>
    (case res of
       None \<Rightarrow> (\<exists>k. cancelled k) \<and> root_files rid db' = Some fs \<and> batch_ok fs db'
     | Some eff \<Rightarrow> \<exists>fs'. root_files rid db' = Some fs' \<and> loop_post cs (fs, batch_effects_default, db) (fs', eff, db'))"
proof (cases "cs = []")
  case True
  then show ?thesis
    using assms by (simp add: apply_source_batch_cancellable_def loop_post_def last_change_def last_opt_def same_inputs_def)
next
  case False
  obtain root where root: "db_source_roots db rid = Some root" "sr_file_set (si_root root) = fs"
    using assms(1) by (auto simp: root_files_def)
  obtain res db' where loop: "batch_loop (apply_change hasher M is_bsl rid) cancelled 0 cs (fs, batch_effects_default, db) = Inr (res, db')"
    "in_step hasher db'" "keeps_known db db'"
    "case res of None \<Rightarrow> \<exists>k. cancelled k | Some (fs', eff') \<Rightarrow> loop_post cs (fs, batch_effects_default, db) (fs', eff', db')"
    using loop_ok [OF assms(2,3), of cancelled 0 batch_effects_default] by auto
  have roots: "root_files rid db' = Some fs"
    using loop(3) assms(1) by (simp add: keeps_known_def root_files_def)
  show ?thesis
  proof (cases res)
    case None
    then have "batch_ok fs db'"
      using assms(2) loop(2) keeps_files [OF _ loop(3)] by (simp add: batch_ok_def)
    then show ?thesis
      using None False root loop(1,4) roots by (simp add: apply_source_batch_cancellable_def source_root_of_def)
  next
    case (Some x)
    obtain fs' eff where x: "x = (fs', eff)"
      by fastforce
    let ?db = "if be_file_set_changed eff then set_source_root rid (new_local fs') db' else db'"
    have post: "loop_post cs (fs, batch_effects_default, db) (fs', eff, db')"
      using loop(4) Some x by simp
    then have "loop_post cs (fs, batch_effects_default, db) (fs', eff, ?db)"
      by (simp add: loop_post_published)
    moreover have "root_files rid ?db = Some fs'"
      using post roots published(1) by (auto simp: loop_post_def)
    ultimately show ?thesis
      using False root loop(1) Some x by (simp add: apply_source_batch_cancellable_def source_root_of_def)
  qed
qed

lemma read_text:
  assumes "root_files rid db = Some fs" and "batch_ok fs db" and "path_for_file M fs f = Some p"
    and "db_file_revisions db f = Some r"
  shows "file_text_unmemoized hasher M disk f db =
    (case db_file_texts db f of
       Some ti \<Rightarrow> Inr (Some (ti_text ti), db)
     | None \<Rightarrow>
         (case disk p of
            None \<Rightarrow> Inl Panic
          | Some t \<Rightarrow> if content_revision hasher t = ri_revision r then Inr (Some t, db) else Inr (None, note_disk_drift db)))"
proof -
  have "map_option fi_source_root_id (db_file_source_roots db f) = Some rid"
    using assms(2,3) by (simp add: batch_ok_def files_known_def)
  then have "disk_path M db f = Inr p"
    using assms(1,3) by (auto simp: disk_path_def file_source_root_def source_root_of_def root_files_def)
  moreover have "content_revision hasher (ti_text ti) = ri_revision r" if "db_file_texts db f = Some ti" for ti
    using assms(2,4) that by (fastforce simp: batch_ok_def in_step_def)
  ultimately show ?thesis
    using assms(4) by (simp add: file_text_unmemoized_def file_revision_def try_file_text_def Let_def split: option.splits)
qed

lemma settled_reads:
  assumes "root_files rid db = Some fs" and "batch_ok fs db" and "settled hasher M (Upsert f p (Some src)) fs db"
  shows "src = BT_Overlay t \<Longrightarrow> file_text_unmemoized hasher M disk f db = Inr (Some t, db)"
    and "src \<in> {BT_Disk t, BT_DiskOwned t} \<Longrightarrow> disk p = Some t' \<Longrightarrow>
      file_text_unmemoized hasher M disk f db =
        (if content_revision hasher t' = content_revision hasher t then Inr (Some t', db) else Inr (None, note_disk_drift db))"
    and "src \<in> {BT_Deleted, BT_Unreadable} \<Longrightarrow> file_text_unmemoized hasher M disk f db = Inr (Some [], db)"
    and "file_is_unread db f \<longleftrightarrow> src = BT_Unreadable"
proof -
  have here: "path_for_file M fs f = Some p" and h: "holds hasher db f src"
    using assms(3) by simp_all
  obtain r where r: "db_file_revisions db f = Some r" "ri_unreadable r \<longleftrightarrow> src = BT_Unreadable"
    using h by (cases src) (auto simp: holds_def holds_text_def holds_revision_def)
  note read = read_text [OF assms(1,2) here r(1), of disk]
  show "src = BT_Overlay t \<Longrightarrow> file_text_unmemoized hasher M disk f db = Inr (Some t, db)"
    using h read by (auto simp: holds_def holds_text_def)
  show "src \<in> {BT_Disk t, BT_DiskOwned t} \<Longrightarrow> disk p = Some t' \<Longrightarrow>
      file_text_unmemoized hasher M disk f db =
        (if content_revision hasher t' = content_revision hasher t then Inr (Some t', db) else Inr (None, note_disk_drift db))"
    using h read r by (auto simp: holds_def holds_revision_def)
  show "src \<in> {BT_Deleted, BT_Unreadable} \<Longrightarrow> file_text_unmemoized hasher M disk f db = Inr (Some [], db)"
    using h read by (auto simp: holds_def holds_text_def)
  show "file_is_unread db f \<longleftrightarrow> src = BT_Unreadable"
    using r by (simp add: file_is_unread_def)
qed

end

interpretation list_batches: source_batches list_index_map "\<lambda>_ t. word_of_nat (length t)" "\<lambda>_. True" 0 "[0 \<mapsto> ascii ''a'']"
  by unfold_locales (simp add: distinct_names_def)


section \<open>Properties\<close>

text \<open>
  C20. Batches. On a database that serves its files, a batch whose paths are the names of its
  files returns, whatever the answers to the question whether it is cancelled, and the database
  still serves its files. A batch that was never cancelled completes; a cancelled one publishes
  no set of files. After a complete batch every file is as its last change says: an open text is
  read back as it is; a text on the disk is read back, and a disk that was overtaken gives no
  text; a removed file is in the set no more; a file that the effects do not name is as it was.
\<close>

theorem source_batch_served:
  assumes "index_map_laws M" and "distinct_names named" and "db_serves hasher M is_bsl rid named db"
    and "\<forall>c \<in> set cs. change_fits is_bsl named c"
  shows "\<exists>res db'. apply_source_batch_cancellable hasher M is_bsl rid cs cancelled db = Inr (res, db') \<and>
    db_serves hasher M is_bsl rid named db' \<and>
    ((\<forall>k. \<not> cancelled k) \<longrightarrow> res \<noteq> None) \<and> (res = None \<longrightarrow> root_files rid db' = root_files rid db) \<and>
    (\<forall>eff. res = Some eff \<longrightarrow>
      (\<forall>f p src t. last_change cs f = Some (Upsert f p (Some src)) \<longrightarrow>
        served_path M rid db' f = Some p \<and> (file_is_unread db' f \<longleftrightarrow> src = BT_Unreadable) \<and>
        (src = BT_Overlay t \<longrightarrow> file_text_unmemoized hasher M disk f db' = Inr (Some t, db')) \<and>
        (src \<in> {BT_Disk t, BT_DiskOwned t} \<longrightarrow> (\<forall>t'. disk p = Some t' \<longrightarrow> file_text_unmemoized hasher M disk f db' =
          (if content_revision hasher t' = content_revision hasher t then Inr (Some t', db') else Inr (None, note_disk_drift db')))) \<and>
        (src \<in> {BT_Deleted, BT_Unreadable} \<longrightarrow> file_text_unmemoized hasher M disk f db' = Inr (Some [], db'))) \<and>
      (\<forall>f. last_change cs f = Some (Remove f) \<longrightarrow> served_path M rid db' f = None) \<and>
      (\<forall>f. f \<notin> set (be_changed_file_ids eff) \<longrightarrow>
        served_path M rid db' f = served_path M rid db f \<and> same_inputs db db' f))"
proof -
  have batches: "source_batches M named"
    using assms(1,2) by (simp add: source_batches_def source_batches_axioms_def file_sets_def)
  obtain fs where fs: "root_files rid db = Some fs" "source_batches.batch_ok M hasher is_bsl rid named fs db"
    using assms(3) source_batches.db_serves_iff [OF batches] by blast
  obtain res db' where run: "apply_source_batch_cancellable hasher M is_bsl rid cs cancelled db = Inr (res, db')"
    "case res of
       None \<Rightarrow> (\<exists>k. cancelled k) \<and> root_files rid db' = Some fs \<and> source_batches.batch_ok M hasher is_bsl rid named fs db'
     | Some eff \<Rightarrow> \<exists>fs'. root_files rid db' = Some fs' \<and>
         source_batches.loop_post M hasher is_bsl rid named cs (fs, batch_effects_default, db) (fs', eff, db')"
    using source_batches.batch_returns [OF batches fs assms(4)] by blast
  show ?thesis
  proof (cases res)
    case None
    then show ?thesis
      using run fs(1) by (auto simp: source_batches.db_serves_iff [OF batches])
  next
    case (Some eff)
    then obtain fs' where fs': "root_files rid db' = Some fs'"
      "source_batches.loop_post M hasher is_bsl rid named cs (fs, batch_effects_default, db) (fs', eff, db')"
      using run(2) by auto
    note post = fs'(2) [unfolded source_batches.loop_post_def [OF batches] prod.case]
    have ok: "source_batches.batch_ok M hasher is_bsl rid named fs' db'"
      using post by blast
    have settled: "settled hasher M c fs' db'" if "last_change cs f = Some c" for f c
      using post that by (metis option.simps(5))
    note reads = source_batches.settled_reads [OF batches fs'(1) ok settled]
    have "served_path M rid db' f = path_for_file M fs' f" "served_path M rid db f = path_for_file M fs f" for f
      using fs(1) fs'(1) by (simp_all add: served_path_def)
    moreover have "path_for_file M fs' f = path_for_file M fs f \<and> same_inputs db db' f" if "f \<notin> set (be_changed_file_ids eff)" for f
      using post that by (auto simp: batch_effects_default_def)
    moreover have "path_for_file M fs' f = Some p" if "last_change cs f = Some (Upsert f p src)" for f p src
      using settled [OF that] by simp
    moreover have "path_for_file M fs' f = None" if "last_change cs f = Some (Remove f)" for f
      using settled [OF that] by simp
    moreover have "db_serves hasher M is_bsl rid named db'"
      using ok fs'(1) source_batches.db_serves_iff [OF batches] by blast
    ultimately show ?thesis
      using run(1) Some reads by (auto simp del: insert_iff) 
  qed
qed

theorem source_batch_served_witness:
  "\<exists>eff db'. apply_source_batch_cancellable (\<lambda>_ t. word_of_nat (length t)) list_index_map (\<lambda>_. True) 0
      [Upsert 0 (ascii ''a'') (Some (BT_Disk [])), Upsert 0 (ascii ''a'') (Some (BT_Overlay [1]))] (\<lambda>_. False)
      (set_source_root 0 (new_local (file_set_new list_index_map)) (db_new :: (_, _, unit) db_files)) = Inr (Some eff, db') \<and>
    served_path list_index_map 0 db' 0 = Some (ascii ''a'') \<and>
    file_text_unmemoized (\<lambda>_ t. word_of_nat (length t)) list_index_map Map.empty 0 db' = Inr (Some [1], db')"
proof -
  let ?hasher = "\<lambda>_ t. word_of_nat (length t)" and ?named = "[0 \<mapsto> ascii ''a'']"
  let ?db = "set_source_root 0 (new_local (file_set_new list_index_map)) (db_new :: (_, _, unit) db_files)"
  let ?cs = "[Upsert 0 (ascii ''a'') (Some (BT_Disk [])), Upsert 0 (ascii ''a'') (Some (BT_Overlay [1]))]"
  have "db_serves ?hasher list_index_map (\<lambda>_. True) 0 ?named ?db"
    by (simp add: db_serves_def root_files_def set_source_root_def db_new_def new_local_def in_step_def files_known_def
        file_set_new_def path_for_file_def file_for_path_def list_index_map_def)
  moreover have "\<forall>c \<in> set ?cs. change_fits (\<lambda>_. True) ?named c"
    by simp
  moreover have "last_change ?cs 0 = Some (Upsert 0 (ascii ''a'') (Some (BT_Overlay [1])))"
    by (simp add: last_change_def last_opt_def)
  ultimately show ?thesis
    using source_batch_served [OF list_map.index_map_laws_axioms list_batches.names, of ?hasher "\<lambda>_. True" 0 ?db ?cs "\<lambda>_. False" Map.empty]
    by blast
qed

text \<open>
  A batch that changes the set of files publishes a root of local sources, whatever the root was:
  a root of metadata loses its durability.
\<close>

lemma batch_demotes_root:
  "\<exists>eff db'. apply_source_batch (\<lambda>_ t. word_of_nat (length t)) list_index_map (\<lambda>_. False) 1
      [Upsert 0 (ascii ''a'') (Some (BT_Disk [1]))]
      (set_source_root 1 (new_metadata (file_set_new list_index_map)) (db_new :: (_, _, unit) db_files)) = Inr (eff, db') \<and>
    map_option (\<lambda>root. root_durability (si_root root)) (db_source_roots db' 1) = Some LOW"
  by (simp add: apply_source_batch_def apply_source_batch_cancellable_def source_root_of_def set_source_root_def db_new_def
      new_metadata_def new_local_def apply_upsert_def path_for_file_def file_set_new_def list_index_map_def source_matches_def
      try_file_revision_def Let_def apply_owned_source_def set_from_disk_def disk_revision_def note_effect_def root_durability_def
      set_file_revision_from_disk_def set_file_revision_with_durability_def set_file_source_root_def batch_effects_default_def
      file_set_insert_def file_set_remove_def)

end
