(* ===== verification/Edits_Served.thy ===== *)
theory Edits_Served
  imports Vfs_Replay Source_Served
begin

text \<open>
  From an edit to the text a query reads: the host takes the changes of the virtual file system,
  turns them into a batch (\<open>process_changes\<close>, \<open>bsl-analyzer/src/workspace.rs\<close>) and applies it. Of
  \<open>process_changes\<close> this is the part up to the batch and what it collects for later; the reloads of projects, metadata and indexes
  that it schedules are not modelled.
\<close>

section \<open>Processing changes\<close>

text \<open>What a pass collects about the changes; the tests on paths are those of the project model.\<close>

record 'p path_tests =
  pt_bsl :: "'p \<Rightarrow> bool"
  pt_config :: "'p \<Rightarrow> bool"
  pt_metadata :: "'p \<Rightarrow> bool"
  pt_listed :: "'p \<Rightarrow> bool"

record 'p change_scan =
  sc_source_changes :: "'p source_batch_change list"
  sc_config_file_changed :: bool
  sc_baseline_changed :: bool
  sc_body_edits :: "file_id list"
  sc_structural_file_ids :: "file_id list"
  sc_structural_change :: bool
  sc_metadata_paths :: "'p list"
  sc_listed_bodies :: "(file_id \<times> 'p) list"

definition scan_empty :: "'p change_scan" where
  "scan_empty = \<lparr>sc_source_changes = [], sc_config_file_changed = False, sc_baseline_changed = False, sc_body_edits = [],
     sc_structural_file_ids = [], sc_structural_change = False, sc_metadata_paths = [], sc_listed_bodies = []\<rparr>"

definition change_is_structural :: "changed_file \<Rightarrow> bool" where
  "change_is_structural c = (case cf_change c of Create _ _ \<Rightarrow> True | Delete \<Rightarrow> True | Modify _ _ \<Rightarrow> False)"

definition scan_path :: "'p path_tests \<Rightarrow> 'p \<Rightarrow> changed_file \<Rightarrow> 'p change_scan \<Rightarrow> 'p change_scan" where
  "scan_path T path c sc =
    (let sc = (if pt_config T path then sc\<lparr>sc_config_file_changed := True\<rparr> else sc);
         sc = (if pt_metadata T path
               then sc\<lparr>sc_metadata_paths := sc_metadata_paths sc @ [path], sc_structural_change := True\<rparr>
               else sc)
     in if change_is_structural c \<and> pt_listed T path
        then sc\<lparr>sc_listed_bodies := sc_listed_bodies sc @ [(cf_file_id c, path)]\<rparr>
        else sc)"

definition scan_hierarchy :: "'p path_tests \<Rightarrow> 'p \<Rightarrow> changed_file \<Rightarrow> ustring option \<Rightarrow> 'p change_scan \<Rightarrow> 'p change_scan" where
  "scan_hierarchy T path c t sc =
    (if \<not> pt_bsl T path then sc
     else if change_is_structural c then sc\<lparr>sc_structural_file_ids := sc_structural_file_ids sc @ [cf_file_id c]\<rparr>
     else if t \<noteq> None then sc\<lparr>sc_body_edits := sc_body_edits sc @ [cf_file_id c]\<rparr>
     else sc)"

definition scan_change :: "'p path_tests \<Rightarrow> 'p set \<Rightarrow> file_id set \<Rightarrow> 'p \<Rightarrow> changed_file \<Rightarrow> 'p change_scan \<Rightarrow> 'p change_scan" where
  "scan_change T baseline open_files path c sc =
    (let t = (case cf_change c of Create content _ \<Rightarrow> Some content | Modify content _ \<Rightarrow> Some content | Delete \<Rightarrow> None) in
     if path \<in> baseline then sc\<lparr>sc_baseline_changed := True\<rparr>
     else
       let sc = scan_hierarchy T path c t (scan_path T path c sc) in
       if pt_bsl T path \<and> t = None then sc\<lparr>sc_source_changes := sc_source_changes sc @ [Remove (cf_file_id c)]\<rparr>
       else
         case t of
           None \<Rightarrow> sc
         | Some content \<Rightarrow>
             let source = (if pt_bsl T path
                           then Some (if cf_file_id c \<in> open_files then BT_Overlay content else BT_Disk content)
                           else None)
             in sc\<lparr>sc_source_changes := sc_source_changes sc @ [Upsert (cf_file_id c) path source]\<rparr>)"

fun scan_changes ::
  "('s, 'p) index_set \<Rightarrow> 'p path_tests \<Rightarrow> 'p set \<Rightarrow> file_id set \<Rightarrow> ('s, 'm) vfs \<Rightarrow> changed_file list \<Rightarrow>
     'p change_scan \<Rightarrow> 'p change_scan outcome" where
  "scan_changes X T baseline open_files v [] sc = Inr sc"
| "scan_changes X T baseline open_files v (c # cs) sc =
    and_then (vfs_file_path X v (cf_file_id c)) (\<lambda>path.
    scan_changes X T baseline open_files v cs (scan_change T baseline open_files path c sc))"

text \<open>Files that the batch found unchanged are dropped from what was collected.\<close>

definition retain_changed :: "file_id list \<Rightarrow> 'p change_scan \<Rightarrow> 'p change_scan" where
  "retain_changed changed sc =
    sc\<lparr>sc_body_edits := filter (\<lambda>f. f \<in> set changed) (sc_body_edits sc),
       sc_structural_change := sc_structural_change sc \<or> list_ex (\<lambda>f. f \<in> set changed) (sc_structural_file_ids sc),
       sc_listed_bodies := filter (\<lambda>(f, _). f \<in> set changed) (sc_listed_bodies sc)\<rparr>"

definition process_source_changes ::
  "('s, 'p) index_set \<Rightarrow> ('m, file_id, changed_file) index_map \<Rightarrow> ('n, file_id, 'p) index_map \<Rightarrow>
     (nat \<Rightarrow> ustring \<Rightarrow> 64 word) \<Rightarrow> 'p path_tests \<Rightarrow> 'p set \<Rightarrow> file_id set \<Rightarrow> source_root_id \<Rightarrow>
     ('s, 'm) vfs \<times> ('n, 'p, 'snap) db_files \<Rightarrow>
     ('p change_scan \<times> bool \<times> ('s, 'm) vfs \<times> ('n, 'p, 'snap) db_files) outcome" where
  "process_source_changes X C M hasher T baseline open_files rid = (\<lambda>(v, db).
    let (cs, v) = take_changes C v in
    if cs = [] then Inr (scan_empty, False, v, db)
    else
      and_then (scan_changes X T baseline open_files v cs scan_empty) (\<lambda>sc.
      and_then (apply_source_batch hasher M (pt_bsl T) rid (sc_source_changes sc) db) (\<lambda>(eff, db).
      Inr (retain_changed (be_changed_file_ids eff) sc, be_bsl_source_changed eff, v, db))))"


section \<open>Sequences of edits\<close>

datatype 'p host_op = HostSet 'p "ustring option" | HostWatch 'p | HostUnwatch 'p | HostProcess "file_id set"

fun vfs_part :: "'p host_op \<Rightarrow> 'p vfs_op" where
  "vfs_part (HostSet p t) = SetContents p t"
| "vfs_part (HostWatch p) = RegisterWatch p"
| "vfs_part (HostUnwatch p) = UnregisterWatch p"
| "vfs_part (HostProcess _) = TakeChanges"

fun host_step ::
  "('s, 'p) index_set \<Rightarrow> ('m, file_id, changed_file) index_map \<Rightarrow> ('n, file_id, 'p) index_map \<Rightarrow>
     (ustring \<Rightarrow> text_hash) \<Rightarrow> (nat \<Rightarrow> ustring \<Rightarrow> 64 word) \<Rightarrow> 'p path_tests \<Rightarrow> 'p set \<Rightarrow> source_root_id \<Rightarrow> 'p host_op \<Rightarrow>
     ('s, 'm) vfs \<times> ('n, 'p, 'snap) db_files \<Rightarrow> (('s, 'm) vfs \<times> ('n, 'p, 'snap) db_files) outcome" where
  "host_step X C M hash hasher T baseline rid (HostSet p t) (v, db) =
    and_then (set_file_contents X C hash p t v) (\<lambda>(_, v). Inr (v, db))"
| "host_step X C M hash hasher T baseline rid (HostWatch p) (v, db) =
    and_then (register_watch_only X p v) (\<lambda>(_, v). Inr (v, db))"
| "host_step X C M hash hasher T baseline rid (HostUnwatch p) (v, db) =
    and_then (unregister_watch_only X p v) (\<lambda>v. Inr (v, db))"
| "host_step X C M hash hasher T baseline rid (HostProcess open_files) (v, db) =
    and_then (process_source_changes X C M hasher T baseline open_files rid (v, db)) (\<lambda>(_, _, v, db). Inr (v, db))"

fun host_run ::
  "('s, 'p) index_set \<Rightarrow> ('m, file_id, changed_file) index_map \<Rightarrow> ('n, file_id, 'p) index_map \<Rightarrow>
     (ustring \<Rightarrow> text_hash) \<Rightarrow> (nat \<Rightarrow> ustring \<Rightarrow> 64 word) \<Rightarrow> 'p path_tests \<Rightarrow> 'p set \<Rightarrow> source_root_id \<Rightarrow> 'p host_op list \<Rightarrow>
     ('s, 'm) vfs \<times> ('n, 'p, 'snap) db_files \<Rightarrow> (('s, 'm) vfs \<times> ('n, 'p, 'snap) db_files) outcome" where
  "host_run X C M hash hasher T baseline rid [] s = Inr s"
| "host_run X C M hash hasher T baseline rid (op # ops) s =
    and_then (host_step X C M hash hasher T baseline rid op s) (host_run X C M hash hasher T baseline rid ops)"


section \<open>Names\<close>

definition vfs_names :: "('s, 'p) index_set \<Rightarrow> ('s, 'm) vfs \<Rightarrow> file_id \<Rightarrow> 'p option" where
  "vfs_names X v f = (case vfs_file_path X v f of Inr p \<Rightarrow> Some p | Inl _ \<Rightarrow> None)"

context vfs_space
begin

lemma names_iff: "vfs_names X v f = Some p \<longleftrightarrow> unat f < length (items (vfs_interner v)) \<and> items (vfs_interner v) ! unat f = p"
  by (auto simp: vfs_names_def vfs_file_path_def interner_lookup_def set_get_index get_def)

lemma names_distinct: "distinct_names (vfs_names X v)"
  using set_distinct [of "vfs_interner v"] by (auto simp: distinct_names_def names_iff nth_eq_iff_index_eq word_unat_eq_iff)

lemma names_grow:
  assumes "items (vfs_interner v') = items (vfs_interner v) @ xs"
  shows "vfs_names X v \<subseteq>\<^sub>m vfs_names X v'"
proof -
  have "vfs_names X v' f = Some p" if "vfs_names X v f = Some p" for f p
    using assms that by (simp add: names_iff nth_append)
  then show ?thesis
    by (auto simp: map_le_def)
qed

lemma alloc_names: "alloc_file_id X p v = (f, v') \<Longrightarrow> vfs_names X v \<subseteq>\<^sub>m vfs_names X v'"
  using insert_full_index(2) [of "vfs_interner v" p]
  by (cases "ixs_insert_full X (vfs_interner v) p")
    (auto simp: alloc_file_id_def intern_def intro: names_grow [of _ _ "[]"] names_grow [of _ _ "[p]"] split: if_splits)

lemma same_names: "vfs_interner v' = vfs_interner v \<Longrightarrow> vfs_names X v' = vfs_names X v"
  by (simp add: fun_eq_iff vfs_names_def vfs_file_path_def)

lemma set_state_names: "set_state f s v = Inr v' \<Longrightarrow> vfs_names X v' = vfs_names X v"
  by (rule same_names) (auto simp: set_state_def split: if_splits)

lemma record_names: "vfs_names X (record_change M f c v) = vfs_names X v"
  by (rule same_names) (simp add: record_change_def)

lemma step_names:
  assumes "vfs_step X M hash op (v, copy) = Inr (v', copy')"
  shows "vfs_names X v \<subseteq>\<^sub>m vfs_names X v'"
proof (cases op)
  case (SetContents p t)
  obtain f w where a: "alloc_file_id X p v = (f, w)"
    by fastforce
  have "vfs_names X v' = vfs_names X w"
    using assms SetContents
    by (auto simp: a set_file_contents_def record_names and_then_def Let_def set_state_names
        split: sum.splits file_state.splits option.splits if_splits)
  then show ?thesis
    using alloc_names [OF a] by simp
next
  case (RegisterWatch p)
  obtain f w where a: "alloc_file_id X p v = (f, w)"
    by fastforce
  have "vfs_names X v' = vfs_names X w"
    using assms RegisterWatch by (auto simp: a register_watch_only_def and_then_def set_state_names split: sum.splits if_splits)
  then show ?thesis
    using alloc_names [OF a] by simp
next
  case (UnregisterWatch p)
  then have "vfs_names X v' = vfs_names X v"
    using assms by (auto simp: unregister_watch_only_def and_then_def set_state_names split: sum.splits if_splits option.splits)
  then show ?thesis
    by simp
next
  case TakeChanges
  then show ?thesis
    using assms same_names [of v' v] by (auto simp: take_changes_def)
qed

lemma id_names: "mirrors v copy m \<Longrightarrow> vfs_file_id X v p = Some f \<longleftrightarrow> vfs_names X v f = Some p"
  using unat_index [of "vfs_interner v"]
  by (auto simp: mirrors_def names_iff vfs_file_id_def interner_get_def set_index_of)

lemma batch_names:
  assumes "mirrors v copy m" and "take_changes M v = (cs, v')" and "c \<in> set cs"
  shows "\<exists>p. vfs_file_path X v' (cf_file_id c) = Inr p"
proof -
  obtain k where "(k, c) \<in> set (ixm_entries M (vfs_changes v))"
    using assms(2,3) by (auto simp: take_changes_def)
  then have "cf_file_id c = k" "unat k < length (items (vfs_interner v))" "vfs_interner v' = vfs_interner v"
    using assms(1,2) by (auto simp: entry_get mirrors_def change_ok_def take_changes_def)
  then show ?thesis
    by (simp add: vfs_file_path_def interner_lookup_def set_get_index)
qed

end


section \<open>The batch of the changes\<close>

text \<open>The change of the batch that one change of the file system becomes.\<close>

definition source_change ::
  "('p \<Rightarrow> bool) \<Rightarrow> 'p set \<Rightarrow> file_id set \<Rightarrow> 'p \<Rightarrow> changed_file \<Rightarrow> 'p source_batch_change option" where
  "source_change is_bsl baseline open_files path c =
    (if path \<in> baseline then None
     else case change_content (cf_change c) of
         None \<Rightarrow> if is_bsl path then Some (Remove (cf_file_id c)) else None
       | Some t \<Rightarrow> Some (Upsert (cf_file_id c) path
           (if is_bsl path then Some (if cf_file_id c \<in> open_files then BT_Overlay t else BT_Disk t) else None)))"

lemma scan_change_source:
  "sc_source_changes (scan_change T baseline open_files path c sc) =
    sc_source_changes sc @ (case source_change (pt_bsl T) baseline open_files path c of None \<Rightarrow> [] | Some d \<Rightarrow> [d])"
  by (cases "cf_change c") (simp_all add: scan_change_def source_change_def scan_hierarchy_def scan_path_def Let_def)

lemma scan_changes_source:
  assumes "\<forall>c \<in> set cs. \<exists>p. vfs_file_path X v (cf_file_id c) = Inr p"
  shows "\<exists>sc'. scan_changes X T baseline open_files v cs sc = Inr sc' \<and> sc_source_changes sc' = sc_source_changes sc @
    List.map_filter (\<lambda>c. source_change (pt_bsl T) baseline open_files (the (vfs_names X v (cf_file_id c))) c) cs"
  using assms
proof (induction cs arbitrary: sc)
  case (Cons c cs)
  then obtain p where "vfs_file_path X v (cf_file_id c) = Inr p"
    by auto
  then show ?case
    using Cons.IH [of "scan_change T baseline open_files p c sc"] Cons.prems
    by (auto simp: vfs_names_def map_filter_simps scan_change_source split: option.splits)
qed (simp add: map_filter_simps)

text \<open>Every source outside the baseline is noted as an edit or as structural.\<close>

lemma scan_change_noted:
  "set (sc_body_edits (scan_change T baseline open_files p c sc)) \<union> set (sc_structural_file_ids (scan_change T baseline open_files p c sc)) =
    set (sc_body_edits sc) \<union> set (sc_structural_file_ids sc) \<union> (if pt_bsl T p \<and> p \<notin> baseline then {cf_file_id c} else {})"
  by (cases "cf_change c")
    (auto simp: scan_change_def scan_hierarchy_def scan_path_def change_is_structural_def Let_def)

lemma scan_changes_noted:
  assumes "scan_changes X T baseline open_files v cs sc = Inr sc'"
    and "f \<in> set (sc_body_edits sc) \<union> set (sc_structural_file_ids sc) \<or>
      (\<exists>c \<in> set cs. cf_file_id c = f \<and> (\<exists>p. vfs_names X v f = Some p \<and> pt_bsl T p \<and> p \<notin> baseline))"
  shows "f \<in> set (sc_body_edits sc') \<union> set (sc_structural_file_ids sc')"
  using assms
proof (induction cs arbitrary: sc)
  case (Cons c cs)
  obtain p where p: "vfs_file_path X v (cf_file_id c) = Inr p"
      "scan_changes X T baseline open_files v cs (scan_change T baseline open_files p c sc) = Inr sc'"
    using Cons.prems(1) by (auto simp: and_then_def split: sum.splits)
  then have "vfs_names X v (cf_file_id c) = Some p"
    by (simp add: vfs_names_def)
  then show ?case
    using Cons.IH [OF p(2)] Cons.prems(2) unfolding scan_change_noted by auto
qed simp

lemma source_change_about: "source_change is_bsl baseline open_files p c = Some d \<Longrightarrow> about d = cf_file_id c"
  by (auto simp: source_change_def split: option.splits if_splits)

lemma last_source_change:
  assumes "distinct (map cf_file_id cs)"
  shows "last_change (List.map_filter (\<lambda>c. source_change is_bsl baseline open_files (name (cf_file_id c)) c) cs) f =
    (case find (\<lambda>c. cf_file_id c = f) cs of None \<Rightarrow> None | Some c \<Rightarrow> source_change is_bsl baseline open_files (name f) c)"
  using assms
proof (induction cs)
  case Nil
  then show ?case
    by (simp add: last_change_def last_opt_def map_filter_simps)
next
  case (Cons c cs)
  show ?case
  proof (cases "cf_file_id c = f")
    case True
    then have "find (\<lambda>c. cf_file_id c = f) cs = None"
      using Cons.prems by (auto simp: find_None_iff image_iff)
    then show ?thesis
      using Cons True by (auto simp: map_filter_simps last_change_Cons source_change_about split: option.splits)
  next
    case False
    then show ?thesis
      using Cons by (auto simp: map_filter_simps last_change_Cons source_change_about split: option.splits)
  qed
qed

lemma fold_replay_find:
  assumes "distinct (map cf_file_id cs)"
  shows "fold replay_change cs copy f = (case find (\<lambda>c. cf_file_id c = f) cs of None \<Rightarrow> copy f | Some c \<Rightarrow> change_content (cf_change c))"
proof -
  have "map_of (map (\<lambda>c. (cf_file_id c, c)) cs) f = find (\<lambda>c. cf_file_id c = f) cs"
    by (induction cs) auto
  then show ?thesis
    using fold_replay [of "map (\<lambda>c. (cf_file_id c, c)) cs" copy f] assms by (simp add: comp_def split_def)
qed

text \<open>The database holds what the client of the file system would hold.\<close>

definition db_follows ::
  "('s, 'p) index_set \<Rightarrow> ('n, file_id, 'p) index_map \<Rightarrow> (nat \<Rightarrow> ustring \<Rightarrow> 64 word) \<Rightarrow> ('p \<Rightarrow> bool) \<Rightarrow> 'p set \<Rightarrow> source_root_id \<Rightarrow>
     ('s, 'm) vfs \<Rightarrow> text_copy \<Rightarrow> ('n, 'p, 'snap) db_files \<Rightarrow> bool" where
  "db_follows X M hasher is_bsl baseline rid v copy db \<longleftrightarrow> db_serves hasher M is_bsl rid (vfs_names X v) db \<and>
     (\<forall>f p. vfs_names X v f = Some p \<and> is_bsl p \<and> p \<notin> baseline \<longrightarrow>
        (case copy f of
           None \<Rightarrow> served_path M rid db f = None
         | Some t \<Rightarrow> served_path M rid db f = Some p \<and> (holds hasher db f (BT_Overlay t) \<or> holds hasher db f (BT_Disk t))))"

lemma db_serves_mono:
  assumes "db_serves hasher M is_bsl rid named db" and "named \<subseteq>\<^sub>m named'"
  shows "db_serves hasher M is_bsl rid named' db"
proof -
  have "named' f = Some p" if "named f = Some p" for f p
    using assms(2) that by (metis domI map_le_def)
  then show ?thesis
    using assms(1) unfolding db_serves_def by blast
qed

lemma holds_same: "same_inputs db db' f \<Longrightarrow> holds hasher db' f src \<longleftrightarrow> holds hasher db f src"
  by (cases src) (simp_all add: holds_def holds_text_def holds_revision_def same_inputs_def)

locale edited_space = vfs_space X items C hash paths texts
  for X :: "('s, 'p) index_set" and items and C :: "('m, file_id, changed_file) index_map" and hash paths texts +
  fixes M :: "('n, file_id, 'p) index_map" and hasher :: "nat \<Rightarrow> ustring \<Rightarrow> 64 word" and T :: "'p path_tests"
    and baseline :: "'p set" and rid :: source_root_id
  assumes sets: "index_map_laws M"
begin

abbreviation is_bsl :: "'p \<Rightarrow> bool" where
  "is_bsl \<equiv> pt_bsl T"

abbreviation follows :: "('s, 'm) vfs \<Rightarrow> text_copy \<Rightarrow> ('n, 'p, 'snap) db_files \<Rightarrow> bool" where
  "follows \<equiv> db_follows X M hasher is_bsl baseline rid"

lemma batches: "source_batches M (vfs_names X v)"
  using sets names_distinct by (simp add: source_batches_def source_batches_axioms_def file_sets_def)

lemma copy_unnamed: "mirrors v copy m \<Longrightarrow> vfs_names X v f = None \<Longrightarrow> copy f = None"
proof -
  assume ok: "mirrors v copy m" and "vfs_names X v f = None"
  then have "length (vfs_data v) \<le> unat f"
    by (auto simp: mirrors_def vfs_names_def vfs_file_path_def interner_lookup_def set_get_index get_def split: if_splits)
  then show "copy f = None"
    using ok by (fastforce simp: mirrors_def view_def split: option.splits)
qed

lemma served_named: "db_serves hasher M is_bsl rid named db \<Longrightarrow> served_path M rid db f = Some p \<Longrightarrow> named f = Some p"
  by (auto simp: db_serves_def served_path_def)

lemma edit_follows:
  assumes "mirrors v copy m" and "follows v copy db" and "vfs_step X C hash op (v, copy) = Inr (v', copy)"
  shows "follows v' copy db"
proof -
  have grow: "vfs_names X v \<subseteq>\<^sub>m vfs_names X v'"
    by (rule step_names [OF assms(3)])
  have serves: "db_serves hasher M is_bsl rid (vfs_names X v) db"
    using assms(2) by (simp add: db_follows_def)
  have "case copy f of
        None \<Rightarrow> served_path M rid db f = None
      | Some t \<Rightarrow> served_path M rid db f = Some p \<and> (holds hasher db f (BT_Overlay t) \<or> holds hasher db f (BT_Disk t))"
    if p: "vfs_names X v' f = Some p" "is_bsl p" "p \<notin> baseline" for f p
  proof (cases "vfs_names X v f")
    case None
    then show ?thesis
      using copy_unnamed [OF assms(1) None] served_named [OF serves] by (cases "served_path M rid db f") auto
  next
    case (Some q)
    then have "q = p"
      using grow p(1) by (metis domI map_le_def option.inject)
    then show ?thesis
      using assms(2) Some p unfolding db_follows_def by blast
  qed
  then show ?thesis
    using db_serves_mono [OF serves grow] by (simp add: db_follows_def)
qed

lemma source_change_fits:
  assumes "vfs_names X v (cf_file_id c) = Some p" and "source_change is_bsl baseline open_files p c = Some d"
  shows "change_fits is_bsl (vfs_names X v) d"
  using assms by (auto simp: source_change_def split: option.splits if_splits)

lemma source_change_bsl:
  assumes "is_bsl p" and "p \<notin> baseline"
  shows "source_change is_bsl baseline open_files p c = Some (case change_content (cf_change c) of
      None \<Rightarrow> Remove (cf_file_id c)
    | Some t \<Rightarrow> Upsert (cf_file_id c) p (Some (if cf_file_id c \<in> open_files then BT_Overlay t else BT_Disk t)))"
  using assms by (simp add: source_change_def split: option.split)

text \<open>A pass returns; the batch it applies and what it leaves.\<close>

abbreviation batch_of :: "file_id set \<Rightarrow> ('s, 'm) vfs \<Rightarrow> changed_file list \<Rightarrow> 'p source_batch_change list" where
  "batch_of open_files v cs \<equiv>
    List.map_filter (\<lambda>c. source_change is_bsl baseline open_files (the (vfs_names X v (cf_file_id c))) c) cs"

lemma pass_runs:
  assumes "mirrors v copy m" and "follows v copy db" and "take_changes C v = (cs, v')"
  obtains sc changed eff fs fs' db' where
    "process_source_changes X C M hasher T baseline open_files rid (v, db) = Inr (retain_changed (be_changed_file_ids eff) sc, changed, v', db')"
    "scan_changes X T baseline open_files v' cs scan_empty = Inr sc" "root_files rid db = Some fs" "root_files rid db' = Some fs'"
    "source_batches.loop_post M hasher is_bsl rid (vfs_names X v') (batch_of open_files v' cs) (fs, batch_effects_default, db) (fs', eff, db')"
proof -
  have names: "vfs_names X v' = vfs_names X v"
    using assms(3) by (intro same_names) (auto simp: take_changes_def)
  have named: "\<exists>p. vfs_names X v' (cf_file_id c) = Some p" if "c \<in> set cs" for c
    using batch_names [OF assms(1,3) that] by (auto simp: vfs_names_def)
  obtain sc where collect: "scan_changes X T baseline open_files v' cs scan_empty = Inr sc"
      "sc_source_changes sc = batch_of open_files v' cs"
    using scan_changes_source [of cs X v' T baseline open_files scan_empty] batch_names [OF assms(1,3)] by (auto simp: scan_empty_def)
  have fits: "\<forall>d \<in> set (batch_of open_files v' cs). change_fits is_bsl (vfs_names X v') d"
    using named source_change_fits by (fastforce simp: List.map_filter_def)
  obtain fs where fs: "root_files rid db = Some fs" "source_batches.batch_ok M hasher is_bsl rid (vfs_names X v') fs db"
    using assms(2) by (auto simp: db_follows_def names source_batches.db_serves_iff [OF batches])
  obtain eff db' fs' where run:
    "apply_source_batch_cancellable hasher M is_bsl rid (batch_of open_files v' cs) (\<lambda>_. False) db = Inr (Some eff, db')"
    "root_files rid db' = Some fs'"
    "source_batches.loop_post M hasher is_bsl rid (vfs_names X v') (batch_of open_files v' cs) (fs, batch_effects_default, db) (fs', eff, db')"
    using source_batches.batch_returns [OF batches fs fits, of "\<lambda>_. False"] by (auto split: option.splits)
  have "process_source_changes X C M hasher T baseline open_files rid (v, db) =
      Inr (retain_changed (be_changed_file_ids eff) sc, be_bsl_source_changed eff, v', db')"
  proof (cases "cs = []")
    case True
    then show ?thesis
      using assms(3) collect(1) run(1)
      by (auto simp: process_source_changes_def apply_source_batch_cancellable_def map_filter_simps retain_changed_def
          scan_empty_def batch_effects_default_def)
  next
    case False
    then show ?thesis
      using assms(3) collect run(1) by (simp add: process_source_changes_def apply_source_batch_def)
  qed
  from that [OF this collect(1) fs(1) run(2,3)] show ?thesis .
qed

lemma last_batch_change:
  assumes "mirrors v copy m" and "take_changes C v = (cs, v')"
  shows "last_change (batch_of open_files v' cs) f =
    (case find (\<lambda>c. cf_file_id c = f) cs of None \<Rightarrow> None | Some c \<Rightarrow> source_change is_bsl baseline open_files (the (vfs_names X v' f)) c)"
  using last_source_change [OF batch_ok(1) [OF assms], where name = "\<lambda>f. the (vfs_names X v' f)"] by simp

lemma pass_follows:
  assumes "mirrors v copy m" and "follows v copy db" and "take_changes C v = (cs, v')"
  shows "\<exists>sc changed db'. process_source_changes X C M hasher T baseline open_files rid (v, db) = Inr (sc, changed, v', db') \<and>
    follows v' (fold replay_change cs copy) db'"
proof -
  obtain sc changed eff fs fs' db' where run:
    "process_source_changes X C M hasher T baseline open_files rid (v, db) = Inr (retain_changed (be_changed_file_ids eff) sc, changed, v', db')"
    "root_files rid db = Some fs" "root_files rid db' = Some fs'"
    "source_batches.loop_post M hasher is_bsl rid (vfs_names X v') (batch_of open_files v' cs) (fs, batch_effects_default, db) (fs', eff, db')"
    by (rule pass_runs [OF assms])
  note post = run(4) [unfolded source_batches.loop_post_def [OF batches] prod.case]
  have per: "case last_change (batch_of open_files v' cs) f of
      Some d \<Rightarrow> settled hasher M d fs' db'
    | None \<Rightarrow> path_for_file M fs' f = path_for_file M fs f \<and> same_inputs db db' f" for f
    using post by blast
  note replay = fold_replay_find [OF batch_ok(1) [OF assms(1,3)], of copy] and last = last_batch_change [OF assms(1,3), of open_files]
  have names: "vfs_names X v' = vfs_names X v"
    using assms(3) by (intro same_names) (auto simp: take_changes_def)
  have "case fold replay_change cs copy f of
        None \<Rightarrow> served_path M rid db' f = None
      | Some t \<Rightarrow> served_path M rid db' f = Some p \<and> (holds hasher db' f (BT_Overlay t) \<or> holds hasher db' f (BT_Disk t))"
    if p: "vfs_names X v' f = Some p" "is_bsl p" "p \<notin> baseline" for f p
  proof (cases "find (\<lambda>c. cf_file_id c = f) cs")
    case None
    then have "path_for_file M fs' f = path_for_file M fs f" "same_inputs db db' f"
      using per [of f] last [of f] by simp_all
    then show ?thesis
      using assms(2) p None run(2,3) replay [of f]
      by (simp add: db_follows_def names served_path_def holds_same cong: option.case_cong)
  next
    case (Some c)
    then have c: "cf_file_id c = f"
      by (simp add: find_Some_iff) blast
    have "settled hasher M d fs' db'" if "last_change (batch_of open_files v' cs) f = Some d" for d
      using per [of f] that by simp
    then show ?thesis
      using Some c p last [of f] source_change_bsl [OF p(2,3), of open_files c] run(3) replay [of f]
      by (auto simp: served_path_def split: option.splits if_splits)
  qed
  moreover have "db_serves hasher M is_bsl rid (vfs_names X v') db'"
    using post run(3) by (auto simp: source_batches.db_serves_iff [OF batches])
  ultimately have "follows v' (fold replay_change cs copy) db'"
    by (simp add: db_follows_def)
  then show ?thesis
    using run(1) by blast
qed

text \<open>A source that a pass alters is noted: the call hierarchy learns of the edit or is built anew.\<close>

lemma pass_notes:
  assumes "mirrors v copy m" and "follows v copy db" and "take_changes C v = (cs, v')"
    and "process_source_changes X C M hasher T baseline open_files rid (v, db) = Inr (sc, changed, v', db')"
    and "vfs_names X v' f = Some p" and "is_bsl p" and "p \<notin> baseline"
    and "served_path M rid db' f \<noteq> served_path M rid db f \<or> \<not> same_inputs db db' f"
  shows "f \<in> set (sc_body_edits sc) \<or> sc_structural_change sc"
proof -
  obtain sc0 eff fs fs' where run: "sc = retain_changed (be_changed_file_ids eff) sc0"
    "scan_changes X T baseline open_files v' cs scan_empty = Inr sc0" "root_files rid db = Some fs" "root_files rid db' = Some fs'"
    "source_batches.loop_post M hasher is_bsl rid (vfs_names X v') (batch_of open_files v' cs) (fs, batch_effects_default, db) (fs', eff, db')"
    by (rule pass_runs [OF assms(1-3), of open_files]) (use assms(4) in auto)
  note post = run(5) [unfolded source_batches.loop_post_def [OF batches] prod.case]
  have differ: "\<not> (path_for_file M fs' f = path_for_file M fs f \<and> same_inputs db db' f)"
    using assms(8) run(3,4) by (simp add: served_path_def)
  then have "last_change (batch_of open_files v' cs) f \<noteq> None"
    using post by (auto split: option.splits)
  then have "find (\<lambda>c. cf_file_id c = f) cs \<noteq> None"
    using last_batch_change [OF assms(1,3), of open_files f] by (auto split: option.splits)
  then obtain c where "c \<in> set cs" "cf_file_id c = f"
    by (auto simp: find_None_iff)
  then have "f \<in> set (sc_body_edits sc0) \<union> set (sc_structural_file_ids sc0)"
    using scan_changes_noted [OF run(2)] assms(5-7) by blast
  moreover have "f \<in> set (be_changed_file_ids eff)"
    using post differ by (auto simp: batch_effects_default_def)
  ultimately show ?thesis
    by (auto simp: run(1) retain_changed_def list_ex_iff)
qed

abbreviation hosted :: "'p host_op \<Rightarrow> ('s, 'm) vfs \<times> ('n, 'p, 'snap) db_files \<Rightarrow> (('s, 'm) vfs \<times> ('n, 'p, 'snap) db_files) outcome" where
  "hosted \<equiv> host_step X C M hash hasher T baseline rid"

lemma edit_step:
  assumes "mirrors v copy m" and "follows v copy db" and "op_paths op \<subseteq> paths" and "op_texts op \<subseteq> texts" and "op \<noteq> TakeChanges"
  shows "\<exists>v'. vfs_step X C hash op (v, copy) = Inr (v', copy) \<and> mirrors v' copy (set_last op m) \<and> follows v' copy db"
proof -
  obtain v' copy' where step: "vfs_step X C hash op (v, copy) = Inr (v', copy')" "mirrors v' copy' (set_last op m)"
    using returns_total [OF step_ok [OF assms(1,3,4)]] by auto
  have "copy' = copy"
    using step(1) assms(5) by (cases op) (auto simp: and_then_def split: sum.splits)
  then show ?thesis
    using step edit_follows [OF assms(1,2), of op v'] by simp
qed

lemma host_step_ok:
  assumes "mirrors v copy m" and "follows v copy db" and "op_paths (vfs_part op) \<subseteq> paths" and "op_texts (vfs_part op) \<subseteq> texts"
  shows "\<exists>v' copy' db'. hosted op (v, db) = Inr (v', db') \<and> mirrors v' copy' (set_last (vfs_part op) m) \<and> follows v' copy' db' \<and>
    (vfs_part op = TakeChanges \<longrightarrow> (\<forall>f. ixm_get C (vfs_changes v') f = None))"
proof (cases op)
  case (HostProcess open_files)
  obtain cs v' where take: "take_changes C v = (cs, v')"
    by fastforce
  obtain sc changed db' where run: "process_source_changes X C M hasher T baseline open_files rid (v, db) = Inr (sc, changed, v', db')"
    "follows v' (fold replay_change cs copy) db'"
    using pass_follows [OF assms(1,2) take] by blast
  show ?thesis
    unfolding HostProcess vfs_part.simps host_step.simps set_last.simps run(1) and_then_Inr prod.case
    using run(2) batch_ok(3,4) [OF assms(1) take] by blast
next
  case (HostSet p t)
  then show ?thesis
    using edit_step [OF assms] by (auto simp: and_then_def split: sum.splits)
next
  case (HostWatch p)
  then show ?thesis
    using edit_step [OF assms] by (auto simp: and_then_def split: sum.splits)
next
  case (HostUnwatch p)
  then show ?thesis
    using edit_step [OF assms] by (auto simp: and_then_def split: sum.splits)
qed

lemma host_run_ok:
  assumes "mirrors v copy m" and "follows v copy db"
    and "\<forall>op \<in> set ops. op_paths (vfs_part op) \<subseteq> paths \<and> op_texts (vfs_part op) \<subseteq> texts"
  shows "\<exists>v' copy' db'. host_run X C M hash hasher T baseline rid (ops @ [HostProcess open_files]) (v, db) = Inr (v', db') \<and>
    mirrors v' copy' (fold (set_last \<circ> vfs_part) ops m) \<and> follows v' copy' db' \<and> (\<forall>f. ixm_get C (vfs_changes v') f = None)"
  using assms
proof (induction ops arbitrary: v copy m db)
  case Nil
  then show ?case
    using host_step_ok [OF Nil.prems(1,2), of "HostProcess open_files"] by auto
next
  case (Cons op ops)
  obtain v1 copy1 db1 where step: "hosted op (v, db) = Inr (v1, db1)" "mirrors v1 copy1 (set_last (vfs_part op) m)" "follows v1 copy1 db1"
    using host_step_ok [OF Cons.prems(1,2), of op] Cons.prems(3) by auto
  show ?case
    using Cons.IH [OF step(2,3)] Cons.prems(3) step(1) by simp
qed

lemma follows_reads:
  assumes "follows v copy db" and "vfs_names X v f = Some p" and "is_bsl p" and "p \<notin> baseline" and "copy f = Some t"
    and "disk p = Some d"
  shows "file_text_unmemoized hasher M disk f db \<in> {Inr (Some t, db),
    if content_revision hasher d = content_revision hasher t then Inr (Some d, db) else Inr (None, note_disk_drift db)}"
proof -
  have f: "served_path M rid db f = Some p" "holds hasher db f (BT_Overlay t) \<or> holds hasher db f (BT_Disk t)"
    using assms(1-5) by (force simp: db_follows_def)+
  obtain fs where fs: "root_files rid db = Some fs" "source_batches.batch_ok M hasher is_bsl rid (vfs_names X v) fs db"
    using assms(1) by (auto simp: db_follows_def source_batches.db_serves_iff [OF batches])
  have "settled hasher M (Upsert f p (Some (BT_Overlay t))) fs db \<or> settled hasher M (Upsert f p (Some (BT_Disk t))) fs db"
    using f fs(1) by (simp add: served_path_def)
  then show ?thesis
    using source_batches.settled_reads(1) [OF batches fs, of f p "BT_Overlay t" t disk]
      source_batches.settled_reads(2) [OF batches fs, of f p "BT_Disk t" t disk d] assms(6) by auto
qed

lemma new_follows: "follows (vfs_new X C) Map.empty (set_source_root rid (new_local (file_set_new M)) db_new)"
proof -
  have "vfs_names X (vfs_new X C) f = None" for f
    by (simp add: vfs_names_def vfs_file_path_def interner_lookup_def set_get_index vfs_new_def set_new get_def)
  then show ?thesis
    using index_map_laws.get_new [OF sets]
    by (simp add: db_follows_def db_serves_def root_files_def set_source_root_def db_new_def new_local_def in_step_def files_known_def
        file_set_new_def path_for_file_def file_for_path_def)
qed

end

text \<open>The tests of the examples: every path is a source and nothing else.\<close>

definition all_sources :: "'p path_tests" where
  "all_sources = \<lparr>pt_bsl = \<lambda>_. True, pt_config = \<lambda>_. False, pt_metadata = \<lambda>_. False, pt_listed = \<lambda>_. False\<rparr>"

interpretation list_edits: edited_space list_index_set list_items list_index_map length_hash "{ascii ''a'', ascii ''b''}" UNIV
  list_index_map "\<lambda>_ t. word_of_nat (length t)" all_sources "{}" 0
  by unfold_locales


section \<open>Properties\<close>

text \<open>
  C24. Edits reach the queries. For every sequence of edits of at most \<open>2 ^ 32\<close> paths and of passes
  over the changes, ending in a pass, nothing panics. If no two texts of the sequence have the
  same hash, then for every BSL source outside the baseline: when its contents are set, it is in
  the set of files under its path, and a query reads the text set last, from the open buffer or
  from a disk that holds it, and no text from a disk with another revision; when it is deleted, it
  is in the set no more.
\<close>

theorem edits_reach_queries:
  assumes "index_set_laws X items" and "index_map_laws C" and "index_map_laws M"
    and "card (\<Union>op \<in> set ops. op_paths (vfs_part op)) \<le> 2 ^ 32" and "inj_on hash (\<Union>op \<in> set ops. op_texts (vfs_part op))"
  shows "\<exists>v db. host_run X C M hash hasher T baseline rid (ops @ [HostProcess open_files])
      (vfs_new X C, set_source_root rid (new_local (file_set_new M)) (db_new :: ('n, 'p, 'snap) db_files)) = Inr (v, db) \<and>
    (\<forall>p. pt_bsl T p \<and> p \<notin> baseline \<longrightarrow>
      (case fold (set_last \<circ> vfs_part) ops Map.empty p of
         None \<Rightarrow> \<forall>f. vfs_file_id X v p = Some f \<longrightarrow> served_path M rid db f = None
       | Some t \<Rightarrow> \<exists>f. vfs_file_id X v p = Some f \<and> served_path M rid db f = Some p \<and>
           (\<forall>d. disk p = Some d \<longrightarrow> file_text_unmemoized hasher M disk f db \<in> {Inr (Some t, db),
              if content_revision hasher d = content_revision hasher t then Inr (Some d, db) else Inr (None, note_disk_drift db)})))"
proof -
  let ?paths = "\<Union>op \<in> set ops. op_paths (vfs_part op)" and ?texts = "\<Union>op \<in> set ops. op_texts (vfs_part op)"
  have "finite (op_paths op)" for op :: "'p vfs_op"
    by (cases op) auto
  then have space: "vfs_space X items C ?paths"
    using assms by (simp add: vfs_space_def vfs_space_axioms_def)
  then have edited: "edited_space X items C ?paths M"
    using assms(3) by (simp add: edited_space_def edited_space_axioms_def)
  obtain v copy db where run: "host_run X C M hash hasher T baseline rid (ops @ [HostProcess open_files])
      (vfs_new X C, set_source_root rid (new_local (file_set_new M)) (db_new :: ('n, 'p, 'snap) db_files)) = Inr (v, db)"
    "vfs_space.mirrors items C hash ?paths ?texts v copy (fold (set_last \<circ> vfs_part) ops Map.empty)"
    "db_follows X M hasher (pt_bsl T) baseline rid v copy db" "\<And>f. ixm_get C (vfs_changes v) f = None"
    using edited_space.host_run_ok [OF edited vfs_space.new_ok [OF space] edited_space.new_follows [OF edited], of ops ?texts] by blast
  note copied = vfs_space.mirrors_copy [OF space run(2,4)] and names = vfs_space.id_names [OF space run(2)]
  have "case fold (set_last \<circ> vfs_part) ops Map.empty p of
         None \<Rightarrow> \<forall>f. vfs_file_id X v p = Some f \<longrightarrow> served_path M rid db f = None
       | Some t \<Rightarrow> \<exists>f. vfs_file_id X v p = Some f \<and> served_path M rid db f = Some p \<and>
           (\<forall>d. disk p = Some d \<longrightarrow> file_text_unmemoized hasher M disk f db \<in> {Inr (Some t, db),
              if content_revision hasher d = content_revision hasher t then Inr (Some d, db) else Inr (None, note_disk_drift db)})"
    if p: "pt_bsl T p" "p \<notin> baseline" for p
  proof (cases "fold (set_last \<circ> vfs_part) ops Map.empty p")
    case None
    then show ?thesis
      using copied(2) [OF None] run(3) p by (force simp: names db_follows_def)
  next
    case (Some t)
    obtain f where f: "vfs_file_id X v p = Some f" "copy f = Some t"
      using copied(1) [OF Some] inj_on_eq_iff [OF assms(5)] by blast
    then have "served_path M rid db f = Some p"
      using run(3) p by (force simp: names db_follows_def)
    then show ?thesis
      using Some f p edited_space.follows_reads [OF edited run(3) _ p f(2), of disk] by (auto simp: names simp del: insert_iff)
  qed
  then show ?thesis
    using run(1) by blast
qed

theorem edits_reach_queries_witness:
  "\<exists>v db. host_run list_index_set list_index_map list_index_map length_hash (\<lambda>_ t. word_of_nat (length t)) all_sources {} 0
      ([HostSet (ascii ''a'') (Some [1]), HostProcess {}, HostSet (ascii ''a'') (Some [1, 2])] @ [HostProcess {}])
      (vfs_new list_index_set list_index_map,
       set_source_root 0 (new_local (file_set_new list_index_map)) (db_new :: (_, _, unit) db_files)) = Inr (v, db) \<and>
    (\<exists>f. vfs_file_id list_index_set v (ascii ''a'') = Some f \<and>
      file_text_unmemoized (\<lambda>_ t. word_of_nat (length t)) list_index_map (\<lambda>_. Some [1, 2]) f db = Inr (Some [1, 2], db))"
proof -
  let ?ops = "[HostSet (ascii ''a'') (Some [1]), HostProcess {}, HostSet (ascii ''a'') (Some [1, 2])]"
  have "inj_on length_hash (\<Union>op \<in> set ?ops. op_texts (vfs_part op))"
    by (simp add: length_hash_def)
  moreover have "card (\<Union>op \<in> set ?ops. op_paths (vfs_part op)) \<le> 2 ^ 32"
    by simp
  moreover have "fold (set_last \<circ> vfs_part) ?ops Map.empty (ascii ''a'') = Some [1, 2]"
    by simp
  moreover have "pt_bsl all_sources (ascii ''a'')"
    by (simp add: all_sources_def)
  moreover note edits_reach_queries [OF list_set.index_set_laws_axioms list_map.index_map_laws_axioms list_map.index_map_laws_axioms,
        of ?ops length_hash "\<lambda>_ t. word_of_nat (length t)" all_sources "{}" 0 "{}" "\<lambda>_. Some [1, 2]", where 'snap = unit]
  ultimately have "\<exists>v db. host_run list_index_set list_index_map list_index_map length_hash (\<lambda>_ t. word_of_nat (length t))
      all_sources {} 0 (?ops @ [HostProcess {}]) (vfs_new list_index_set list_index_map,
       set_source_root 0 (new_local (file_set_new list_index_map)) (db_new :: (_, _, unit) db_files)) = Inr (v, db) \<and>
    (case fold (set_last \<circ> vfs_part) ?ops Map.empty (ascii ''a'') of
       None \<Rightarrow> \<forall>f. vfs_file_id list_index_set v (ascii ''a'') = Some f \<longrightarrow> served_path list_index_map 0 db f = None
     | Some t \<Rightarrow> \<exists>f. vfs_file_id list_index_set v (ascii ''a'') = Some f \<and> served_path list_index_map 0 db f = Some (ascii ''a'') \<and>
         (\<forall>d. Some [1, 2] = Some d \<longrightarrow> file_text_unmemoized (\<lambda>_ t. word_of_nat (length t)) list_index_map (\<lambda>_. Some [1, 2]) f db \<in>
           {Inr (Some t, db), if content_revision (\<lambda>_ t. word_of_nat (length t)) d = content_revision (\<lambda>_ t. word_of_nat (length t)) t
             then Inr (Some d, db) else Inr (None, note_disk_drift db)}))"
    by blast
  then show ?thesis
    by auto
qed

text \<open>
  A new file that is created, deleted and created again between two passes does not count as a
  structural change, though the database never held it.
\<close>

lemma recreated_not_structural:
  "\<exists>v. vfs_run list_index_set list_index_map length_hash
      [SetContents p (Some [1]), SetContents p None, SetContents p (Some [2, 3])]
      (vfs_new list_index_set list_index_map, Map.empty) = Inr (v, Map.empty) \<and>
    map change_is_structural (fst (take_changes list_index_map v)) = [False]"
  using recreated_as_modified [of p] by (fastforce simp: change_is_structural_def)

end
