(* ===== verification/Spec2Isabelle.thy ===== *)
theory Spec2Isabelle
  imports Parse Closers Conditions Line_Index Witness_Paths Env_Properties Edits_Served
begin

text \<open>
  BSL Analyzer is a language server for the 1C:Enterprise language. This development
  verifies four parts of it and what they share: the front end, that is the path from the
  text of a module to its concrete syntax tree and its syntax diagnostics (crates \<open>lexer\<close>,
  \<open>parser\<close>, \<open>parser-error\<close> and the kinds of \<open>syntax\<close>) with the index of lines
  (\<open>line-index\<close>), the texts of files from an edit to a query (\<open>vfs\<close>, the inputs of \<open>base-db\<close>,
  the batches of \<open>ide-host-core\<close>), the analysis of control flow on lowered method bodies (\<open>cfg\<close>,
  \<open>dataflow\<close>, the statements of \<open>hir-def\<close>), and the environments in which code is compiled
  (\<open>execution_env.rs\<close>, \<open>preproc_condition.rs\<close> and \<open>conditional_tree.rs\<close> of \<open>hir-def\<close>, with the
  case-insensitive comparison of \<open>stdx\<close>).

  \<^bold>\<open>How the parts work together.\<close> Editors and watchers set the contents of paths in the virtual
  file system, which merges the changes per file; the host takes them, makes a batch of
  them and applies it to the database, where an open file keeps its text and a closed one only
  a revision of it, to be read from the disk again. \<open>parse\<close> (\<open>parser/src/lib.rs\<close>) cuts the text into
  tokens, hands the tokens without their trivia to a hand-written recursive-descent
  grammar, which leaves a flat list of events, and lets the sink replay the events over
  the full token list into a tree builder. The grammar never fails: it reports errors as
  events and goes on. A guard that counts iterations panics when a rule seems to be stuck.
  The tree is lowered to a body: statements in an arena (the lowering is not modelled).
  \<open>CfgBuilder\<close> turns a body into a control-flow graph; the complexity of a method is counted
  on the graph, and the worklist solver runs analyses over it in either direction, among
  them whether control may fall off the end of the method and which names are surely assigned. The conditional directives of a
  module become a tree of conditionals; the environments in which a place is compiled are the
  conditions of the branches around it, parsed and evaluated per environment, and those of a
  method follow from the kind of its module and its directive.

  \<^bold>\<open>Where each part is.\<close>
  \<^item> \<open>Prelude\<close>: outcomes (a value, a panic, or running out of fuel), the loop of Rust as a
    fuelled combinator, the total-correctness judgement \<open>returns\<close>, texts as lists of
    Unicode scalar values.
  \<^item> \<open>Tokens\<close>: \<open>TokenKind\<close>, \<open>SyntaxKind\<close>, \<open>NodeKind\<close>, their predicates and conversions
    (\<open>lexer/src/lib.rs\<close>, \<open>syntax/src/syntax_kind.rs\<close>, \<open>parser/src/event.rs\<close>,
    \<open>parser/src/syntax_kind.rs\<close>). A kind is its discriminant, under the source's names.
  \<^item> \<open>Lexer\<close>: \<open>tokenize\<close> and the two callbacks. The automaton generated by \<open>logos\<close> is a
    parameter; \<open>covers_some\<close> is what is asked of it.
  \<^item> \<open>Events\<close>, \<open>Event_Trees\<close>: the event stream, the streams the grammar may append
    (\<open>seg\<close>, \<open>chain\<close>), and what such a stream means (\<open>seg_ops\<close>), read off by structure and
    by following the forward links.
  \<^item> \<open>Parser_Input\<close>: \<open>Input\<close>, the bit map of line breaks and \<open>TokenSet\<close>
    (\<open>parser/src/parser/input.rs\<close>, \<open>token_set.rs\<close>). The locale \<open>bit_map\<close> is the contract of
    the map, interpreted on the vector of words.
  \<^item> \<open>Torn_If\<close>, \<open>Conditions\<close>: the conditional groups of the preprocessor, the evaluator of
    their conditions and the walk that decides whether code is whole
    (\<open>parser/src/parser/torn_if.rs\<close>).
  \<^item> \<open>Parser_Core\<close>, \<open>Closers\<close>: the state of the parser and its operations
    (\<open>parser/src/parser.rs\<close>), one definition per method.
  \<^item> \<open>Parser_Logic\<close>: the assertion \<open>st\<close> and one rule per operation, collected in \<open>wp\<close>.
  \<^item> \<open>Grammar_Calls\<close>, \<open>Grammar_Preproc\<close>, \<open>Grammar_Expr\<close>, \<open>Grammar_Stmts\<close>,
    \<open>Grammar_Items\<close>, \<open>Grammar\<close>: every rule of \<open>parser/src/grammar.rs\<close> and of its modules
    \<open>expressions\<close>, \<open>statements\<close> and \<open>items\<close>. The rules that call each other in circles go
    through a table; the locale \<open>grammar_calls\<close> is its contract, and \<open>Grammar\<close> interprets it
    on the table that ties the rules together.
  \<^item> \<open>Sink\<close>, \<open>Sink_Replay\<close>, \<open>Sink_Tree\<close>, \<open>Syntax_Tree\<close>: the sink
    (\<open>parser/src/sink.rs\<close>), the proof that it follows the links as \<open>Event_Trees\<close> does, the
    invariant of the replay, and the tree that a command log linearises. The builder is the
    \<open>rowan\<close> library; the model is the log of the commands it is given.
  \<^item> \<open>Parse\<close>: \<open>parse\<close>, and what holds of its result.
  \<^item> \<open>Text_Ops\<close>, \<open>Line_Index\<close>: UTF-8 and UTF-16 lengths, slices and 32-bit arithmetic of Rust;
    the whole of \<open>line-index/src/lib.rs\<close> with its properties.
  \<^item> \<open>Hir\<close>: statements and bodies (\<open>hir-def/src/hir.rs\<close>, \<open>body.rs\<close>).
  \<^item> \<open>Cfg_Graph\<close>, \<open>Cyclomatic\<close>, \<open>Cfg_Builder\<close>: the crate \<open>cfg\<close>. The graph library \<open>petgraph\<close> is a
    record of operations; the locale \<open>digraph_laws\<close> is what the code relies on of it, and
    \<open>List_Graph\<close> interprets it on a graph of two lists.
  \<^item> \<open>Cfg_Shape\<close>, \<open>Cfg_Properties\<close>: the invariant of the builder, statement by statement, and
    the properties of the graphs it makes.
  \<^item> \<open>Dataflow\<close>, \<open>Dataflow_Fixpoint\<close>, \<open>Dataflow_Built\<close>: the solver (\<open>dataflow/src/lib.rs\<close>). The
    locales \<open>flow_system\<close> and \<open>monotone_flow\<close> are the contract of one direction of the loop;
    \<open>built_flow\<close> and \<open>built_monotone\<close> give both directions on the graph of a body.
  \<^item> \<open>Path_Terminates\<close>: the analysis of \<open>dataflow/src/path_terminates.rs\<close>.
  \<^item> \<open>Definite_Init\<close>, \<open>Definite_Init_Correct\<close>, \<open>Witness_Paths\<close>: definite initialization
    (\<open>dataflow/src/definite_init.rs\<close>), its meaning by paths, and the search for a path that
    leaves a name unset. The bit sets of \<open>fixedbitset\<close> are a record of operations; the locale
    \<open>bitset_laws\<close> is what is asked of them, interpreted on lists of truth values.
  \<^item> \<open>Case_Folding\<close>: comparison and search that ignore case (\<open>stdx/src/case.rs\<close>). The tables of
    Unicode are parameters; the locale \<open>lowercase_laws\<close> is what is asked of them.
  \<^item> \<open>Preproc_Symbols\<close>, \<open>Env_Flags\<close>: the symbols of the preprocessor
    (\<open>syntax/src/preproc_symbols.rs\<close>) and sets of environments as 8-bit words.
  \<^item> \<open>Preproc_Condition\<close>, \<open>Condition_Roundtrip\<close>: conditions, their three-valued evaluation, the
    masks of a chain of branches, the parser and its inverse
    (\<open>hir-def/src/preproc_condition.rs\<close>).
  \<^item> \<open>Conditional_Tree\<close>, \<open>Conditional_Build\<close>: the tree of conditionals, its queries and its builder
    (\<open>hir-def/src/conditional_tree.rs\<close>), and the shape of every tree it builds. A syntax node is
    a position in a tree of \<open>Syntax_Tree\<close>, under the names of the library's accessors.
  \<^item> \<open>Execution_Env\<close>, \<open>Env_Properties\<close>: the environments of modules, methods and places
    (\<open>hir-def/src/execution_env.rs\<close>) and what they mean.

  \<^item> \<open>Index_Collections\<close>: the sets and maps of the library \<open>indexmap\<close> as records of operations; the
    locales \<open>index_set_laws\<close> and \<open>index_map_laws\<close> are what the code relies on, interpreted on lists.
  \<^item> \<open>Vfs\<close>, \<open>Vfs_Replay\<close>: the virtual file system (\<open>vfs/src/lib.rs\<close>, \<open>path_interner.rs\<close>), and that a client
    who replays the changes holds what was set.
  \<^item> \<open>File_Set\<close>, \<open>Source_Db\<close>: sets of files (\<open>vfs/src/file_set.rs\<close>) and the inputs of the database with
    the reading of texts (\<open>base-db/src/lib.rs\<close>, \<open>input.rs\<close>, \<open>queries.rs\<close>). Hash functions and the disk are
    parameters.
  \<^item> \<open>Source_Batch\<close>, \<open>Source_Served\<close>: batches of changes (\<open>ide-host-core/src/load.rs\<close>), and that the database
    serves every file as its last change says.
  \<^item> \<open>Edits_Served\<close>: the part of \<open>process_changes\<close> about sources (\<open>bsl-analyzer/src/workspace.rs\<close>), and
    that edits reach the queries.

  \<^bold>\<open>Fuel and bounds.\<close> Each token the grammar consumes pays for three iterations of the
  guard, so with \<open>n\<close> significant tokens the count stays below \<open>3 n + 3\<close>; the guard cannot
  fire below a million, hence the bound of 333332. The recursion of the grammar has fuel for
  every token left, loops have fuel for every token left and two more; both are shown to be
  enough, so the value \<open>OutOfFuel\<close> never appears. The walk over a body has fuel for every
  statement of its arena, the search for reachable vertices for every vertex, the solver for
  its budget of iterations, the parser of conditions four units for every token, the climb
  through enclosing conditionals one for every conditional. The file system numbers at most
  \<open>2 ^ 32\<close> paths. The depth of the Rust stack is not
  modelled.

  \<^bold>\<open>What is not modelled.\<close> The query language (a second lexer and grammar), incremental
  reparsing, the typed tree over \<open>rowan\<close>, the lowering of trees to bodies and the semantic
  layers over \<open>salsa\<close>, the other analyses of \<open>dataflow\<close>, the editor features, the server,
  the loading and watching of files, the counters and memory estimates of the database, the
  search services and the readers of metadata: they rest on
  libraries whose behaviour is most of what they do, or are input and output.
\<close>

section \<open>Parsing a module\<close>

text \<open>An automaton for the witnesses: names, numbers, blanks and two signs.\<close>

definition sample_rules :: automaton where
  "sample_rules s =
     (case s of
        [] \<Rightarrow> (None, 0)
      | c # _ \<Rightarrow>
          if is_ascii_alphabetic c then (Some T_Ident, 1)
          else if c = 32 then (Some T_Whitespace, 1)
          else if c = 61 then (Some T_Eq, 1)
          else if c = 59 then (Some T_Semicolon, 1)
          else if 48 \<le> c \<and> c \<le> 57 then (Some T_Decimal, 1)
          else (None, 1))"

lemma sample_rules_cover: "covers_some sample_rules"
  by (auto simp: covers_some_def sample_rules_def split: list.splits)

text \<open>
  C1. Parsing loses nothing: for every source of at most 333332 characters \<open>parse\<close>
  returns, and the commands it gave to the tree builder are those of one tree, with a
  source-file root, whose text is the source.
\<close>

theorem parse_lossless:
  assumes "covers_some rules" and "length input \<le> 333332"
  shows "\<exists>log errs f. parse rules lc input = Inr (log, errs) \<and>
    log = linear (Node SK_SOURCE_FILE f) \<and> tree_text (Node SK_SOURCE_FILE f) = input"
proof -
  have "returns False (parse rules lc input) (\<lambda>(l, errs). parse_result rules lc input l errs)"
    using parse_returns [OF assms(1), of input lc] assms(2) by (simp add: not_less [symmetric])
  then obtain log errs where log: "parse rules lc input = Inr (log, errs)"
      "parse_result rules lc input log errs"
    using returns_total by fast
  then obtain ts s x where ts: "source_text ts = input" "seg_ops s x" "tree_log ts x log"
    by (auto simp: parse_result_def)
  then show ?thesis
    using log(1) tree_log_tree [OF ts(3,2)] tree_text_leaves by metis
qed

theorem parse_lossless_witness:
  "\<exists>log errs f. parse sample_rules (\<lambda>c. [c]) (ascii ''a = 1;'') = Inr (log, errs) \<and>
    log = linear (Node SK_SOURCE_FILE f) \<and> tree_text (Node SK_SOURCE_FILE f) = ascii ''a = 1;''"
  using parse_lossless [OF sample_rules_cover, of "ascii ''a = 1;''" "\<lambda>c. [c]"]
  by (simp add: ascii_def)

text \<open>
  C2. Parsing always ends, whatever the size of the source; the guard against endless
  loops can stop it with a panic only on a source of more than 333332 characters.
\<close>

theorem parse_terminates:
  assumes "covers_some rules"
  shows "parse rules lc input \<noteq> Inl OutOfFuel \<and>
    (parse rules lc input = Inl Panic \<longrightarrow> 333332 < length input)"
  using parse_returns [OF assms, of input lc] by (auto elim: returnsE)

theorem parse_terminates_witness:
  "parse sample_rules (\<lambda>c. [c]) (ascii '';;'') \<noteq> Inl OutOfFuel \<and>
    parse sample_rules (\<lambda>c. [c]) (ascii '';;'') \<noteq> Inl Panic"
  using parse_terminates [OF sample_rules_cover, of "\<lambda>c. [c]" "ascii '';;''"]
  by (simp add: ascii_def)

text \<open>
  C3. The trivia norm: in the tree of any source, the trivia between two neighbouring
  significant tokens stands at the lowest depth between them, so it belongs to their
  closest common ancestor and no node other than the root begins or ends with trivia.
\<close>

theorem parse_trivia_norm:
  assumes "covers_some rules" and "parse rules lc input = Inr (log, errs)"
  shows "\<exists>body. log = StartNode SK_SOURCE_FILE # body @ [FinishNode] \<and>
    (\<forall>i < length body. \<forall>j \<le> length body. trivia_cmd (body ! i) \<longrightarrow>
       (\<forall>m. min i j \<le> m \<and> m < max i j \<longrightarrow> \<not> word_cmd (body ! m)) \<longrightarrow>
       cdepth (take i body) \<le> cdepth (take j body))"
  using parse_value [OF assms] by (auto simp: parse_result_def tree_log_def lowest_def)

theorem parse_trivia_norm_witness:
  "\<exists>log errs body. parse sample_rules (\<lambda>c. [c]) (ascii ''a = 1;'') = Inr (log, errs) \<and>
     log = StartNode SK_SOURCE_FILE # body @ [FinishNode] \<and> lowest body"
proof -
  have "returns False (parse sample_rules (\<lambda>c. [c]) (ascii ''a = 1;'')) (\<lambda>_. True)"
    using parse_returns [OF sample_rules_cover, of "ascii ''a = 1;''" "\<lambda>c. [c]"]
    by (simp add: ascii_def returns_def split: sum.splits fault.splits)
  then obtain log errs where "parse sample_rules (\<lambda>c. [c]) (ascii ''a = 1;'') = Inr (log, errs)"
    using returns_total by fast
  then show ?thesis
    using parse_trivia_norm [OF sample_rules_cover] by (fastforce simp: lowest_def)
qed

text \<open>
  C4. Diagnostics: the errors handed over are those of the event stream, in its order,
  and the range of each lies in the source, does not end before it starts, and begins
  and ends between two tokens, as long as the source has fewer than \<open>2^32\<close> bytes.
\<close>

theorem parse_diagnostics:
  assumes "covers_some rules" and "parse rules lc input = Inr (log, errs)"
    and "str_len input \<le> 4294967295"
  shows "\<exists>ts es. tokenize rules input = Inr ts \<and> parse_events lc ts = Inr es \<and>
    map snd errs = event_errors es \<and>
    (\<forall>((a, b), e) \<in> set errs. a \<le> b \<and> b \<le> str_len input \<and> token_edge ts a \<and> token_edge ts b)"
proof -
  obtain ts s x where r: "tokenize rules input = Inr ts" "source_text ts = input" "contiguous 0 ts"
    "parse_events lc ts = Inr (Start NK_SourceFile None # s @ [Finish])" "map snd errs = event_errors s"
    "\<forall>r \<in> fst ` set errs. range_ok ts r"
    using parse_value [OF assms(1,2)] by (auto simp: parse_result_def)
  then have m: "measured ts"
    using assms(3) by (simp add: measured_def)
  have "a \<le> b \<and> b \<le> str_len input \<and> token_edge ts a \<and> token_edge ts b"
    if "((a, b), e) \<in> set errs" for a b e
  proof -
    have "range_ok ts (a, b)"
      using r(6) that by force
    then show ?thesis
      using m source_len_measured [OF m] r(2) by (simp add: range_ok_def offset_ok_def)
  qed
  then show ?thesis
    using r by auto
qed

theorem parse_diagnostics_witness:
  "\<exists>log errs ts es. parse sample_rules (\<lambda>c. [c]) (ascii ''a = = b'') = Inr (log, errs) \<and>
     tokenize sample_rules (ascii ''a = = b'') = Inr ts \<and> parse_events (\<lambda>c. [c]) ts = Inr es \<and>
     map snd errs = event_errors es"
proof -
  have "returns False (parse sample_rules (\<lambda>c. [c]) (ascii ''a = = b'')) (\<lambda>_. True)"
    using parse_returns [OF sample_rules_cover, of "ascii ''a = = b''" "\<lambda>c. [c]"]
    by (simp add: ascii_def returns_def split: sum.splits fault.splits)
  then obtain log errs where p: "parse sample_rules (\<lambda>c. [c]) (ascii ''a = = b'') = Inr (log, errs)"
    using returns_total by fast
  have "str_len (ascii ''a = = b'') \<le> 4294967295"
    by (simp add: ascii_def str_len_def len_utf8_def)
  from parse_diagnostics [OF sample_rules_cover p this] p show ?thesis
    by auto
qed



section \<open>The grammar and the sink\<close>

text \<open>
  C5. The grammar on its own: for every token list with at most 333332 significant
  tokens it returns, and its events are one node around a well-formed segment whose
  token events are exactly the significant tokens, in order.
\<close>

theorem grammar_events:
  assumes "length (significant ts) \<le> 333332"
  shows "\<exists>s. parse_events lc ts = Inr (Start NK_SourceFile None # s @ [Finish]) \<and> seg s \<and>
    event_tokens s = map tk_kind (significant ts)"
proof -
  have "returns False (parse_events lc ts) (\<lambda>es. \<exists>s. es = Start NK_SourceFile None # s @ [Finish] \<and> seg s \<and>
       event_tokens s = map tk_kind (significant ts))"
    using parse_events_returns [of ts lc] assms by (simp add: not_le [symmetric])
  from returns_total [OF this] show ?thesis
    by blast
qed

theorem grammar_events_witness:
  "\<exists>s. parse_events (\<lambda>c. [c]) [\<lparr>tk_kind = T_KwIf, tk_text = ascii ''If'', tk_offset = 0\<rparr>]
      = Inr (Start NK_SourceFile None # s @ [Finish]) \<and> seg s \<and> event_tokens s = [T_KwIf]"
  using grammar_events [of "[\<lparr>tk_kind = T_KwIf, tk_text = ascii ''If'', tk_offset = 0\<rparr>]" "\<lambda>c. [c]"]
  by (simp add: significant_def is_trivia_def)

text \<open>
  C6. The sink implements the meaning of a stream: given any well-formed stream over the
  significant tokens it returns, and the nodes and significant tokens it hands to the
  builder are those of the meaning, the nodes that were opened late in their places.
\<close>

theorem sink_refines_meaning:
  assumes "seg_ops s x" and "event_tokens s = map tk_kind (significant ts)"
  shows "\<exists>body errs. sink_finish ts (Start NK_SourceFile None # s @ [Finish])
      = Inr (StartNode SK_SOURCE_FILE # body @ [FinishNode], errs) \<and>
    bones body = op_cmds x \<and> map snd errs = op_errors x"
proof -
  have k: "node_kind_to_syntax NK_SourceFile = SK_SOURCE_FILE"
    by (simp add: node_kind_to_syntax_def node_kind_table_def)
  from returns_total [OF sink_finish_log [OF assms k]] show ?thesis
    by (auto simp: tree_log_def)
qed

theorem sink_refines_meaning_witness:
  "\<exists>body. sink_finish [\<lparr>tk_kind = T_Ident, tk_text = ascii ''a'', tk_offset = 0\<rparr>]
      [Start NK_SourceFile None, Start NK_Ident (Some 3), Token T_Ident, Finish,
       Start NK_CallStmt None, Finish, Finish]
    = Inr (StartNode SK_SOURCE_FILE # body @ [FinishNode], []) \<and>
      bones body = [StartNode SK_CALL_STMT, StartNode SK_IDENT, PutToken SK_IDENT [], FinishNode, FinishNode]"
proof -
  have "seg_ops ([] @ [Token T_Ident]) ([] @ [Tok T_Ident])"
    by (rule ops_Token [OF ops_Nil])
  from ops_node [OF this, of NK_Ident]
  have c: "chain_ops 0 [Start NK_Ident None, Token T_Ident, Finish] [Open NK_Ident, Tok T_Ident, Close]"
    by simp
  from ops_append [OF ops_Nil ops_up [OF c ops_Nil ops_Nil, of NK_CallStmt]]
  have "seg_ops [Start NK_Ident (Some 3), Token T_Ident, Finish, Start NK_CallStmt None, Finish]
      [Open NK_CallStmt, Open NK_Ident, Tok T_Ident, Close, Close]"
    by (simp add: link_event_def eval_nat_numeral)
  from sink_refines_meaning [OF this, of "[\<lparr>tk_kind = T_Ident, tk_text = ascii ''a'', tk_offset = 0\<rparr>]"]
  show ?thesis
    by (simp add: significant_def is_trivia_def node_kind_to_syntax_def node_kind_table_def
        token_kind_to_syntax_def token_kind_table_def)
qed

text \<open>
  C7. A statement makes progress: wherever the grammar may start a statement and a token
  is left, \<open>statement\<close> returns, consumes at least one token, only appends a well-formed
  segment to the events, and leaves the stack of boundaries as it was.
\<close>

theorem statement_progress:
  assumes "wf p" and "current p \<noteq> None" and "\<not> at_enclosing_boundary p" and "cost p + 2 < 1000000"
  shows "\<exists>b q s. statement (grammar_rec (remaining p)) p = Inr (b, q) \<and> wf q \<and> p_pos p < p_pos q \<and>
    p_events q = p_events p @ s \<and> seg s \<and> p_enclosing_boundaries q = p_enclosing_boundaries p"
proof -
  let ?z = "\<lparr>cx_fuel = remaining p, cx_budget = cost p + 2, cx_base = p\<rparr>"
  have "st ?z (p_enclosing_boundaries p) (p_pos p) 0 [] p"
    using assms(1) seg_chain.seg_Nil by (simp add: st_def)
  from bsl.wp_statement [OF this, of "remaining p" "\<lambda>r. case r of (b, q) \<Rightarrow>
      st ?z (p_enclosing_boundaries p) (Suc (p_pos p)) 1 [] q"]
  have "returns False (statement (grammar_rec (remaining p)) p)
      (\<lambda>(b, q). st ?z (p_enclosing_boundaries p) (Suc (p_pos p)) 1 [] q)"
    using assms by (simp add: may_panic_def MAX_ITERATIONS_def has_more_def)
  from returns_total [OF this] show ?thesis
    by (auto simp: st_def)
qed

theorem statement_progress_witness:
  "\<exists>b q s. statement (grammar_rec 1) (parser_new (\<lambda>c. [c])
        [\<lparr>tk_kind = T_KwBreak, tk_text = ascii ''Break'', tk_offset = 0\<rparr>]) = Inr (b, q) \<and> wf q \<and>
     0 < p_pos q \<and> p_events q = s \<and> seg s"
proof -
  let ?p = "parser_new (\<lambda>c. [c]) [\<lparr>tk_kind = T_KwBreak, tk_text = ascii ''Break'', tk_offset = 0\<rparr>]"
  have "significant [\<lparr>tk_kind = T_KwBreak, tk_text = ascii ''Break'', tk_offset = 0\<rparr>] \<noteq> []"
    by (simp add: significant_def is_trivia_def)
  then have p: "current ?p \<noteq> None" "remaining ?p = 1" "cost ?p + 2 < 1000000"
    by (simp_all add: current_def nth_kind_def input_kind_def get_def remaining_new cost_def
        significant_def is_trivia_def) (simp_all add: parser_new_def)
  have "\<not> at_enclosing_boundary ?p" "p_pos ?p = 0"
    by (simp_all add: at_enclosing_boundary_def) (simp add: parser_new_def)
  with statement_progress [OF wf_new p(1) _ p(3)] p(2) show ?thesis
    by auto
qed





section \<open>Lexer and input\<close>

text \<open>
  C9. The lexer loses nothing: \<open>tokenize\<close> returns, the texts of its tokens are the
  source in order, no token is empty, and each starts at the byte offset the ones before
  it end at.
\<close>

theorem tokenize_lossless:
  assumes "covers_some rules"
  shows "\<exists>ts. tokenize rules input = Inr ts \<and> source_text ts = input \<and> contiguous 0 ts"
  using returns_total [OF tokenize_returns [OF assms]] by blast

theorem tokenize_lossless_witness:
  "\<exists>ts. tokenize sample_rules (ascii ''x1 = 2'') = Inr ts \<and> source_text ts = ascii ''x1 = 2'' \<and>
     contiguous 0 ts"
  using tokenize_lossless [OF sample_rules_cover] by blast



text \<open>
  A comment takes the carriage returns behind it along exactly when a line feed or
  the end of the text follows them; a lone carriage return ends the comment.
\<close>

lemma comment_carriage_returns:
  assumes "rules (w @ replicate c 13 @ rest) = (Some T_Comment, length w)"
    and "rest = [] \<or> hd rest \<noteq> 13"
  shows "next_lexeme rules (w @ replicate c 13 @ rest)
    = (T_Comment, length w + (if rest = [] \<or> hd rest = 10 then c else 0))"
proof -
  have "takeWhile (\<lambda>c. c = 13) (replicate c 13 @ rest) = replicate c 13"
    using assms(2) by (cases rest) (auto simp: takeWhile_append)
  then have "finish_comment (replicate c 13 @ rest) = (if rest = [] \<or> hd rest = 10 then c else 0)"
    by (cases rest) (auto simp: finish_comment_def Let_def get_def nth_append)
  then show ?thesis
    using assms(1) by (simp add: next_lexeme_def)
qed

text \<open>
  C12. The line breaks of the input: the bit map answers, for every position but the
  first, whether a newline or a comment stands in the gap before that significant token,
  and past the end it answers for the gap behind the last one.
\<close>

theorem line_break_map:
  "input_a_line_break_precedes (input_new ts) pos \<longleftrightarrow>
     pos \<noteq> 0 \<and> (\<exists>t \<in> set (gaps ts ! min pos (length (significant ts))).
       tk_kind t \<in> {T_Newline, T_Comment})"
  by (simp add: a_line_break_precedes_gap breaks_line_def)

text \<open>
  Positions: the input holds the kinds of the significant tokens, and \<open>raw_at\<close> leads
  from a position back to the index of its token in the source, never decreasing, and to
  the number of tokens past the end.
\<close>

lemma input_positions:
  "in_kinds (input_new ts) = map tk_kind (significant ts) \<and>
   (\<forall>pos. pos < length (significant ts) \<longrightarrow> input_token (input_new ts) pos = Some (significant ts ! pos)) \<and>
   (\<forall>pos. pos < length (significant ts) \<longrightarrow>
      raw_at (input_new ts) pos < length ts \<and> ts ! raw_at (input_new ts) pos = significant ts ! pos) \<and>
   (\<forall>pos. length (significant ts) \<le> pos \<longrightarrow> raw_at (input_new ts) pos = length ts)"
proof -
  have sig: "significant ts = map (\<lambda>i. ts ! i) (significant_indices ts)"
    unfolding significant_def significant_indices_def
    by (metis (no_types, lifting) filter_cong filter_map map_nth o_def)
  have "significant_indices ts ! pos < length ts" if "pos < length (significant ts)" for pos
    using nth_mem [of pos "significant_indices ts"] that length_significant_indices [of ts]
    by (auto simp: significant_indices_def)
  moreover have "ts ! (significant_indices ts ! pos) = significant ts ! pos"
    if "pos < length (significant ts)" for pos
    using that length_significant_indices [of ts] by (subst sig) simp
  ultimately show ?thesis
    using length_significant_indices [of ts] by (simp add: raw_at_def input_token_def get_def)
qed


section \<open>Conditional groups\<close>

text \<open>
  C14. The conditional groups of an input: each runs from an \<open>#If\<close> to an \<open>#EndIf\<close> behind
  it, the branch read as code lies strictly between the two, and the list is sorted by
  the position of the \<open>#If\<close> with no position twice, as the binary search over it needs.
\<close>

theorem conditionals_wellformed:
  "sorted_wrt (<) (map c_open (conditionals ks)) \<and>
   (\<forall>g \<in> set (conditionals ks).
      get ks (c_open g) = Some T_PreIf \<and> get ks (c_close g) = Some T_PreEndIf \<and> c_open g < c_close g \<and>
      (\<forall>a b. c_active g = Some (a, b) \<longrightarrow> c_open g < a \<and> a \<le> b \<and> b \<le> c_close g))"
  using conditionals_sorted [of ks] conditionals_ok [of _ ks] by (auto simp: group_ok_def)

lemma sample_group:
  "conditionals [T_PreIf, T_Ident, T_KwThen, T_Ident, T_PreEndIf]
    = [\<lparr>c_open = 0, c_close = 4, c_balanced = True, c_active = Some (3, 4)\<rparr>]"
  by code_simp

theorem conditionals_wellformed_witness:
  "\<exists>g. conditionals [T_PreIf, T_Ident, T_KwThen, T_Ident, T_PreEndIf] = [g] \<and> c_open g < c_close g \<and>
     get [T_PreIf, T_Ident, T_KwThen, T_Ident, T_PreEndIf] (c_close g) = Some T_PreEndIf"
  using conditionals_wellformed [of "[T_PreIf, T_Ident, T_KwThen, T_Ident, T_PreEndIf]"]
  by (simp add: sample_group)

text \<open>
  C15. The condition of a branch is evaluated by its precedence: for every condition,
  printed with the parentheses it needs between any other tokens, \<open>holds\<close> gives its value
  with every symbol true.
\<close>

theorem condition_value:
  "cond_holds (pre @ print_cond c 0 @ post) (length pre) (length pre + length (print_cond c 0))
    = cond_value c"
  by (rule cond_holds_print)

text \<open>
  C16. Deciding whether a stretch of code is whole always finishes: the walk over any span
  of an input, entering the groups found in it, returns an answer.
\<close>

theorem walk_finishes:
  "\<exists>answer blocks. walk_from (Suc (length ks - fst span)) ks (group_at (conditionals ks)) (snd span)
     True False 0 (fst span) [] = Some (answer, blocks)"
  using walk_whole_defined [of "conditionals ks" ks span] conditionals_ok [of _ ks] by auto


section \<open>Recovery\<close>

text \<open>
  C17. The answers prepared for all positions in one pass agree with the scan from the
  position: \<open>closing_paren_ahead\<close> is the reference search, on every input whose length
  fits in an \<open>i32\<close>.
\<close>

theorem closing_paren_ahead_correct:
  assumes "length (p_kinds p) \<le> 2147483647"
  shows "closing_paren_ahead p = scan_for_closing_paren p"
  using closing_paren_ahead_scan [of p] assms by (simp add: I32_MAX_def)

theorem closing_paren_ahead_correct_witness:
  "closing_paren_ahead (parser_new (\<lambda>c. [c]) []) = scan_for_closing_paren (parser_new (\<lambda>c. [c]) [])"
  using closing_paren_ahead_correct [of "parser_new (\<lambda>c. [c]) []"] by (simp add: significant_def)

text \<open>
  C18. The bounded distance of two words, computed row by row with an early exit, is the
  recursive distance with exchanges compared with the bound.
\<close>

theorem edit_distance_correct:
  "edit_distance_within a b m \<longleftrightarrow> distance a b (length a) (length b) \<le> m"
  by (rule edit_distance_within_distance)

text \<open>
  C19. A required token: \<open>expect\<close> never panics; it either consumes the token it is asked
  for, or appends one error node with exactly one diagnostic, consuming no token at the end
  of the input or before a statement separator and exactly one otherwise.
\<close>

theorem expect_behaviour:
  "expect kind p =
     (if \<not> at_declared_boundary p \<and> at_tok kind p then Inr (True, bump p)
      else
        let missing = (current p = None \<or> at_statement_separator p);
            q = (if missing then p else bump p) in
        Inr (False, q\<lparr>p_events := p_events p @ [Start NK_Error None]
           @ (if missing then [] else [Token (the (current p))])
           @ [Error (Expected [kind] (current p) (if missing then MissingToken else BumpToken)), Finish]\<rparr>))"
proof -
  have here: "current (p\<lparr>p_events := es\<rparr>) = current p"
    "track_group k (p\<lparr>p_events := es\<rparr>) = (track_group k p)\<lparr>p_events := es\<rparr>" for es k
    by (simp_all add: current_def nth_kind_def track_group_def)
  show ?thesis
    by (cases "current p")
      (auto simp: expect_def emit_recovering_def emit_missing_def emit_error_def error_recovery_def
        start_def close_node_def complete_def push_event_def Let_def at_end_iff here bump_def)
qed

text \<open>
  The guard against endless loops keeps at most a hundred positions, counts every
  call, and panics exactly when a million calls have been counted since the last reset
  while the positions kept, the current one included, have fewer than five values.
\<close>

lemma iteration_guard:
  assumes "length (p_recent_positions p) \<le> 100"
  shows "length (drop (length (p_recent_positions p) - 99) (p_recent_positions p @ [p_pos p])) \<le> 100 \<and>
    check_iteration_limit p =
     (let recent = drop (length (p_recent_positions p) - 99) (p_recent_positions p @ [p_pos p]) in
      if p_iteration_count p + 1 < 1000000 then
        Inr (p\<lparr>p_iteration_count := p_iteration_count p + 1, p_recent_positions := recent\<rparr>)
      else if card (set recent) < 5 then Inl Panic
      else Inr (p\<lparr>p_iteration_count := 0, p_recent_positions := recent\<rparr>))"
proof -
  have "(if 100 \<le> length (p_recent_positions p) then tl (p_recent_positions p) else p_recent_positions p)
      = drop (length (p_recent_positions p) - 99) (p_recent_positions p)"
    using assms by (auto simp: drop_Suc)
  then show ?thesis
    using assms by (simp add: check_iteration_limit_def Let_def POSITION_HISTORY_SIZE_def
        MAX_ITERATIONS_def length_remdups_card_conv)
qed


text \<open>
  Closed insertions: the prepared list is sorted, as the binary search over it needs,
  and names only positions of \<open>#Insert\<close> markers.
\<close>

lemma match_inserts_sorted:
  "sorted (match_inserts ks) \<and> (\<forall>pos \<in> set (match_inserts ks). get ks pos = Some T_PreInsert)"
  using match_inserts_from_ok [of "[]" "[]" ks 0] by (simp add: match_inserts_def)


section \<open>Kinds and sets of kinds\<close>



text \<open>
  C23. The two layers agree: a token kind is trivia, or a keyword, exactly when the
  element kind it becomes in the tree is, and no conversion leaves the range of the kinds.
\<close>

theorem kind_layers_agree:
  "sk_is_trivia (token_kind_to_syntax k) = is_trivia k \<and>
   sk_is_keyword (token_kind_to_syntax k) = is_keyword k \<and>
   syntax_discr (token_kind_to_syntax k) < syntax_discr SK_LAST \<and>
   syntax_discr (node_kind_to_syntax n) < syntax_discr SK_LAST"
  using token_kind_to_syntax_bound [of k] node_kind_to_syntax_bound [of n]
  by (simp add: keyword_layers_agree)

text \<open>
  Kinds as 16-bit numbers: every kind survives the way to its number and back, and
  the way back panics exactly on the numbers that are no kind.
\<close>

lemma syntax_kind_roundtrip:
  "(syntax_discr k < syntax_discr SK_LAST \<longrightarrow> syntax_kind_from_u16 (syntax_kind_to_u16 k) = Inr k) \<and>
   (syntax_kind_from_u16 v = Inl Panic) = (syntax_discr SK_LAST \<le> unat v)"
  by (simp add: syntax_kind_u16_roundtrip syntax_kind_from_u16_assert)

end
